(* ===== verification/Prelude.thy ===== *)
theory Prelude
  imports Main "HOL-Library.AList"
begin

text \<open>
  Shared vocabulary of the development: Go strings as byte lists with the functions of the
  package strings that the bridge calls, Go maps, gRPC status codes and Go errors as values.

  A Go string is a sequence of bytes, so \<open>string\<close> (a list of 8-bit \<open>char\<close>) is its type and
  \<open>length\<close> is Go's len. An index result of -1 is \<open>None\<close>. A Go map that is only looked up and
  updated is a map \<open>'k \<rightharpoonup> 'v\<close>; a Go map that the code also ranges over is an association
  list, and the order of the list is the order in which that range loop happened to visit it.
\<close>

named_theorems str_simps \<open>equations about the Go string functions\<close>
named_theorems status_simps \<open>equations about error values\<close>

section \<open>The functions of the package strings\<close>

definition HasPrefix :: "string \<Rightarrow> string \<Rightarrow> bool" where
  "HasPrefix s p = (take (length p) s = p)"

definition HasSuffix :: "string \<Rightarrow> string \<Rightarrow> bool" where
  "HasSuffix s p = (length p \<le> length s \<and> drop (length s - length p) s = p)"

definition TrimPrefix :: "string \<Rightarrow> string \<Rightarrow> string" where
  "TrimPrefix s p = (if HasPrefix s p then drop (length p) s else s)"

fun IndexAny :: "string \<Rightarrow> string \<Rightarrow> nat option" where
  "IndexAny [] cs = None"
| "IndexAny (c # s) cs = (if c \<in> set cs then Some 0 else map_option Suc (IndexAny s cs))"

definition IndexByte :: "string \<Rightarrow> char \<Rightarrow> nat option" where
  "IndexByte s c = IndexAny s [c]"

fun LastIndexByte :: "string \<Rightarrow> char \<Rightarrow> nat option" where
  "LastIndexByte [] c = None"
| "LastIndexByte (x # s) c =
     (case LastIndexByte s c of
        Some i \<Rightarrow> Some (Suc i)
      | None \<Rightarrow> if x = c then Some 0 else None)"

definition CutByte :: "string \<Rightarrow> char \<Rightarrow> string \<times> string \<times> bool" where
  "CutByte s c =
     (case IndexByte s c of
        None \<Rightarrow> (s, [], False)
      | Some i \<Rightarrow> (take i s, drop (Suc i) s, True))"

fun SplitByte :: "string \<Rightarrow> char \<Rightarrow> string list" where
  "SplitByte [] c = [[]]"
| "SplitByte (x # s) c =
     (if x = c then [] # SplitByte s c
      else case SplitByte s c of [] \<Rightarrow> [[x]] | w # ws \<Rightarrow> (x # w) # ws)"

fun Join :: "string list \<Rightarrow> string \<Rightarrow> string" where
  "Join [] sep = []"
| "Join [w] sep = w"
| "Join (w # v # ws) sep = w @ sep @ Join (v # ws) sep"

subsection \<open>Their laws\<close>

lemma HasPrefix_append [str_simps]: "HasPrefix (p @ s) p"
  by (simp add: HasPrefix_def)

lemma HasPrefix_iff: "HasPrefix s p \<longleftrightarrow> (\<exists>r. s = p @ r)"
  by (metis HasPrefix_def append_eq_conv_conj append_take_drop_id)

lemma HasPrefix_Cons1 [str_simps]: "HasPrefix s [c] \<longleftrightarrow> (\<exists>r. s = c # r)"
  by (simp add: HasPrefix_iff)

lemma HasSuffix_iff: "HasSuffix s p \<longleftrightarrow> (\<exists>r. s = r @ p)"
proof
  assume "HasSuffix s p"
  then have "s = take (length s - length p) s @ p"
    by (metis HasSuffix_def append_take_drop_id)
  then show "\<exists>r. s = r @ p" by blast
qed (auto simp: HasSuffix_def)

lemma TrimPrefix_append [str_simps]: "TrimPrefix (p @ s) p = s"
  by (simp add: TrimPrefix_def HasPrefix_append)

lemma IndexAny_None_iff [str_simps]: "IndexAny s cs = None \<longleftrightarrow> set s \<inter> set cs = {}"
  by (induction s) auto

lemma IndexAny_append_None: "set s \<inter> set cs = {} \<Longrightarrow>
    IndexAny (s @ t) cs = map_option ((+) (length s)) (IndexAny t cs)"
  by (induction s) (cases "IndexAny t cs", auto)+

lemma IndexAny_append_delim: "set s \<inter> set cs = {} \<Longrightarrow> c \<in> set cs \<Longrightarrow>
    IndexAny (s @ c # t) cs = Some (length s)"
  by (simp add: IndexAny_append_None)

lemma IndexAny_SomeD:
  "IndexAny s cs = Some i \<Longrightarrow>
     i < length s \<and> s ! i \<in> set cs \<and> set (take i s) \<inter> set cs = {}
     \<and> s = take i s @ s ! i # drop (Suc i) s"
proof (induction s arbitrary: i)
  case Nil
  then show ?case by simp
next
  case (Cons c s)
  show ?case
  proof (cases "c \<in> set cs")
    case True
    with Cons.prems show ?thesis by simp
  next
    case False
    with Cons.prems obtain j where "IndexAny s cs = Some j" and "i = Suc j" by auto
    with Cons.IH[of j] False show ?thesis by simp
  qed
qed

lemma IndexByte_append_delim: "c \<notin> set s \<Longrightarrow> IndexByte (s @ c # t) c = Some (length s)"
  by (simp add: IndexByte_def IndexAny_append_delim)

lemma IndexByte_None_iff [str_simps]: "IndexByte s c = None \<longleftrightarrow> c \<notin> set s"
  by (simp add: IndexByte_def IndexAny_None_iff)

lemma LastIndexByte_None_iff [str_simps]: "LastIndexByte s c = None \<longleftrightarrow> c \<notin> set s"
  by (induction s) (auto split: option.splits)

lemma LastIndexByte_append_delim: "c \<notin> set t \<Longrightarrow> LastIndexByte (s @ c # t) c = Some (length s)"
proof (induction s)
  case Nil
  then have "LastIndexByte t c = None" by (simp add: LastIndexByte_None_iff)
  then show ?case by simp
qed simp

lemma LastIndexByte_SomeD:
  "LastIndexByte s c = Some i \<Longrightarrow>
     i < length s \<and> c \<notin> set (drop (Suc i) s) \<and> s = take i s @ c # drop (Suc i) s"
proof (induction s arbitrary: i)
  case Nil
  then show ?case by simp
next
  case (Cons x s)
  show ?case
  proof (cases "LastIndexByte s c")
    case None
    with Cons.prems have "x = c" "i = 0" by (auto split: if_splits)
    with None show ?thesis by (simp add: LastIndexByte_None_iff)
  next
    case (Some j)
    with Cons.prems have "i = Suc j" by simp
    with Cons.IH[OF Some] show ?thesis by simp
  qed
qed

lemma CutByte_no_sep [str_simps]: "c \<notin> set s \<Longrightarrow> CutByte s c = (s, [], False)"
  by (simp add: CutByte_def IndexByte_None_iff[THEN iffD2])

lemma CutByte_sep [str_simps]: "c \<notin> set s \<Longrightarrow> CutByte (s @ c # t) c = (s, t, True)"
  by (simp add: CutByte_def IndexByte_append_delim)

lemma CutByte_cases:
  obtains (none) "c \<notin> set s" "CutByte s c = (s, [], False)"
  | (some) a b where "c \<notin> set a" "s = a @ c # b" "CutByte s c = (a, b, True)"
proof (cases "c \<in> set s")
  case True
  then obtain a b where "s = a @ c # b" "c \<notin> set a" by (meson split_list_first)
  then show thesis using some by (simp add: CutByte_sep)
next
  case False
  then show thesis using none by (simp add: CutByte_no_sep)
qed

lemma SplitByte_nonempty [simp]: "SplitByte s c \<noteq> []"
  by (induction s) (auto split: list.splits)

lemma SplitByte_no_sep [str_simps]: "c \<notin> set s \<Longrightarrow> SplitByte s c = [s]"
  by (induction s) auto

lemma SplitByte_sep [str_simps]: "c \<notin> set s \<Longrightarrow> SplitByte (s @ c # t) c = s # SplitByte t c"
  by (induction s) auto

lemma SplitByte_elems: "w \<in> set (SplitByte s c) \<Longrightarrow> c \<notin> set w"
  by (induction s arbitrary: w) (auto split: if_splits list.splits)

lemma Join_Cons: "ws \<noteq> [] \<Longrightarrow> Join (w # ws) sep = w @ sep @ Join ws sep"
  by (cases ws) auto

lemma Join_SplitByte: "Join (SplitByte s c) [c] = s"
proof (induction s)
  case (Cons x s)
  obtain w ws where ws: "SplitByte s c = w # ws" by (cases "SplitByte s c") auto
  with Cons.IH show ?case by (cases ws) (auto simp: Join_Cons)
qed simp

lemma SplitByte_Join: "ws \<noteq> [] \<Longrightarrow> \<forall>w \<in> set ws. c \<notin> set w \<Longrightarrow> SplitByte (Join ws [c]) c = ws"
proof (induction ws rule: list_nonempty_induct)
  case (single x)
  then show ?case by (simp add: SplitByte_no_sep)
next
  case (cons x xs)
  then show ?case by (simp add: Join_Cons SplitByte_sep)
qed

section \<open>gRPC status codes and Go errors\<close>

text \<open>The codes of google.golang.org/grpc/codes, by name.\<close>

datatype code =
    OK | Canceled | Unknown | InvalidArgument | DeadlineExceeded | NotFound | AlreadyExists
  | PermissionDenied | ResourceExhausted | FailedPrecondition | Aborted | OutOfRange
  | Unimplemented | Internal | Unavailable | DataLoss | Unauthenticated

text \<open>
  Go errors as values. \<open>ErrStatus\<close> is what status.Error and status.Errorf build, \<open>ErrHTTP\<close> is
  a *httperr.StatusError, \<open>ErrWrap\<close> is an error made by fmt.Errorf with a percent-w verb (its
  text is kept, without the formatted operand), \<open>ErrMsg\<close> any other error with a text.
\<close>

datatype go_error =
    ErrEOF
  | ErrUnexpectedEOF
  | ErrCtxCanceled
  | ErrCtxDeadline
  | ErrStatus code string
  | ErrHTTP int go_error
  | ErrWrap string go_error
  | ErrMsg string

text \<open>errors.Is(err, io.EOF): the error or an error it wraps is io.EOF.\<close>

fun is_EOF :: "go_error \<Rightarrow> bool" where
  "is_EOF ErrEOF = True"
| "is_EOF (ErrHTTP c e) = is_EOF e"
| "is_EOF (ErrWrap s e) = is_EOF e"
| "is_EOF _ = False"

declare is_EOF.simps [status_simps]

end
