(* ===== verification/Bridgelog.thy ===== *)
theory Bridgelog
  imports Prelude
begin

text \<open>
  The logger wrapper (bridgelog/logging.go). Extra arguments are kept in a Go slice, and With appends to it
  on a copy of the wrapper, so slices are modelled with the arrays that they share: a heap of backing arrays
  and slices as (array, length, capacity). By how much append grows an array is a parameter. What the wrapped
  logger implements by itself is a parameter too.
\<close>

section \<open>Slices\<close>

record slice =
  sl_base :: nat
  sl_len :: nat
  sl_cap :: nat

record 'a heap =
  h_next :: nat
  h_mem :: "nat \<Rightarrow> 'a list"

definition nil_slice :: slice where
  "nil_slice = \<lparr>sl_base = 0, sl_len = 0, sl_cap = 0\<rparr>"

definition sl_read :: "'a heap \<Rightarrow> slice \<Rightarrow> 'a list" where
  "sl_read h s = take (sl_len s) (h_mem h (sl_base s))"

text \<open>append: in place when the capacity suffices, else into a new array, whose spare elements are \<open>zero\<close>.\<close>

definition go_append :: "(nat \<Rightarrow> nat \<Rightarrow> nat) \<Rightarrow> 'a \<Rightarrow> 'a heap \<Rightarrow> slice \<Rightarrow> 'a list \<Rightarrow> 'a heap \<times> slice" where
  "go_append grow zero h s xs =
     (let n = sl_len s + length xs
      in if n \<le> sl_cap s then
           (h\<lparr>h_mem := (h_mem h)(sl_base s := take (sl_len s) (h_mem h (sl_base s)) @ xs @ drop n (h_mem h (sl_base s)))\<rparr>,
            s\<lparr>sl_len := n\<rparr>)
         else
           (let c = max n (grow (sl_cap s) n)
            in (h\<lparr>h_next := Suc (h_next h), h_mem := (h_mem h)(h_next h := sl_read h s @ xs @ replicate (c - n) zero)\<rparr>,
                \<lparr>sl_base = h_next h, sl_len = n, sl_cap = c\<rparr>)))"

text \<open>A slice of the heap: its array exists, is as long as the capacity, and holds the length.\<close>

definition slice_ok :: "'a heap \<Rightarrow> slice \<Rightarrow> bool" where
  "slice_ok h s \<longleftrightarrow> sl_len s \<le> sl_cap s \<and> (sl_cap s = 0 \<or> sl_base s < h_next h \<and> length (h_mem h (sl_base s)) = sl_cap s)"

section \<open>The wrapper\<close>

text \<open>The methods that the type assertions on the wrapped logger may find.\<close>

record 'u plain_ops =
  pl_WithComponent :: "'u \<Rightarrow> (string \<Rightarrow> 'u) option"
  pl_With :: "'u \<Rightarrow> (string list \<Rightarrow> 'u) option"

record 'u wrappedLogger =
  wl_underlying :: 'u
  wl_component :: string
  wl_args :: slice

definition WrapPlainLogger :: "'u \<Rightarrow> 'u wrappedLogger" where
  "WrapPlainLogger logger = \<lparr>wl_underlying = logger, wl_component = [], wl_args = nil_slice\<rparr>"

definition formatArgs :: "string heap \<Rightarrow> 'u wrappedLogger \<Rightarrow> string list \<Rightarrow> string list" where
  "formatArgs h wl args =
     (if wl_component wl = [] \<and> sl_len (wl_args wl) = 0 then args
      else args @ (if wl_component wl \<noteq> [] then [''component'', wl_component wl] else [])
           @ (if 0 < sl_len (wl_args wl) then sl_read h (wl_args wl) else []))"

definition WithComponent :: "'u plain_ops \<Rightarrow> 'u wrappedLogger \<Rightarrow> string \<Rightarrow> 'u wrappedLogger" where
  "WithComponent P wl component =
     (case pl_WithComponent P (wl_underlying wl) of
        Some f \<Rightarrow> wl\<lparr>wl_underlying := f component\<rparr>
      | None \<Rightarrow> wl\<lparr>wl_component := component\<rparr>)"

definition With_args ::
    "(nat \<Rightarrow> nat \<Rightarrow> nat) \<Rightarrow> 'u plain_ops \<Rightarrow> string heap \<Rightarrow> 'u wrappedLogger \<Rightarrow> string list \<Rightarrow> string heap \<times> 'u wrappedLogger" where
  "With_args grow P h wl args =
     (case pl_With P (wl_underlying wl) of
        Some f \<Rightarrow> (h, wl\<lparr>wl_underlying := f args\<rparr>)
      | None \<Rightarrow> (let (h', s) = go_append grow [] h (wl_args wl) args in (h', wl\<lparr>wl_args := s\<rparr>)))"

text \<open>Debug, Info, Warn and Error: the call made on the wrapped logger.\<close>

datatype level = Debug | Info | Warn | Error

definition log_call :: "string heap \<Rightarrow> 'u wrappedLogger \<Rightarrow> level \<Rightarrow> string \<Rightarrow> string list \<Rightarrow> level \<times> string \<times> string list" where
  "log_call h wl lvl format args = (lvl, format, formatArgs h wl args)"

section \<open>Properties\<close>

lemma append_read:
  assumes "slice_ok h s" and "go_append grow zero h s xs = (h', s')"
  shows "sl_read h' s' = sl_read h s @ xs" and "slice_ok h' s'"
proof -
  have m: "length (sl_read h s) = sl_len s" using assms(1) by (auto simp: slice_ok_def sl_read_def)
  show "sl_read h' s' = sl_read h s @ xs"
    using assms m by (auto simp: go_append_def Let_def sl_read_def slice_ok_def split: if_splits)
  show "slice_ok h' s'"
    using assms m by (auto simp: go_append_def Let_def sl_read_def slice_ok_def split: if_splits)
qed

lemma append_keeps:
  assumes "slice_ok h s" and "slice_ok h p" and "sl_base p = sl_base s \<longrightarrow> sl_len p \<le> sl_len s"
    and "go_append grow zero h s xs = (h', s')"
  shows "sl_read h' p = sl_read h p"
proof (cases "sl_cap p = 0")
  case True
  then show ?thesis using assms(2) by (simp add: slice_ok_def sl_read_def)
next
  case False
  then show ?thesis using assms
    by (auto simp: go_append_def Let_def sl_read_def slice_ok_def min_def split: if_splits)
qed

text \<open>A derived logger logs its parent's arguments and then its own, and the parent logs what it did before.\<close>

theorem With_args_formats:
  assumes "slice_ok h (wl_args wl)" and "pl_With P (wl_underlying wl) = None" and "With_args grow P h wl xs = (h', wl')"
  shows "formatArgs h' wl' args = formatArgs h wl args @ xs \<and> formatArgs h' wl args = formatArgs h wl args"
proof -
  obtain s where a: "go_append grow [] h (wl_args wl) xs = (h', s)" and w: "wl' = wl\<lparr>wl_args := s\<rparr>"
    using assms(2,3) by (auto simp: With_args_def split: prod.splits)
  have r: "sl_read h' s = sl_read h (wl_args wl) @ xs" using append_read(1)[OF assms(1) a] .
  have k: "sl_read h' (wl_args wl) = sl_read h (wl_args wl)" using append_keeps[OF assms(1,1) _ a] by simp
  have l: "sl_len s = sl_len (wl_args wl) + length xs" using a by (auto simp: go_append_def Let_def split: if_splits)
  have z: "sl_len (wl_args wl) = 0 \<Longrightarrow> sl_read h (wl_args wl) = []" by (simp add: sl_read_def)
  show ?thesis using r k l z w by (auto simp: formatArgs_def)
qed

text \<open>
  Two loggers derived from the same parent share its array when that has room: the second With overwrites
  the arguments of the first logger, which from then on logs those of the second.
\<close>

theorem With_args_aliases:
  assumes "slice_ok h (wl_args wl)" and "pl_With P (wl_underlying wl) = None" and "wl_component wl = []"
    and "sl_len (wl_args wl) + length xs \<le> sl_cap (wl_args wl)" and "length ys = length xs" and "xs \<noteq> []"
    and "With_args grow P h wl xs = (h1, first)" and "With_args grow P h1 wl ys = (h2, second)"
  shows "formatArgs h1 first [] = sl_read h (wl_args wl) @ xs \<and> formatArgs h2 first [] = sl_read h (wl_args wl) @ ys"
proof -
  obtain s where a: "go_append grow [] h (wl_args wl) xs = (h1, s)" and f: "first = wl\<lparr>wl_args := s\<rparr>"
    using assms(2,7) by (auto simp: With_args_def split: prod.splits)
  obtain s2 where b: "go_append grow [] h1 (wl_args wl) ys = (h2, s2)"
    using assms(2,8) by (auto simp: With_args_def split: prod.splits)
  have s: "s = (wl_args wl)\<lparr>sl_len := sl_len (wl_args wl) + length xs\<rparr>" "s2 = s"
    using a b assms(4,5) by (auto simp: go_append_def Let_def)
  have ok: "slice_ok h1 (wl_args wl)" using append_read(2)[OF assms(1) a] s by (simp add: slice_ok_def)
  have "sl_read h1 (wl_args wl) = sl_read h (wl_args wl)" using append_keeps[OF assms(1,1) _ a] by simp
  then have "sl_read h2 s = sl_read h (wl_args wl) @ ys" using append_read(1)[OF ok b] s(2) by simp
  moreover have "sl_read h1 s = sl_read h (wl_args wl) @ xs" using append_read(1)[OF assms(1) a] .
  ultimately show ?thesis using f s(1) assms(3,6) by (simp add: formatArgs_def)
qed

end
