(* ===== verification/Config.thy ===== *)
theory Config
  imports Prelude
begin

text \<open>
  The configuration of the grpcbridge command (internal/config): discovery of the file, the log level and
  Load. The environment, the file system and the HCL decoder are parameters; of the flag package, the values
  that it passes to the config flag, in order, or its own error.
\<close>

datatype discoveryOrigin = discoveryOriginNone | discoveryOriginEnv | discoveryOriginAuto

definition envPrefix :: string where
  "envPrefix = ''GRPCBRIDGE_''"

definition discoverPath :: "(string \<Rightarrow> string option) \<Rightarrow> (string \<Rightarrow> bool) \<Rightarrow> string \<times> discoveryOrigin \<times> bool" where
  "discoverPath env stat =
     (case env (envPrefix @ ''CONFIG'') of
        Some v \<Rightarrow> (v, discoveryOriginEnv, True)
      | None \<Rightarrow>
          (case find stat [''grpcbridge.hcl'', ''grpcbridge.json'', ''config.hcl'', ''config.json''] of
             Some f \<Rightarrow> (f, discoveryOriginAuto, True)
           | None \<Rightarrow> ([], discoveryOriginNone, False)))"

datatype Level = LevelDebug | LevelInfo | LevelWarn | LevelError

definition LogLevel :: "(string \<Rightarrow> string option) \<Rightarrow> Level" where
  "LogLevel env =
     (let v = (case env (envPrefix @ ''LOG_LEVEL'') of None \<Rightarrow> [] | Some v \<Rightarrow> v)
      in case map_of [(''debug'', LevelDebug), (''info'', LevelInfo), (''warn'', LevelWarn), (''error'', LevelError)] v of
           Some level \<Rightarrow> level
         | None \<Rightarrow> LevelInfo)"

record cfg_service =
  cfg_Name :: string
  cfg_Target :: string

type_synonym cfg_bridge = "cfg_service list"

definition ReadHCL :: "(string \<Rightarrow> go_error + cfg_bridge) \<Rightarrow> string \<Rightarrow> go_error + cfg_bridge" where
  "ReadHCL decode filename =
     (case decode filename of Inl err \<Rightarrow> Inl (ErrWrap ''decoding HCL config file'' err) | Inr cfg \<Rightarrow> Inr cfg)"

text \<open>The config flag's function, called for each value in turn: it fails for a file that is not there.\<close>

fun flag_values :: "(string \<Rightarrow> bool) \<Rightarrow> string \<Rightarrow> string list \<Rightarrow> go_error + string" where
  "flag_values stat configPath [] = Inr configPath"
| "flag_values stat configPath (s # ss) =
     (if stat s then flag_values stat s ss else Inl (ErrMsg ''config file does not exist or is inaccessible''))"

definition FlagError :: "go_error \<Rightarrow> go_error" where
  "FlagError err = ErrWrap ''FlagError'' (ErrWrap ''parsing flags'' err)"

definition Load ::
    "(string \<Rightarrow> string option) \<Rightarrow> (string \<Rightarrow> bool) \<Rightarrow> (string \<Rightarrow> go_error + cfg_bridge) \<Rightarrow> go_error + string list \<Rightarrow> go_error + cfg_bridge" where
  "Load env stat decode flags =
     (case (case flags of Inl err \<Rightarrow> Inl err | Inr vs \<Rightarrow> flag_values stat [] vs) of
        Inl err \<Rightarrow> Inl (FlagError err)
      | Inr configPath \<Rightarrow>
          (let configPath =
             (if configPath = [] then (let (discovered, origin, ok) = discoverPath env stat in if ok then discovered else [])
              else configPath)
           in if configPath = [] then Inr [] else ReadHCL decode configPath))"

text \<open>A path given by the flag goes before the environment, which goes before the files of the directory.\<close>

theorem Load_precedence:
  "stat f \<Longrightarrow> f \<noteq> [] \<Longrightarrow> Load env stat decode (Inr [f]) = ReadHCL decode f"
  "env ''GRPCBRIDGE_CONFIG'' = Some p \<Longrightarrow> p \<noteq> [] \<Longrightarrow> Load env stat decode (Inr []) = ReadHCL decode p"
  "env ''GRPCBRIDGE_CONFIG'' = None \<Longrightarrow> stat ''grpcbridge.hcl'' \<Longrightarrow> Load env stat decode (Inr []) = ReadHCL decode ''grpcbridge.hcl''"
  by (simp_all add: Load_def discoverPath_def envPrefix_def)

text \<open>An empty GRPCBRIDGE_CONFIG switches discovery off: the default configuration is used, whatever files exist.\<close>

theorem Load_empty_env: "env ''GRPCBRIDGE_CONFIG'' = Some [] \<Longrightarrow> Load env stat decode (Inr []) = Inr []"
  by (simp add: Load_def discoverPath_def envPrefix_def)

text \<open>Every error that stems from the flags is a FlagError, and no other error is.\<close>

theorem Load_flag_errors:
  assumes "Load env stat decode flags = Inl e"
  shows "(\<exists>err. e = FlagError err) \<longleftrightarrow>
    (case flags of Inl err \<Rightarrow> True | Inr vs \<Rightarrow> \<not> list_all stat vs)"
proof -
  have v: "(case flag_values stat cur vs of Inl err \<Rightarrow> \<not> list_all stat vs | Inr p \<Rightarrow> list_all stat vs)" for cur vs
  proof (induction vs arbitrary: cur)
    case (Cons s vs)
    show ?case using Cons.IH[of s] by (auto split: sum.splits)
  qed simp
  have h: "ErrWrap ''decoding HCL config file'' err \<noteq> FlagError err'" for err err' by (simp add: FlagError_def)
  show ?thesis
  proof (cases flags)
    case (Inl err)
    then show ?thesis using assms by (simp add: Load_def) blast
  next
    case (Inr vs)
    then show ?thesis using assms v[where cur = "[]" and vs = vs] h
      by (auto simp: Load_def ReadHCL_def Let_def split: sum.splits if_splits prod.splits)
  qed
qed

end
