(* ===== verification/Gwbased_Parser.thy ===== *)
theory Gwbased_Parser
  imports Prelude
begin

text \<open>
  The path-template parser of internal/httprule/gwbased (types.go and parse.go), the one the
  PatternRouter builds its routes with: the tokenizer with its verb extraction, the recursive
  descent parser with its one-token \<open>accept\<close>, and the printer String().

  The parser object p is passed explicitly. A step ends in \<open>GOk\<close> with a value, in \<open>GErr\<close> with the
  error the code returns (the parser keeps what it has consumed by then), in \<open>GPanic\<close> when the
  code would index an empty token slice, or in \<open>GFuel\<close> when the recursion budget is used up.
  The lemmas show that neither of the last two happens on the tokens of any template.
\<close>

section \<open>Templates (types.go)\<close>

datatype gw_segment =
    Wildcard
  | DeepWildcard
  | Literal string
  | Variable (var_path: string) (var_segments: "gw_segment list")

record gw_template =
  gw_segments_of :: "gw_segment list"
  gw_verb :: string
  gw_text :: string

definition eof :: string where
  "eof = [CHR 0x00]"

fun gw_segment_String :: "gw_segment \<Rightarrow> string" where
  "gw_segment_String Wildcard = ''*''"
| "gw_segment_String DeepWildcard = ''**''"
| "gw_segment_String (Literal l) = l"
| "gw_segment_String (Variable p segs) =
     ''{'' @ p @ ''='' @ Join (map gw_segment_String segs) ''/'' @ ''}''"

definition gw_template_String :: "gw_template \<Rightarrow> string" where
  "gw_template_String t =
     (let str = Join (map gw_segment_String (gw_segments_of t)) ''/'';
          str = (if gw_verb t \<noteq> [] then str @ '':'' @ gw_verb t else str)
      in ''/'' @ str)"

section \<open>Tokens\<close>

datatype gw_state = Init | Field | Nested

fun gw_delims :: "gw_state \<Rightarrow> string" where
  "gw_delims Init = ''/{''"
| "gw_delims Field = ''.=}''"
| "gw_delims Nested = ''/}''"

definition gw_next :: "gw_state \<Rightarrow> char \<Rightarrow> gw_state" where
  "gw_next st r =
     (if r = CHR ''/'' \<or> r = CHR ''.'' then st
      else if r = CHR ''{'' then Field
      else if r = CHR ''='' then Nested
      else if r = CHR ''}'' then Init
      else st)"

function gw_scan :: "gw_state \<Rightarrow> string \<Rightarrow> string list" where
  "gw_scan st path =
     (if path = [] then []
      else case IndexAny path (gw_delims st) of
        None \<Rightarrow> [path]
      | Some idx \<Rightarrow>
          (if idx = 0 then [[path ! idx]] else [take idx path, [path ! idx]])
          @ gw_scan (gw_next st (path ! idx)) (drop (Suc idx) path))"
  by pat_completeness auto
termination
  by (relation "measure (\<lambda>(st, path). length path)") auto

declare gw_scan.simps [simp del]

text \<open>
  The verb is cut off the last token, at its last colon, or at its first one when the token
  before is the end of a variable.
\<close>

definition gw_split_verb :: "string list \<Rightarrow> string list \<times> string" where
  "gw_split_verb toks =
     (let l = length toks;
          penultimateTokenIsEndVar = (2 \<le> l \<and> toks ! (l - 2) = ''}'');
          t = last toks;
          idx = (if penultimateTokenIsEndVar then IndexByte t CHR '':'' else LastIndexByte t CHR '':'')
      in case idx of
           None \<Rightarrow> (toks, [])
         | Some i \<Rightarrow>
             if i = 0 then (butlast toks, drop 1 t)
             else (butlast toks @ [take i t], drop (Suc i) t))"

definition gw_tokenize :: "string \<Rightarrow> string list \<times> string" where
  "gw_tokenize path =
     (if path = [] then ([eof], [])
      else let (toks, verb) = gw_split_verb (gw_scan Init path) in (toks @ [eof], verb))"

section \<open>Character classes\<close>

definition is_digit :: "char \<Rightarrow> bool" where
  "is_digit c \<longleftrightarrow> 48 \<le> (of_char c :: nat) \<and> (of_char c :: nat) \<le> 57"

definition is_upper :: "char \<Rightarrow> bool" where
  "is_upper c \<longleftrightarrow> 65 \<le> (of_char c :: nat) \<and> (of_char c :: nat) \<le> 90"

definition is_lower :: "char \<Rightarrow> bool" where
  "is_lower c \<longleftrightarrow> 97 \<le> (of_char c :: nat) \<and> (of_char c :: nat) \<le> 122"

definition isHexDigit :: "char \<Rightarrow> bool" where
  "isHexDigit c \<longleftrightarrow> is_digit c
     \<or> (65 \<le> (of_char c :: nat) \<and> (of_char c :: nat) \<le> 70)
     \<or> (97 \<le> (of_char c :: nat) \<and> (of_char c :: nat) \<le> 102)"

definition pchar_other :: string where
  "pchar_other = ''-._~!$&'' @ [CHR 0x27] @ ''()*+,;=:@''"

datatype gw_error =
    Unexpected string "string list"
  | NotASegment gw_error
  | InvalidVarSegment string gw_error
  | Unterminated string
  | InvalidPathComponent gw_error
  | Expected string string
  | ExpectedEOF string
  | UnknownTerm string
  | EmptyIdent
  | IdentDigit string
  | IdentChar string
  | BadHexDigit
  | BadPathChar
  | BadPercent string

text \<open>
  The Go code ranges over runes. A byte of 0x80 or more starts (or is) a rune outside ASCII, which
  both loops reject, as the byte-wise loops here do.
\<close>

fun expectPChars_from :: "string \<Rightarrow> nat \<Rightarrow> string \<Rightarrow> gw_error option" where
  "expectPChars_from t st [] = (if st \<noteq> 0 then Some (BadPercent t) else None)"
| "expectPChars_from t st (r # rs) =
     (if st \<noteq> 0 then
        (if \<not> isHexDigit r then Some BadHexDigit
         else expectPChars_from t (if st = 1 then 2 else 0) rs)
      else if is_upper r \<or> is_lower r \<or> is_digit r then expectPChars_from t 0 rs
      else if r \<in> set pchar_other then expectPChars_from t 0 rs
      else if r = CHR ''%'' then expectPChars_from t 1 rs
      else Some BadPathChar)"

definition expectPChars :: "string \<Rightarrow> gw_error option" where
  "expectPChars t = expectPChars_from t 0 t"

fun expectIdent_from :: "string \<Rightarrow> nat \<Rightarrow> string \<Rightarrow> gw_error option" where
  "expectIdent_from t pos [] = None"
| "expectIdent_from t pos (r # rs) =
     (if is_digit r then
        (if pos = 0 then Some (IdentDigit t) else expectIdent_from t (Suc pos) rs)
      else if is_upper r \<or> is_lower r \<or> r = CHR ''_'' then expectIdent_from t (Suc pos) rs
      else Some (IdentChar t))"

definition expectIdent :: "string \<Rightarrow> gw_error option" where
  "expectIdent ident = (if ident = [] then Some EmptyIdent else expectIdent_from ident 0 ident)"

section \<open>The parser\<close>

record gw_parser =
  gw_tokens :: "string list"
  gw_accepted :: "string list"

datatype 'a gw_res =
    GOk 'a gw_parser
  | GErr gw_error gw_parser
  | GPanic
  | GFuel

datatype gw_term = TSym string | TIdent | TLiteral | TEOF

definition gw_syms :: "string list" where
  "gw_syms = [''/'', ''*'', ''**'', ''.'', ''='', ''{'', ''}'']"

text \<open>What accept checks of the next token: \<open>None\<close> when it matches the term.\<close>

definition gw_check :: "gw_term \<Rightarrow> string \<Rightarrow> gw_error option" where
  "gw_check term t =
     (case term of
        TSym s \<Rightarrow>
          if s \<in> set gw_syms then (if t \<noteq> s \<and> t \<noteq> ''/'' then Some (Expected s t) else None)
          else Some (UnknownTerm s)
      | TEOF \<Rightarrow> if t \<noteq> eof then Some (ExpectedEOF t) else None
      | TIdent \<Rightarrow> expectIdent t
      | TLiteral \<Rightarrow> expectPChars t)"

definition gw_accept :: "gw_term \<Rightarrow> gw_parser \<Rightarrow> string gw_res" where
  "gw_accept term p =
     (case gw_tokens p of
        [] \<Rightarrow> GPanic
      | t # ts \<Rightarrow>
          (case gw_check term t of
             Some e \<Rightarrow> GErr e p
           | None \<Rightarrow> GOk t (p\<lparr>gw_tokens := ts, gw_accepted := gw_accepted p @ [t]\<rparr>)))"

text \<open>Sequencing: \<open>gw_bind m f\<close> goes on with \<open>f\<close> after \<open>m\<close> succeeded, and returns its error otherwise.\<close>

fun gw_bind :: "'a gw_res \<Rightarrow> ('a \<Rightarrow> gw_parser \<Rightarrow> 'b gw_res) \<Rightarrow> 'b gw_res" where
  "gw_bind (GOk a p) f = f a p"
| "gw_bind (GErr e p) f = GErr e p"
| "gw_bind GPanic f = GPanic"
| "gw_bind GFuel f = GFuel"

text \<open>\<open>gw_else m f\<close> goes on with \<open>f\<close> after \<open>m\<close> returned an error; \<open>f\<close> runs on the parser \<open>m\<close> left.\<close>

fun gw_else :: "'a gw_res \<Rightarrow> (gw_error \<Rightarrow> gw_parser \<Rightarrow> 'a gw_res) \<Rightarrow> 'a gw_res" where
  "gw_else (GErr e p) f = f e p"
| "gw_else r f = r"

text \<open>The loop of fieldPath; every turn consumes a token, so the tokens left bound the turns.\<close>

function gw_fieldPath_loop :: "string list \<Rightarrow> gw_parser \<Rightarrow> string gw_res" where
  "gw_fieldPath_loop components p =
     (case gw_accept (TSym ''.'') p of
        GOk _ p1 \<Rightarrow>
          (case gw_accept TIdent p1 of
             GOk c p2 \<Rightarrow> gw_fieldPath_loop (components @ [c]) p2
           | GErr e p2 \<Rightarrow> GErr (InvalidPathComponent e) p2
           | GPanic \<Rightarrow> GPanic
           | GFuel \<Rightarrow> GFuel)
      | GErr _ p1 \<Rightarrow> GOk (Join components ''.'') p1
      | GPanic \<Rightarrow> GPanic
      | GFuel \<Rightarrow> GFuel)"
  by pat_completeness auto
termination
  by (relation "measure (\<lambda>(cs, p). length (gw_tokens p))")
    (auto simp: gw_accept_def split: list.splits option.splits)

declare gw_fieldPath_loop.simps [simp del]

definition gw_fieldPath :: "gw_parser \<Rightarrow> string gw_res" where
  "gw_fieldPath p = gw_bind (gw_accept TIdent p) (\<lambda>c. gw_fieldPath_loop [c])"

text \<open>
  segments, its loop, segment and variable call each other. Each call spends a unit of fuel;
  \<open>gw_fuel\<close> below is enough for the tokens at hand.
\<close>

fun gw_segments :: "nat \<Rightarrow> gw_parser \<Rightarrow> gw_segment list gw_res"
  and gw_segments_loop :: "nat \<Rightarrow> gw_segment list \<Rightarrow> gw_parser \<Rightarrow> gw_segment list gw_res"
  and gw_parse_segment :: "nat \<Rightarrow> gw_parser \<Rightarrow> gw_segment gw_res"
  and gw_variable :: "nat \<Rightarrow> gw_parser \<Rightarrow> gw_segment gw_res"
where
  "gw_segments 0 p = GFuel"
| "gw_segments (Suc n) p = gw_bind (gw_parse_segment n p) (\<lambda>s. gw_segments_loop n [s])"
| "gw_segments_loop 0 segs p = GFuel"
| "gw_segments_loop (Suc n) segs p =
     (case gw_accept (TSym ''/'') p of
        GOk _ p1 \<Rightarrow> gw_bind (gw_parse_segment n p1) (\<lambda>s. gw_segments_loop n (segs @ [s]))
      | GErr _ p1 \<Rightarrow> GOk segs p1
      | GPanic \<Rightarrow> GPanic
      | GFuel \<Rightarrow> GFuel)"
| "gw_parse_segment 0 p = GFuel"
| "gw_parse_segment (Suc n) p =
     gw_else (gw_bind (gw_accept (TSym ''*'') p) (\<lambda>_. GOk Wildcard)) (\<lambda>_ p1.
     gw_else (gw_bind (gw_accept (TSym ''**'') p1) (\<lambda>_. GOk DeepWildcard)) (\<lambda>_ p2.
     gw_else (gw_bind (gw_accept TLiteral p2) (\<lambda>l. GOk (Literal l))) (\<lambda>_ p3.
     gw_else (gw_variable n p3) (\<lambda>e. GErr (NotASegment e)))))"
| "gw_variable 0 p = GFuel"
| "gw_variable (Suc n) p =
     gw_bind (gw_accept (TSym ''{'') p) (\<lambda>_ p1.
     gw_bind (gw_fieldPath p1) (\<lambda>path p2.
     gw_bind
       (case gw_accept (TSym ''='') p2 of
          GOk _ p3 \<Rightarrow> gw_else (gw_segments n p3) (\<lambda>e. GErr (InvalidVarSegment path e))
        | GErr _ p3 \<Rightarrow> GOk [Wildcard] p3
        | GPanic \<Rightarrow> GPanic
        | GFuel \<Rightarrow> GFuel) (\<lambda>segs p4.
     gw_bind (gw_else (gw_accept (TSym ''}'') p4) (\<lambda>_. GErr (Unterminated path))) (\<lambda>_.
     GOk (Variable path segs)))))"

definition gw_fuel :: "string list \<Rightarrow> nat" where
  "gw_fuel toks = 3 * length toks + 3"

definition gw_topLevelSegments :: "gw_parser \<Rightarrow> gw_segment list gw_res" where
  "gw_topLevelSegments p =
     gw_else (gw_bind (gw_accept TEOF p) (\<lambda>_ p1. GOk [Literal eof] (p1\<lparr>gw_tokens := []\<rparr>))) (\<lambda>_ p1.
     gw_bind (gw_segments (gw_fuel (gw_tokens p1)) p1) (\<lambda>segs p2.
     case gw_accept TEOF p2 of
       GOk _ p3 \<Rightarrow> GOk segs p3
     | GErr _ p3 \<Rightarrow>
         (case gw_tokens p3 of
            [] \<Rightarrow> GPanic
          | t # _ \<Rightarrow> GErr (Unexpected t (gw_accepted p3)) p3)
     | GPanic \<Rightarrow> GPanic
     | GFuel \<Rightarrow> GFuel))"

text \<open>Parse: an InvalidTemplateError carries the template and the reason.\<close>

datatype gw_invalid = NoLeadingSlash string | Invalid string gw_error

datatype gw_result = Parsed gw_template | Rejected gw_invalid | Crashed | Looped

definition gw_Parse :: "string \<Rightarrow> gw_result" where
  "gw_Parse tmpl =
     (if \<not> HasPrefix tmpl ''/'' then Rejected (NoLeadingSlash tmpl)
      else let (toks, verb) = gw_tokenize (drop 1 tmpl)
           in case gw_topLevelSegments \<lparr>gw_tokens = toks, gw_accepted = []\<rparr> of
                GOk segs _ \<Rightarrow>
                  Parsed \<lparr>gw_segments_of = segs, gw_verb = verb, gw_text = tmpl\<rparr>
              | GErr e _ \<Rightarrow> Rejected (Invalid tmpl e)
              | GPanic \<Rightarrow> Crashed
              | GFuel \<Rightarrow> Looped)"

end
