(* ===== verification/Gwbased_Safety.thy ===== *)
theory Gwbased_Safety
  imports Gwbased_Parser
begin

text \<open>
  The tokenizer loses nothing, and the parser is total: on the tokens of any template it neither
  reads past the end of its token slice nor recurses without bound.
\<close>

section \<open>The tokenizer\<close>

lemma gw_scan_Nil [simp]: "gw_scan st [] = []"
  by (simp add: gw_scan.simps)

lemma gw_scan_concat: "concat (gw_scan st path) = path"
proof (induction st path rule: gw_scan.induct)
  case (1 st path)
  show ?case
  proof (cases "path = [] \<or> IndexAny path (gw_delims st) = None")
    case True
    then show ?thesis by (subst gw_scan.simps) auto
  next
    case False
    then obtain i where i: "IndexAny path (gw_delims st) = Some i" by auto
    note split = IndexAny_SomeD[OF i]
    from 1 False i have "concat (gw_scan (gw_next st (path ! i)) (drop (Suc i) path)) = drop (Suc i) path"
      by simp
    with False i split show ?thesis by (subst gw_scan.simps) (auto simp: take_Suc)
  qed
qed

lemma gw_scan_nonempty: "t \<in> set (gw_scan st path) \<Longrightarrow> t \<noteq> []"
proof (induction st path rule: gw_scan.induct)
  case (1 st path)
  then show ?case
    by (subst (asm) (2) gw_scan.simps)
      (auto split: if_splits option.splits dest: IndexAny_SomeD)
qed

lemma gw_scan_eq_Nil_iff [simp]: "gw_scan st path = [] \<longleftrightarrow> path = []"
  by (metis concat.simps(1) gw_scan_Nil gw_scan_concat)

lemma gw_split_verb_concat:
  assumes "toks \<noteq> []" and "gw_split_verb toks = (toks', verb)"
  shows "concat toks = concat toks' \<and> verb = [] \<or> concat toks = concat toks' @ '':'' @ verb"
proof -
  define idx where "idx = (if 2 \<le> length toks \<and> toks ! (length toks - 2) = ''}''
    then IndexByte (last toks) CHR '':'' else LastIndexByte (last toks) CHR '':'')"
  have cat: "concat toks = concat (butlast toks) @ last toks"
    by (metis append_butlast_last_id assms(1) concat_append concat.simps(1,2) append_Nil2)
  show ?thesis
  proof (cases idx)
    case None
    with assms(2) show ?thesis by (auto simp: gw_split_verb_def idx_def Let_def)
  next
    case (Some i)
    have "last toks = take i (last toks) @ CHR '':'' # drop (Suc i) (last toks)"
      using Some IndexAny_SomeD[of "last toks" "[CHR '':'']" i] LastIndexByte_SomeD[of "last toks" _ i]
      by (auto simp: idx_def IndexByte_def split: if_splits)
    with Some assms(2) cat show ?thesis
      by (auto simp: gw_split_verb_def idx_def Let_def split: if_splits)
  qed
qed

lemma gw_tokenize_last: "gw_tokenize path = (toks, verb) \<Longrightarrow> toks \<noteq> [] \<and> last toks = eof"
  by (auto simp: gw_tokenize_def split: if_splits prod.splits)

text \<open>
  The tokenizer loses no byte of the template: the tokens before the end marker, put together,
  are the template without its verb suffix, and the template is those tokens alone or those tokens
  followed by a colon and the verb.
\<close>
theorem gw_tokenize_lossless:
  "gw_tokenize path = (toks, verb) \<Longrightarrow>
     last toks = eof
     \<and> (path = concat (butlast toks) \<and> verb = [] \<or> path = concat (butlast toks) @ '':'' @ verb)"
  using gw_split_verb_concat[of "gw_scan Init path"]
  by (auto simp: gw_tokenize_def gw_scan_concat split: if_splits prod.splits)

theorem gw_tokenize_lossless_witness:
  "last (fst (gw_tokenize ''a/{b}:v'')) = eof
   \<and> (''a/{b}:v'' = concat (butlast (fst (gw_tokenize ''a/{b}:v'')))
        \<and> snd (gw_tokenize ''a/{b}:v'') = []
      \<or> ''a/{b}:v'' = concat (butlast (fst (gw_tokenize ''a/{b}:v''))) @ '':''
          @ snd (gw_tokenize ''a/{b}:v''))"
  by (rule gw_tokenize_lossless) simp

section \<open>The parser never panics and never runs out of recursion budget\<close>

definition gw_ok :: "gw_parser \<Rightarrow> bool" where
  "gw_ok p \<longleftrightarrow> gw_tokens p \<noteq> [] \<and> last (gw_tokens p) = eof"

abbreviation gw_left :: "gw_parser \<Rightarrow> nat" where
  "gw_left p \<equiv> length (gw_tokens p)"

text \<open>
  \<open>gw_safe d p r\<close>: the step from \<open>p\<close> ended in a value or an error, with the end marker still there,
  and on success at least \<open>d\<close> tokens were consumed.
\<close>
definition gw_safe :: "nat \<Rightarrow> gw_parser \<Rightarrow> 'a gw_res \<Rightarrow> bool" where
  "gw_safe d p r \<longleftrightarrow>
     (case r of
        GOk _ p' \<Rightarrow> gw_ok p' \<and> gw_left p' + d \<le> gw_left p
      | GErr _ p' \<Rightarrow> gw_ok p' \<and> gw_left p' \<le> gw_left p
      | GPanic \<Rightarrow> False
      | GFuel \<Rightarrow> False)"

lemma gw_safe_simps [simp]:
  "gw_safe d p (GOk a p') \<longleftrightarrow> gw_ok p' \<and> gw_left p' + d \<le> gw_left p"
  "gw_safe d p (GErr e p') \<longleftrightarrow> gw_ok p' \<and> gw_left p' \<le> gw_left p"
  "\<not> gw_safe d p GPanic"
  "\<not> gw_safe d p GFuel"
  by (auto simp: gw_safe_def)

lemma gw_safe_bind:
  assumes "gw_safe d1 p m"
    and "\<And>a p1. gw_ok p1 \<Longrightarrow> gw_left p1 + d1 \<le> gw_left p \<Longrightarrow> gw_safe d2 p1 (f a p1)"
    and "d \<le> d1 + d2"
  shows "gw_safe d p (gw_bind m f)"
proof (cases m)
  case (GOk a p1)
  with assms(1) have "gw_ok p1" and le: "gw_left p1 + d1 \<le> gw_left p" by auto
  then have "gw_safe d2 p1 (f a p1)" by (rule assms(2))
  with GOk le assms(3) show ?thesis by (cases "f a p1") auto
qed (use assms in auto)

lemma gw_safe_else:
  assumes "gw_safe d p m"
    and "\<And>e p1. gw_ok p1 \<Longrightarrow> gw_left p1 \<le> gw_left p \<Longrightarrow> gw_safe d p1 (f e p1)"
  shows "gw_safe d p (gw_else m f)"
proof (cases m)
  case (GErr e p1)
  with assms(1) have "gw_ok p1" and le: "gw_left p1 \<le> gw_left p" by auto
  then have "gw_safe d p1 (f e p1)" by (rule assms(2))
  with GErr le show ?thesis by (cases "f e p1") auto
qed (use assms in auto)

lemma gw_check_eof: "term \<noteq> TEOF \<Longrightarrow> gw_check term eof \<noteq> None"
  by (cases "term")
    (auto simp: gw_check_def eof_def gw_syms_def expectIdent_def expectPChars_def is_digit_def
      is_upper_def is_lower_def pchar_other_def)

lemma gw_accept_safe:
  assumes "gw_ok p" and "term \<noteq> TEOF"
  shows "gw_safe 1 p (gw_accept term p)"
proof -
  from assms(1) obtain t ts where ts: "gw_tokens p = t # ts" by (cases "gw_tokens p") (auto simp: gw_ok_def)
  show ?thesis
  proof (cases "gw_check term t")
    case None
    with gw_check_eof[OF assms(2)] have "t \<noteq> eof" by auto
    with assms(1) ts have "ts \<noteq> []" by (auto simp: gw_ok_def)
    with None ts assms(1) show ?thesis by (auto simp: gw_accept_def gw_ok_def)
  next
    case (Some e)
    with ts assms(1) show ?thesis by (auto simp: gw_accept_def)
  qed
qed

lemmas gw_accept_safes = gw_accept_safe gw_accept_safe[unfolded One_nat_def]

lemma gw_fieldPath_loop_safe: "gw_ok p \<Longrightarrow> gw_safe 0 p (gw_fieldPath_loop cs p)"
proof (induction cs p rule: gw_fieldPath_loop.induct)
  case (1 cs p)
  have dot: "gw_safe 1 p (gw_accept (TSym ''.'') p)"
    by (rule gw_accept_safe) (use 1 in auto)
  show ?case
  proof (cases "gw_accept (TSym ''.'') p")
    case (GOk d p1)
    with dot have p1: "gw_ok p1" "gw_left p1 + 1 \<le> gw_left p" by auto
    then have ident: "gw_safe 1 p1 (gw_accept TIdent p1)" by (intro gw_accept_safe) auto
    show ?thesis
    proof (cases "gw_accept TIdent p1")
      case ok: (GOk c p2)
      with ident have "gw_ok p2" "gw_left p2 + 1 \<le> gw_left p1" by auto
      moreover from this have "gw_safe 0 p2 (gw_fieldPath_loop (cs @ [c]) p2)"
        using "1.IH"[OF GOk ok] by simp
      ultimately show ?thesis using GOk ok p1
        by (subst gw_fieldPath_loop.simps) (cases "gw_fieldPath_loop (cs @ [c]) p2"; simp)
    qed (use GOk p1 ident in \<open>auto simp: gw_fieldPath_loop.simps\<close>)
  qed (use dot in \<open>auto simp: gw_fieldPath_loop.simps\<close>)
qed

lemma gw_fieldPath_safe: "gw_ok p \<Longrightarrow> gw_safe 1 p (gw_fieldPath p)"
  unfolding gw_fieldPath_def
  by (rule gw_safe_bind[where ?d1.0 = 1 and ?d2.0 = 0]) (auto intro: gw_accept_safes gw_fieldPath_loop_safe)

lemma gw_safe_GOk_same: "gw_ok p \<Longrightarrow> gw_safe 0 p (GOk a p)"
  by simp

lemma gw_alt_safe: "gw_ok p \<Longrightarrow> term \<noteq> TEOF \<Longrightarrow> gw_safe 1 p (gw_bind (gw_accept term p) (\<lambda>a. GOk (f a)))"
  by (rule gw_safe_bind[where ?d1.0 = 1 and ?d2.0 = 0]) (auto intro: gw_accept_safes)

lemma gw_variable_tail_safe:
  assumes "gw_ok p4"
  shows "gw_safe 1 p4 (gw_bind (gw_else (gw_accept (TSym ''}'') p4) (\<lambda>_. GErr (Unterminated path)))
           (\<lambda>_. GOk (Variable path segs)))"
  by (rule gw_safe_bind[where ?d1.0 = 1 and ?d2.0 = 0])
    (use assms in \<open>auto intro!: gw_safe_else gw_accept_safes\<close>)

lemma gw_parsers_safe:
  "gw_ok p \<Longrightarrow> 3 * gw_left p + 3 \<le> n \<Longrightarrow> gw_safe 1 p (gw_segments n p)"
  "gw_ok p \<Longrightarrow> 3 * gw_left p + 1 \<le> n \<Longrightarrow> gw_safe 0 p (gw_segments_loop n segs p)"
  "gw_ok p \<Longrightarrow> 3 * gw_left p + 2 \<le> n \<Longrightarrow> gw_safe 1 p (gw_parse_segment n p)"
  "gw_ok p \<Longrightarrow> 3 * gw_left p + 1 \<le> n \<Longrightarrow> gw_safe 1 p (gw_variable n p)"
proof (induction n p and n segs p and n p and n p
    rule: gw_segments_gw_segments_loop_gw_parse_segment_gw_variable.induct)
  case (2 n p)
  show ?case unfolding gw_segments.simps
    by (rule gw_safe_bind[where ?d1.0 = 1 and ?d2.0 = 0]) (use 2 in auto)
next
  case (4 n segs p)
  have slash: "gw_safe 1 p (gw_accept (TSym ''/'') p)"
    by (rule gw_accept_safe) (use 4 in auto)
  show ?case
  proof (cases "gw_accept (TSym ''/'') p")
    case (GOk s p1)
    with slash have p1: "gw_ok p1" "gw_left p1 + 1 \<le> gw_left p" by auto
    have "gw_safe 0 p1 (gw_bind (gw_parse_segment n p1) (\<lambda>s. gw_segments_loop n (segs @ [s])))"
      by (rule gw_safe_bind[where ?d1.0 = 1 and ?d2.0 = 0]) (use 4 GOk p1 in auto)
    with GOk p1 show ?thesis
      by (cases "gw_bind (gw_parse_segment n p1) (\<lambda>s. gw_segments_loop n (segs @ [s]))") auto
  qed (use slash in auto)
next
  case (6 n p)
  show ?case unfolding gw_parse_segment.simps
    by (intro gw_safe_else gw_alt_safe) (use 6 in auto)
next
  case (8 n p)
  have eq: "gw_safe 0 p2 (case gw_accept (TSym ''='') p2 of
        GOk _ p3 \<Rightarrow> gw_else (gw_segments n p3) (\<lambda>e. GErr (InvalidVarSegment path e))
      | GErr _ p3 \<Rightarrow> GOk [Wildcard] p3 | GPanic \<Rightarrow> GPanic | GFuel \<Rightarrow> GFuel)"
    if p2: "gw_ok p2" "gw_left p2 + 2 \<le> gw_left p" for path p2
  proof -
    have acc: "gw_safe 1 p2 (gw_accept (TSym ''='') p2)"
      by (rule gw_accept_safe) (use p2 in auto)
    show ?thesis
    proof (cases "gw_accept (TSym ''='') p2")
      case (GOk s p3)
      with acc have p3: "gw_ok p3" "gw_left p3 + 1 \<le> gw_left p2" by auto
      then have "gw_safe 1 p3 (gw_segments n p3)" using 8 p2 GOk by auto
      then have "gw_safe 1 p3 (gw_else (gw_segments n p3) (\<lambda>e. GErr (InvalidVarSegment path e)))"
        by (rule gw_safe_else) auto
      with GOk p3 show ?thesis
        by (cases "gw_else (gw_segments n p3) (\<lambda>e. GErr (InvalidVarSegment path e))") auto
    qed (use acc in auto)
  qed
  show ?case unfolding gw_variable.simps
  proof (rule gw_safe_bind[where ?d1.0 = 1 and ?d2.0 = 2])
    fix a p1 assume p1: "gw_ok p1" "gw_left p1 + 1 \<le> gw_left p"
    show "gw_safe 2 p1 (gw_bind (gw_fieldPath p1) (\<lambda>path p2.
       gw_bind
         (case gw_accept (TSym ''='') p2 of
            GOk _ p3 \<Rightarrow> gw_else (gw_segments n p3) (\<lambda>e. GErr (InvalidVarSegment path e))
          | GErr _ p3 \<Rightarrow> GOk [Wildcard] p3 | GPanic \<Rightarrow> GPanic | GFuel \<Rightarrow> GFuel) (\<lambda>segs p4.
       gw_bind (gw_else (gw_accept (TSym ''}'') p4) (\<lambda>_. GErr (Unterminated path))) (\<lambda>_.
       GOk (Variable path segs)))))"
      by (rule gw_safe_bind[where ?d1.0 = 1 and ?d2.0 = 1, OF gw_fieldPath_safe[OF p1(1)]],
          rule gw_safe_bind[where ?d1.0 = 0 and ?d2.0 = 1, OF eq gw_variable_tail_safe])
        (use p1 in auto)
  qed (use 8 in \<open>auto intro: gw_accept_safes\<close>)
qed auto

text \<open>
  C25. Parse is total: whatever the template string, it returns a template or an InvalidTemplateError.
  It never indexes an empty token slice, not even for its error message, and the recursion budget of
  the model is always enough.
\<close>
theorem gw_Parse_total: "gw_Parse tmpl \<noteq> Crashed \<and> gw_Parse tmpl \<noteq> Looped"
proof -
  obtain toks verb where tv: "gw_tokenize (drop 1 tmpl) = (toks, verb)" by fastforce
  let ?p = "\<lparr>gw_tokens = toks, gw_accepted = []\<rparr>"
  from gw_tokenize_last[OF tv] have ok: "gw_ok ?p" by (simp add: gw_ok_def)
  have "gw_topLevelSegments ?p \<noteq> GPanic \<and> gw_topLevelSegments ?p \<noteq> GFuel"
  proof (cases "gw_accept TEOF ?p")
    case (GErr e p1)
    with ok have p1: "p1 = ?p" by (auto simp: gw_accept_def split: list.splits option.splits)
    have "gw_safe 1 ?p (gw_segments (gw_fuel toks) ?p)"
      using gw_parsers_safe(1)[OF ok, of "gw_fuel toks"] by (simp add: gw_fuel_def)
    with GErr p1 show ?thesis
      by (cases "gw_segments (gw_fuel toks) ?p")
        (auto simp: gw_topLevelSegments_def gw_accept_def gw_ok_def split: list.splits option.splits)
  qed (use ok in \<open>auto simp: gw_topLevelSegments_def gw_accept_def gw_ok_def split: list.splits option.splits\<close>)
  then show ?thesis
    by (cases "gw_topLevelSegments ?p") (auto simp: gw_Parse_def tv[unfolded One_nat_def])
qed

end
