(* ===== verification/Gwbased_Roundtrip.thy ===== *)
theory Gwbased_Roundtrip
  imports Gwbased_Safety
begin

text \<open>
  Printing a well-formed template and parsing the text gives the template back: String() and Parse
  of internal/httprule/gwbased are inverse on the templates the grammar of google/api/http.proto
  describes. The proof goes over the token list the printer's text has.
\<close>

section \<open>Well-formed templates\<close>

definition wf_literal :: "string \<Rightarrow> bool" where
  "wf_literal l \<longleftrightarrow> l \<noteq> [] \<and> l \<noteq> ''*'' \<and> l \<noteq> ''**'' \<and> expectPChars l = None"

definition wf_path :: "string \<Rightarrow> bool" where
  "wf_path p \<longleftrightarrow> (\<forall>w \<in> set (SplitByte p CHR ''.''). expectIdent w = None)"

fun is_Variable :: "gw_segment \<Rightarrow> bool" where
  "is_Variable (Variable p ss) = True"
| "is_Variable _ = False"

fun wf_segment :: "gw_segment \<Rightarrow> bool" where
  "wf_segment Wildcard = True"
| "wf_segment DeepWildcard = True"
| "wf_segment (Literal l) = wf_literal l"
| "wf_segment (Variable p ss) =
     (wf_path p \<and> ss \<noteq> [] \<and> (\<forall>s \<in> set ss. wf_segment s \<and> \<not> is_Variable s))"

fun verb_free :: "gw_segment \<Rightarrow> bool" where
  "verb_free (Literal l) = (CHR '':'' \<notin> set l)"
| "verb_free _ = True"

definition wf_template :: "gw_template \<Rightarrow> bool" where
  "wf_template t \<longleftrightarrow>
     gw_segments_of t \<noteq> []
     \<and> (\<forall>s \<in> set (gw_segments_of t). wf_segment s)
     \<and> set (gw_verb t) \<inter> {CHR ''/'', CHR ''{''} = {}
     \<and> (gw_verb t = [] \<longrightarrow> verb_free (last (gw_segments_of t)))
     \<and> (\<not> is_Variable (last (gw_segments_of t)) \<longrightarrow> CHR '':'' \<notin> set (gw_verb t))"

section \<open>Characters of literals and identifiers\<close>

definition pchar :: "char \<Rightarrow> bool" where
  "pchar c \<longleftrightarrow> is_upper c \<or> is_lower c \<or> is_digit c \<or> c \<in> set pchar_other \<or> c = CHR ''%''"

lemma hex_pchar: "isHexDigit c \<Longrightarrow> pchar c"
  by (auto simp: isHexDigit_def pchar_def is_upper_def is_lower_def)

lemma expectPChars_from_None: "expectPChars_from t st s = None \<Longrightarrow> c \<in> set s \<Longrightarrow> pchar c"
  by (induction t st s rule: expectPChars_from.induct)
    (auto simp: pchar_def dest: hex_pchar split: if_splits)

lemma expectIdent_from_None:
  "expectIdent_from t n s = None \<Longrightarrow> c \<in> set s \<Longrightarrow> is_digit c \<or> is_upper c \<or> is_lower c \<or> c = CHR ''_''"
  by (induction t n s rule: expectIdent_from.induct) (auto split: if_splits)

lemma pchar_no_delim: "\<not> pchar CHR ''/''" "\<not> pchar CHR ''{''" "\<not> pchar CHR ''}''" "\<not> pchar CHR 0x00"
  by (auto simp: pchar_def is_upper_def is_lower_def is_digit_def pchar_other_def)

lemma wf_literal_chars:
  assumes "wf_literal l"
  shows "CHR ''/'' \<notin> set l" "CHR ''{'' \<notin> set l" "CHR ''}'' \<notin> set l" "l \<noteq> []" "l \<noteq> eof" "l \<noteq> ''/''"
proof -
  have p: "pchar c" if "c \<in> set l" for c
    using assms that expectPChars_from_None by (auto simp: wf_literal_def expectPChars_def)
  show "CHR ''/'' \<notin> set l" "CHR ''{'' \<notin> set l" "CHR ''}'' \<notin> set l" "l \<noteq> eof" "l \<noteq> ''/''"
    using p pchar_no_delim by (auto simp: eof_def)
  show "l \<noteq> []" using assms by (simp add: wf_literal_def)
qed

lemma ident_chars:
  assumes "expectIdent w = None"
  shows "CHR ''.'' \<notin> set w" "CHR ''='' \<notin> set w" "CHR ''}'' \<notin> set w" "w \<noteq> []"
proof -
  have "expectIdent_from w 0 w = None" "w \<noteq> []"
    using assms by (auto simp: expectIdent_def split: if_splits)
  then have p: "is_digit c \<or> is_upper c \<or> is_lower c \<or> c = CHR ''_''" if "c \<in> set w" for c
    using that expectIdent_from_None by blast
  show "CHR ''.'' \<notin> set w" "CHR ''='' \<notin> set w" "CHR ''}'' \<notin> set w"
    using p[of "CHR ''.''"] p[of "CHR ''=''"] p[of "CHR ''}''"]
    by (auto simp: is_digit_def is_upper_def is_lower_def)
  show "w \<noteq> []" by fact
qed

section \<open>The tokens of a printed template\<close>

fun sep_toks :: "string \<Rightarrow> string list list \<Rightarrow> string list" where
  "sep_toks d [] = []"
| "sep_toks d [w] = w"
| "sep_toks d (w # v # ws) = w @ [d] @ sep_toks d (v # ws)"

fun seg_toks :: "gw_segment \<Rightarrow> string list" where
  "seg_toks Wildcard = [''*'']"
| "seg_toks DeepWildcard = [''**'']"
| "seg_toks (Literal l) = [l]"
| "seg_toks (Variable p ss) =
     [''{''] @ sep_toks ''.'' (map (\<lambda>w. [w]) (SplitByte p CHR ''.'')) @ [''='']
       @ sep_toks ''/'' (map seg_toks ss) @ [''}'']"

lemma sep_toks_Cons: "ws \<noteq> [] \<Longrightarrow> sep_toks d (w # ws) = w @ [d] @ sep_toks d ws"
  by (cases ws) auto

lemma gw_scan_delim:
  assumes "set s \<inter> set (gw_delims st) = {}" and "d \<in> set (gw_delims st)"
  shows "gw_scan st (s @ d # rest) = (if s = [] then [[d]] else [s, [d]]) @ gw_scan (gw_next st d) rest"
  by (subst gw_scan.simps) (simp add: IndexAny_append_delim[OF assms])

lemma gw_scan_end: "set s \<inter> set (gw_delims st) = {} \<Longrightarrow> s \<noteq> [] \<Longrightarrow> gw_scan st s = [s]"
  by (subst gw_scan.simps) (simp add: IndexAny_None_iff[THEN iffD2])

lemma gw_scan_path:
  assumes "ps \<noteq> []" and "\<forall>w \<in> set ps. expectIdent w = None"
  shows "gw_scan Field (Join ps ''.'' @ CHR ''='' # rest)
       = sep_toks ''.'' (map (\<lambda>w. [w]) ps) @ [''=''] @ gw_scan Nested rest"
  using assms
proof (induction ps rule: list_nonempty_induct)
  case (single w)
  then have "set w \<inter> set (gw_delims Field) = {}" "w \<noteq> []" using ident_chars[of w] by auto
  then show ?case by (simp add: gw_scan_delim gw_next_def)
next
  case (cons w ws)
  then have "set w \<inter> set (gw_delims Field) = {}" "w \<noteq> []" using ident_chars[of w] by auto
  with cons show ?case by (simp add: Join_Cons sep_toks_Cons gw_scan_delim gw_next_def)
qed

lemma simple_seg:
  assumes "wf_segment s" and "\<not> is_Variable s"
  shows "gw_segment_String s \<noteq> []" "seg_toks s = [gw_segment_String s]"
    "set (gw_segment_String s) \<inter> {CHR ''/'', CHR ''{'', CHR ''}''} = {}"
  using assms by (cases s; auto dest: wf_literal_chars)+

lemma gw_scan_nested:
  assumes "ss \<noteq> []" and "\<forall>s \<in> set ss. wf_segment s \<and> \<not> is_Variable s"
  shows "gw_scan Nested (Join (map gw_segment_String ss) ''/'' @ CHR ''}'' # rest)
       = sep_toks ''/'' (map seg_toks ss) @ [''}''] @ gw_scan Init rest"
  using assms
proof (induction ss rule: list_nonempty_induct)
  case (single s)
  then show ?case using simple_seg[of s] by (auto simp: gw_scan_delim gw_next_def)
next
  case (cons s ss)
  then have "set (gw_segment_String s) \<inter> set (gw_delims Nested) = {}" using simple_seg[of s] by auto
  with cons show ?case
    using simple_seg[of s] by (simp add: Join_Cons sep_toks_Cons gw_scan_delim gw_next_def)
qed

lemma gw_scan_variable:
  assumes "wf_segment (Variable p ss)"
  shows "gw_scan Init (gw_segment_String (Variable p ss) @ rest) = seg_toks (Variable p ss) @ gw_scan Init rest"
proof -
  have p: "p = Join (SplitByte p CHR ''.'') ''.''" by (simp add: Join_SplitByte)
  have "gw_scan Field (p @ CHR ''='' # r)
      = sep_toks ''.'' (map (\<lambda>w. [w]) (SplitByte p CHR ''.'')) @ [''=''] @ gw_scan Nested r" for r
    by (subst p, rule gw_scan_path) (use assms in \<open>auto simp: wf_path_def\<close>)
  with assms show ?thesis
    using gw_scan_delim[of "[]" Init "CHR ''{''"] by (simp add: gw_next_def gw_scan_nested)
qed

lemma gw_scan_seg_slash:
  assumes "wf_segment s"
  shows "gw_scan Init (gw_segment_String s @ CHR ''/'' # rest) = seg_toks s @ [''/''] @ gw_scan Init rest"
proof (cases "is_Variable s")
  case True
  then obtain p ss where "s = Variable p ss" by (cases s) auto
  with assms show ?thesis
    using gw_scan_variable[of p ss "CHR ''/'' # rest"] gw_scan_delim[of "[]" Init "CHR ''/''" rest]
    by (simp add: gw_next_def)
next
  case False
  from simple_seg[OF assms False] show ?thesis by (auto simp: gw_scan_delim gw_next_def)
qed

text \<open>The last segment and what follows it, up to the end of the template.\<close>

definition last_toks :: "gw_segment \<Rightarrow> string \<Rightarrow> string list" where
  "last_toks s suffix =
     (if is_Variable s then seg_toks s @ (if suffix = [] then [] else [suffix])
      else [gw_segment_String s @ suffix])"

lemma gw_scan_last:
  assumes "wf_segment s" and "set suffix \<inter> {CHR ''/'', CHR ''{''} = {}"
  shows "gw_scan Init (gw_segment_String s @ suffix) = last_toks s suffix"
proof (cases "is_Variable s")
  case True
  then obtain p ss where s: "s = Variable p ss" by (cases s) auto
  have "gw_scan Init suffix = (if suffix = [] then [] else [suffix])"
    using assms(2) by (auto intro: gw_scan_end)
  with s assms(1) gw_scan_variable[of p ss suffix] show ?thesis by (simp add: last_toks_def)
next
  case False
  from simple_seg[OF assms(1) False] assms(2) show ?thesis
    using False by (auto simp: last_toks_def intro: gw_scan_end)
qed

text \<open>Every segment but the last one is followed by a slash.\<close>

definition head_toks :: "gw_segment list \<Rightarrow> string list" where
  "head_toks ss = concat (map (\<lambda>s. seg_toks s @ [''/'']) ss)"

lemma gw_scan_segments:
  assumes "\<forall>s \<in> set ss. wf_segment s" and "wf_segment s"
    and "set suffix \<inter> {CHR ''/'', CHR ''{''} = {}"
  shows "gw_scan Init (Join (map gw_segment_String (ss @ [s])) ''/'' @ suffix) = head_toks ss @ last_toks s suffix"
  using assms(1)
proof (induction ss)
  case Nil
  from gw_scan_last[OF assms(2,3)] show ?case by (simp add: head_toks_def)
next
  case (Cons t ss)
  then show ?case by (simp add: Join_Cons gw_scan_seg_slash head_toks_def)
qed

lemma sep_toks_head: "sep_toks ''/'' (map seg_toks (ss @ [s])) = head_toks ss @ seg_toks s"
proof (induction ss)
  case (Cons t ss)
  then show ?case by (cases ss) (auto simp: head_toks_def)
qed (simp add: head_toks_def)

section \<open>Cutting the verb off\<close>

definition verb_suffix :: "string \<Rightarrow> string" where
  "verb_suffix v = (if v = [] then [] else CHR '':'' # v)"

lemma nth_penultimate: "(xs @ [a, b]) ! (length (xs @ [a, b]) - 2) = a"
  by (simp add: nth_append)

lemma gw_split_verb_Variable:
  assumes "is_Variable s"
  shows "gw_split_verb (hd_t @ last_toks s (verb_suffix v)) = (hd_t @ seg_toks s, v)"
proof -
  from assms obtain p ss where s: "s = Variable p ss" by (cases s) auto
  then obtain ts where ts: "seg_toks s = ts @ [''}'']" by simp
  show ?thesis
  proof (cases "v = []")
    case True
    then show ?thesis
      using assms ts by (auto simp: gw_split_verb_def last_toks_def verb_suffix_def Let_def IndexByte_def)
  next
    case False
    have eq: "hd_t @ last_toks s (verb_suffix v) = (hd_t @ ts) @ [''}'', CHR '':'' # v]"
      using assms ts False by (simp add: last_toks_def verb_suffix_def)
    show ?thesis
      unfolding eq gw_split_verb_def Let_def nth_penultimate
      by (simp add: IndexByte_def ts butlast_append)
  qed
qed

lemma head_toks_last: "ss \<noteq> [] \<Longrightarrow> \<exists>ts. head_toks ss = ts @ [''/'']"
  by (induction ss rule: rev_induct) (auto simp: head_toks_def)

lemma not_end_var:
  "\<not> (2 \<le> length (head_toks ss @ [t]) \<and> (head_toks ss @ [t]) ! (length (head_toks ss @ [t]) - 2) = ''}'')"
proof (cases "ss = []")
  case False
  then obtain ts where "head_toks ss = ts @ [''/'']" using head_toks_last by blast
  then show ?thesis using nth_penultimate[of ts "''/''" t] by simp
qed (simp add: head_toks_def)

lemma gw_split_verb_simple:
  assumes "wf_segment s" and "\<not> is_Variable s" and "CHR '':'' \<notin> set v"
    and "v = [] \<longrightarrow> verb_free s"
  shows "gw_split_verb (head_toks ss @ last_toks s (verb_suffix v)) = (head_toks ss @ seg_toks s, v)"
proof -
  let ?t = "gw_segment_String s @ verb_suffix v"
  have toks: "head_toks ss @ last_toks s (verb_suffix v) = head_toks ss @ [?t]"
    using assms(2) by (simp add: last_toks_def)
  have idx: "LastIndexByte ?t CHR '':'' = (if v = [] then None else Some (length (gw_segment_String s)))"
  proof (cases "v = []")
    case True
    then have "CHR '':'' \<notin> set (gw_segment_String s)" using assms(2,4) by (cases s) auto
    with True show ?thesis by (simp add: verb_suffix_def LastIndexByte_None_iff[THEN iffD2])
  next
    case False
    with assms(3) show ?thesis by (simp add: verb_suffix_def LastIndexByte_append_delim)
  qed
  have "gw_split_verb (head_toks ss @ [?t])
      = (case LastIndexByte ?t CHR '':'' of None \<Rightarrow> (head_toks ss @ [?t], [])
         | Some i \<Rightarrow> if i = 0 then (head_toks ss, drop 1 ?t) else (head_toks ss @ [take i ?t], drop (Suc i) ?t))"
    unfolding gw_split_verb_def Let_def if_not_P[OF not_end_var] last_snoc butlast_snoc by (rule refl)
  with idx simple_seg(1,2)[OF assms(1,2)] toks show ?thesis by (simp add: verb_suffix_def)
qed

section \<open>Parsing the tokens\<close>

abbreviation pst :: "string list \<Rightarrow> string list \<Rightarrow> gw_parser" where
  "pst toks acc \<equiv> \<lparr>gw_tokens = toks, gw_accepted = acc\<rparr>"

lemma accept_ok: "gw_check term t = None \<Longrightarrow> gw_accept term (pst (t # ts) acc) = GOk t (pst ts (acc @ [t]))"
  by (simp add: gw_accept_def)

lemma accept_err: "gw_check term t = Some e \<Longrightarrow> gw_accept term (pst (t # ts) acc) = GErr e (pst (t # ts) acc)"
  by (simp add: gw_accept_def)

lemma check_sym [simp]: "s \<in> set gw_syms \<Longrightarrow> gw_check (TSym s) t = (if t \<noteq> s \<and> t \<noteq> ''/'' then Some (Expected s t) else None)"
  by (simp add: gw_check_def)

lemma syms [simp]: "''/'' \<in> set gw_syms" "''*'' \<in> set gw_syms" "''**'' \<in> set gw_syms" "''.'' \<in> set gw_syms"
  "''='' \<in> set gw_syms" "''{'' \<in> set gw_syms" "''}'' \<in> set gw_syms"
  by (simp_all add: gw_syms_def)

lemma fieldPath_loop_toks:
  assumes "\<forall>w \<in> set ws. expectIdent w = None" and "r \<noteq> ''.''" and "r \<noteq> ''/''"
  shows "gw_fieldPath_loop cs (pst (concat (map (\<lambda>w. [''.'', w]) ws) @ r # rest) acc)
       = GOk (Join (cs @ ws) ''.'') (pst (r # rest) (acc @ concat (map (\<lambda>w. [''.'', w]) ws)))"
  using assms(1)
proof (induction ws arbitrary: cs acc)
  case Nil
  with assms(2,3) show ?case by (subst gw_fieldPath_loop.simps) (simp add: accept_err)
next
  case (Cons w ws)
  then have "gw_check TIdent w = None" by (simp add: gw_check_def)
  with Cons show ?case by (subst gw_fieldPath_loop.simps) (simp add: accept_ok)
qed

lemma sep_toks_single: "sep_toks d (map (\<lambda>w. [w]) (w # ws)) = w # concat (map (\<lambda>w. [d, w]) ws)"
  by (induction ws arbitrary: w) auto

lemma fieldPath_toks:
  assumes "wf_path p" and "r \<noteq> ''.''" and "r \<noteq> ''/''"
  shows "gw_fieldPath (pst (sep_toks ''.'' (map (\<lambda>w. [w]) (SplitByte p CHR ''.'')) @ r # rest) acc)
       = GOk p (pst (r # rest) (acc @ sep_toks ''.'' (map (\<lambda>w. [w]) (SplitByte p CHR ''.''))))"
proof -
  obtain w ws where ws: "SplitByte p CHR ''.'' = w # ws" by (cases "SplitByte p CHR ''.''") auto
  with assms(1) have w: "gw_check TIdent w = None" and "\<forall>w \<in> set ws. expectIdent w = None"
    by (auto simp: wf_path_def gw_check_def)
  moreover have "Join (w # ws) ''.'' = p" using Join_SplitByte[of p "CHR ''.''"] ws by simp
  ultimately show ?thesis
    unfolding gw_fieldPath_def ws sep_toks_single
    by (simp add: accept_ok fieldPath_loop_toks[OF _ assms(2,3), of ws "[w]"])
qed

text \<open>A segment is parsed from its tokens, whatever follows.\<close>

definition parses :: "gw_segment \<Rightarrow> bool" where
  "parses s \<longleftrightarrow> (\<forall>n rest acc. 3 * length (seg_toks s) + 2 \<le> n \<longrightarrow>
     gw_parse_segment n (pst (seg_toks s @ rest) acc) = GOk s (pst rest (acc @ seg_toks s)))"

abbreviation tail_toks :: "gw_segment list \<Rightarrow> string list" where
  "tail_toks ss \<equiv> concat (map (\<lambda>s. ''/'' # seg_toks s) ss)"

lemma segments_loop_toks:
  assumes "\<forall>s \<in> set ss. parses s" and "r \<noteq> ''/''" and "3 * length (tail_toks ss) + 1 \<le> n"
  shows "gw_segments_loop n pre (pst (tail_toks ss @ r # rest) acc)
       = GOk (pre @ ss) (pst (r # rest) (acc @ tail_toks ss))"
  using assms(1,3)
proof (induction ss arbitrary: n pre acc)
  case Nil
  then obtain m where "n = Suc m" by (cases n) auto
  with assms(2) show ?case by (simp add: accept_err)
next
  case (Cons s ss)
  then obtain m where n: "n = Suc m" by (cases n) auto
  with Cons.prems have "parses s" "3 * length (seg_toks s) + 2 \<le> m" by auto
  then have "gw_parse_segment m (pst (seg_toks s @ tail_toks ss @ r # rest) (acc @ [''/'']))
      = GOk s (pst (tail_toks ss @ r # rest) ((acc @ [''/'']) @ seg_toks s))"
    unfolding parses_def by blast
  moreover have "gw_segments_loop m (pre @ [s]) (pst (tail_toks ss @ r # rest) ((acc @ [''/'']) @ seg_toks s))
      = GOk ((pre @ [s]) @ ss) (pst (r # rest) (((acc @ [''/'']) @ seg_toks s) @ tail_toks ss))"
    by (rule Cons.IH) (use Cons.prems n in auto)
  ultimately show ?case using n by (simp add: accept_ok)
qed

lemma sep_toks_tail: "sep_toks ''/'' (map seg_toks (s # ss)) = seg_toks s @ tail_toks ss"
  by (induction ss arbitrary: s) auto

lemma segments_toks:
  assumes "ss \<noteq> []" and "\<forall>s \<in> set ss. parses s" and "r \<noteq> ''/''"
    and "3 * length (sep_toks ''/'' (map seg_toks ss)) + 3 \<le> n"
  shows "gw_segments n (pst (sep_toks ''/'' (map seg_toks ss) @ r # rest) acc)
       = GOk ss (pst (r # rest) (acc @ sep_toks ''/'' (map seg_toks ss)))"
proof -
  obtain s ss' where ss: "ss = s # ss'" using assms(1) by (cases ss) auto
  obtain m where n: "n = Suc m" using assms(4) by (cases n) auto
  have len: "3 * length (seg_toks s) + 2 \<le> m" "3 * length (tail_toks ss') + 1 \<le> m"
    using assms(4) n unfolding ss sep_toks_tail by auto
  have "gw_parse_segment m (pst (seg_toks s @ tail_toks ss' @ r # rest) acc)
      = GOk s (pst (tail_toks ss' @ r # rest) (acc @ seg_toks s))"
    using assms(2) len(1) ss unfolding parses_def by simp
  with segments_loop_toks[of ss' r m "[s]" rest "acc @ seg_toks s"] assms(2,3) len(2) ss n
  show ?thesis unfolding ss sep_toks_tail by simp
qed

lemma check_brace: "gw_check TLiteral ''{'' \<noteq> None"
  by (simp add: gw_check_def expectPChars_def is_upper_def is_lower_def is_digit_def pchar_other_def)

lemma wf_segment_parses: "wf_segment s \<Longrightarrow> parses s"
proof (induction s)
  case Wildcard
  show ?case unfolding parses_def
  proof (intro allI impI)
    fix n rest acc assume "3 * length (seg_toks Wildcard) + 2 \<le> n"
    then obtain m where "n = Suc m" by (cases n) auto
    then show "gw_parse_segment n (pst (seg_toks Wildcard @ rest) acc)
        = GOk Wildcard (pst rest (acc @ seg_toks Wildcard))" by (simp add: accept_ok)
  qed
next
  case DeepWildcard
  show ?case unfolding parses_def
  proof (intro allI impI)
    fix n rest acc assume "3 * length (seg_toks DeepWildcard) + 2 \<le> n"
    then obtain m where "n = Suc m" by (cases n) auto
    then show "gw_parse_segment n (pst (seg_toks DeepWildcard @ rest) acc)
        = GOk DeepWildcard (pst rest (acc @ seg_toks DeepWildcard))" by (simp add: accept_ok accept_err)
  qed
next
  case (Literal l)
  then have l: "l \<noteq> ''*''" "l \<noteq> ''**''" "l \<noteq> ''/''" "gw_check TLiteral l = None"
    using wf_literal_chars[of l] by (auto simp: wf_literal_def gw_check_def)
  show ?case unfolding parses_def
  proof (intro allI impI)
    fix n rest acc assume "3 * length (seg_toks (Literal l)) + 2 \<le> n"
    then obtain m where "n = Suc m" by (cases n) auto
    with l show "gw_parse_segment n (pst (seg_toks (Literal l) @ rest) acc)
        = GOk (Literal l) (pst rest (acc @ seg_toks (Literal l)))" by (simp add: accept_ok accept_err)
  qed
next
  case (Variable p ss)
  obtain e where brace: "gw_check TLiteral ''{'' = Some e" using check_brace by auto
  show ?case unfolding parses_def
  proof (intro allI impI)
    fix n rest acc assume n: "3 * length (seg_toks (Variable p ss)) + 2 \<le> n"
    then obtain k where k: "n = Suc (Suc k)" by (cases n; cases "n - 1") auto
    let ?path = "sep_toks ''.'' (map (\<lambda>w. [w]) (SplitByte p CHR ''.''))"
    let ?segs = "sep_toks ''/'' (map seg_toks ss)"
    have fp: "gw_fieldPath (pst (?path @ ''='' # ?segs @ ''}'' # rest) (acc @ [''{'']))
        = GOk p (pst (''='' # ?segs @ ''}'' # rest) ((acc @ [''{'']) @ ?path))"
      by (rule fieldPath_toks) (use Variable.prems in auto)
    have "gw_segments k (pst (?segs @ ''}'' # rest) ((acc @ [''{'']) @ ?path @ [''='']))
        = GOk ss (pst (''}'' # rest) (((acc @ [''{'']) @ ?path @ [''='']) @ ?segs))"
      by (rule segments_toks) (use Variable n k in auto)
    with fp brace k show "gw_parse_segment n (pst (seg_toks (Variable p ss) @ rest) acc)
        = GOk (Variable p ss) (pst rest (acc @ seg_toks (Variable p ss)))"
      by (simp add: accept_ok accept_err)
  qed
qed

section \<open>The round trip\<close>

lemma sep_toks_not_eof:
  assumes "ss \<noteq> []" and "\<forall>s \<in> set ss. wf_segment s"
  shows "\<exists>t ts. sep_toks ''/'' (map seg_toks ss) = t # ts \<and> t \<noteq> eof"
proof -
  obtain s ss' where ss: "ss = s # ss'" using assms(1) by (cases ss) auto
  with assms(2) wf_literal_chars(5) have "\<exists>t ts. seg_toks s = t # ts \<and> t \<noteq> eof"
    by (cases s) (auto simp: eof_def)
  then show ?thesis unfolding ss sep_toks_tail by auto
qed

lemma topLevel_toks:
  assumes "ss \<noteq> []" and "\<forall>s \<in> set ss. wf_segment s"
  shows "\<exists>p. gw_topLevelSegments (pst (sep_toks ''/'' (map seg_toks ss) @ [eof]) []) = GOk ss p"
proof -
  let ?toks = "sep_toks ''/'' (map seg_toks ss)"
  obtain t ts where t: "?toks = t # ts" "t \<noteq> eof" using sep_toks_not_eof[OF assms] by blast
  have segs: "gw_segments (gw_fuel (?toks @ [eof])) (pst (?toks @ [eof]) []) = GOk ss (pst [eof] ([] @ ?toks))"
    by (rule segments_toks) (use assms wf_segment_parses in \<open>auto simp: gw_fuel_def eof_def\<close>)
  have "gw_accept TEOF (pst (?toks @ [eof]) []) = GErr (ExpectedEOF t) (pst (?toks @ [eof]) [])"
    using t by (simp add: accept_err gw_check_def)
  moreover have "gw_accept TEOF (pst [eof] ?toks) = GOk eof (pst [] (?toks @ [eof]))"
    by (simp add: accept_ok gw_check_def)
  ultimately show ?thesis using segs by (simp add: gw_topLevelSegments_def)
qed

lemma gw_tokenize_String:
  assumes "wf_template t"
  shows "gw_tokenize (drop 1 (gw_template_String t))
       = (sep_toks ''/'' (map seg_toks (gw_segments_of t)) @ [eof], gw_verb t)"
proof -
  obtain ss s where ss: "gw_segments_of t = ss @ [s]"
    using assms by (metis wf_template_def append_butlast_last_id)
  let ?v = "gw_verb t"
  have wf: "\<forall>s \<in> set ss. wf_segment s" "wf_segment s" "set (verb_suffix ?v) \<inter> {CHR ''/'', CHR ''{''} = {}"
    using assms ss by (auto simp: wf_template_def verb_suffix_def)
  have body: "drop 1 (gw_template_String t) = Join (map gw_segment_String (ss @ [s])) ''/'' @ verb_suffix ?v"
    by (simp add: gw_template_String_def ss verb_suffix_def)
  have scan: "gw_scan Init (drop 1 (gw_template_String t)) = head_toks ss @ last_toks s (verb_suffix ?v)"
    unfolding body by (rule gw_scan_segments[OF wf])
  have "last_toks s (verb_suffix ?v) \<noteq> []"
    using simple_seg(1)[OF wf(2)] by (cases s) (auto simp: last_toks_def)
  then have ne: "drop 1 (gw_template_String t) \<noteq> []"
    using scan by (metis append_is_Nil_conv gw_scan_Nil)
  have "gw_split_verb (head_toks ss @ last_toks s (verb_suffix ?v)) = (head_toks ss @ seg_toks s, ?v)"
    using gw_split_verb_Variable[of s "head_toks ss" ?v] gw_split_verb_simple[of s ?v ss] assms ss wf(2)
    by (cases "is_Variable s") (auto simp: wf_template_def)
  with ne scan show ?thesis unfolding gw_tokenize_def ss sep_toks_head by simp
qed

text \<open>
  C4. Round trip: parsing the printed form of a well-formed template gives the same segments and the
  same verb, with the printed form as the template's text.
\<close>
theorem gw_Parse_String:
  assumes "wf_template t"
  shows "gw_Parse (gw_template_String t) = Parsed (t\<lparr>gw_text := gw_template_String t\<rparr>)"
proof -
  have "HasPrefix (gw_template_String t) ''/''"
    by (auto simp: gw_template_String_def Let_def str_simps)
  moreover obtain p where
    "gw_topLevelSegments (pst (sep_toks ''/'' (map seg_toks (gw_segments_of t)) @ [eof]) [])
       = GOk (gw_segments_of t) p"
    using topLevel_toks[of "gw_segments_of t"] assms by (auto simp: wf_template_def)
  ultimately show ?thesis
    using gw_tokenize_String[OF assms] by (simp add: gw_Parse_def)
qed

theorem gw_Parse_String_witness:
  "gw_Parse (gw_template_String \<lparr>gw_segments_of =
       [Literal ''v1'', Variable ''a.b'' [Literal ''x'', DeepWildcard]], gw_verb = ''get:it'', gw_text = []\<rparr>)
   = Parsed \<lparr>gw_segments_of = [Literal ''v1'', Variable ''a.b'' [Literal ''x'', DeepWildcard]],
       gw_verb = ''get:it'', gw_text = ''/v1/{a.b=x/**}:get:it''\<rparr>"
proof -
  let ?t = "\<lparr>gw_segments_of = [Literal ''v1'', Variable ''a.b'' [Literal ''x'', DeepWildcard]],
       gw_verb = ''get:it'', gw_text = []\<rparr>"
  have "wf_template ?t"
    by (simp add: wf_template_def wf_literal_def wf_path_def expectPChars_def expectIdent_def
        is_lower_def is_upper_def is_digit_def)
  from gw_Parse_String[OF this] show ?thesis by (simp add: gw_template_String_def)
qed

end
