(* ===== verification/Gwbased_Compile.thy ===== *)
theory Gwbased_Compile
  imports Gwbased_Roundtrip
begin

text \<open>
  Compilation of a parsed template to the op codes of a runtime.Pattern (internal/httprule/gwbased,
  compile.go). The numbers of the op codes belong to github.com/grpc-ecosystem/grpc-gateway and are
  a parameter \<open>opnum\<close> of the compiler.
\<close>

datatype opcode = OpPush | OpPushM | OpLitPush | OpConcatN | OpCapture

record gw_op =
  op_code :: opcode
  op_str :: string
  op_num :: nat

fun gw_compile_segment :: "gw_segment \<Rightarrow> gw_op list" where
  "gw_compile_segment Wildcard = [\<lparr>op_code = OpPush, op_str = [], op_num = 0\<rparr>]"
| "gw_compile_segment DeepWildcard = [\<lparr>op_code = OpPushM, op_str = [], op_num = 0\<rparr>]"
| "gw_compile_segment (Literal l) = [\<lparr>op_code = OpLitPush, op_str = l, op_num = 0\<rparr>]"
| "gw_compile_segment (Variable p ss) =
     concat (map gw_compile_segment ss)
     @ [\<lparr>op_code = OpConcatN, op_str = [], op_num = length ss\<rparr>,
        \<lparr>op_code = OpCapture, op_str = p, op_num = 0\<rparr>]"

definition gw_rawOps :: "gw_template \<Rightarrow> gw_op list" where
  "gw_rawOps t = concat (map gw_compile_segment (gw_segments_of t))"

record gw_compiled =
  Version :: int
  OpCodes :: "int list"
  Pool :: "string list"
  Verb :: string
  Fields :: "string list"
  Template :: string

text \<open>The loop of Compile, over its four local variables; \<open>consts\<close> maps a string to its pool index.\<close>

record gw_compile_state =
  cs_ops :: "int list"
  cs_pool :: "string list"
  cs_fields :: "string list"
  cs_consts :: "string \<Rightarrow> nat option"

definition pool_str :: "string \<Rightarrow> string" where
  "pool_str s = (if s = eof then [] else s)"

definition gw_compile_op :: "(opcode \<Rightarrow> int) \<Rightarrow> gw_op \<Rightarrow> gw_compile_state \<Rightarrow> gw_compile_state" where
  "gw_compile_op opnum oper st =
     (let st = st\<lparr>cs_ops := cs_ops st @ [opnum (op_code oper)]\<rparr>;
          (str, st) =
            (if op_str oper = [] then (op_str oper, st\<lparr>cs_ops := cs_ops st @ [int (op_num oper)]\<rparr>)
             else
               let str = pool_str (op_str oper);
                   st = (case cs_consts st str of
                           None \<Rightarrow> st\<lparr>cs_consts := (cs_consts st)(str \<mapsto> length (cs_pool st)),
                                     cs_pool := cs_pool st @ [str]\<rparr>
                         | Some _ \<Rightarrow> st)
               in (str, st\<lparr>cs_ops := cs_ops st @ [int (case cs_consts st str of Some k \<Rightarrow> k | None \<Rightarrow> 0)]\<rparr>))
      in if op_code oper = OpCapture then st\<lparr>cs_fields := cs_fields st @ [str]\<rparr> else st)"

definition gw_Compile :: "(opcode \<Rightarrow> int) \<Rightarrow> gw_template \<Rightarrow> gw_compiled" where
  "gw_Compile opnum t =
     (let st = fold (gw_compile_op opnum) (gw_rawOps t)
                 \<lparr>cs_ops = [], cs_pool = [], cs_fields = [], cs_consts = Map.empty\<rparr>
      in \<lparr>Version = 1, OpCodes = cs_ops st, Pool = cs_pool st, Verb = gw_verb t,
          Fields = cs_fields st, Template = gw_text t\<rparr>)"

section \<open>The compiled program holds the ops\<close>

text \<open>Reading one op back: its code and its operand, a number or an entry of the pool.\<close>

definition op_encoded :: "(opcode \<Rightarrow> int) \<Rightarrow> string list \<Rightarrow> gw_op \<Rightarrow> int \<Rightarrow> int \<Rightarrow> bool" where
  "op_encoded opnum pool oper c x \<longleftrightarrow>
     c = opnum (op_code oper)
     \<and> (if op_str oper = [] then x = int (op_num oper)
        else 0 \<le> x \<and> nat x < length pool \<and> pool ! nat x = pool_str (op_str oper))"

fun ops_encoded :: "(opcode \<Rightarrow> int) \<Rightarrow> string list \<Rightarrow> gw_op list \<Rightarrow> int list \<Rightarrow> bool" where
  "ops_encoded opnum pool [] xs = (xs = [])"
| "ops_encoded opnum pool (oper # opers) (c # x # xs) =
     (op_encoded opnum pool oper c x \<and> ops_encoded opnum pool opers xs)"
| "ops_encoded opnum pool (oper # opers) _ = False"

lemma op_encoded_mono: "op_encoded opnum pool oper c x \<Longrightarrow> op_encoded opnum (pool @ rest) oper c x"
  by (auto simp: op_encoded_def nth_append)

lemma ops_encoded_mono: "ops_encoded opnum pool opers xs \<Longrightarrow> ops_encoded opnum (pool @ rest) opers xs"
  by (induction opnum pool opers xs rule: ops_encoded.induct) (auto intro: op_encoded_mono)

lemma ops_encoded_snoc:
  "ops_encoded opnum pool opers xs \<Longrightarrow> op_encoded opnum pool oper c x \<Longrightarrow>
     ops_encoded opnum pool (opers @ [oper]) (xs @ [c, x])"
  by (induction opnum pool opers xs rule: ops_encoded.induct) auto

definition captures :: "gw_op list \<Rightarrow> string list" where
  "captures opers = map (\<lambda>oper. pool_str (op_str oper)) (filter (\<lambda>oper. op_code oper = OpCapture) opers)"

definition compile_inv :: "(opcode \<Rightarrow> int) \<Rightarrow> gw_op list \<Rightarrow> gw_compile_state \<Rightarrow> bool" where
  "compile_inv opnum opers st \<longleftrightarrow>
     distinct (cs_pool st)
     \<and> (\<forall>s k. cs_consts st s = Some k \<longleftrightarrow> k < length (cs_pool st) \<and> cs_pool st ! k = s)
     \<and> ops_encoded opnum (cs_pool st) opers (cs_ops st)
     \<and> cs_fields st = captures opers"

lemma consts_None_iff:
  assumes "compile_inv opnum opers st"
  shows "cs_consts st s = None \<longleftrightarrow> s \<notin> set (cs_pool st)"
proof -
  have "\<forall>k. cs_consts st s = Some k \<longleftrightarrow> k < length (cs_pool st) \<and> cs_pool st ! k = s"
    using assms by (simp add: compile_inv_def)
  then show ?thesis by (cases "cs_consts st s") (auto simp: in_set_conv_nth)
qed

lemma consts_extend:
  assumes inv: "compile_inv opnum opers st" and new: "cs_consts st str = None"
  shows "((cs_consts st)(str \<mapsto> length (cs_pool st))) s = Some k
    \<longleftrightarrow> k < length (cs_pool st @ [str]) \<and> (cs_pool st @ [str]) ! k = s"
proof -
  have old: "cs_consts st s = Some k \<longleftrightarrow> k < length (cs_pool st) \<and> cs_pool st ! k = s"
    using inv by (auto simp: compile_inv_def)
  have "str \<notin> set (cs_pool st)" using consts_None_iff[OF inv] new by blast
  then show ?thesis using old by (auto simp: nth_append less_Suc_eq)
qed

definition op_fields :: "gw_op \<Rightarrow> string list" where
  "op_fields oper = (if op_code oper = OpCapture then [pool_str (op_str oper)] else [])"

lemma captures_snoc: "captures (opers @ [oper]) = captures opers @ op_fields oper"
  by (simp add: captures_def op_fields_def)

lemma pool_str_Nil [simp]: "pool_str [] = []"
  by (simp add: pool_str_def)

lemma gw_compile_op_num:
  "op_str oper = [] \<Longrightarrow> gw_compile_op opnum oper st =
     st\<lparr>cs_ops := cs_ops st @ [opnum (op_code oper), int (op_num oper)], cs_fields := cs_fields st @ op_fields oper\<rparr>"
  by (simp add: gw_compile_op_def op_fields_def)

lemma gw_compile_op_old:
  "op_str oper \<noteq> [] \<Longrightarrow> cs_consts st (pool_str (op_str oper)) = Some k \<Longrightarrow> gw_compile_op opnum oper st =
     st\<lparr>cs_ops := cs_ops st @ [opnum (op_code oper), int k], cs_fields := cs_fields st @ op_fields oper\<rparr>"
  by (simp add: gw_compile_op_def op_fields_def Let_def)

lemma gw_compile_op_new:
  "op_str oper \<noteq> [] \<Longrightarrow> cs_consts st (pool_str (op_str oper)) = None \<Longrightarrow> gw_compile_op opnum oper st =
     st\<lparr>cs_ops := cs_ops st @ [opnum (op_code oper), int (length (cs_pool st))],
        cs_pool := cs_pool st @ [pool_str (op_str oper)],
        cs_consts := (cs_consts st)(pool_str (op_str oper) \<mapsto> length (cs_pool st)),
        cs_fields := cs_fields st @ op_fields oper\<rparr>"
  by (simp add: gw_compile_op_def op_fields_def Let_def)

lemma gw_compile_op_inv:
  assumes inv: "compile_inv opnum opers st"
  shows "compile_inv opnum (opers @ [oper]) (gw_compile_op opnum oper st)"
proof (cases "op_str oper = []")
  case True
  with inv have "ops_encoded opnum (cs_pool st) (opers @ [oper]) (cs_ops st @ [opnum (op_code oper), int (op_num oper)])"
    by (intro ops_encoded_snoc) (auto simp: compile_inv_def op_encoded_def)
  with inv show ?thesis
    by (simp add: compile_inv_def gw_compile_op_num[OF True] captures_snoc)
next
  case False
  let ?str = "pool_str (op_str oper)"
  show ?thesis
  proof (cases "cs_consts st ?str")
    case (Some k)
    with inv have k: "k < length (cs_pool st)" "cs_pool st ! k = ?str" by (auto simp: compile_inv_def)
    then have "ops_encoded opnum (cs_pool st) (opers @ [oper]) (cs_ops st @ [opnum (op_code oper), int k])"
      using inv False by (intro ops_encoded_snoc) (auto simp: compile_inv_def op_encoded_def)
    with inv show ?thesis
      by (simp add: compile_inv_def gw_compile_op_old[OF False Some] captures_snoc)
  next
    case None
    have "distinct (cs_pool st @ [?str])"
      using consts_None_iff[OF inv] None inv by (auto simp: compile_inv_def)
    moreover have "ops_encoded opnum (cs_pool st @ [?str]) (opers @ [oper])
        (cs_ops st @ [opnum (op_code oper), int (length (cs_pool st))])"
      using inv False ops_encoded_mono
      by (intro ops_encoded_snoc) (auto simp: compile_inv_def op_encoded_def)
    ultimately show ?thesis
      using inv consts_extend[OF inv None]
      by (simp add: compile_inv_def gw_compile_op_new[OF False None] captures_snoc)
  qed
qed

lemma gw_compile_fold_inv:
  "compile_inv opnum opers st \<Longrightarrow> compile_inv opnum (opers @ rest) (fold (gw_compile_op opnum) rest st)"
proof (induction rest arbitrary: opers st)
  case (Cons oper rest)
  from Cons.IH[OF gw_compile_op_inv[OF Cons.prems, of oper]] show ?case by simp
qed simp

text \<open>
  Compile loses nothing: the compiled program is the op code and the operand of each op of the
  template in order, where a string operand is an index into a pool without duplicates that holds
  that string (the root marker stored as the empty string), and Fields are the captured paths.
\<close>
theorem gw_Compile_decodes:
  "ops_encoded opnum (Pool (gw_Compile opnum t)) (gw_rawOps t) (OpCodes (gw_Compile opnum t))
   \<and> distinct (Pool (gw_Compile opnum t))
   \<and> Fields (gw_Compile opnum t) = captures (gw_rawOps t)"
proof -
  have "compile_inv opnum [] \<lparr>cs_ops = [], cs_pool = [], cs_fields = [], cs_consts = Map.empty\<rparr>"
    by (simp add: compile_inv_def captures_def)
  from gw_compile_fold_inv[OF this, of "gw_rawOps t"] show ?thesis
    by (simp add: gw_Compile_def compile_inv_def Let_def)
qed

section \<open>What accept lets through\<close>

text \<open>
  The symbol check of accept also lets a slash through for any other symbol, so an empty path
  segment in front of a slash is read as a wildcard: the templates /a///b and /a/*/b have the same
  segments, and // is the template of a single wildcard.
\<close>
theorem gw_slash_parsed_as_wildcard:
  "gw_Parse ''/a///b'' = Parsed \<lparr>gw_segments_of = [Literal ''a'', Wildcard, Literal ''b''], gw_verb = [],
     gw_text = ''/a///b''\<rparr>
   \<and> gw_Parse ''/a/*/b'' = Parsed \<lparr>gw_segments_of = [Literal ''a'', Wildcard, Literal ''b''], gw_verb = [],
     gw_text = ''/a/*/b''\<rparr>
   \<and> gw_Parse ''//'' = Parsed \<lparr>gw_segments_of = [Wildcard], gw_verb = [], gw_text = ''//''\<rparr>"
  by code_simp

end
