(* ===== verification/Httprule.thy ===== *)
theory Httprule
  imports Gwbased_Safety
begin

text \<open>
  The repository's own parser of HttpRule templates (internal/httprule, parse.go and tokenize.go). Its
  parser object has the shape of the gwbased one, so the types of that theory for the parser and for the
  results of a step are used again; the errors made inside are only looked at for being errors, since
  template() answers every one of them with p.error().
\<close>

section \<open>Templates\<close>

datatype ht_segment =
    SWildcard
  | SMultiWildcard
  | SVariable "string list" "ht_segment list"
  | SLiteral string

record ht_template =
  ht_tmpl :: string
  ht_segs :: "ht_segment list"
  ht_verb :: string

section \<open>Tokens (tokenize.go)\<close>

datatype tstate = tsegment | tvariable | tnested

fun tnext :: "tstate \<Rightarrow> string" where
  "tnext tsegment = ''/{''"
| "tnext tvariable = ''.=}''"
| "tnext tnested = ''/}''"

definition ht_next :: "tstate \<Rightarrow> char \<Rightarrow> tstate" where
  "ht_next state r =
     (if r = CHR ''/'' \<or> r = CHR ''.'' then state
      else if r = CHR ''{'' then tvariable
      else if r = CHR ''='' then tnested
      else if r = CHR ''}'' then tsegment
      else state)"

function ht_scan :: "tstate \<Rightarrow> string \<Rightarrow> string list" where
  "ht_scan state tmpl =
     (if tmpl = [] then []
      else case IndexAny tmpl (tnext state) of
        None \<Rightarrow> [tmpl]
      | Some idx \<Rightarrow>
          (if idx > 0 then [take idx tmpl, [tmpl ! idx]] else [take 1 tmpl])
          @ ht_scan (ht_next state (tmpl ! idx)) (drop (Suc idx) tmpl))"
  by pat_completeness auto
termination
  by (relation "measure (\<lambda>(state, tmpl). length tmpl)") auto

declare ht_scan.simps [simp del]

definition ht_tokenize :: "string \<Rightarrow> string list" where
  "ht_tokenize tmpl = ht_scan tsegment tmpl @ [eof]"

section \<open>Lexemes\<close>

datatype lexeme = LIdent | LLiteral | LVerb | LEof | LSym string

text \<open>checkIdent; a byte of 0x80 or more is (part of) a rune that the code rejects.\<close>

fun checkIdent_from :: "string \<Rightarrow> nat \<Rightarrow> string \<Rightarrow> gw_error option" where
  "checkIdent_from s i [] = None"
| "checkIdent_from s i (c # cs) =
     (if is_digit c then (if i = 0 then Some (IdentDigit s) else checkIdent_from s (Suc i) cs)
      else if is_upper c \<or> is_lower c \<or> c = CHR ''_'' then checkIdent_from s (Suc i) cs
      else Some (IdentChar s))"

definition checkIdent :: "string \<Rightarrow> gw_error option" where
  "checkIdent s = checkIdent_from s 0 s"

definition isHex :: "char \<Rightarrow> bool" where
  "isHex c =
     (if is_digit c then True
      else if 65 \<le> (of_char c :: nat) \<and> (of_char c :: nat) \<le> 70 then True
      else if 97 \<le> (of_char c :: nat) \<and> (of_char c :: nat) \<le> 102 then True
      else False)"

text \<open>One character of a path segment: the error, or what is left after it.\<close>

definition consumePchar :: "string \<Rightarrow> char \<Rightarrow> string \<Rightarrow> gw_error + string" where
  "consumePchar whole c left =
     (if is_digit c \<or> is_upper c \<or> is_lower c then Inr left
      else if c \<in> set ''-._~'' \<or> c \<in> set (''!$&'' @ [CHR 0x27] @ ''()*+,;='') \<or> c \<in> set '':@'' then Inr left
      else if c \<noteq> CHR ''%'' then Inl BadPathChar
      else if length left < 2 \<or> \<not> isHex (left ! 0) \<or> \<not> isHex (left ! 1) then Inl (BadPercent whole)
      else Inr (drop 2 left))"

function checkLiteral_from :: "string \<Rightarrow> string \<Rightarrow> gw_error option" where
  "checkLiteral_from original s =
     (case s of
        [] \<Rightarrow> None
      | c # left \<Rightarrow> (case consumePchar original c left of Inl err \<Rightarrow> Some err | Inr s \<Rightarrow> checkLiteral_from original s))"
  by pat_completeness auto
termination
  by (relation "measure (\<lambda>(original, s). length s)") (auto simp: consumePchar_def split: if_splits)

declare checkLiteral_from.simps [simp del]

definition checkLiteral :: "string \<Rightarrow> gw_error option" where
  "checkLiteral s = checkLiteral_from s s"

text \<open>The switch of accept; a symbol it has no case for would be accepted as it is.\<close>

definition ht_check :: "lexeme \<Rightarrow> string \<Rightarrow> gw_error option" where
  "ht_check want got =
     (case want of
        LEof \<Rightarrow> if got \<noteq> eof then Some (ExpectedEOF got) else None
      | LIdent \<Rightarrow> checkIdent got
      | LLiteral \<Rightarrow> checkLiteral got
      | LVerb \<Rightarrow>
          (case checkLiteral got of
             Some err \<Rightarrow> Some err
           | None \<Rightarrow> if \<not> HasPrefix got '':'' then Some (Expected '':'' got) else None)
      | LSym s \<Rightarrow>
          if s \<in> set [''/'', ''*'', ''**'', ''.'', ''='', ''{'', ''}'', '':''] \<and> got \<noteq> s
          then Some (Expected s got) else None)"

definition ht_accept :: "lexeme \<Rightarrow> gw_parser \<Rightarrow> string gw_res" where
  "ht_accept want p =
     (case gw_tokens p of
        [] \<Rightarrow> GPanic
      | got # left \<Rightarrow>
          (case ht_check want got of
             Some e \<Rightarrow> GErr e p
           | None \<Rightarrow> GOk (if want = LVerb then drop 1 got else got)
                       (p\<lparr>gw_tokens := left, gw_accepted := gw_accepted p @ [got]\<rparr>)))"

section \<open>The parser (parse.go)\<close>

function ht_fieldPath_loop :: "string list \<Rightarrow> gw_parser \<Rightarrow> string list gw_res" where
  "ht_fieldPath_loop path p =
     (case ht_accept (LSym ''.'') p of
        GOk _ p1 \<Rightarrow>
          (case ht_accept LIdent p1 of
             GOk component p2 \<Rightarrow> ht_fieldPath_loop (path @ [component]) p2
           | GErr e p2 \<Rightarrow> GErr e p2
           | GPanic \<Rightarrow> GPanic
           | GFuel \<Rightarrow> GFuel)
      | GErr _ p1 \<Rightarrow> GOk path p1
      | GPanic \<Rightarrow> GPanic
      | GFuel \<Rightarrow> GFuel)"
  by pat_completeness auto
termination
  by (relation "measure (\<lambda>(cs, p). length (gw_tokens p))")
    (auto simp: ht_accept_def split: list.splits option.splits)

declare ht_fieldPath_loop.simps [simp del]

definition ht_fieldPath :: "gw_parser \<Rightarrow> string list gw_res" where
  "ht_fieldPath p = gw_bind (ht_accept LIdent p) (\<lambda>component. ht_fieldPath_loop [component])"

text \<open>
  segments, segment and variable, with a unit of fuel per call; each returns the flag for a multi segment,
  which ends the list of segments.
\<close>

fun ht_segments :: "nat \<Rightarrow> ht_segment list \<Rightarrow> gw_parser \<Rightarrow> (ht_segment list \<times> bool) gw_res"
  and ht_parse_segment :: "nat \<Rightarrow> gw_parser \<Rightarrow> (ht_segment \<times> bool) gw_res"
  and ht_variable :: "nat \<Rightarrow> gw_parser \<Rightarrow> (ht_segment \<times> bool) gw_res"
where
  "ht_segments 0 segs p = GFuel"
| "ht_segments (Suc n) segs p =
     gw_bind (ht_parse_segment n p) (\<lambda>(s, ms) p1.
       if ms then GOk (segs @ [s], True) p1
       else (case ht_accept (LSym ''/'') p1 of
               GOk _ p2 \<Rightarrow> ht_segments n (segs @ [s]) p2
             | GErr _ p2 \<Rightarrow> GOk (segs @ [s], False) p2
             | GPanic \<Rightarrow> GPanic
             | GFuel \<Rightarrow> GFuel))"
| "ht_parse_segment 0 p = GFuel"
| "ht_parse_segment (Suc n) p =
     gw_else (gw_bind (ht_accept (LSym ''*'') p) (\<lambda>_. GOk (SWildcard, False))) (\<lambda>_ p1.
     gw_else (gw_bind (ht_accept (LSym ''**'') p1) (\<lambda>_. GOk (SMultiWildcard, True))) (\<lambda>_ p2.
     gw_else (gw_bind (ht_accept LLiteral p2) (\<lambda>l. GOk (SLiteral l, False))) (\<lambda>_ p3.
     gw_else (ht_variable n p3) (\<lambda>e. GErr (NotASegment e)))))"
| "ht_variable 0 p = GFuel"
| "ht_variable (Suc n) p =
     gw_bind (ht_accept (LSym ''{'') p) (\<lambda>_ p1.
     gw_bind (ht_fieldPath p1) (\<lambda>path p2.
     gw_bind
       (case ht_accept (LSym ''='') p2 of
          GOk _ p3 \<Rightarrow> ht_segments n [] p3
        | GErr _ p3 \<Rightarrow> GOk ([SWildcard], False) p3
        | GPanic \<Rightarrow> GPanic
        | GFuel \<Rightarrow> GFuel) (\<lambda>(segs, multi) p4.
     gw_bind (ht_accept (LSym ''}'') p4) (\<lambda>_.
     GOk (SVariable path segs, multi)))))"

text \<open>The result of Parse; an unexpected token comes with the tokens accepted before it.\<close>

datatype ht_result =
    HParsed ht_template
  | HNoSlash string
  | HUnexpected string "string list"
  | HCrashed
  | HLooped

definition ht_error :: "gw_parser \<Rightarrow> ht_result" where
  "ht_error p = (case gw_tokens p of [] \<Rightarrow> HCrashed | t # ts \<Rightarrow> HUnexpected t (gw_accepted p))"

text \<open>The end of template(): nothing may follow.\<close>

definition ht_finish :: "string \<Rightarrow> ht_segment list \<Rightarrow> string \<Rightarrow> gw_parser \<Rightarrow> ht_result" where
  "ht_finish tmpl segs verb p =
     (case ht_accept LEof p of
        GOk _ p1 \<Rightarrow> HParsed \<lparr>ht_tmpl = tmpl, ht_segs = segs, ht_verb = verb\<rparr>
      | GErr _ p1 \<Rightarrow> ht_error p1
      | GPanic \<Rightarrow> HCrashed
      | GFuel \<Rightarrow> HLooped)"

text \<open>The verb of the last segment: cut off a literal, or a token of its own after a variable.\<close>

definition ht_verb_of :: "string \<Rightarrow> ht_segment list \<Rightarrow> gw_parser \<Rightarrow> ht_result" where
  "ht_verb_of tmpl segs p =
     (case last segs of
        SLiteral l \<Rightarrow>
          (case LastIndexByte l CHR '':'' of
             Some i \<Rightarrow> ht_finish tmpl (butlast segs @ [SLiteral (take i l)]) (drop (Suc i) l) p
           | None \<Rightarrow> ht_finish tmpl segs [] p)
      | SVariable path vs \<Rightarrow>
          (case gw_tokens p of
             [] \<Rightarrow> HCrashed
           | t # ts \<Rightarrow>
               if t \<noteq> eof then
                 (case ht_accept LVerb p of
                    GOk verb p1 \<Rightarrow> ht_finish tmpl segs verb p1
                  | GErr _ p1 \<Rightarrow> ht_error p1
                  | GPanic \<Rightarrow> HCrashed
                  | GFuel \<Rightarrow> HLooped)
               else ht_finish tmpl segs [] p)
      | _ \<Rightarrow> ht_finish tmpl segs [] p)"

definition ht_fuel :: "string list \<Rightarrow> nat" where
  "ht_fuel toks = 3 * length toks + 3"

definition ht_template_of :: "string \<Rightarrow> gw_parser \<Rightarrow> ht_result" where
  "ht_template_of tmpl p =
     (case ht_accept LEof p of
        GOk _ p1 \<Rightarrow> HParsed \<lparr>ht_tmpl = tmpl, ht_segs = [SLiteral []], ht_verb = []\<rparr>
      | GErr _ p1 \<Rightarrow>
          (case ht_segments (ht_fuel (gw_tokens p1)) [] p1 of
             GOk (segs, _) p2 \<Rightarrow> ht_verb_of tmpl segs p2
           | GErr _ p2 \<Rightarrow> ht_error p2
           | GPanic \<Rightarrow> HCrashed
           | GFuel \<Rightarrow> HLooped)
      | GPanic \<Rightarrow> HCrashed
      | GFuel \<Rightarrow> HLooped)"

definition ht_Parse :: "string \<Rightarrow> ht_result" where
  "ht_Parse tmpl =
     (if \<not> HasPrefix tmpl ''/'' then HNoSlash tmpl
      else ht_template_of tmpl \<lparr>gw_tokens = ht_tokenize (drop 1 tmpl), gw_accepted = []\<rparr>)"

section \<open>The tokenizer\<close>

fun gw_of :: "tstate \<Rightarrow> gw_state" where
  "gw_of tsegment = Init"
| "gw_of tvariable = Field"
| "gw_of tnested = Nested"

text \<open>
  The two template parsers of the repository split a template into the same tokens: tokenize here gives
  what the tokenizer of gwbased gives before it cuts off the verb, and the end marker; so it loses no byte
  of the template and makes no empty token.
\<close>
theorem ht_tokenize_exact:
  "ht_tokenize tmpl = gw_scan Init tmpl @ [eof] \<and> concat (butlast (ht_tokenize tmpl)) = tmpl
   \<and> (\<forall>t \<in> set (ht_tokenize tmpl). t \<noteq> [])"
proof -
  have "ht_scan state tmpl = gw_scan (gw_of state) tmpl" for state
  proof (induction state tmpl rule: ht_scan.induct)
    case (1 state tmpl)
    have "tnext state = gw_delims (gw_of state)" "gw_of (ht_next state r) = gw_next (gw_of state) r" for r
      by (cases state; simp add: ht_next_def gw_next_def)+
    moreover have "take 1 tmpl = [tmpl ! 0]" if "tmpl \<noteq> []" using that by (cases tmpl) auto
    ultimately show ?case using 1
      by (subst ht_scan.simps, subst gw_scan.simps) (auto split: option.splits)
  qed
  from this[of tsegment] show ?thesis
    by (auto simp: ht_tokenize_def gw_scan_concat eof_def dest: gw_scan_nonempty)
qed

section \<open>The parser is total\<close>

definition ht_known :: "lexeme \<Rightarrow> bool" where
  "ht_known want \<longleftrightarrow> want \<noteq> LEof \<and> ht_check want eof \<noteq> None"

lemma ht_known [simp]:
  "ht_known LIdent" "ht_known LLiteral" "ht_known LVerb"
  "ht_known (LSym s) \<longleftrightarrow> s \<in> set [''/'', ''*'', ''**'', ''.'', ''='', ''{'', ''}'', '':'']"
  by (auto simp: ht_known_def ht_check_def eof_def checkIdent_def checkLiteral_def checkLiteral_from.simps consumePchar_def
      is_digit_def is_upper_def is_lower_def)

lemma ht_accept_safe:
  assumes "gw_ok p" and "ht_known want"
  shows "gw_safe 1 p (ht_accept want p)"
proof -
  from assms(1) obtain t ts where ts: "gw_tokens p = t # ts" by (cases "gw_tokens p") (auto simp: gw_ok_def)
  show ?thesis
  proof (cases "ht_check want t")
    case None
    with assms(2) have "t \<noteq> eof" by (auto simp: ht_known_def)
    with assms(1) ts have "ts \<noteq> []" by (auto simp: gw_ok_def)
    with None ts assms(1) show ?thesis by (auto simp: ht_accept_def gw_ok_def)
  next
    case (Some e)
    with ts assms(1) show ?thesis by (auto simp: ht_accept_def)
  qed
qed

lemmas ht_accept_safes = ht_accept_safe ht_accept_safe[unfolded One_nat_def]

lemma ht_fieldPath_loop_safe: "gw_ok p \<Longrightarrow> gw_safe 0 p (ht_fieldPath_loop cs p)"
proof (induction cs p rule: ht_fieldPath_loop.induct)
  case (1 cs p)
  have dot: "gw_safe 1 p (ht_accept (LSym ''.'') p)" using 1 by (intro ht_accept_safe) auto
  show ?case
  proof (cases "ht_accept (LSym ''.'') p")
    case (GOk d p1)
    with dot have p1: "gw_ok p1" "gw_left p1 + 1 \<le> gw_left p" by auto
    then have ident: "gw_safe 1 p1 (ht_accept LIdent p1)" by (intro ht_accept_safe) auto
    show ?thesis
    proof (cases "ht_accept LIdent p1")
      case ok: (GOk c p2)
      with ident have p2: "gw_ok p2" "gw_left p2 + 1 \<le> gw_left p1" by auto
      then have "gw_safe 0 p2 (ht_fieldPath_loop (cs @ [c]) p2)" using "1.IH"[OF GOk ok] by simp
      with p1 p2 show ?thesis
        by (subst ht_fieldPath_loop.simps) (cases "ht_fieldPath_loop (cs @ [c]) p2"; simp add: GOk ok)
    qed (use GOk p1 ident in \<open>auto simp: ht_fieldPath_loop.simps\<close>)
  qed (use dot in \<open>auto simp: ht_fieldPath_loop.simps\<close>)
qed

lemma ht_fieldPath_safe: "gw_ok p \<Longrightarrow> gw_safe 1 p (ht_fieldPath p)"
  unfolding ht_fieldPath_def
  by (rule gw_safe_bind[where ?d1.0 = 1 and ?d2.0 = 0]) (auto intro: ht_accept_safes ht_fieldPath_loop_safe)

lemma ht_alt_safe: "gw_ok p \<Longrightarrow> ht_known want \<Longrightarrow> gw_safe 1 p (gw_bind (ht_accept want p) (\<lambda>a. GOk (f a)))"
  by (rule gw_safe_bind[where ?d1.0 = 1 and ?d2.0 = 0]) (auto intro: ht_accept_safes)

lemma gw_safe_weaken:
  assumes "gw_safe d p1 r" and "gw_left p1 + d \<le> gw_left p + d'" and "gw_left p1 \<le> gw_left p" and "d' \<le> d"
  shows "gw_safe d' p r"
  using assms by (cases r) auto

lemma ht_parsers_safe:
  "gw_ok p \<Longrightarrow> 3 * gw_left p + 3 \<le> n \<Longrightarrow> gw_safe 1 p (ht_segments n segs p)"
  "gw_ok p \<Longrightarrow> 3 * gw_left p + 2 \<le> n \<Longrightarrow> gw_safe 1 p (ht_parse_segment n p)"
  "gw_ok p \<Longrightarrow> 3 * gw_left p + 1 \<le> n \<Longrightarrow> gw_safe 1 p (ht_variable n p)"
proof (induction n segs p and n p and n p rule: ht_segments_ht_parse_segment_ht_variable.induct)
  case (2 n segs p)
  have rest: "gw_safe 0 p1 ((case x of (s, ms) \<Rightarrow> \<lambda>p1. if ms then GOk (segs @ [s], True) p1
       else (case ht_accept (LSym ''/'') p1 of
               GOk _ p2 \<Rightarrow> ht_segments n (segs @ [s]) p2
             | GErr _ p2 \<Rightarrow> GOk (segs @ [s], False) p2
             | GPanic \<Rightarrow> GPanic
             | GFuel \<Rightarrow> GFuel)) p1)"
    if p1: "gw_ok p1" "gw_left p1 + 1 \<le> gw_left p" for x p1
  proof -
    obtain s ms where x: "x = (s, ms)" by fastforce
    have acc: "gw_safe 1 p1 (ht_accept (LSym ''/'') p1)" using p1 by (intro ht_accept_safe) auto
    show ?thesis
    proof (cases "ht_accept (LSym ''/'') p1")
      case (GOk a p2)
      with acc have p2: "gw_ok p2" "gw_left p2 + 1 \<le> gw_left p1" by auto
      show ?thesis
      proof (cases ms)
        case False
        then have "gw_safe 1 p2 (ht_segments n (segs @ [s]) p2)"
          using 2 GOk x p1 p2 by auto
        then show ?thesis using False GOk x p2 by (auto intro: gw_safe_weaken)
      qed (use p1 x in simp)
    qed (use acc x p1 in auto)
  qed
  show ?case unfolding ht_segments.simps
    by (rule gw_safe_bind[where ?d1.0 = 1 and ?d2.0 = 0, OF _ rest]) (use 2 in auto)
next
  case (4 n p)
  show ?case unfolding ht_parse_segment.simps
    by (intro gw_safe_else ht_alt_safe) (use 4 in auto)
next
  case (6 n p)
  have eq: "gw_safe 0 p2 (case ht_accept (LSym ''='') p2 of
          GOk _ p3 \<Rightarrow> ht_segments n [] p3
        | GErr _ p3 \<Rightarrow> GOk ([SWildcard], False) p3 | GPanic \<Rightarrow> GPanic | GFuel \<Rightarrow> GFuel)"
    if p2: "gw_ok p2" "gw_left p2 + 2 \<le> gw_left p" for p2
  proof -
    have acc: "gw_safe 1 p2 (ht_accept (LSym ''='') p2)" using p2 by (intro ht_accept_safe) auto
    show ?thesis
    proof (cases "ht_accept (LSym ''='') p2")
      case (GOk s p3)
      with acc have p3: "gw_ok p3" "gw_left p3 + 1 \<le> gw_left p2" by auto
      then have "gw_safe 1 p3 (ht_segments n [] p3)" using 6 p2 GOk by auto
      with GOk p3 show ?thesis by (auto intro: gw_safe_weaken)
    qed (use acc in auto)
  qed
  have tail: "gw_safe 1 p4 ((case y of (segs, multi) \<Rightarrow> \<lambda>p4. gw_bind (ht_accept (LSym ''}'') p4) (\<lambda>_. GOk (SVariable path segs, multi))) p4)"
    if "gw_ok p4" for y path p4
    using ht_alt_safe[OF that, of "LSym ''}''" "\<lambda>_. (SVariable path (fst y), snd y)"] by (cases y) simp
  show ?case unfolding ht_variable.simps
  proof (rule gw_safe_bind[where ?d1.0 = 1 and ?d2.0 = 2])
    fix a p1 assume p1: "gw_ok p1" "gw_left p1 + 1 \<le> gw_left p"
    show "gw_safe 2 p1 (gw_bind (ht_fieldPath p1) (\<lambda>path p2. gw_bind
       (case ht_accept (LSym ''='') p2 of
          GOk _ p3 \<Rightarrow> ht_segments n [] p3
        | GErr _ p3 \<Rightarrow> GOk ([SWildcard], False) p3 | GPanic \<Rightarrow> GPanic | GFuel \<Rightarrow> GFuel) (\<lambda>(segs, multi) p4.
       gw_bind (ht_accept (LSym ''}'') p4) (\<lambda>_. GOk (SVariable path segs, multi)))))"
      by (rule gw_safe_bind[where ?d1.0 = 1 and ?d2.0 = 1, OF ht_fieldPath_safe[OF p1(1)]],
          rule gw_safe_bind[where ?d1.0 = 0 and ?d2.0 = 1, OF eq tail])
        (use p1 in auto)
  qed (use 6 in \<open>auto intro: ht_accept_safes\<close>)
qed auto

definition ht_fine :: "ht_result \<Rightarrow> bool" where
  "ht_fine r \<longleftrightarrow> r \<noteq> HCrashed \<and> r \<noteq> HLooped"

lemma ht_error_fine: "gw_ok p \<Longrightarrow> ht_fine (ht_error p)"
  by (auto simp: ht_error_def gw_ok_def ht_fine_def split: list.splits)

lemma ht_accept_eof: "gw_ok p \<Longrightarrow> ht_accept LEof p = GOk eof (p\<lparr>gw_tokens := tl (gw_tokens p), gw_accepted := gw_accepted p @ [eof]\<rparr>)
    \<or> (\<exists>e. ht_accept LEof p = GErr e p)"
  by (cases "gw_tokens p") (auto simp: ht_accept_def ht_check_def gw_ok_def)

lemma ht_finish_fine: "gw_ok p \<Longrightarrow> ht_fine (ht_finish tmpl segs verb p)"
  using ht_accept_eof[of p] ht_error_fine[of p] by (auto simp: ht_finish_def ht_fine_def)

lemma ht_verb_of_fine:
  assumes "gw_ok p"
  shows "ht_fine (ht_verb_of tmpl segs p)"
proof -
  have verb: "gw_safe 1 p (ht_accept LVerb p)" using assms by (intro ht_accept_safe) auto
  from assms obtain t ts where ts: "gw_tokens p = t # ts" by (cases "gw_tokens p") (auto simp: gw_ok_def)
  have v: "ht_fine (case ht_accept LVerb p of GOk verb p1 \<Rightarrow> ht_finish tmpl segs verb p1
      | GErr _ p1 \<Rightarrow> ht_error p1 | GPanic \<Rightarrow> HCrashed | GFuel \<Rightarrow> HLooped)"
    using verb by (cases "ht_accept LVerb p") (auto intro: ht_finish_fine ht_error_fine)
  show ?thesis
    using assms v ts by (cases "last segs") (auto simp: ht_verb_of_def intro: ht_finish_fine split: option.split)
qed

text \<open>
  Parse of the repository's own templates is total: it returns a template or an error for every string,
  never indexes past its tokens and the recursion budget of the model is enough.
\<close>
theorem ht_Parse_total: "ht_Parse tmpl \<noteq> HCrashed \<and> ht_Parse tmpl \<noteq> HLooped"
proof -
  let ?p = "\<lparr>gw_tokens = ht_tokenize (drop 1 tmpl), gw_accepted = []\<rparr>"
  have ok: "gw_ok ?p" by (simp add: gw_ok_def ht_tokenize_def)
  have "gw_safe 1 ?p (ht_segments (ht_fuel (gw_tokens ?p)) [] ?p)"
    by (rule ht_parsers_safe(1)[OF ok]) (simp add: ht_fuel_def)
  then have "ht_fine (case ht_segments (ht_fuel (gw_tokens ?p)) [] ?p of
      GOk (segs, _) p2 \<Rightarrow> ht_verb_of tmpl segs p2 | GErr _ p2 \<Rightarrow> ht_error p2 | GPanic \<Rightarrow> HCrashed | GFuel \<Rightarrow> HLooped)"
    by (cases "ht_segments (ht_fuel (gw_tokens ?p)) [] ?p") (auto intro: ht_verb_of_fine ht_error_fine)
  then have "ht_fine (ht_template_of tmpl ?p)"
    using ht_accept_eof[OF ok] by (auto simp: ht_template_of_def ht_fine_def)
  then show ?thesis by (simp add: ht_Parse_def ht_fine_def)
qed

text \<open>
  The end marker is a token a template can contain: a template that starts with a slash, a NUL byte and
  another slash (or ends after the NUL byte) is accepted as the root template, whatever follows.
\<close>
theorem ht_eof_accepted:
  "ht_Parse (''/'' @ eof @ ''/'' @ rest)
     = HParsed \<lparr>ht_tmpl = ''/'' @ eof @ ''/'' @ rest, ht_segs = [SLiteral []], ht_verb = []\<rparr>"
proof -
  have "IndexAny (CHR 0x00 # CHR ''/'' # rest) ''/{'' = Some 1" by simp
  then have "ht_tokenize (drop 1 (''/'' @ eof @ ''/'' @ rest)) = eof # ''/'' # ht_scan tsegment rest @ [eof]"
    unfolding ht_tokenize_def by (subst ht_scan.simps) (simp add: eof_def ht_next_def)
  then show ?thesis
    by (simp add: ht_Parse_def ht_template_of_def ht_accept_def ht_check_def HasPrefix_def)
qed

end
