(* ===== verification/Httprule_Trie.thy ===== *)
theory Httprule_Trie
  imports Httprule
begin

text \<open>
  The routing trie over these templates (internal/httprule/trie.go). A node is a value, so what the code
  does through pointers is an update along the path of a template; Go maps are association lists, in the
  order in which the range loop of dfsLeaf happens to visit them.
\<close>

section \<open>Nodes\<close>

datatype ht_node =
  Node (nd_tmpl: "ht_template option") (nd_literals: "(string \<times> ht_node) list") (nd_verbs: "(string \<times> ht_template) list")
    (nd_wildcard: "ht_node option") (nd_multi: "ht_node option")

definition new_node :: ht_node where
  "new_node = Node None [] [] None None"

definition or_new :: "ht_node option \<Rightarrow> ht_node" where
  "or_new n = (case n of None \<Rightarrow> new_node | Some m \<Rightarrow> m)"

definition nd_addVerb :: "ht_template \<Rightarrow> ht_node \<Rightarrow> ht_node" where
  "nd_addVerb tmpl n =
     (if ht_verb tmpl = [] then Node (Some tmpl) (nd_literals n) (nd_verbs n) (nd_wildcard n) (nd_multi n)
      else Node (nd_tmpl n) (nd_literals n) (AList.update (ht_verb tmpl) tmpl (nd_verbs n)) (nd_wildcard n) (nd_multi n))"

text \<open>The loop of Add over the segments of a template, addVariable included, and the addVerb at its end.\<close>

function nd_add :: "ht_segment list \<Rightarrow> ht_template \<Rightarrow> ht_node \<Rightarrow> ht_node" where
  "nd_add [] tmpl n = nd_addVerb tmpl n"
| "nd_add (SWildcard # ss) tmpl n =
     Node (nd_tmpl n) (nd_literals n) (nd_verbs n) (Some (nd_add ss tmpl (or_new (nd_wildcard n)))) (nd_multi n)"
| "nd_add (SMultiWildcard # ss) tmpl n =
     Node (nd_tmpl n) (nd_literals n) (nd_verbs n) (nd_wildcard n) (Some (nd_add ss tmpl (or_new (nd_multi n))))"
| "nd_add (SVariable path vs # ss) tmpl n = nd_add (vs @ ss) tmpl n"
| "nd_add (SLiteral l # ss) tmpl n =
     Node (nd_tmpl n) (AList.update l (nd_add ss tmpl (or_new (map_of (nd_literals n) l))) (nd_literals n))
       (nd_verbs n) (nd_wildcard n) (nd_multi n)"
  by pat_completeness auto
termination
  by (relation "measure (\<lambda>(ss, tmpl, n). size_list size ss)") auto

type_synonym ht_trie = "string \<rightharpoonup> ht_node"

definition ht_NewTrie :: ht_trie where
  "ht_NewTrie = (\<lambda>_. None)"

definition ht_Add :: "string \<Rightarrow> ht_template \<Rightarrow> ht_trie \<Rightarrow> ht_trie" where
  "ht_Add mtd tmpl t = t(mtd \<mapsto> nd_add (ht_segs tmpl) tmpl (or_new (t mtd)))"

section \<open>Find\<close>

definition dfsLeaf :: "ht_node \<Rightarrow> string \<Rightarrow> ht_template option" where
  "dfsLeaf n orig =
     (case nd_tmpl n of
        Some t \<Rightarrow> Some t
      | None \<Rightarrow> map_option snd (find (\<lambda>(verb, t). HasSuffix orig (CHR '':'' # verb)) (nd_verbs n)))"

text \<open>The loop over the colons of the last component, from the right.\<close>

function verb_loop :: "ht_node \<Rightarrow> string \<Rightarrow> ht_template option" where
  "verb_loop n component =
     (case LastIndexByte component CHR '':'' of
        None \<Rightarrow> None
      | Some verbIdx \<Rightarrow>
          let verb = drop (Suc verbIdx) component; component = take verbIdx component
          in case map_of (nd_literals n) component of
               None \<Rightarrow> verb_loop n component
             | Some nxt \<Rightarrow>
                 (case map_of (nd_verbs nxt) verb of
                    Some t \<Rightarrow> Some t
                  | None \<Rightarrow> verb_loop n component))"
  by pat_completeness auto
termination
  by (relation "measure (\<lambda>(n, component). length component)") (auto dest: LastIndexByte_SomeD)

declare verb_loop.simps [simp del]

function ht_dfs :: "ht_node \<Rightarrow> string \<Rightarrow> string \<Rightarrow> bool \<Rightarrow> ht_template option" where
  "ht_dfs n orig path isLast =
     (if isLast then dfsLeaf n orig
      else
        let slash = IndexByte path CHR ''/'';
            component = (case slash of None \<Rightarrow> path | Some i \<Rightarrow> take i path);
            path = (case slash of None \<Rightarrow> path | Some i \<Rightarrow> drop (Suc i) path)
        in case map_of (nd_literals n) component of
             Some m \<Rightarrow> ht_dfs m orig path (slash = None)
           | None \<Rightarrow>
               (case (if slash = None then verb_loop n component else None) of
                  Some t \<Rightarrow> Some t
                | None \<Rightarrow>
                    (case nd_wildcard n of
                       Some m \<Rightarrow> ht_dfs m orig path (slash = None)
                     | None \<Rightarrow>
                         (case nd_multi n of
                            Some m \<Rightarrow> ht_dfs m orig [] True
                          | None \<Rightarrow> None))))"
  by pat_completeness auto
termination
  by (relation "measure (\<lambda>(n, orig, path, last). if last then 0 else Suc (length path))")
    (auto simp: IndexByte_def dest: IndexAny_SomeD split: option.splits)

declare ht_dfs.simps [simp del]

definition ht_Find :: "ht_trie \<Rightarrow> string \<Rightarrow> string \<Rightarrow> ht_template option" where
  "ht_Find t mtd path =
     (case t mtd of
        None \<Rightarrow> None
      | Some n \<Rightarrow> let path = TrimPrefix path ''/'' in ht_dfs n path path False)"

section \<open>What a node holds\<close>

datatype flat_seg = FLit string | FWild | FMulti

fun flatten :: "ht_segment list \<Rightarrow> flat_seg list"
  and flatten1 :: "ht_segment \<Rightarrow> flat_seg list" where
  "flatten [] = []"
| "flatten (s # ss) = flatten1 s @ flatten ss"
| "flatten1 SWildcard = [FWild]"
| "flatten1 SMultiWildcard = [FMulti]"
| "flatten1 (SVariable path vs) = flatten vs"
| "flatten1 (SLiteral l) = [FLit l]"

lemma flatten_append: "flatten (ss @ ts) = flatten ss @ flatten ts"
  by (induction ss) auto

text \<open>\<open>holds n v fs t\<close>: the template \<open>t\<close> is found below \<open>n\<close> along \<open>fs\<close>, under the verb \<open>v\<close>.\<close>

inductive holds :: "ht_node \<Rightarrow> string \<Rightarrow> flat_seg list \<Rightarrow> ht_template \<Rightarrow> bool" where
  holds_leaf: "nd_tmpl n = Some t \<Longrightarrow> holds n [] [] t"
| holds_verb: "(v, t) \<in> set (nd_verbs n) \<Longrightarrow> holds n v [] t"
| holds_lit: "map_of (nd_literals n) l = Some m \<Longrightarrow> holds m v fs t \<Longrightarrow> holds n v (FLit l # fs) t"
| holds_wild: "nd_wildcard n = Some m \<Longrightarrow> holds m v fs t \<Longrightarrow> holds n v (FWild # fs) t"
| holds_multi: "nd_multi n = Some m \<Longrightarrow> holds m v fs t \<Longrightarrow> holds n v (FMulti # fs) t"

inductive_cases holdsE: "holds n v fs t"
inductive_simps holds_Nil: "holds n v [] t"
inductive_simps holds_FLit: "holds n v (FLit l # fs) t"
inductive_simps holds_FWild: "holds n v (FWild # fs) t"
inductive_simps holds_FMulti: "holds n v (FMulti # fs) t"

lemmas holds_simps = holds_Nil holds_FLit holds_FWild holds_FMulti

lemma holds_new: "\<not> holds new_node v fs t"
  by (auto simp: new_node_def elim: holds.cases)

lemma update_set: "(v, t) \<in> set (AList.update k x xs) \<Longrightarrow> (v, t) \<in> set xs \<or> (v, t) = (k, x)"
  by (induction xs) (auto split: if_splits)

lemma holds_cases:
  obtains (Nil) "fs = []" | (Lit) l fs' where "fs = FLit l # fs'" | (Wild) fs' where "fs = FWild # fs'"
  | (Multi) fs' where "fs = FMulti # fs'"
  by (metis flat_seg.exhaust neq_Nil_conv)

lemma nd_add_holds:
  "holds (nd_add ss tmpl n) v fs t \<Longrightarrow> holds n v fs t \<or> (fs = flatten ss \<and> t = tmpl \<and> v = ht_verb tmpl)"
proof (induction ss tmpl n arbitrary: v fs rule: nd_add.induct)
  case (1 tmpl n)
  then show ?case
    by (cases fs rule: holds_cases) (auto simp: nd_addVerb_def holds_simps dest: update_set split: if_splits)
next
  case (2 ss tmpl n)
  show ?case using 2(2)
  proof (cases fs rule: holds_cases)
    case (Wild fs')
    with 2(2) have "holds (or_new (nd_wildcard n)) v fs' t \<or> (fs' = flatten ss \<and> t = tmpl \<and> v = ht_verb tmpl)"
      using 2(1) by (simp add: holds_simps)
    then show ?thesis using Wild by (auto simp: holds_simps or_new_def holds_new split: option.splits)
  qed (auto simp: holds_simps)
next
  case (3 ss tmpl n)
  show ?case using 3(2)
  proof (cases fs rule: holds_cases)
    case (Multi fs')
    with 3(2) have "holds (or_new (nd_multi n)) v fs' t \<or> (fs' = flatten ss \<and> t = tmpl \<and> v = ht_verb tmpl)"
      using 3(1) by (simp add: holds_simps)
    then show ?thesis using Multi by (auto simp: holds_simps or_new_def holds_new split: option.splits)
  qed (auto simp: holds_simps)
next
  case (4 path vs ss tmpl n)
  then show ?case by (simp add: flatten_append)
next
  case (5 l ss tmpl n)
  show ?case using 5(2)
  proof (cases fs rule: holds_cases)
    case (Lit l' fs')
    show ?thesis
    proof (cases "l' = l")
      case True
      with 5(2) Lit have "holds (or_new (map_of (nd_literals n) l)) v fs' t \<or> (fs' = flatten ss \<and> t = tmpl \<and> v = ht_verb tmpl)"
        using 5(1) by (simp add: holds_simps AList.update_conv')
      then show ?thesis using Lit True by (auto simp: holds_simps or_new_def holds_new split: option.splits)
    next
      case False
      then show ?thesis using 5(2) Lit by (simp add: holds_simps AList.update_conv')
    qed
  qed (auto simp: holds_simps)
qed

section \<open>Find on the components of a path\<close>

fun dfs_list :: "ht_node \<Rightarrow> string \<Rightarrow> string list \<Rightarrow> ht_template option" where
  "dfs_list n orig [] = dfsLeaf n orig"
| "dfs_list n orig (c # cs) =
     (case map_of (nd_literals n) c of
        Some m \<Rightarrow> dfs_list m orig cs
      | None \<Rightarrow>
          (case (if cs = [] then verb_loop n c else None) of
             Some t \<Rightarrow> Some t
           | None \<Rightarrow>
               (case nd_wildcard n of
                  Some m \<Rightarrow> dfs_list m orig cs
                | None \<Rightarrow> (case nd_multi n of Some m \<Rightarrow> dfsLeaf m orig | None \<Rightarrow> None))))"

lemma ht_dfs_list:
  "ht_dfs n orig path False = dfs_list n orig (SplitByte path CHR ''/'') \<and> ht_dfs n orig path True = dfsLeaf n orig"
proof (induction "length path" arbitrary: n path rule: less_induct)
  case less
  have leaf: "ht_dfs m orig q True = dfsLeaf m orig" for m q by (subst ht_dfs.simps) simp
  show ?case
  proof (cases "IndexByte path CHR ''/''")
    case None
    then have "SplitByte path CHR ''/'' = [path]" by (simp add: IndexByte_None_iff SplitByte_no_sep)
    then show ?thesis using None leaf by (subst ht_dfs.simps) (simp split: option.splits)
  next
    case (Some i)
    from IndexAny_SomeD[OF Some[unfolded IndexByte_def]] have i: "i < length path" "CHR ''/'' \<notin> set (take i path)"
      "path = take i path @ CHR ''/'' # drop (Suc i) path" by auto
    then have "SplitByte path CHR ''/'' = take i path # SplitByte (drop (Suc i) path) CHR ''/''"
      by (metis SplitByte_sep)
    moreover have "ht_dfs m orig (drop (Suc i) path) False = dfs_list m orig (SplitByte (drop (Suc i) path) CHR ''/'')" for m
      using less i(1) by simp
    ultimately show ?thesis using Some leaf by (subst ht_dfs.simps) (simp split: option.splits)
  qed
qed

text \<open>Which components a template's segments describe; the rest of the path belongs to a final multi wildcard.\<close>

fun fmatch :: "flat_seg list \<Rightarrow> string list \<Rightarrow> bool" where
  "fmatch [] cs = (cs = [])"
| "fmatch (FLit l # fs) [] = False"
| "fmatch (FLit l # fs) (c # cs) = (l = c \<and> fmatch fs cs)"
| "fmatch (FWild # fs) [] = False"
| "fmatch (FWild # fs) (c # cs) = fmatch fs cs"
| "fmatch (FMulti # fs) [] = False"
| "fmatch (FMulti # fs) (c # cs) = (fs = [])"

lemma verb_loop_no_colon: "CHR '':'' \<notin> set c \<Longrightarrow> verb_loop n c = None"
  by (subst verb_loop.simps) (simp add: LastIndexByte_None_iff[THEN iffD2])

text \<open>No verb is empty, and none fits the end of the path.\<close>

definition quiet :: "string \<Rightarrow> ht_node \<Rightarrow> bool" where
  "quiet orig n \<longleftrightarrow> (\<forall>v fs t. holds n v fs t \<longrightarrow> (v = [] \<or> \<not> HasSuffix orig (CHR '':'' # v)) \<and> ht_verb t = v)"

lemma quiet_leaf:
  assumes "quiet orig n" and "dfsLeaf n orig = Some t" and "\<forall>v t. (v, t) \<in> set (nd_verbs n) \<longrightarrow> v \<noteq> []"
  shows "holds n [] [] t"
proof (cases "nd_tmpl n")
  case None
  with assms(2) obtain v where v: "(v, t) \<in> set (nd_verbs n)" "HasSuffix orig (CHR '':'' # v)"
    by (auto simp: dfsLeaf_def find_Some_iff) (metis nth_mem)
  then have "holds n v [] t" "v \<noteq> []" using assms(3) by (auto intro: holds_verb)
  with assms(1) v(2) show ?thesis by (auto simp: quiet_def)
next
  case (Some u)
  with assms(2) show ?thesis by (auto simp: dfsLeaf_def intro: holds_leaf)
qed

inductive verbs_ok :: "ht_node \<Rightarrow> bool" where
  "\<lbrakk>\<forall>(v, t) \<in> set (nd_verbs n). v \<noteq> []; \<forall>l m. map_of (nd_literals n) l = Some m \<longrightarrow> verbs_ok m;
    \<forall>m. nd_wildcard n = Some m \<longrightarrow> verbs_ok m; \<forall>m. nd_multi n = Some m \<longrightarrow> verbs_ok m\<rbrakk> \<Longrightarrow> verbs_ok n"

inductive_simps verbs_ok_simps: "verbs_ok n"

lemma verbs_ok_new: "verbs_ok new_node"
  by (subst verbs_ok_simps) (simp add: new_node_def)

lemma verbs_ok_or_new: "(\<And>m. n = Some m \<Longrightarrow> verbs_ok m) \<Longrightarrow> verbs_ok (or_new n)"
  by (cases n) (auto simp: or_new_def verbs_ok_new)

lemma verbs_ok_add: "verbs_ok n \<Longrightarrow> verbs_ok (nd_add ss tmpl n)"
proof (induction ss tmpl n rule: nd_add.induct)
  case (1 tmpl n)
  then show ?case
    by (subst (asm) verbs_ok_simps, subst verbs_ok_simps) (auto simp: nd_addVerb_def dest: update_set)
next
  case (2 ss tmpl n)
  from 2(2) have n: "verbs_ok (or_new (nd_wildcard n))" by (intro verbs_ok_or_new) (simp add: verbs_ok_simps[of n])
  show ?case using 2(2) 2(1)[OF n] by (subst (asm) verbs_ok_simps, subst verbs_ok_simps) auto
next
  case (3 ss tmpl n)
  from 3(2) have n: "verbs_ok (or_new (nd_multi n))" by (intro verbs_ok_or_new) (simp add: verbs_ok_simps[of n])
  show ?case using 3(2) 3(1)[OF n] by (subst (asm) verbs_ok_simps, subst verbs_ok_simps) auto
next
  case (5 l ss tmpl n)
  from 5(2) have n: "verbs_ok (or_new (map_of (nd_literals n) l))" by (intro verbs_ok_or_new) (simp add: verbs_ok_simps[of n])
  show ?case using 5(2) 5(1)[OF n] by (subst (asm) verbs_ok_simps, subst verbs_ok_simps) (auto simp: AList.update_conv')
qed simp

lemma dfs_list_sound:
  assumes "dfs_list n orig cs = Some t" and "quiet orig n" and "verbs_ok n" and "cs \<noteq> [] \<Longrightarrow> CHR '':'' \<notin> set (last cs)"
  shows "\<exists>fs. holds n [] fs t \<and> fmatch fs cs"
  using assms
proof (induction cs arbitrary: n)
  case Nil
  have "\<forall>v t. (v, t) \<in> set (nd_verbs n) \<longrightarrow> v \<noteq> []" using Nil(3) by (subst (asm) verbs_ok_simps) auto
  from quiet_leaf[OF Nil(2) _ this] Nil(1) show ?case by (intro exI[of _ "[]"]) simp
next
  case (Cons c cs)
  have sub: "quiet orig m" if "\<And>v fs t. holds m v fs t \<Longrightarrow> holds n v (f # fs) t" for m f
    using Cons.prems(2) that unfolding quiet_def by blast
  have v: "(if cs = [] then verb_loop n c else None) = None" using Cons.prems(4) verb_loop_no_colon by auto
  note ok = Cons.prems(3)[unfolded verbs_ok_simps[of n]]
  have last: "cs \<noteq> [] \<Longrightarrow> CHR '':'' \<notin> set (last cs)" using Cons.prems(4) by auto
  show ?case
  proof (cases "map_of (nd_literals n) c")
    case (Some m)
    have "quiet orig m" by (rule sub[of _ "FLit c"]) (rule holds_lit[OF Some])
    then obtain fs where "holds m [] fs t" "fmatch fs cs" using Cons.IH[of m] Cons.prems(1) Some ok last by auto
    then show ?thesis using Some by (intro exI[of _ "FLit c # fs"]) (auto intro: holds_lit)
  next
    case lit: None
    show ?thesis
    proof (cases "nd_wildcard n")
      case (Some m)
      have "quiet orig m" by (rule sub[of _ "FWild"]) (rule holds_wild[OF Some])
      then obtain fs where "holds m [] fs t" "fmatch fs cs" using Cons.IH[of m] Cons.prems(1) Some lit v ok last by auto
      then show ?thesis using Some by (intro exI[of _ "FWild # fs"]) (auto intro: holds_wild)
    next
      case None
      with Cons.prems(1) lit v obtain m where m: "nd_multi n = Some m" "dfsLeaf m orig = Some t" by (auto split: option.splits)
      have "quiet orig m" by (rule sub[of _ "FMulti"]) (rule holds_multi[OF m(1)])
      moreover have "\<forall>v t. (v, t) \<in> set (nd_verbs m) \<longrightarrow> v \<noteq> []"
        using ok m(1) by (subst (asm) (3) verbs_ok_simps) auto
      ultimately have "holds m [] [] t" using quiet_leaf m(2) by blast
      then show ?thesis using m(1) by (intro exI[of _ "[FMulti]"]) (auto intro: holds_multi)
    qed
  qed
qed

section \<open>Tries built with Add\<close>

definition ht_trie_of :: "(string \<times> ht_template) list \<Rightarrow> ht_trie" where
  "ht_trie_of adds = fold (\<lambda>(mtd, tmpl). ht_Add mtd tmpl) adds ht_NewTrie"

lemma ht_trie_of_snoc: "ht_trie_of (adds @ [(mtd, tmpl)]) = ht_Add mtd tmpl (ht_trie_of adds)"
  by (simp add: ht_trie_of_def)

lemma trie_holds:
  assumes "ht_trie_of adds mtd = Some n"
  shows "verbs_ok n \<and> (\<forall>v fs t. holds n v fs t \<longrightarrow> (mtd, t) \<in> set adds \<and> fs = flatten (ht_segs t) \<and> v = ht_verb t)"
  using assms
proof (induction adds arbitrary: n rule: rev_induct)
  case Nil
  then show ?case by (simp add: ht_trie_of_def ht_NewTrie_def)
next
  case (snoc x adds)
  obtain m tmpl where x: "x = (m, tmpl)" by fastforce
  show ?case
  proof (cases "m = mtd")
    case False
    then have "ht_trie_of adds mtd = Some n" using snoc.prems x by (simp add: ht_trie_of_snoc ht_Add_def)
    from snoc.IH[OF this] show ?thesis by auto
  next
    case True
    then have n: "n = nd_add (ht_segs tmpl) tmpl (or_new (ht_trie_of adds mtd))"
      using snoc.prems x by (simp add: ht_trie_of_snoc ht_Add_def)
    have "verbs_ok (or_new (ht_trie_of adds mtd))" by (rule verbs_ok_or_new) (use snoc.IH in blast)
    moreover have "(mtd, t) \<in> set adds \<and> fs = flatten (ht_segs t) \<and> v = ht_verb t"
      if "holds (or_new (ht_trie_of adds mtd)) v fs t" for v fs t
      using that snoc.IH by (cases "ht_trie_of adds mtd") (auto simp: or_new_def holds_new)
    ultimately show ?thesis using x True verbs_ok_add nd_add_holds unfolding n by fastforce
  qed
qed

lemma split_last_append: "c \<notin> set w \<Longrightarrow> last (SplitByte (r @ w) c) = last (SplitByte r c) @ w"
proof -
  assume w: "c \<notin> set w"
  have "SplitByte (r @ w) c = butlast (SplitByte r c) @ [last (SplitByte r c) @ w]"
  proof (induction r)
    case Nil
    then show ?case using w by (simp add: SplitByte_no_sep)
  next
    case (Cons x r)
    then show ?case by (cases "SplitByte r c") auto
  qed
  then show ?thesis by simp
qed

text \<open>
  C40. A route found for a path without a verb is right: it was added for the method, has no verb, and its
  segments describe the components of the path one by one, literals by the same text, a final multi wildcard
  taking all the rest.
\<close>
theorem ht_Find_sound:
  assumes "ht_Find (ht_trie_of adds) mtd path = Some t"
    and "CHR '':'' \<notin> set (last (SplitByte (TrimPrefix path ''/'') CHR ''/''))"
    and "\<forall>(m, u) \<in> set adds. CHR ''/'' \<notin> set (ht_verb u)"
  shows "(mtd, t) \<in> set adds \<and> ht_verb t = [] \<and> fmatch (flatten (ht_segs t)) (SplitByte (TrimPrefix path ''/'') CHR ''/'')"
proof -
  let ?p = "TrimPrefix path ''/''"
  from assms(1) obtain n where n: "ht_trie_of adds mtd = Some n" and f: "dfs_list n ?p (SplitByte ?p CHR ''/'') = Some t"
    by (auto simp: ht_Find_def ht_dfs_list Let_def split: option.splits)
  note h = trie_holds[OF n]
  have "quiet ?p n" unfolding quiet_def
  proof (intro allI impI conjI)
    fix v fs u assume u: "holds n v fs u"
    with h have "(mtd, u) \<in> set adds" "v = ht_verb u" by blast+
    with assms(3) have nv: "CHR ''/'' \<notin> set v" by fast
    show "v = [] \<or> \<not> HasSuffix ?p (CHR '':'' # v)"
    proof (rule disjI2, rule notI)
      assume "HasSuffix ?p (CHR '':'' # v)"
      then obtain r where "?p = r @ CHR '':'' # v" by (auto simp: HasSuffix_iff)
      with nv have "last (SplitByte ?p CHR ''/'') = last (SplitByte r CHR ''/'') @ CHR '':'' # v"
        using split_last_append[of "CHR ''/''" "CHR '':'' # v" r] by simp
      with assms(2) show False by simp
    qed
    show "ht_verb u = v" using u h by blast
  qed
  from dfs_list_sound[OF f this] h assms(2) obtain fs where "holds n [] fs t" "fmatch fs (SplitByte ?p CHR ''/'')" by blast
  with h show ?thesis by auto
qed

section \<open>Literal routes\<close>

fun lit_get :: "ht_node \<Rightarrow> string list \<Rightarrow> ht_template option" where
  "lit_get n [] = nd_tmpl n"
| "lit_get n (l # ls) = (case map_of (nd_literals n) l of None \<Rightarrow> None | Some m \<Rightarrow> lit_get m ls)"

lemma lit_get_new: "lit_get new_node ls = None"
  by (cases ls) (simp_all add: new_node_def)

lemma lit_get_or_new: "lit_get (or_new (map_of (nd_literals n) l)) ls = lit_get n (l # ls)"
  by (simp add: or_new_def lit_get_new split: option.split)

lemma lit_get_add:
  "lit_get (nd_add ss tmpl n) ls = (if flatten ss = map FLit ls \<and> ht_verb tmpl = [] then Some tmpl else lit_get n ls)"
proof (induction ss tmpl n arbitrary: ls rule: nd_add.induct)
  case (1 tmpl n)
  then show ?case by (cases ls) (auto simp: nd_addVerb_def)
next
  case (2 ss tmpl n)
  then show ?case by (cases ls) auto
next
  case (3 ss tmpl n)
  then show ?case by (cases ls) auto
next
  case (4 path vs ss tmpl n)
  then show ?case by (simp add: flatten_append)
next
  case (5 l ss tmpl n)
  then show ?case by (cases ls) (auto simp: AList.update_conv' lit_get_or_new)
qed

lemma dfs_list_literal: "lit_get n ls = Some t \<Longrightarrow> dfs_list n orig ls = Some t"
  by (induction ls arbitrary: n) (auto simp: dfsLeaf_def split: option.splits)

text \<open>
  Literal routes win and are always found: for a path whose components are the literal segments of a
  template without a verb, Find returns the last template added with these segments, whatever wildcards,
  verbs and longer literals the trie holds besides.
\<close>
theorem ht_Find_literal:
  assumes "flatten (ht_segs tmpl) = map FLit ls" and "ht_verb tmpl = []" and "ls \<noteq> []"
    and "\<forall>l \<in> set ls. CHR ''/'' \<notin> set l"
    and "\<forall>(m, u) \<in> set later. m = mtd \<and> flatten (ht_segs u) = map FLit ls \<longrightarrow> ht_verb u \<noteq> []"
  shows "ht_Find (ht_trie_of (adds @ (mtd, tmpl) # later)) mtd (CHR ''/'' # Join ls ''/'') = Some tmpl"
proof -
  have "\<exists>n. ht_trie_of (adds @ (mtd, tmpl) # later) mtd = Some n \<and> lit_get n ls = Some tmpl"
    using assms(5)
  proof (induction later rule: rev_induct)
    case Nil
    then show ?case using assms(1,2) by (simp add: ht_trie_of_snoc ht_Add_def lit_get_add)
  next
    case (snoc x later)
    obtain m u where x: "x = (m, u)" by fastforce
    from snoc obtain n where "ht_trie_of (adds @ (mtd, tmpl) # later) mtd = Some n" "lit_get n ls = Some tmpl" by auto
    then show ?case using snoc.prems x ht_trie_of_snoc[of "adds @ (mtd, tmpl) # later" m u]
      by (auto simp: ht_Add_def lit_get_add or_new_def)
  qed
  then obtain n where n: "ht_trie_of (adds @ (mtd, tmpl) # later) mtd = Some n" "lit_get n ls = Some tmpl" by blast
  have "SplitByte (Join ls ''/'') CHR ''/'' = ls" using SplitByte_Join assms(3,4) by blast
  moreover have "TrimPrefix (CHR ''/'' # Join ls ''/'') ''/'' = Join ls ''/''" using TrimPrefix_append[of "''/''"] by simp
  ultimately show ?thesis using n dfs_list_literal by (simp add: ht_Find_def ht_dfs_list)
qed

section \<open>Examples\<close>

abbreviation ht_lits :: "string list \<Rightarrow> string \<Rightarrow> ht_template" where
  "ht_lits ls v \<equiv> \<lparr>ht_tmpl = [], ht_segs = map SLiteral ls, ht_verb = v\<rparr>"

definition ex_star :: ht_template where
  "ex_star = \<lparr>ht_tmpl = ''/*/c'', ht_segs = [SWildcard, SLiteral ''c''], ht_verb = []\<rparr>"

theorem ht_Find_sound_witness:
  "fmatch (flatten (ht_segs ex_star)) [''x'', ''c''] \<and> ht_Find (ht_trie_of [(''GET'', ex_star)]) ''GET'' ''/x/c'' = Some ex_star"
proof -
  have f: "ht_Find (ht_trie_of [(''GET'', ex_star)]) ''GET'' ''/x/c'' = Some ex_star" by code_simp
  have s: "SplitByte (TrimPrefix ''/x/c'' ''/'') CHR ''/'' = [''x'', ''c'']" by code_simp
  show ?thesis using ht_Find_sound[OF f] f by (simp add: s ex_star_def)
qed

theorem ht_Find_literal_witness:
  "ht_Find (ht_trie_of ([(''GET'', ex_star)] @ (''GET'', ht_lits [''a'', ''c''] []) # [])) ''GET'' ''/a/c'' = Some (ht_lits [''a'', ''c''] [])"
  using ht_Find_literal[of "ht_lits [''a'', ''c''] []" "[''a'', ''c'']" "[]" "''GET''" "[(''GET'', ex_star)]"] by simp

text \<open>
  Find does not backtrack: a literal first component commits the search to its subtree. With the
  templates /a/b and /*/c, the path /a/c is not found although the second template describes it, and it is
  found again without the first one.
\<close>
theorem ht_Find_no_backtracking:
  "ht_Find (ht_trie_of [(''GET'', ht_lits [''a'', ''b''] []), (''GET'', ex_star)]) ''GET'' ''/a/c'' = None
   \<and> ht_Find (ht_trie_of [(''GET'', ex_star)]) ''GET'' ''/a/c'' = Some ex_star
   \<and> fmatch (flatten (ht_segs ex_star)) [''a'', ''c'']"
  by code_simp

text \<open>
  The search for a verb strips one colon after the other but compares only the last piece it stripped:
  a path like /a:b:c, whose verb is c, is answered with the template /a:b.
\<close>
theorem ht_Find_wrong_verb:
  "ht_Find (ht_trie_of [(''GET'', ht_lits [''a''] ''b'')]) ''GET'' ''/a:b:c'' = Some (ht_lits [''a''] ''b'')"
  by code_simp

end
