(* ===== verification/Proto.thy ===== *)
theory Proto
  imports Prelude "HOL-Library.Word"
begin

text \<open>
  The messages that transcoding works on, as protobuf's reflection API (protoreflect) documents them:
  descriptors of fields, values, and messages as the stored values of their fields by name (without presence a
  stored zero value is the same as none). The descriptors of message types are the parameter \<open>schema\<close>. References into a message (Mutable) become updates of the message that
  contains them. Floating point numbers are a parameter type.
\<close>

section \<open>Descriptors\<close>

datatype kind =
    BoolKind | EnumKind string "(string \<times> int) list"
  | Int32Kind | Sint32Kind | Sfixed32Kind | Int64Kind | Sint64Kind | Sfixed64Kind
  | Uint32Kind | Fixed32Kind | Uint64Kind | Fixed64Kind
  | FloatKind | DoubleKind | StringKind | BytesKind
  | MessageKind string | GroupKind string

text \<open>
  A field: \<open>fd_map\<close> has the kinds of keys and values of a map field, which is repeated and whose kind is
  that of its entry message; \<open>fd_oneof\<close> is the oneof that contains the field, and for a proto3 optional
  field its synthetic oneof.
\<close>

record field_desc =
  fd_name :: string
  fd_json :: string
  fd_text :: string
  fd_kind :: kind
  fd_repeated :: bool
  fd_map :: "(kind \<times> kind) option"
  fd_oneof :: "string option"

type_synonym schema = "string \<Rightarrow> field_desc list"

fun kind_message :: "kind \<Rightarrow> string option" where
  "kind_message (MessageKind t) = Some t"
| "kind_message (GroupKind t) = Some t"
| "kind_message _ = None"

definition ByName :: "field_desc list \<Rightarrow> string \<Rightarrow> field_desc option" where
  "ByName fds n = find (\<lambda>fd. fd_name fd = n) fds"

definition ByJSONName :: "field_desc list \<Rightarrow> string \<Rightarrow> field_desc option" where
  "ByJSONName fds n = find (\<lambda>fd. fd_json fd = n) fds"

definition ByTextName :: "field_desc list \<Rightarrow> string \<Rightarrow> field_desc option" where
  "ByTextName fds n = find (\<lambda>fd. fd_text fd = n) fds"

definition IsList :: "field_desc \<Rightarrow> bool" where
  "IsList fd = (fd_repeated fd \<and> fd_map fd = None)"

definition IsMap :: "field_desc \<Rightarrow> bool" where
  "IsMap fd = (fd_map fd \<noteq> None)"

section \<open>Messages\<close>

datatype 'x pval =
    VBool bool | VEnum int
  | VInt32 "32 word" | VInt64 "64 word" | VUint32 "32 word" | VUint64 "64 word"
  | VFloat 'x | VDouble 'x | VString string | VBytes string
  | VMsg "'x pmsg" | VList "'x pval list" | VMap "('x pval \<times> 'x pval) list"
and 'x pmsg = PMsg (pm_type: string) (pm_fields: "(string \<times> 'x pval) list")

definition pm_lookup :: "'x pmsg \<Rightarrow> string \<Rightarrow> 'x pval option" where
  "pm_lookup m n = map_of (pm_fields m) n"

definition empty_msg :: "string \<Rightarrow> 'x pmsg" where
  "empty_msg t = PMsg t []"

text \<open>Set of a field of a oneof clears the other fields of the oneof.\<close>

definition other_in_oneof :: "schema \<Rightarrow> string \<Rightarrow> field_desc \<Rightarrow> string \<Rightarrow> bool" where
  "other_in_oneof S t fd n =
     (n \<noteq> fd_name fd \<and> fd_oneof fd \<noteq> None \<and> list_ex (\<lambda>fd'. fd_name fd' = n \<and> fd_oneof fd' = fd_oneof fd) (S t))"

definition pm_Set :: "schema \<Rightarrow> field_desc \<Rightarrow> 'x pval \<Rightarrow> 'x pmsg \<Rightarrow> 'x pmsg" where
  "pm_Set S fd v m =
     PMsg (pm_type m) (AList.update (fd_name fd) v (filter (\<lambda>(n, u). \<not> other_in_oneof S (pm_type m) fd n) (pm_fields m)))"

text \<open>WhichOneof: the field of the oneof that is populated.\<close>

definition WhichOneof :: "schema \<Rightarrow> string \<Rightarrow> 'x pmsg \<Rightarrow> field_desc option" where
  "WhichOneof S f m = find (\<lambda>fd. fd_oneof fd = Some f \<and> pm_lookup m (fd_name fd) \<noteq> None) (S (pm_type m))"

text \<open>What Mutable gives for a field: its value, or a new empty one.\<close>

definition mutable_msg :: "field_desc \<Rightarrow> 'x pmsg \<Rightarrow> 'x pmsg" where
  "mutable_msg fd m =
     (case pm_lookup m (fd_name fd) of
        Some (VMsg sub) \<Rightarrow> sub
      | _ \<Rightarrow> empty_msg (case kind_message (fd_kind fd) of Some t \<Rightarrow> t | None \<Rightarrow> []))"

definition mutable_list :: "field_desc \<Rightarrow> 'x pmsg \<Rightarrow> 'x pval list" where
  "mutable_list fd m = (case pm_lookup m (fd_name fd) of Some (VList vs) \<Rightarrow> vs | _ \<Rightarrow> [])"

definition mutable_map :: "field_desc \<Rightarrow> 'x pmsg \<Rightarrow> ('x pval \<times> 'x pval) list" where
  "mutable_map fd m = (case pm_lookup m (fd_name fd) of Some (VMap kvs) \<Rightarrow> kvs | _ \<Rightarrow> [])"

section \<open>Laws\<close>

lemma pm_type_Set [simp]: "pm_type (pm_Set S fd v m) = pm_type m"
  by (simp add: pm_Set_def)

lemma map_of_filter_key: "map_of (filter (\<lambda>(n, v). P n) fs) k = (if P k then map_of fs k else None)"
  by (induction fs) auto

lemma other_in_oneof_self [simp]: "\<not> other_in_oneof S t fd (fd_name fd)"
  by (simp add: other_in_oneof_def)

lemma other_in_oneof_None: "fd_oneof fd = None \<Longrightarrow> \<not> other_in_oneof S t fd n"
  by (simp add: other_in_oneof_def)

lemma pm_lookup_Set:
  "pm_lookup (pm_Set S fd v m) n =
    (if n = fd_name fd then Some v else if other_in_oneof S (pm_type m) fd n then None else pm_lookup m n)"
  by (simp add: pm_Set_def pm_lookup_def AList.update_conv' map_of_filter_key[where P = "\<lambda>n. \<not> other_in_oneof S (pm_type m) fd n"])

lemma ByName_SomeD: "ByName fds n = Some fd \<Longrightarrow> fd \<in> set fds \<and> fd_name fd = n"
  by (auto simp: ByName_def find_Some_iff)

lemma ByJSONName_SomeD: "ByJSONName fds n = Some fd \<Longrightarrow> fd \<in> set fds \<and> fd_json fd = n"
  by (auto simp: ByJSONName_def find_Some_iff)

lemma ByName_distinct:
  assumes "distinct (map fd_name fds)" and "fd \<in> set fds"
  shows "ByName fds (fd_name fd) = Some fd"
  using assms unfolding ByName_def by (induction fds) (auto simp: image_iff)

end
