(* ===== verification/Timeout.thy ===== *)
theory Timeout
  imports Prelude "HOL-Library.Word"
begin

text \<open>
  The grpc-timeout header (decodeTimeout and timeoutUnitToDuration of grpcadapter/forwarder.go). A
  time.Duration is a signed 64-bit count of nanoseconds; the multiplication wraps as it does in Go.
  strconv.ParseInt is modelled for base 10: an optional sign and at least one digit.
\<close>

type_synonym Duration = "64 word"

definition MaxInt64 :: int where
  "MaxInt64 = 2 ^ 63 - 1"

definition digit_val :: "char \<Rightarrow> int option" where
  "digit_val c = (let n = of_char c :: int in if 48 \<le> n \<and> n \<le> 57 then Some (n - 48) else None)"

fun parse_digits :: "int \<Rightarrow> string \<Rightarrow> int option" where
  "parse_digits acc [] = Some acc"
| "parse_digits acc (c # cs) =
     (case digit_val c of None \<Rightarrow> None | Some d \<Rightarrow> parse_digits (acc * 10 + d) cs)"

definition ParseInt64 :: "string \<Rightarrow> int option" where
  "ParseInt64 s =
     (let (neg, ds) = (case s of [] \<Rightarrow> (False, [])
            | c # cs \<Rightarrow> if c = CHR ''-'' then (True, cs) else if c = CHR ''+'' then (False, cs) else (False, s))
      in if ds = [] then None
         else case parse_digits 0 ds of
                None \<Rightarrow> None
              | Some n \<Rightarrow>
                  let v = (if neg then - n else n)
                  in if - (2 ^ 63) \<le> v \<and> v \<le> MaxInt64 then Some v else None)"

definition Hour :: int where "Hour = 3600000000000"
definition Minute :: int where "Minute = 60000000000"
definition Second :: int where "Second = 1000000000"
definition Millisecond :: int where "Millisecond = 1000000"
definition Microsecond :: int where "Microsecond = 1000"

definition timeoutUnitToDuration :: "char \<Rightarrow> int option" where
  "timeoutUnitToDuration u =
     (if u = CHR ''H'' then Some Hour
      else if u = CHR ''M'' then Some Minute
      else if u = CHR ''S'' then Some Second
      else if u = CHR ''m'' then Some Millisecond
      else if u = CHR ''u'' then Some Microsecond
      else if u = CHR ''n'' then Some 1
      else None)"

definition decodeTimeout :: "string \<Rightarrow> Duration option" where
  "decodeTimeout s =
     (let size = length s
      in if size < 2 \<or> size > 9 then None
         else case timeoutUnitToDuration (s ! (size - 1)) of
                None \<Rightarrow> None
              | Some d \<Rightarrow>
                  (case ParseInt64 (take (size - 1) s) of
                     None \<Rightarrow> None
                   | Some t \<Rightarrow>
                       if d = Hour \<and> t > MaxInt64 div Hour then Some (word_of_int MaxInt64)
                       else Some (word_of_int d * word_of_int t)))"

section \<open>Numbers\<close>

definition is_number :: "string \<Rightarrow> bool" where
  "is_number s \<longleftrightarrow> s \<noteq> [] \<and> (\<forall>c \<in> set s. digit_val c \<noteq> None)"

text \<open>The value of a string of digits, as a sum of powers of ten.\<close>

fun decimal :: "string \<Rightarrow> int" where
  "decimal [] = 0"
| "decimal (c # cs) = the (digit_val c) * 10 ^ length cs + decimal cs"

lemma digit_val_bounds: "digit_val c = Some d \<Longrightarrow> 0 \<le> d \<and> d \<le> 9"
  by (auto simp: digit_val_def Let_def split: if_splits)

lemma parse_digits_decimal:
  assumes "\<forall>c \<in> set s. digit_val c \<noteq> None"
  shows "parse_digits acc s = Some (acc * 10 ^ length s + decimal s)"
  using assms by (induction s arbitrary: acc) (auto simp: algebra_simps)

lemma decimal_bounds:
  assumes "\<forall>c \<in> set s. digit_val c \<noteq> None"
  shows "0 \<le> decimal s \<and> decimal s < 10 ^ length s"
  using assms
proof (induction s)
  case (Cons c s)
  then obtain d where d: "digit_val c = Some d" by auto
  then have "0 \<le> d" "d \<le> 9" using digit_val_bounds by auto
  then have "d * 10 ^ length s \<le> 9 * 10 ^ length s" "0 \<le> d * 10 ^ length s"
    using mult_right_mono[of d 9 "10 ^ length s"] by simp_all
  moreover have "0 \<le> decimal s" "decimal s < 10 ^ length s" using Cons by auto
  ultimately show ?case unfolding decimal.simps d option.sel length_Cons power_Suc by linarith
qed simp

lemma ParseInt64_number:
  assumes "is_number s" and "length s \<le> 8"
  shows "ParseInt64 s = Some (decimal s)"
proof -
  have ds: "\<forall>c \<in> set s. digit_val c \<noteq> None" and ne: "s \<noteq> []" using assms(1) by (auto simp: is_number_def)
  have "hd s \<noteq> CHR ''-''" "hd s \<noteq> CHR ''+''" using ds ne by (cases s; auto simp: digit_val_def)+
  then have split: "(case s of [] \<Rightarrow> (False, []) | c # cs \<Rightarrow> if c = CHR ''-'' then (True, cs)
      else if c = CHR ''+'' then (False, cs) else (False, s)) = (False, s)"
    using ne by (cases s) auto
  have "(10::int) ^ length s \<le> 10 ^ 8" using assms(2) by (intro power_increasing) auto
  then have "decimal s \<le> MaxInt64" "0 \<le> decimal s" using decimal_bounds[OF ds] by (auto simp: MaxInt64_def)
  then show ?thesis
    unfolding ParseInt64_def split using ne parse_digits_decimal[OF ds, of 0] by simp
qed

lemma unit_cases:
  assumes "timeoutUnitToDuration u = Some d"
  shows "d \<in> {Hour, Minute, Second, Millisecond, Microsecond, 1}"
  using assms by (auto simp: timeoutUnitToDuration_def split: if_splits)

section \<open>Properties\<close>

text \<open>
  A well-formed timeout (up to eight digits and a unit, as the gRPC protocol has it) is decoded to
  its exact value in nanoseconds, and where the value does not fit into 64 bits to the largest
  duration: the multiplication never wraps.
\<close>
theorem decodeTimeout_exact:
  assumes "is_number ds" and "length ds \<le> 8" and "timeoutUnitToDuration u = Some d"
  shows "\<exists>w. decodeTimeout (ds @ [u]) = Some w \<and> sint w = min (d * decimal ds) MaxInt64"
proof -
  have ne: "ds \<noteq> []" and dig: "\<forall>c \<in> set ds. digit_val c \<noteq> None" using assms(1) by (auto simp: is_number_def)
  have size: "length (ds @ [u]) = length ds + 1" "1 \<le> length ds" using ne by (auto simp: Suc_le_eq)
  have "(10::int) ^ length ds \<le> 10 ^ 8" using assms(2) by (intro power_increasing) auto
  then have t: "0 \<le> decimal ds" "decimal ds < 100000000" using decimal_bounds[OF dig] by auto
  have dec: "decodeTimeout (ds @ [u]) = (if d = Hour \<and> decimal ds > MaxInt64 div Hour then Some (word_of_int MaxInt64)
      else Some (word_of_int (d * decimal ds)))"
    using size ne assms by (simp add: decodeTimeout_def ParseInt64_number nth_append)
  have big: "sint (word_of_int MaxInt64 :: 64 word) = MaxInt64"
    by (simp add: MaxInt64_def sint_sbintrunc' signed_take_bit_int_eq_self)
  have small: "sint (word_of_int x :: 64 word) = x" if "0 \<le> x" "x \<le> MaxInt64" for x
    using that by (simp add: sint_sbintrunc' signed_take_bit_int_eq_self MaxInt64_def)
  show ?thesis
  proof (cases "d = Hour \<and> decimal ds > MaxInt64 div Hour")
    case True
    then have "MaxInt64 \<le> d * decimal ds" by (simp add: MaxInt64_def Hour_def)
    then show ?thesis using True dec big by (simp add: min_def)
  next
    case False
    then have "0 \<le> d * decimal ds \<and> d * decimal ds \<le> MaxInt64"
      using t unit_cases[OF assms(3)]
      by (auto simp: MaxInt64_def Hour_def Minute_def Second_def Millisecond_def Microsecond_def)
    then have "sint (word_of_int (d * decimal ds) :: 64 word) = d * decimal ds" by (intro small) auto
    moreover have "decodeTimeout (ds @ [u]) = Some (word_of_int (d * decimal ds))" using dec False by presburger
    moreover have "min (d * decimal ds) MaxInt64 = d * decimal ds"
      using \<open>0 \<le> d * decimal ds \<and> d * decimal ds \<le> MaxInt64\<close> by simp
    ultimately show ?thesis by metis
  qed
qed

theorem decodeTimeout_exact_witness:
  "(\<exists>w. decodeTimeout ''99999999H'' = Some w \<and> sint w = MaxInt64)
    \<and> (\<exists>w. decodeTimeout ''250m'' = Some w \<and> sint w = 250000000)"
  using decodeTimeout_exact[of "''99999999''" "CHR ''H''" Hour] decodeTimeout_exact[of "''250''" "CHR ''m''" Millisecond]
  by (simp add: is_number_def digit_val_def timeoutUnitToDuration_def Hour_def MaxInt64_def Millisecond_def)

text \<open>
  decodeTimeout also accepts a sign, which the gRPC protocol does not allow: -1S is a negative
  duration, a deadline already passed, and for negative hours the multiplication wraps around, so that
  -9999999H is a timeout of more than 28 years.
\<close>
theorem decodeTimeout_signed:
  "(\<exists>w. decodeTimeout ''-1S'' = Some w \<and> sint w = - 1000000000)
   \<and> decodeTimeout ''+5S'' = decodeTimeout ''5S''
   \<and> (\<exists>w. decodeTimeout ''-9999999H'' = Some w \<and> sint w = 893491747419103232)"
proof (intro conjI)
  show "\<exists>w. decodeTimeout ''-1S'' = Some w \<and> sint w = - 1000000000"
    by (simp add: decodeTimeout_def ParseInt64_def digit_val_def timeoutUnitToDuration_def Second_def Hour_def
        MaxInt64_def sint_sbintrunc' signed_take_bit_int_eq_self)
  show "decodeTimeout ''+5S'' = decodeTimeout ''5S''"
    by (simp add: decodeTimeout_def ParseInt64_def digit_val_def timeoutUnitToDuration_def)
  show "\<exists>w. decodeTimeout ''-9999999H'' = Some w \<and> sint w = 893491747419103232"
    by (simp add: decodeTimeout_def ParseInt64_def digit_val_def timeoutUnitToDuration_def Hour_def MaxInt64_def
        signed_take_bit_int_eq_self)
qed

end
