(* ===== verification/Md_Filter.thy ===== *)
theory Md_Filter
  imports Prelude
begin

text \<open>
  The metadata filter of grpcadapter/metadata.go, with ascii.EqualFold (internal/ascii).

  metadata.MD belongs to the grpc package: the record \<open>md_ops\<close> has its operations as parameters and
  \<open>md_laws\<close> states what their documentation says (keys are compared in lower case, Set without values
  changes nothing). base64 is modelled as the standard library decodes it, new lines ignored.
\<close>

section \<open>ASCII case folding\<close>

definition ascii_lower :: "char \<Rightarrow> char" where
  "ascii_lower b = (if 65 \<le> (of_char b :: nat) \<and> (of_char b :: nat) \<le> 90 then char_of ((of_char b :: nat) + 32) else b)"

definition to_lower :: "string \<Rightarrow> string" where
  "to_lower s = map ascii_lower s"

fun EqualFold_from :: "nat \<Rightarrow> string \<Rightarrow> string \<Rightarrow> bool" where
  "EqualFold_from 0 s t = True"
| "EqualFold_from (Suc n) s t =
     (if ascii_lower (hd s) \<noteq> ascii_lower (hd t) then False else EqualFold_from n (tl s) (tl t))"

definition EqualFold :: "string \<Rightarrow> string \<Rightarrow> bool" where
  "EqualFold s t = (if length s \<noteq> length t then False else EqualFold_from (length s) s t)"

lemma EqualFold_iff: "EqualFold s t \<longleftrightarrow> to_lower s = to_lower t"
proof -
  have "length s = length t \<Longrightarrow> EqualFold_from (length s) s t \<longleftrightarrow> to_lower s = to_lower t"
    by (induction s t rule: list_induct2) (auto simp: to_lower_def)
  moreover have "to_lower s = to_lower t \<Longrightarrow> length s = length t"
    unfolding to_lower_def by (metis length_map)
  ultimately show ?thesis by (auto simp: EqualFold_def)
qed

section \<open>base64\<close>

definition b64_alphabet :: string where
  "b64_alphabet = ''ABCDEFGHIJKLMNOPQRSTUVWXYZabcdefghijklmnopqrstuvwxyz0123456789+/''"

fun index_of :: "char \<Rightarrow> string \<Rightarrow> nat option" where
  "index_of c [] = None"
| "index_of c (d # ds) = (if c = d then Some 0 else map_option Suc (index_of c ds))"

definition b64_val :: "char \<Rightarrow> nat option" where
  "b64_val c = index_of c b64_alphabet"

definition b64_bytes :: "nat \<Rightarrow> nat \<Rightarrow> nat \<Rightarrow> nat \<Rightarrow> char list" where
  "b64_bytes a b c d =
     (let n = a * 262144 + b * 4096 + c * 64 + d
      in [char_of (n div 65536), char_of (n div 256 mod 256), char_of (n mod 256)])"

fun b64_decode :: "bool \<Rightarrow> string \<Rightarrow> string option" where
  "b64_decode padded [] = Some []"
| "b64_decode padded [a] = None"
| "b64_decode padded [a, b] =
     (if padded then None
      else case (b64_val a, b64_val b) of
             (Some x, Some y) \<Rightarrow> Some (take 1 (b64_bytes x y 0 0)) | _ \<Rightarrow> None)"
| "b64_decode padded [a, b, c] =
     (if padded then None
      else case (b64_val a, b64_val b, b64_val c) of
             (Some x, Some y, Some z) \<Rightarrow> Some (take 2 (b64_bytes x y z 0)) | _ \<Rightarrow> None)"
| "b64_decode padded (a # b # c # d # rest) =
     (if padded \<and> rest = [] \<and> d = CHR ''='' then
        (case (b64_val a, b64_val b) of
           (Some x, Some y) \<Rightarrow>
             if c = CHR ''='' then Some (take 1 (b64_bytes x y 0 0))
             else (case b64_val c of Some z \<Rightarrow> Some (take 2 (b64_bytes x y z 0)) | None \<Rightarrow> None)
         | _ \<Rightarrow> None)
      else case (b64_val a, b64_val b, b64_val c, b64_val d) of
             (Some x, Some y, Some z, Some w) \<Rightarrow> map_option ((@) (b64_bytes x y z w)) (b64_decode padded rest)
           | _ \<Rightarrow> None)"

definition decodeBinHeader :: "string \<Rightarrow> string option" where
  "decodeBinHeader v =
     (let v' = filter (\<lambda>c. c \<noteq> CHR 0x0A \<and> c \<noteq> CHR 0x0D) v
      in if length v mod 4 = 0 then b64_decode True v' else b64_decode False v')"

section \<open>The filter\<close>

record 'md md_ops =
  md_empty :: 'md
  md_Get :: "'md \<Rightarrow> string \<Rightarrow> string list"
  md_Set :: "string \<Rightarrow> string list \<Rightarrow> 'md \<Rightarrow> 'md"
  md_Delete :: "string \<Rightarrow> 'md \<Rightarrow> 'md"

definition md_laws :: "'md md_ops \<Rightarrow> bool" where
  "md_laws M \<longleftrightarrow>
     (\<forall>k. md_Get M (md_empty M) k = [])
   \<and> (\<forall>m k vs k'. md_Get M (md_Set M k vs m) k' =
        (if to_lower k' = to_lower k \<and> vs \<noteq> [] then vs else md_Get M m k'))
   \<and> (\<forall>m k k'. to_lower k = to_lower k' \<longrightarrow> md_Get M m k = md_Get M m k')
   \<and> (\<forall>m k k'. md_Get M (md_Delete M k m) k' = (if to_lower k' = to_lower k then [] else md_Get M m k'))"

record ProxyMDFilterOpts =
  AllowRequestMD :: "string list"
  PrefixRequestMD :: string
  AllowResponseMD :: "string list"
  PrefixResponseMD :: string
  AllowTrailerMD :: "string list"
  PrefixTrailerMD :: string

definition grpcGatewayMetadataPrefix :: string where
  "grpcGatewayMetadataPrefix = ''grpc-metadata-''"
definition metadataTimeout :: string where
  "metadataTimeout = ''grpc-timeout''"
definition metadataBinSuffix :: string where
  "metadataBinSuffix = ''-bin''"

text \<open>The key under which an allowed request key is forwarded, and the values it is given.\<close>

definition request_key :: "string \<Rightarrow> string \<Rightarrow> string" where
  "request_key prefix k =
     (if length k > length grpcGatewayMetadataPrefix
         \<and> EqualFold (take (length grpcGatewayMetadataPrefix) k) grpcGatewayMetadataPrefix
      then drop (length grpcGatewayMetadataPrefix) k else prefix @ k)"

definition request_values :: "string \<Rightarrow> string list \<Rightarrow> string list" where
  "request_values k v =
     (if length k > length metadataBinSuffix
         \<and> EqualFold (drop (length k - length metadataBinSuffix) k) metadataBinSuffix
      then List.map_filter decodeBinHeader v else v)"

fun filterRequest_loop :: "'md md_ops \<Rightarrow> 'md \<Rightarrow> string \<Rightarrow> string list \<Rightarrow> 'md \<Rightarrow> 'md" where
  "filterRequest_loop M md prefix [] out = out"
| "filterRequest_loop M md prefix (k # allow) out =
     (let v = md_Get M md k
      in if length v < 1 then filterRequest_loop M md prefix allow out
         else let k' = request_key prefix k
              in filterRequest_loop M md prefix allow (md_Set M k' (request_values k' v) out))"

definition filterRequest :: "'md md_ops \<Rightarrow> 'md \<Rightarrow> string list \<Rightarrow> string \<Rightarrow> 'md" where
  "filterRequest M md allow prefix = filterRequest_loop M md prefix allow (md_empty M)"

fun filterResponse_loop :: "'md md_ops \<Rightarrow> 'md \<Rightarrow> string \<Rightarrow> string list \<Rightarrow> 'md \<Rightarrow> 'md" where
  "filterResponse_loop M md prefix [] out = out"
| "filterResponse_loop M md prefix (k # allow) out =
     (let v = md_Get M md k
      in filterResponse_loop M md prefix allow (if length v > 0 then md_Set M (prefix @ k) v out else out))"

definition filterResponse :: "'md md_ops \<Rightarrow> 'md \<Rightarrow> string list \<Rightarrow> string \<Rightarrow> 'md" where
  "filterResponse M md allow prefix = filterResponse_loop M md prefix allow (md_empty M)"

definition FilterRequestMD :: "'md md_ops \<Rightarrow> ProxyMDFilterOpts \<Rightarrow> 'md \<Rightarrow> 'md" where
  "FilterRequestMD M opts md =
     (let out = filterRequest M md (AllowRequestMD opts) (PrefixRequestMD opts);
          v = md_Get M md metadataTimeout
      in if length v > 0 then md_Set M metadataTimeout v out else out)"

definition FilterResponseMD :: "'md md_ops \<Rightarrow> ProxyMDFilterOpts \<Rightarrow> 'md \<Rightarrow> 'md" where
  "FilterResponseMD M opts md = filterResponse M md (AllowResponseMD opts) (PrefixResponseMD opts)"

definition FilterTrailerMD :: "'md md_ops \<Rightarrow> ProxyMDFilterOpts \<Rightarrow> 'md \<Rightarrow> 'md" where
  "FilterTrailerMD M opts md = filterResponse M md (AllowTrailerMD opts) (PrefixTrailerMD opts)"

section \<open>A concrete metadata package\<close>

definition map_md :: "(string \<Rightarrow> string list) md_ops" where
  "map_md = \<lparr>md_empty = (\<lambda>_. []), md_Get = (\<lambda>m k. m (to_lower k)),
     md_Set = (\<lambda>k vs m. if vs = [] then m else m(to_lower k := vs)), md_Delete = (\<lambda>k m. m(to_lower k := []))\<rparr>"

lemma map_md_laws: "md_laws map_md"
  by (auto simp: md_laws_def map_md_def)

section \<open>base64 round trip\<close>

text \<open>The encoder of RFC 4648, with or without padding: what a gRPC peer sends for a binary header.\<close>

definition b64_char :: "nat \<Rightarrow> char" where
  "b64_char n = b64_alphabet ! n"

fun b64_encode :: "bool \<Rightarrow> string \<Rightarrow> string" where
  "b64_encode padded [] = []"
| "b64_encode padded [x] =
     (let n = (of_char x :: nat) * 65536
      in [b64_char (n div 262144), b64_char (n div 4096 mod 64)] @ (if padded then ''=='' else []))"
| "b64_encode padded [x, y] =
     (let n = (of_char x :: nat) * 65536 + of_char y * 256
      in [b64_char (n div 262144), b64_char (n div 4096 mod 64), b64_char (n div 64 mod 64)] @ (if padded then ''='' else []))"
| "b64_encode padded (x # y # z # rest) =
     (let n = (of_char x :: nat) * 65536 + of_char y * 256 + of_char z
      in [b64_char (n div 262144), b64_char (n div 4096 mod 64), b64_char (n div 64 mod 64), b64_char (n mod 64)]
         @ b64_encode padded rest)"

lemma b64_table:
  "\<forall>n \<in> set [0..<64]. b64_val (b64_char n) = Some n \<and> b64_char n \<noteq> CHR ''='' \<and> b64_char n \<noteq> CHR 0x0A \<and> b64_char n \<noteq> CHR 0x0D"
  by code_simp

lemma b64_val_char:
  assumes "n < 64"
  shows "b64_val (b64_char n) = Some n" "b64_char n \<noteq> CHR ''=''" "b64_char n \<noteq> CHR 0x0A" "b64_char n \<noteq> CHR 0x0D"
  using b64_table assms by auto

lemma sextets:
  fixes n :: nat
  assumes "n < 16777216"
  shows "n div 262144 < 64" "n div 4096 mod 64 < 64" "n div 64 mod 64 < 64" "n mod 64 < 64"
    and "n div 262144 * 262144 + n div 4096 mod 64 * 4096 + n div 64 mod 64 * 64 + n mod 64 = n"
proof -
  show "n div 262144 < 64" using assms by (simp add: less_mult_imp_div_less)
  show "n div 4096 mod 64 < 64" "n div 64 mod 64 < 64" "n mod 64 < 64" by simp_all
  define a where "a = n div 64"
  define b where "b = a div 64"
  have q: "n div 4096 = b" "n div 262144 = b div 64" "n div 64 = a"
    by (simp_all add: a_def b_def div_mult2_eq[symmetric])
  have "n = a * 64 + n mod 64" "a = b * 64 + a mod 64" "b = b div 64 * 64 + b mod 64"
    by (simp_all add: a_def b_def)
  then show "n div 262144 * 262144 + n div 4096 mod 64 * 4096 + n div 64 mod 64 * 64 + n mod 64 = n"
    unfolding q by linarith
qed

lemma of_char_less: "(of_char c :: nat) < 256"
  by simp

lemma digits3:
  fixes x y z b :: nat
  assumes "y < b" "z < b"
  shows "(x * (b * b) + y * b + z) div (b * b) = x" "(x * (b * b) + y * b + z) div b mod b = y"
    "(x * (b * b) + y * b + z) mod b = z"
proof -
  have e: "x * (b * b) + y * b + z = (x * b + y) * b + z" by (simp add: algebra_simps)
  have d: "((x * b + y) * b + z) div b = x * b + y" using assms by simp
  show "(x * (b * b) + y * b + z) div b mod b = y" unfolding e d using assms by simp
  show "(x * (b * b) + y * b + z) mod b = z" unfolding e using assms by simp
  show "(x * (b * b) + y * b + z) div (b * b) = x" unfolding e div_mult2_eq d using assms by simp
qed

lemma low_zero:
  fixes x y :: nat
  shows "x * 65536 div 64 mod 64 = 0" "x * 65536 mod 64 = 0" "(x * 65536 + y * 256) mod 64 = 0"
proof -
  have "x * 65536 = (x * 16 * 64) * 64" "x * 65536 + y * 256 = (x * 1024 + y * 4) * 64" by simp_all
  then show "x * 65536 div 64 mod 64 = 0" "x * 65536 mod 64 = 0" "(x * 65536 + y * 256) mod 64 = 0"
    by (simp_all only: nonzero_mult_div_cancel_right mod_mult_self2_is_0 zero_neq_numeral[symmetric] not_False_eq_True)
qed

lemma b64_bytes_value:
  assumes "a * 262144 + b * 4096 + c * 64 + d = of_char x * 65536 + of_char y * 256 + (of_char z :: nat)"
  shows "b64_bytes a b c d = [x, y, z]"
proof -
  let ?x = "of_char x :: nat" and ?y = "of_char y :: nat" and ?z = "of_char z :: nat"
  have "?x < 256" "?y < 256" "?z < 256" by (rule of_char_less)+
  then have "(?x * 65536 + ?y * 256 + ?z) div 65536 = ?x" "(?x * 65536 + ?y * 256 + ?z) div 256 mod 256 = ?y"
    "(?x * 65536 + ?y * 256 + ?z) mod 256 = ?z"
    using digits3[of ?y 256 ?z ?x] by simp_all
  then show ?thesis unfolding b64_bytes_def Let_def assms by (simp only: char_of_char)
qed

lemma b64_roundtrip_raw:
  "b64_decode padded (b64_encode padded bs) = Some bs"
proof (induction padded bs rule: b64_encode.induct)
  case (2 padded x)
  let ?n = "(of_char x :: nat) * 65536"
  have n: "?n < 16777216" using of_char_less[of x] by simp
  have z: "?n div 64 mod 64 = 0" "?n mod 64 = 0" using low_zero(1,2)[of "of_char x"] by simp_all
  have "b64_bytes (?n div 262144) (?n div 4096 mod 64) 0 0 = [x, CHR 0x00, CHR 0x00]"
    by (rule b64_bytes_value) (use sextets(5)[OF n] z in simp)
  then show ?case using b64_val_char(1)[OF sextets(1)[OF n]] b64_val_char(1)[OF sextets(2)[OF n]]
    by (cases padded) (simp_all add: Let_def)
next
  case (3 padded x y)
  let ?n = "(of_char x :: nat) * 65536 + of_char y * 256"
  have n: "?n < 16777216" using of_char_less[of x] of_char_less[of y] by linarith
  have z: "?n mod 64 = 0" using low_zero(3)[of "of_char x" "of_char y"] by simp
  have "b64_bytes (?n div 262144) (?n div 4096 mod 64) (?n div 64 mod 64) 0 = [x, y, CHR 0x00]"
    by (rule b64_bytes_value) (use sextets(5)[OF n] z in simp)
  then show ?case using b64_val_char[OF sextets(1)[OF n]] b64_val_char[OF sextets(2)[OF n]] b64_val_char[OF sextets(3)[OF n]]
    by (cases padded) (simp_all add: Let_def)
next
  case (4 padded x y z rest)
  let ?n = "(of_char x :: nat) * 65536 + of_char y * 256 + of_char z"
  have n: "?n < 16777216" using of_char_less[of x] of_char_less[of y] of_char_less[of z] by linarith
  have "b64_bytes (?n div 262144) (?n div 4096 mod 64) (?n div 64 mod 64) (?n mod 64) = [x, y, z]"
    by (rule b64_bytes_value) (use sextets(5)[OF n] in simp)
  then show ?case using 4 b64_val_char[OF sextets(1)[OF n]] b64_val_char[OF sextets(2)[OF n]]
      b64_val_char[OF sextets(3)[OF n]] b64_val_char[OF sextets(4)[OF n]]
    by (simp add: Let_def)
qed simp

section \<open>Properties\<close>

lemma b64_encode_chars: "c \<in> set (b64_encode padded bs) \<Longrightarrow> c \<noteq> CHR 0x0A \<and> c \<noteq> CHR 0x0D"
proof (induction padded bs rule: b64_encode.induct)
  case (2 padded x)
  have n: "(of_char x :: nat) * 65536 < 16777216" using of_char_less[of x] by simp
  show ?case using 2 b64_val_char(3,4)[OF sextets(1)[OF n]] b64_val_char(3,4)[OF sextets(2)[OF n]]
    by (auto simp: Let_def split: if_splits)
next
  case (3 padded x y)
  have n: "(of_char x :: nat) * 65536 + of_char y * 256 < 16777216" using of_char_less[of x] of_char_less[of y] by linarith
  show ?case using 3 b64_val_char(3,4)[OF sextets(1)[OF n]] b64_val_char(3,4)[OF sextets(2)[OF n]]
      b64_val_char(3,4)[OF sextets(3)[OF n]]
    by (auto simp: Let_def split: if_splits)
next
  case (4 padded x y z rest)
  have n: "(of_char x :: nat) * 65536 + of_char y * 256 + of_char z < 16777216"
    using of_char_less[of x] of_char_less[of y] of_char_less[of z] by linarith
  show ?case using 4 b64_val_char(3,4)[OF sextets(1)[OF n]] b64_val_char(3,4)[OF sextets(2)[OF n]]
      b64_val_char(3,4)[OF sextets(3)[OF n]] b64_val_char(3,4)[OF sextets(4)[OF n]]
    by (auto simp: Let_def)
qed simp

lemma b64_encode_length:
  "length (b64_encode True bs) mod 4 = 0"
  "length (b64_encode False bs) mod 4 = 0 \<Longrightarrow> b64_encode False bs = b64_encode True bs"
proof -
  show "length (b64_encode True bs) mod 4 = 0"
    by (induction True bs rule: b64_encode.induct) (auto simp: Let_def mod_Suc)
  show "length (b64_encode False bs) mod 4 = 0 \<Longrightarrow> b64_encode False bs = b64_encode True bs"
    by (induction False bs rule: b64_encode.induct) (auto simp: Let_def mod_Suc split: if_splits)
qed

text \<open>
  Round trip of binary headers: whatever bytes a peer sends, with padded or unpadded base64,
  decodeBinHeader gives the same bytes back.
\<close>
theorem decodeBinHeader_roundtrip:
  "decodeBinHeader (b64_encode padded bs) = Some bs"
proof -
  have f: "filter (\<lambda>c. c \<noteq> CHR 0x0A \<and> c \<noteq> CHR 0x0D) (b64_encode p bs) = b64_encode p bs" for p
    using b64_encode_chars by (auto simp: filter_id_conv)
  show ?thesis
    using b64_encode_length[of bs] b64_roundtrip_raw[of True bs] b64_roundtrip_raw[of False bs]
    by (cases padded) (auto simp: decodeBinHeader_def f Let_def)
qed

lemma md_lawsD:
  assumes "md_laws M"
  shows "md_Get M (md_empty M) k = []"
    and "md_Get M (md_Set M k vs m) k' = (if to_lower k' = to_lower k \<and> vs \<noteq> [] then vs else md_Get M m k')"
    and "to_lower k = to_lower k' \<Longrightarrow> md_Get M m k = md_Get M m k'"
  using assms unfolding md_laws_def by blast+

lemma filterRequest_loop_sound:
  assumes "md_laws M" and "md_Get M (filterRequest_loop M md prefix allow out) K \<noteq> md_Get M out K"
  shows "\<exists>k \<in> set allow. md_Get M md k \<noteq> [] \<and> to_lower K = to_lower (request_key prefix k)
    \<and> md_Get M (filterRequest_loop M md prefix allow out) K = request_values (request_key prefix k) (md_Get M md k)"
  using assms(2)
proof (induction allow arbitrary: out)
  case (Cons k allow)
  let ?v = "md_Get M md k" and ?k = "request_key prefix k"
  show ?case
  proof (cases "?v = []")
    case True
    then show ?thesis using Cons by simp
  next
    case False
    let ?out = "md_Set M ?k (request_values ?k ?v) out"
    have step: "filterRequest_loop M md prefix (k # allow) out = filterRequest_loop M md prefix allow ?out"
      using False by (simp add: Let_def Suc_le_eq)
    show ?thesis
    proof (cases "md_Get M (filterRequest_loop M md prefix allow ?out) K = md_Get M ?out K")
      case True
      then show ?thesis using Cons.prems False unfolding step
        by (auto simp: md_lawsD(2)[OF assms(1)] split: if_splits)
    next
      case False
      then show ?thesis using Cons.IH[OF False] unfolding step by auto
    qed
  qed
qed simp

text \<open>
  C39. Nothing leaks through the request filter: every key of the forwarded metadata is grpc-timeout,
  with the values it came with, or stems from a key of the allowlist, under that key with the gateway
  prefix stripped or the configured prefix added, with the values it came with (decoded for a binary
  key). With an empty allowlist only grpc-timeout is forwarded.
\<close>
theorem FilterRequestMD_allowlist:
  assumes "md_laws M" and "md_Get M (FilterRequestMD M opts md) K \<noteq> []"
  shows "(to_lower K = to_lower metadataTimeout \<and> md_Get M (FilterRequestMD M opts md) K = md_Get M md K)
    \<or> (\<exists>k \<in> set (AllowRequestMD opts). md_Get M md k \<noteq> []
        \<and> to_lower K = to_lower (request_key (PrefixRequestMD opts) k)
        \<and> md_Get M (FilterRequestMD M opts md) K = request_values (request_key (PrefixRequestMD opts) k) (md_Get M md k))"
proof (cases "to_lower K = to_lower metadataTimeout \<and> md_Get M md metadataTimeout \<noteq> []")
  case True
  then show ?thesis
    using md_lawsD(3)[OF assms(1), of K metadataTimeout md]
    by (simp add: FilterRequestMD_def md_lawsD(2)[OF assms(1)] Let_def)
next
  case False
  then have "md_Get M (FilterRequestMD M opts md) K
      = md_Get M (filterRequest_loop M md (PrefixRequestMD opts) (AllowRequestMD opts) (md_empty M)) K"
    by (auto simp: FilterRequestMD_def filterRequest_def md_lawsD(2)[OF assms(1)] Let_def)
  with assms(2) filterRequest_loop_sound[OF assms(1)] show ?thesis
    by (metis md_lawsD(1)[OF assms(1)])
qed

theorem FilterRequestMD_allowlist_witness:
  "\<exists>k \<in> set [''Grpc-Metadata-User'']. to_lower ''user'' = to_lower (request_key [] k)"
proof -
  let ?opts = "\<lparr>AllowRequestMD = [''Grpc-Metadata-User''], PrefixRequestMD = [], AllowResponseMD = [],
      PrefixResponseMD = [], AllowTrailerMD = [], PrefixTrailerMD = []\<rparr>"
  have "md_Get map_md (FilterRequestMD map_md ?opts (\<lambda>_. [''u''])) ''user'' \<noteq> []"
    by code_simp
  moreover have "to_lower ''user'' \<noteq> to_lower metadataTimeout" by code_simp
  ultimately show ?thesis using FilterRequestMD_allowlist[OF map_md_laws] by fastforce
qed

lemma filterResponse_loop_exact:
  assumes "md_laws M"
  shows "md_Get M (filterResponse_loop M md prefix allow out) K =
    (if (\<exists>k \<in> set allow. to_lower K = to_lower (prefix @ k)) \<and> md_Get M md (drop (length prefix) K) \<noteq> []
     then md_Get M md (drop (length prefix) K) else md_Get M out K)"
proof (induction allow arbitrary: out)
  case (Cons k allow)
  have v: "md_Get M md k = md_Get M md (drop (length prefix) K)" if "to_lower K = to_lower (prefix @ k)"
  proof -
    have "to_lower (drop (length prefix) K) = drop (length prefix) (to_lower K)" by (simp add: to_lower_def drop_map)
    also have "\<dots> = to_lower k" unfolding that by (simp add: to_lower_def)
    finally show ?thesis using md_lawsD(3)[OF assms] by metis
  qed
  show ?case using v by (auto simp: Cons md_lawsD(2)[OF assms] Let_def)
qed simp

text \<open>
  The response filter (and the trailer filter, which is the same function) forwards exactly the
  allowed keys, each under the configured prefix and with all its values unchanged, and nothing else;
  the order of the allowlist and repeated or differently cased entries do not matter.
\<close>
theorem filterResponse_exact:
  assumes "md_laws M"
  shows "md_Get M (filterResponse M md allow prefix) K =
      (if \<exists>k \<in> set allow. to_lower K = to_lower (prefix @ k) then md_Get M md (drop (length prefix) K) else [])"
  by (auto simp: filterResponse_def filterResponse_loop_exact[OF assms] md_lawsD(1)[OF assms])

theorem filterResponse_exact_witness:
  "md_Get map_md (filterResponse map_md (\<lambda>_. [''v'']) [''A''] ''X-'') ''x-a'' = [''v'']
   \<and> md_Get map_md (filterResponse map_md (\<lambda>_. [''v'']) [''A''] ''X-'') ''x-b'' = []"
proof -
  have "to_lower ''x-a'' = to_lower (''X-'' @ ''A'')" "to_lower ''x-b'' \<noteq> to_lower (''X-'' @ ''A'')" by code_simp+
  then show ?thesis unfolding filterResponse_exact[OF map_md_laws] by (simp add: map_md_def)
qed

text \<open>
  When two allowed request keys are forwarded under the same name (Foo and Grpc-Metadata-Foo
  without a prefix, say), the last one in the allowlist that is present and decodes wins.
\<close>
theorem filterRequest_last_wins:
  assumes "md_laws M" and "vs = request_values (request_key prefix k) (md_Get M md k)" and "vs \<noteq> []"
    and "\<forall>k' \<in> set post. to_lower (request_key prefix k') \<noteq> to_lower (request_key prefix k)
          \<or> md_Get M md k' = [] \<or> request_values (request_key prefix k') (md_Get M md k') = []"
  shows "md_Get M (filterRequest M md (pre @ k # post) prefix) (request_key prefix k) = vs"
proof -
  have post: "md_Get M (filterRequest_loop M md prefix post out) (request_key prefix k) = md_Get M out (request_key prefix k)" for out
    using assms(4) by (induction post arbitrary: out) (auto simp: Let_def md_lawsD(2)[OF assms(1)] request_values_def List.map_filter_simps)
  have ne: "md_Get M md k \<noteq> []" using assms(2,3) by (auto simp: request_values_def List.map_filter_simps split: if_splits)
  have "md_Get M (filterRequest_loop M md prefix (pre @ k # post) out) (request_key prefix k) = vs" for out
  proof (induction pre arbitrary: out)
    case Nil
    show ?case using ne post assms(2,3) by (simp add: Let_def md_lawsD(2)[OF assms(1)] Suc_le_eq)
  qed (simp add: Let_def)
  then show ?thesis by (simp add: filterRequest_def)
qed

theorem filterRequest_last_wins_witness:
  "md_Get map_md (filterRequest map_md (\<lambda>k. if k = ''foo'' then [''a''] else [''b'']) [''Foo'', ''Grpc-Metadata-Foo''] []) ''Foo'' = [''b'']"
proof -
  let ?md = "\<lambda>k. if k = ''foo'' then [''a''] else [''b'']"
  have k: "request_key [] ''Grpc-Metadata-Foo'' = ''Foo''" by code_simp
  have v: "[''b''] = request_values (request_key [] ''Grpc-Metadata-Foo'') (md_Get map_md ?md ''Grpc-Metadata-Foo'')"
    by code_simp
  show ?thesis using filterRequest_last_wins[OF map_md_laws v, of "[]" "[''Foo'']"] by (simp add: k)
qed

end
