(* ===== verification/Gwquery.thy ===== *)
theory Gwquery
  imports Proto Timeout Md_Filter
begin

text \<open>
  Path and query parameters as values of message fields (internal/gwquery/query.go): parsing of a field by
  its kind, the well-known types, the walk along a field path and the default query parser. What is not of
  the repository and not spelled out here is a parameter (\<open>std_api\<close>): floating point syntax, times and
  durations with their messages, and protojson for google.protobuf.Value and Struct. Iteration over
  url.Values visits the keys in the order of the association list.
\<close>

record 'x std_api =
  api_ParseFloat :: "nat \<Rightarrow> string \<Rightarrow> 'x option"
  api_Timestamp :: "string \<Rightarrow> 'x pmsg option"
  api_Duration :: "string \<Rightarrow> 'x pmsg option"
  api_Value :: "string \<Rightarrow> 'x pmsg option"
  api_Struct :: "string \<Rightarrow> 'x pmsg option"

section \<open>Numbers, booleans and bytes\<close>

text \<open>strconv.ParseInt and ParseUint for base 10 and a number of bits; Atoi is ParseInt of 64 bits.\<close>

definition sign_digits :: "string \<Rightarrow> bool \<times> string" where
  "sign_digits s = (case s of [] \<Rightarrow> (False, [])
     | c # cs \<Rightarrow> if c = CHR ''-'' then (True, cs) else if c = CHR ''+'' then (False, cs) else (False, s))"

definition ParseInt :: "nat \<Rightarrow> string \<Rightarrow> int option" where
  "ParseInt w s =
     (let (neg, ds) = sign_digits s
      in if ds = [] then None
         else case parse_digits 0 ds of
                None \<Rightarrow> None
              | Some n \<Rightarrow>
                  let v = (if neg then - n else n)
                  in if - (2 ^ (w - 1)) \<le> v \<and> v < 2 ^ (w - 1) then Some v else None)"

definition ParseUint :: "nat \<Rightarrow> string \<Rightarrow> int option" where
  "ParseUint w s =
     (if s = [] then None
      else case parse_digits 0 s of
             None \<Rightarrow> None
           | Some n \<Rightarrow> if n < 2 ^ w then Some n else None)"

definition Atoi :: "string \<Rightarrow> int option" where
  "Atoi s = ParseInt 64 s"

definition ParseBool :: "string \<Rightarrow> bool option" where
  "ParseBool s =
     (if s \<in> set [''1'', ''t'', ''T'', ''true'', ''TRUE'', ''True''] then Some True
      else if s \<in> set [''0'', ''f'', ''F'', ''false'', ''FALSE'', ''False''] then Some False
      else None)"

text \<open>
  base64.StdEncoding and base64.URLEncoding: both skip line breaks and require padding; the second has
  '-' and '_' in place of '+' and '/'.
\<close>

definition StdEncoding_decode :: "string \<Rightarrow> string option" where
  "StdEncoding_decode s = b64_decode True (filter (\<lambda>c. c \<noteq> CHR 0x0A \<and> c \<noteq> CHR 0x0D) s)"

definition url_char :: "char \<Rightarrow> char" where
  "url_char c = (if c = CHR ''-'' then CHR ''+'' else if c = CHR ''_'' then CHR ''/'' else c)"

definition URLEncoding_decode :: "string \<Rightarrow> string option" where
  "URLEncoding_decode s =
     (if CHR ''+'' \<in> set s \<or> CHR ''/'' \<in> set s then None else StdEncoding_decode (map url_char s))"

definition Bytes :: "string \<Rightarrow> string option" where
  "Bytes val = (case StdEncoding_decode val of Some b \<Rightarrow> Some b | None \<Rightarrow> URLEncoding_decode val)"

section \<open>Fields\<close>

definition or_error :: "string \<Rightarrow> 'a option \<Rightarrow> go_error + 'a" where
  "or_error e r = (case r of None \<Rightarrow> Inl (ErrMsg e) | Some v \<Rightarrow> Inr v)"

definition enum_ByName :: "(string \<times> int) list \<Rightarrow> string \<Rightarrow> int option" where
  "enum_ByName vs n = map_of vs n"

definition enum_ByNumber :: "(string \<times> int) list \<Rightarrow> int \<Rightarrow> int option" where
  "enum_ByNumber vs i = map_option snd (find (\<lambda>(n, k). k = i) vs)"

text \<open>protoreflect.EnumNumber(i): the conversion of an int to 32 bits.\<close>

definition EnumNumber :: "int \<Rightarrow> int" where
  "EnumNumber i = sint (word_of_int i :: 32 word)"

definition parseEnum :: "(string \<times> int) list \<Rightarrow> string \<Rightarrow> int option" where
  "parseEnum vs value =
     (case enum_ByName vs value of
        Some n \<Rightarrow> Some n
      | None \<Rightarrow>
          (case Atoi value of
             None \<Rightarrow> None
           | Some i \<Rightarrow> enum_ByNumber vs (EnumNumber i)))"

definition wrapper :: "string \<Rightarrow> 'x pval \<Rightarrow> 'x pmsg" where
  "wrapper t v = PMsg t [(''value'', v)]"

definition parseMessage :: "'x std_api \<Rightarrow> string \<Rightarrow> string \<Rightarrow> go_error + 'x pval" where
  "parseMessage A t value =
     map_sum id VMsg
      (if t = ''google.protobuf.Timestamp'' then or_error ''time.Parse'' (api_Timestamp A value)
       else if t = ''google.protobuf.Duration'' then or_error ''time.ParseDuration'' (api_Duration A value)
       else if t = ''google.protobuf.DoubleValue'' then
         map_sum id (\<lambda>v. wrapper t (VDouble v)) (or_error ''strconv.ParseFloat'' (api_ParseFloat A 64 value))
       else if t = ''google.protobuf.FloatValue'' then
         map_sum id (\<lambda>v. wrapper t (VFloat v)) (or_error ''strconv.ParseFloat'' (api_ParseFloat A 32 value))
       else if t = ''google.protobuf.Int64Value'' then
         map_sum id (\<lambda>v. wrapper t (VInt64 (word_of_int v))) (or_error ''strconv.ParseInt'' (ParseInt 64 value))
       else if t = ''google.protobuf.Int32Value'' then
         map_sum id (\<lambda>v. wrapper t (VInt32 (word_of_int v))) (or_error ''strconv.ParseInt'' (ParseInt 32 value))
       else if t = ''google.protobuf.UInt64Value'' then
         map_sum id (\<lambda>v. wrapper t (VUint64 (word_of_int v))) (or_error ''strconv.ParseUint'' (ParseUint 64 value))
       else if t = ''google.protobuf.UInt32Value'' then
         map_sum id (\<lambda>v. wrapper t (VUint32 (word_of_int v))) (or_error ''strconv.ParseUint'' (ParseUint 32 value))
       else if t = ''google.protobuf.BoolValue'' then
         map_sum id (\<lambda>v. wrapper t (VBool v)) (or_error ''strconv.ParseBool'' (ParseBool value))
       else if t = ''google.protobuf.StringValue'' then Inr (wrapper t (VString value))
       else if t = ''google.protobuf.BytesValue'' then
         map_sum id (\<lambda>v. wrapper t (VBytes v)) (or_error ''base64'' (Bytes value))
       else if t = ''google.protobuf.FieldMask'' then
         Inr (PMsg t [(''paths'', VList (map VString (SplitByte value (CHR '',''))))])
       else if t = ''google.protobuf.Value'' then or_error ''protojson'' (api_Value A value)
       else if t = ''google.protobuf.Struct'' then or_error ''protojson'' (api_Struct A value)
       else Inl (ErrMsg ''unsupported message type''))"

fun parseField :: "'x std_api \<Rightarrow> kind \<Rightarrow> string \<Rightarrow> go_error + 'x pval" where
  "parseField A BoolKind v = map_sum id VBool (or_error ''strconv.ParseBool'' (ParseBool v))"
| "parseField A (EnumKind t vs) v = map_sum id VEnum (or_error ''not a valid value'' (parseEnum vs v))"
| "parseField A Int32Kind v = map_sum id (\<lambda>i. VInt32 (word_of_int i)) (or_error ''strconv.ParseInt'' (ParseInt 32 v))"
| "parseField A Sint32Kind v = map_sum id (\<lambda>i. VInt32 (word_of_int i)) (or_error ''strconv.ParseInt'' (ParseInt 32 v))"
| "parseField A Sfixed32Kind v = map_sum id (\<lambda>i. VInt32 (word_of_int i)) (or_error ''strconv.ParseInt'' (ParseInt 32 v))"
| "parseField A Int64Kind v = map_sum id (\<lambda>i. VInt64 (word_of_int i)) (or_error ''strconv.ParseInt'' (ParseInt 64 v))"
| "parseField A Sint64Kind v = map_sum id (\<lambda>i. VInt64 (word_of_int i)) (or_error ''strconv.ParseInt'' (ParseInt 64 v))"
| "parseField A Sfixed64Kind v = map_sum id (\<lambda>i. VInt64 (word_of_int i)) (or_error ''strconv.ParseInt'' (ParseInt 64 v))"
| "parseField A Uint32Kind v = map_sum id (\<lambda>i. VUint32 (word_of_int i)) (or_error ''strconv.ParseUint'' (ParseUint 32 v))"
| "parseField A Fixed32Kind v = map_sum id (\<lambda>i. VUint32 (word_of_int i)) (or_error ''strconv.ParseUint'' (ParseUint 32 v))"
| "parseField A Uint64Kind v = map_sum id (\<lambda>i. VUint64 (word_of_int i)) (or_error ''strconv.ParseUint'' (ParseUint 64 v))"
| "parseField A Fixed64Kind v = map_sum id (\<lambda>i. VUint64 (word_of_int i)) (or_error ''strconv.ParseUint'' (ParseUint 64 v))"
| "parseField A FloatKind v = map_sum id VFloat (or_error ''strconv.ParseFloat'' (api_ParseFloat A 32 v))"
| "parseField A DoubleKind v = map_sum id VDouble (or_error ''strconv.ParseFloat'' (api_ParseFloat A 64 v))"
| "parseField A StringKind v = Inr (VString v)"
| "parseField A BytesKind v = map_sum id VBytes (or_error ''base64'' (Bytes v))"
| "parseField A (MessageKind t) v = parseMessage A t v"
| "parseField A (GroupKind t) v = parseMessage A t v"

section \<open>Populating a message\<close>

definition populateField :: "'x std_api \<Rightarrow> schema \<Rightarrow> field_desc \<Rightarrow> 'x pmsg \<Rightarrow> string \<Rightarrow> go_error + 'x pmsg" where
  "populateField A S fd m value =
     (case parseField A (fd_kind fd) value of
        Inl e \<Rightarrow> Inl (ErrWrap ''parsing field'' e)
      | Inr v \<Rightarrow> Inr (pm_Set S fd v m))"

fun populateRepeatedField :: "'x std_api \<Rightarrow> field_desc \<Rightarrow> 'x pval list \<Rightarrow> string list \<Rightarrow> go_error + 'x pval list" where
  "populateRepeatedField A fd vs [] = Inr vs"
| "populateRepeatedField A fd vs (value # values) =
     (case parseField A (fd_kind fd) value of
        Inl e \<Rightarrow> Inl (ErrWrap ''parsing list'' e)
      | Inr v \<Rightarrow> populateRepeatedField A fd (vs @ [v]) values)"

definition populateMapField ::
    "'x std_api \<Rightarrow> kind \<times> kind \<Rightarrow> ('x pval \<times> 'x pval) list \<Rightarrow> string list \<Rightarrow> go_error + ('x pval \<times> 'x pval) list" where
  "populateMapField A kv mp values =
     (case values of
        [k, v] \<Rightarrow>
          (case parseField A (fst kv) k of
             Inl e \<Rightarrow> Inl (ErrWrap ''parsing map key'' e)
           | Inr key \<Rightarrow>
               (case parseField A (snd kv) v of
                  Inl e \<Rightarrow> Inl (ErrWrap ''parsing map value'' e)
                | Inr val \<Rightarrow> Inr (AList.update key val mp)))
      | _ \<Rightarrow> Inl (ErrMsg ''more than one value provided for key''))"

text \<open>What is done with the last field of the path: the oneof check and the switch.\<close>

definition populate_last :: "'x std_api \<Rightarrow> schema \<Rightarrow> field_desc \<Rightarrow> 'x pmsg \<Rightarrow> string list \<Rightarrow> go_error + 'x pmsg" where
  "populate_last A S fd m values =
     (if (case fd_oneof fd of None \<Rightarrow> False | Some f \<Rightarrow> WhichOneof S f m \<noteq> None)
      then Inl (ErrMsg ''field already set for oneof'')
      else if IsList fd then
        map_sum id (\<lambda>vs. pm_Set S fd (VList vs) m) (populateRepeatedField A fd (mutable_list fd m) values)
      else case fd_map fd of
        Some kv \<Rightarrow> map_sum id (\<lambda>kvs. pm_Set S fd (VMap kvs) m) (populateMapField A kv (mutable_map fd m) values)
      | None \<Rightarrow>
          if 1 < length values then Inl (ErrMsg ''too many values for field'')
          else populateField A S fd m (hd values))"

definition field_of :: "schema \<Rightarrow> string \<Rightarrow> string \<Rightarrow> field_desc option" where
  "field_of S t n = (case ByName (S t) n of Some fd \<Rightarrow> Some fd | None \<Rightarrow> ByJSONName (S t) n)"

fun populate_loop :: "'x std_api \<Rightarrow> schema \<Rightarrow> 'x pmsg \<Rightarrow> string list \<Rightarrow> string list \<Rightarrow> go_error + 'x pmsg" where
  "populate_loop A S m [] values = Inr m"
| "populate_loop A S m (n # path) values =
     (case field_of S (pm_type m) n of
        None \<Rightarrow> Inr m
      | Some fd \<Rightarrow>
          if path = [] then populate_last A S fd m values
          else if kind_message (fd_kind fd) = None \<or> fd_repeated fd then Inl (ErrMsg ''invalid path: not a message'')
          else map_sum id (\<lambda>sub. pm_Set S fd (VMsg sub) m) (populate_loop A S (mutable_msg fd m) path values))"

definition populateFieldValueFromPath :: "'x std_api \<Rightarrow> schema \<Rightarrow> 'x pmsg \<Rightarrow> string list \<Rightarrow> string list \<Rightarrow> go_error + 'x pmsg" where
  "populateFieldValueFromPath A S m path values =
     (if path = [] then Inl (ErrMsg ''no field path'')
      else if values = [] then Inl (ErrMsg ''no value provided'')
      else populate_loop A S m path values)"

definition PopulateFieldFromPath :: "'x std_api \<Rightarrow> schema \<Rightarrow> 'x pmsg \<Rightarrow> string \<Rightarrow> string \<Rightarrow> go_error + 'x pmsg" where
  "PopulateFieldFromPath A S m path value = populateFieldValueFromPath A S m (SplitByte path (CHR ''.'')) [value]"

section \<open>The query parser\<close>

fun normalize_loop :: "schema \<Rightarrow> string \<Rightarrow> string list \<Rightarrow> string list \<Rightarrow> string list \<Rightarrow> string list" where
  "normalize_loop S t orig acc [] = acc"
| "normalize_loop S t orig acc (n # path) =
     (case (case ByTextName (S t) n of Some fd \<Rightarrow> Some fd | None \<Rightarrow> ByJSONName (S t) n) of
        None \<Rightarrow> orig
      | Some fd \<Rightarrow>
          let acc' = acc @ [fd_name fd]
          in if path = [] then acc'
             else case kind_message (fd_kind fd) of
                    None \<Rightarrow> orig
                  | Some t' \<Rightarrow> if fd_repeated fd then orig else normalize_loop S t' orig acc' path)"

definition normalizeFieldPath :: "schema \<Rightarrow> 'x pmsg \<Rightarrow> string list \<Rightarrow> string list" where
  "normalizeFieldPath S m path = normalize_loop S (pm_type m) path [] path"

text \<open>The two groups of the regular expression for keys: the last bracket opens, no line break anywhere.\<close>

definition valuesKey :: "string \<Rightarrow> (string \<times> string) option" where
  "valuesKey key =
     (if HasSuffix key '']'' \<and> CHR 0x0A \<notin> set key
      then case LastIndexByte (butlast key) (CHR ''['') of
             None \<Rightarrow> None
           | Some i \<Rightarrow> Some (take i key, drop (Suc i) (butlast key))
      else None)"

fun Parse_query ::
    "'x std_api \<Rightarrow> schema \<Rightarrow> (string list \<Rightarrow> bool) \<Rightarrow> 'x pmsg \<Rightarrow> (string \<times> string list) list \<Rightarrow> go_error + 'x pmsg" where
  "Parse_query A S has_prefix m [] = Inr m"
| "Parse_query A S has_prefix m ((key, values) # rest) =
     (let (key', values') = (case valuesKey key of None \<Rightarrow> (key, values) | Some (a, b) \<Rightarrow> (a, b # values));
          path = normalizeFieldPath S m (SplitByte key' (CHR ''.''))
      in if has_prefix path then Parse_query A S has_prefix m rest
         else case populateFieldValueFromPath A S m path values' of
                Inl e \<Rightarrow> Inl e
              | Inr m' \<Rightarrow> Parse_query A S has_prefix m' rest)"

definition PopulateQueryParameters ::
    "'x std_api \<Rightarrow> schema \<Rightarrow> (string list \<Rightarrow> bool) \<Rightarrow> 'x pmsg \<Rightarrow> (string \<times> string list) list \<Rightarrow> go_error + 'x pmsg" where
  "PopulateQueryParameters A S has_prefix m values = Parse_query A S has_prefix m values"

end
