(* ===== verification/Gwquery_Props.thy ===== *)
theory Gwquery_Props
  imports Gwquery
begin

text \<open>
  What the parameter parser guarantees: integers are taken exactly or refused, bytes round trip in both
  alphabets, every populated message stays well typed (so that the reflection setters, which panic on a
  value of another type, never do), a successful path assignment is read back at that path, and a query
  cannot touch a field that the filter reserves.
\<close>

section \<open>Integers\<close>

text \<open>The number that a string denotes in base 10: signed with an optional sign, unsigned without one.\<close>

definition signed_numeral :: "string \<Rightarrow> int \<Rightarrow> bool" where
  "signed_numeral s v \<longleftrightarrow>
     (is_number s \<and> v = decimal s \<or> (\<exists>ds. s = CHR ''+'' # ds \<and> is_number ds \<and> v = decimal ds)
      \<or> (\<exists>ds. s = CHR ''-'' # ds \<and> is_number ds \<and> v = - decimal ds))"

definition unsigned_numeral :: "string \<Rightarrow> int \<Rightarrow> bool" where
  "unsigned_numeral s v \<longleftrightarrow> is_number s \<and> v = decimal s"

fun int_range :: "kind \<Rightarrow> ((string \<Rightarrow> int \<Rightarrow> bool) \<times> int \<times> int) option" where
  "int_range Int32Kind = Some (signed_numeral, - (2 ^ 31), 2 ^ 31 - 1)"
| "int_range Sint32Kind = Some (signed_numeral, - (2 ^ 31), 2 ^ 31 - 1)"
| "int_range Sfixed32Kind = Some (signed_numeral, - (2 ^ 31), 2 ^ 31 - 1)"
| "int_range Int64Kind = Some (signed_numeral, - (2 ^ 63), 2 ^ 63 - 1)"
| "int_range Sint64Kind = Some (signed_numeral, - (2 ^ 63), 2 ^ 63 - 1)"
| "int_range Sfixed64Kind = Some (signed_numeral, - (2 ^ 63), 2 ^ 63 - 1)"
| "int_range Uint32Kind = Some (unsigned_numeral, 0, 2 ^ 32 - 1)"
| "int_range Fixed32Kind = Some (unsigned_numeral, 0, 2 ^ 32 - 1)"
| "int_range Uint64Kind = Some (unsigned_numeral, 0, 2 ^ 64 - 1)"
| "int_range Fixed64Kind = Some (unsigned_numeral, 0, 2 ^ 64 - 1)"
| "int_range _ = None"

fun pval_int :: "'x pval \<Rightarrow> int option" where
  "pval_int (VInt32 w) = Some (sint w)"
| "pval_int (VInt64 w) = Some (sint w)"
| "pval_int (VUint32 w) = Some (uint w)"
| "pval_int (VUint64 w) = Some (uint w)"
| "pval_int _ = None"

lemma parse_digits_eq:
  "parse_digits 0 s = (if \<forall>c \<in> set s. digit_val c \<noteq> None then Some (decimal s) else None)"
proof (cases "\<forall>c \<in> set s. digit_val c \<noteq> None")
  case True
  then show ?thesis using parse_digits_decimal[OF True, of 0] by auto
next
  case False
  then have "parse_digits acc s = None" for acc by (induction s arbitrary: acc) (auto split: option.split)
  with False show ?thesis by simp
qed

lemma is_number_no_sign: "is_number s \<Longrightarrow> s = c # cs \<Longrightarrow> c \<noteq> CHR ''-'' \<and> c \<noteq> CHR ''+''"
  by (auto simp: is_number_def digit_val_def)

lemma sign_digits_iff:
  "(\<exists>neg ds. sign_digits s = (neg, ds) \<and> is_number ds \<and> v = (if neg then - decimal ds else decimal ds))
    \<longleftrightarrow> signed_numeral s v"
proof (cases s)
  case Nil
  then show ?thesis by (simp add: sign_digits_def signed_numeral_def is_number_def)
next
  case (Cons c cs)
  then show ?thesis
    using is_number_no_sign[of s c cs] by (auto simp: sign_digits_def signed_numeral_def)
qed

lemma ParseInt_iff:
  "ParseInt w s = Some v \<longleftrightarrow> signed_numeral s v \<and> - (2 ^ (w - 1)) \<le> v \<and> v < 2 ^ (w - 1)"
proof -
  obtain neg ds where nd: "sign_digits s = (neg, ds)" by (cases "sign_digits s")
  have "ParseInt w s = Some v \<longleftrightarrow>
      is_number ds \<and> v = (if neg then - decimal ds else decimal ds) \<and> - (2 ^ (w - 1)) \<le> v \<and> v < 2 ^ (w - 1)"
    by (auto simp: ParseInt_def nd Let_def parse_digits_eq is_number_def)
  then show ?thesis using sign_digits_iff[of s v] nd by auto
qed

lemma ParseUint_iff: "ParseUint w s = Some v \<longleftrightarrow> unsigned_numeral s v \<and> v < 2 ^ w"
  by (auto simp: ParseUint_def parse_digits_eq unsigned_numeral_def is_number_def)

lemma unsigned_numeral_nonneg: "unsigned_numeral s v \<Longrightarrow> 0 \<le> v"
  using decimal_bounds[of s] by (auto simp: unsigned_numeral_def is_number_def)

lemma sint32_of_int: "- 2147483648 \<le> v \<Longrightarrow> v < 2147483648 \<Longrightarrow> sint (word_of_int v :: 32 word) = v"
  by (simp add: int_word_sint)

lemma sint64_of_int:
  "- 9223372036854775808 \<le> v \<Longrightarrow> v < 9223372036854775808 \<Longrightarrow> sint (word_of_int v :: 64 word) = v"
  by (simp add: int_word_sint)

lemma uint32_of_int: "0 \<le> v \<Longrightarrow> v < 4294967296 \<Longrightarrow> uint (word_of_int v :: 32 word) = v"
  by (simp add: uint_word_of_int)

lemma uint64_of_int: "0 \<le> v \<Longrightarrow> v < 18446744073709551616 \<Longrightarrow> uint (word_of_int v :: 64 word) = v"
  by (simp add: uint_word_of_int)

lemmas int_of_int = sint32_of_int sint64_of_int uint32_of_int uint64_of_int

text \<open>
  C38. Integer fields of every kind are taken exactly or refused: the parameter is accepted if and only if
  it denotes a number within the range of the field's type (a sign is allowed for the signed kinds only),
  and the value stored is that number, never a truncation of it.
\<close>
theorem parseField_int_exact:
  assumes "int_range k = Some (denotes, lo, hi)"
  shows "case parseField A k s of
           Inr x \<Rightarrow> \<exists>v. denotes s v \<and> lo \<le> v \<and> v \<le> hi \<and> pval_int x = Some v
         | Inl e \<Rightarrow> \<nexists>v. denotes s v \<and> lo \<le> v \<and> v \<le> hi"
proof -
  have p: "ParseInt w s = None \<Longrightarrow> signed_numeral s v \<Longrightarrow> - (2 ^ (w - 1)) \<le> v \<Longrightarrow> v < 2 ^ (w - 1) \<Longrightarrow> False"
    "ParseUint w s = None \<Longrightarrow> unsigned_numeral s v \<Longrightarrow> v < 2 ^ w \<Longrightarrow> False" for w v
    using ParseInt_iff[of w s v] ParseUint_iff[of w s v] by auto
  show ?thesis using assms p[of 32] p[of 64] unsigned_numeral_nonneg[of s]
    by (cases k) (fastforce simp: or_error_def ParseInt_iff ParseUint_iff int_of_int split: option.split)+
qed

theorem parseField_int_exact_witness:
  "(case parseField (undefined :: bool std_api) Int32Kind ''-2147483649'' of
      Inr x \<Rightarrow> \<exists>v. signed_numeral ''-2147483649'' v \<and> - (2 ^ 31) \<le> v \<and> v \<le> 2 ^ 31 - 1 \<and> pval_int x = Some v
    | Inl e \<Rightarrow> \<nexists>v. signed_numeral ''-2147483649'' v \<and> - (2 ^ 31) \<le> v \<and> v \<le> 2 ^ 31 - 1)"
  by (rule parseField_int_exact) simp

section \<open>Typing\<close>

text \<open>
  A message is well typed when every stored field is one of its descriptor and the value has the kind
  of the field, at every depth. This is what the setters of dynamic messages check, by a panic.
\<close>

fun wt_val :: "schema \<Rightarrow> kind \<Rightarrow> 'x pval \<Rightarrow> bool" and wt_field :: "schema \<Rightarrow> field_desc \<Rightarrow> 'x pval \<Rightarrow> bool"
  and wt_msg :: "schema \<Rightarrow> 'x pmsg \<Rightarrow> bool" where
  "wt_val S k (VBool b) = (k = BoolKind)"
| "wt_val S k (VEnum n) = (case k of EnumKind t vs \<Rightarrow> True | _ \<Rightarrow> False)"
| "wt_val S k (VInt32 w) = (k \<in> set [Int32Kind, Sint32Kind, Sfixed32Kind])"
| "wt_val S k (VInt64 w) = (k \<in> set [Int64Kind, Sint64Kind, Sfixed64Kind])"
| "wt_val S k (VUint32 w) = (k \<in> set [Uint32Kind, Fixed32Kind])"
| "wt_val S k (VUint64 w) = (k \<in> set [Uint64Kind, Fixed64Kind])"
| "wt_val S k (VFloat x) = (k = FloatKind)"
| "wt_val S k (VDouble x) = (k = DoubleKind)"
| "wt_val S k (VString x) = (k = StringKind)"
| "wt_val S k (VBytes x) = (k = BytesKind)"
| "wt_val S k (VMsg m) = (kind_message k = Some (pm_type m) \<and> wt_msg S m)"
| "wt_val S k (VList vs) = False"
| "wt_val S k (VMap kvs) = False"
| "wt_field S fd (VList vs) = (IsList fd \<and> list_all (wt_val S (fd_kind fd)) vs)"
| "wt_field S fd (VMap kvs) =
     (case fd_map fd of None \<Rightarrow> False | Some (kk, vk) \<Rightarrow> list_all (\<lambda>(a, b). wt_val S kk a \<and> wt_val S vk b) kvs)"
| "wt_field S fd v = (\<not> fd_repeated fd \<and> wt_val S (fd_kind fd) v)"
| "wt_msg S (PMsg t fs) =
     list_all (\<lambda>(n, v). case ByName (S t) n of None \<Rightarrow> False | Some fd \<Rightarrow> wt_field S fd v) fs"

definition wf_schema :: "schema \<Rightarrow> bool" where
  "wf_schema S \<longleftrightarrow> (\<forall>t. distinct (map fd_name (S t)) \<and> (\<forall>fd \<in> set (S t). fd_map fd \<noteq> None \<longrightarrow> fd_repeated fd))"

text \<open>The well-known types have the fields that their definitions have.\<close>

definition plain_field :: "schema \<Rightarrow> string \<Rightarrow> string \<Rightarrow> kind \<Rightarrow> bool" where
  "plain_field S t n k = (case ByName (S t) n of None \<Rightarrow> False | Some fd \<Rightarrow> fd_kind fd = k \<and> \<not> fd_repeated fd)"

definition wrapper_kinds :: "(string \<times> kind) list" where
  "wrapper_kinds =
     [(''google.protobuf.DoubleValue'', DoubleKind), (''google.protobuf.FloatValue'', FloatKind),
      (''google.protobuf.Int64Value'', Int64Kind), (''google.protobuf.Int32Value'', Int32Kind),
      (''google.protobuf.UInt64Value'', Uint64Kind), (''google.protobuf.UInt32Value'', Uint32Kind),
      (''google.protobuf.BoolValue'', BoolKind), (''google.protobuf.StringValue'', StringKind),
      (''google.protobuf.BytesValue'', BytesKind)]"

definition wk_schema :: "schema \<Rightarrow> bool" where
  "wk_schema S \<longleftrightarrow> list_all (\<lambda>(t, k). plain_field S t ''value'' k) wrapper_kinds \<and>
     (case ByName (S ''google.protobuf.FieldMask'') ''paths'' of None \<Rightarrow> False | Some fd \<Rightarrow> IsList fd \<and> fd_kind fd = StringKind)"

definition typed_as :: "schema \<Rightarrow> string \<Rightarrow> 'x pmsg option \<Rightarrow> bool" where
  "typed_as S t r = (case r of None \<Rightarrow> True | Some m \<Rightarrow> pm_type m = t \<and> wt_msg S m)"

text \<open>The parsers that are parameters return messages of their type.\<close>

definition api_typed :: "schema \<Rightarrow> 'x std_api \<Rightarrow> bool" where
  "api_typed S A \<longleftrightarrow> (\<forall>s. typed_as S ''google.protobuf.Timestamp'' (api_Timestamp A s)
     \<and> typed_as S ''google.protobuf.Duration'' (api_Duration A s)
     \<and> typed_as S ''google.protobuf.Value'' (api_Value A s)
     \<and> typed_as S ''google.protobuf.Struct'' (api_Struct A s))"

lemma wt_field_single: "\<not> fd_repeated fd \<Longrightarrow> wt_val S (fd_kind fd) v \<Longrightarrow> wt_field S fd v"
  by (cases v) auto

lemma wt_lookup:
  assumes "wt_msg S m" and "pm_lookup m n = Some v"
  shows "\<exists>fd. ByName (S (pm_type m)) n = Some fd \<and> wt_field S fd v"
proof (cases m)
  case (PMsg t fs)
  with assms(2) have "(n, v) \<in> set fs" by (auto simp: pm_lookup_def dest: map_of_SomeD)
  with assms(1) PMsg show ?thesis by (auto simp: list_all_iff split: option.splits dest!: bspec)
qed

lemma wt_empty [simp]: "wt_msg S (empty_msg t)" "pm_type (empty_msg t) = t"
  by (simp_all add: empty_msg_def)

lemma set_update_subset: "set (AList.update k v al) \<subseteq> insert (k, v) (set al)"
  by (induction al) auto

lemma wt_Set:
  assumes "wt_msg S m" and "ByName (S (pm_type m)) (fd_name fd) = Some fd" and "wt_field S fd v"
  shows "wt_msg S (pm_Set S fd v m)"
proof (cases m)
  case (PMsg t fs)
  have "case ByName (S t) n of None \<Rightarrow> False | Some fd \<Rightarrow> wt_field S fd u"
    if "(n, u) \<in> set (AList.update (fd_name fd) v (filter (\<lambda>(n, u). \<not> other_in_oneof S t fd n) fs))" for n u
  proof -
    have "(n, u) = (fd_name fd, v) \<or> (n, u) \<in> set fs"
      using that set_update_subset[of "fd_name fd" v "filter (\<lambda>(n, u). \<not> other_in_oneof S t fd n) fs"] by auto
    then show ?thesis using assms PMsg by (auto simp: list_all_iff)
  qed
  then show ?thesis using PMsg by (auto simp: pm_Set_def list_all_iff)
qed

lemma wt_mutable_msg:
  assumes "wf_schema S" and "wt_msg S m" and "ByName (S (pm_type m)) (fd_name fd) = Some fd"
    and "kind_message (fd_kind fd) = Some t"
  shows "wt_msg S (mutable_msg fd m) \<and> pm_type (mutable_msg fd m) = t"
proof (cases "pm_lookup m (fd_name fd)")
  case None
  then show ?thesis using assms(4) by (simp add: mutable_msg_def)
next
  case (Some v)
  then have "wt_field S fd v" using wt_lookup[OF assms(2) Some] assms(3) by auto
  then show ?thesis using Some assms(4) by (cases v) (auto simp: mutable_msg_def)
qed

lemma wt_mutable_list:
  assumes "wt_msg S m" and "ByName (S (pm_type m)) (fd_name fd) = Some fd"
  shows "list_all (wt_val S (fd_kind fd)) (mutable_list fd m)"
  using wt_lookup[OF assms(1), of "fd_name fd"] assms(2)
  by (fastforce simp: mutable_list_def split: option.split pval.split)

lemma wt_mutable_map:
  assumes "wt_msg S m" and "ByName (S (pm_type m)) (fd_name fd) = Some fd" and "fd_map fd = Some (kk, vk)"
  shows "list_all (\<lambda>(a, b). wt_val S kk a \<and> wt_val S vk b) (mutable_map fd m)"
  using wt_lookup[OF assms(1), of "fd_name fd"] assms(2,3)
  by (fastforce simp: mutable_map_def split: option.split pval.split)

lemma field_of_ByName: "wf_schema S \<Longrightarrow> field_of S t n = Some fd \<Longrightarrow> ByName (S t) (fd_name fd) = Some fd"
  using ByName_distinct[of "S t" fd]
  by (auto simp: field_of_def wf_schema_def split: option.splits dest: ByName_SomeD ByJSONName_SomeD)

lemma map_sum_Inr_iff: "map_sum f g x = Inr y \<longleftrightarrow> (\<exists>z. x = Inr z \<and> y = g z)"
  by (cases x) auto

lemma or_error_Inr_iff: "or_error e r = Inr v \<longleftrightarrow> r = Some v"
  by (simp add: or_error_def split: option.split)

lemmas result_iff = map_sum_Inr_iff or_error_Inr_iff

lemma wt_wrapper: "plain_field S t ''value'' k \<Longrightarrow> wt_val S k v \<Longrightarrow> wt_msg S (wrapper t v)"
  by (auto simp: plain_field_def wrapper_def split: option.splits intro: wt_field_single)

lemma pm_type_wrapper [simp]: "pm_type (wrapper t v) = t"
  by (simp add: wrapper_def)

lemma wk_wrapper:
  assumes "wk_schema S" and "(n, k) \<in> set wrapper_kinds" and "wt_val S k u"
  shows "wt_msg S (wrapper n u)"
  using assms by (auto simp: wk_schema_def list_all_iff intro: wt_wrapper)

lemma wk_wrappers:
  assumes "wk_schema S"
  shows "wt_msg S (wrapper ''google.protobuf.DoubleValue'' (VDouble x))" "wt_msg S (wrapper ''google.protobuf.FloatValue'' (VFloat x))"
    "wt_msg S (wrapper ''google.protobuf.Int64Value'' (VInt64 x1))" "wt_msg S (wrapper ''google.protobuf.Int32Value'' (VInt32 x2))"
    "wt_msg S (wrapper ''google.protobuf.UInt64Value'' (VUint64 x1))" "wt_msg S (wrapper ''google.protobuf.UInt32Value'' (VUint32 x2))"
    "wt_msg S (wrapper ''google.protobuf.BoolValue'' (VBool b))" "wt_msg S (wrapper ''google.protobuf.StringValue'' (VString s'))"
    "wt_msg S (wrapper ''google.protobuf.BytesValue'' (VBytes s'))"
    "wt_msg S (PMsg ''google.protobuf.FieldMask'' [(''paths'', VList (map VString ws))])"
  subgoal by (rule wk_wrapper[OF assms, where k = DoubleKind]) (simp_all add: wrapper_kinds_def)
  subgoal by (rule wk_wrapper[OF assms, where k = FloatKind]) (simp_all add: wrapper_kinds_def)
  subgoal by (rule wk_wrapper[OF assms, where k = Int64Kind]) (simp_all add: wrapper_kinds_def)
  subgoal by (rule wk_wrapper[OF assms, where k = Int32Kind]) (simp_all add: wrapper_kinds_def)
  subgoal by (rule wk_wrapper[OF assms, where k = Uint64Kind]) (simp_all add: wrapper_kinds_def)
  subgoal by (rule wk_wrapper[OF assms, where k = Uint32Kind]) (simp_all add: wrapper_kinds_def)
  subgoal by (rule wk_wrapper[OF assms, where k = BoolKind]) (simp_all add: wrapper_kinds_def)
  subgoal by (rule wk_wrapper[OF assms, where k = StringKind]) (simp_all add: wrapper_kinds_def)
  subgoal by (rule wk_wrapper[OF assms, where k = BytesKind]) (simp_all add: wrapper_kinds_def)
  subgoal using assms by (auto simp: wk_schema_def list_all_iff split: option.splits)
  done

lemma typed_as_Some: "typed_as S n (Some m) \<longleftrightarrow> pm_type m = n \<and> wt_msg S m"
  by (simp add: typed_as_def)

lemma parseMessage_typed:
  assumes "wk_schema S" and "api_typed S A" and "parseMessage A t s = Inr v"
  shows "\<exists>m. v = VMsg m \<and> pm_type m = t \<and> wt_msg S m"
proof -
  have api: "typed_as S ''google.protobuf.Timestamp'' (api_Timestamp A s)" "typed_as S ''google.protobuf.Duration'' (api_Duration A s)"
     "typed_as S ''google.protobuf.Value'' (api_Value A s)" "typed_as S ''google.protobuf.Struct'' (api_Struct A s)"
    using assms(2) by (simp_all add: api_typed_def)
  obtain m where v: "v = VMsg m" using assms(3) by (auto simp: parseMessage_def map_sum_Inr_iff)
  show ?thesis using assms(3) api wk_wrappers[OF assms(1)] unfolding v parseMessage_def
    by (simp only: map_sum_Inr_iff pval.inject ex_simps split: if_split_asm)
      (auto simp: result_iff typed_as_Some simp del: wt_msg.simps)
qed

lemma parseField_typed:
  assumes "wk_schema S" and "api_typed S A" and "parseField A k s = Inr v"
  shows "wt_val S k v"
  using assms(3) parseMessage_typed[OF assms(1,2)]
  by (cases k) (fastforce simp: result_iff)+

lemma populateRepeatedField_typed:
  assumes "wk_schema S" and "api_typed S A" and "list_all (wt_val S (fd_kind fd)) vs"
    and "populateRepeatedField A fd vs vals = Inr vs'"
  shows "list_all (wt_val S (fd_kind fd)) vs'"
  using assms(3,4)
proof (induction vals arbitrary: vs)
  case (Cons a vals)
  then obtain v where "parseField A (fd_kind fd) a = Inr v" and "populateRepeatedField A fd (vs @ [v]) vals = Inr vs'"
    by (auto split: sum.splits)
  then show ?case using Cons.IH[of "vs @ [v]"] Cons.prems(1) parseField_typed[OF assms(1,2)] by simp
qed simp

lemma populateMapField_typed:
  assumes "wk_schema S" and "api_typed S A" and "list_all (\<lambda>(a, b). wt_val S kk a \<and> wt_val S vk b) mp"
    and "populateMapField A (kk, vk) mp vals = Inr mp'"
  shows "list_all (\<lambda>(a, b). wt_val S kk a \<and> wt_val S vk b) mp'"
proof -
  obtain ks vs key val where "vals = [ks, vs]" and "parseField A kk ks = Inr key" and "parseField A vk vs = Inr val"
    and mp': "mp' = AList.update key val mp"
    using assms(4) by (auto simp: populateMapField_def split: list.splits sum.splits)
  then have "wt_val S kk key" "wt_val S vk val" using parseField_typed[OF assms(1,2)] by auto
  then show ?thesis using assms(3) set_update_subset[of key val mp] unfolding mp' by (auto simp: list_all_iff)
qed

lemma IsList_simps: "IsList fd \<longleftrightarrow> fd_repeated fd \<and> fd_map fd = None"
  by (simp add: IsList_def)

lemma populate_last_typed:
  assumes "wf_schema S" and "wk_schema S" and "api_typed S A" and "wt_msg S m"
    and n: "ByName (S (pm_type m)) (fd_name fd) = Some fd"
    and "populate_last A S fd m vals = Inr m'"
  shows "wt_msg S m' \<and> pm_type m' = pm_type m"
proof -
  consider (single) v where "m' = pm_Set S fd v m" "parseField A (fd_kind fd) (hd vals) = Inr v" "fd_map fd = None" "\<not> IsList fd"
    | (list) vs where "m' = pm_Set S fd (VList vs) m" "populateRepeatedField A fd (mutable_list fd m) vals = Inr vs" "IsList fd"
    | (map) kk vk kvs where "m' = pm_Set S fd (VMap kvs) m" "fd_map fd = Some (kk, vk)"
        "populateMapField A (kk, vk) (mutable_map fd m) vals = Inr kvs"
    using assms(6) by (auto simp: populate_last_def populateField_def map_sum_Inr_iff split: if_splits option.splits sum.splits)
  then show ?thesis
  proof cases
    case single
    then have "wt_field S fd v" using parseField_typed[OF assms(2,3)] by (auto simp: IsList_simps intro: wt_field_single)
    then show ?thesis using wt_Set[OF assms(4) n] single by simp
  next
    case list
    then have "wt_field S fd (VList vs)"
      using populateRepeatedField_typed[OF assms(2,3) wt_mutable_list[OF assms(4) n]] by simp
    then show ?thesis using wt_Set[OF assms(4) n] list by simp
  next
    case map
    then have "wt_field S fd (VMap kvs)"
      using populateMapField_typed[OF assms(2,3) wt_mutable_map[OF assms(4) n]] by simp
    then show ?thesis using wt_Set[OF assms(4) n] map by simp
  qed
qed

lemma populate_loop_typed:
  assumes "wf_schema S" and "wk_schema S" and "api_typed S A"
  shows "wt_msg S m \<Longrightarrow> populate_loop A S m path vals = Inr m' \<Longrightarrow> wt_msg S m' \<and> pm_type m' = pm_type m"
proof (induction path arbitrary: m m')
  case (Cons n path)
  show ?case
  proof (cases "field_of S (pm_type m) n")
    case None
    then show ?thesis using Cons.prems by simp
  next
    case (Some fd)
    have n: "ByName (S (pm_type m)) (fd_name fd) = Some fd" using field_of_ByName[OF assms(1) Some] .
    show ?thesis
    proof (cases "path = []")
      case True
      then show ?thesis using populate_last_typed[OF assms Cons.prems(1) n] Cons.prems(2) Some by simp
    next
      case False
      then obtain t sub where t: "kind_message (fd_kind fd) = Some t" and r: "\<not> fd_repeated fd"
        and sub: "populate_loop A S (mutable_msg fd m) path vals = Inr sub" and m': "m' = pm_Set S fd (VMsg sub) m"
        using Cons.prems(2) Some by (auto simp: map_sum_Inr_iff split: if_splits)
      have mm: "wt_msg S (mutable_msg fd m) \<and> pm_type (mutable_msg fd m) = t"
        using wt_mutable_msg[OF assms(1) Cons.prems(1) n t] .
      then have "wt_field S fd (VMsg sub)" using Cons.IH[OF _ sub] t r by simp
      then show ?thesis using wt_Set[OF Cons.prems(1) n] m' by simp
    qed
  qed
qed simp

text \<open>
  C11. Type safety of parameters: populating a well-typed message from any field path and any values
  either fails with an error or gives a well-typed message of the same type. So no setter of the
  reflection API is ever called with a value that its field does not admit.
\<close>
theorem populate_type_safe:
  assumes "wf_schema S" and "wk_schema S" and "api_typed S A" and "wt_msg S m"
  shows "case populateFieldValueFromPath A S m path vals of
           Inl e \<Rightarrow> True
         | Inr m' \<Rightarrow> wt_msg S m' \<and> pm_type m' = pm_type m"
  using populate_loop_typed[OF assms, of path vals]
  by (auto simp: populateFieldValueFromPath_def split: sum.split)

section \<open>The effect of an assignment\<close>

text \<open>Reading a path: the descriptor of its last field, and the value stored there.\<close>

fun path_field :: "schema \<Rightarrow> string \<Rightarrow> string list \<Rightarrow> field_desc option" where
  "path_field S t [] = None"
| "path_field S t (n # path) =
     (case field_of S t n of
        None \<Rightarrow> None
      | Some fd \<Rightarrow>
          if path = [] then Some fd
          else case kind_message (fd_kind fd) of None \<Rightarrow> None | Some t' \<Rightarrow> path_field S t' path)"

fun get_path :: "schema \<Rightarrow> 'x pmsg \<Rightarrow> string list \<Rightarrow> 'x pval option" where
  "get_path S m [] = None"
| "get_path S m (n # path) =
     (case field_of S (pm_type m) n of
        None \<Rightarrow> None
      | Some fd \<Rightarrow>
          if path = [] then pm_lookup m (fd_name fd)
          else case pm_lookup m (fd_name fd) of Some (VMsg sub) \<Rightarrow> get_path S sub path | _ \<Rightarrow> None)"

lemma populate_loop_type:
  "populate_loop A S m path vals = Inr m' \<Longrightarrow> pm_type m' = pm_type m"
  by (cases path)
    (auto simp: map_sum_Inr_iff populate_last_def populateField_def split: option.splits if_splits sum.splits)

lemma singular_no_map:
  assumes "wf_schema S" and "field_of S t n = Some fd" and "\<not> fd_repeated fd"
  shows "fd_map fd = None"
proof -
  have "fd \<in> set (S t)" using field_of_ByName[OF assms(1,2)] ByName_SomeD by blast
  then show ?thesis using assms(1,3) unfolding wf_schema_def by blast
qed

lemma populate_loop_reads:
  assumes "wf_schema S"
  shows "wt_msg S m \<Longrightarrow> populate_loop A S m path [s] = Inr m' \<Longrightarrow> path_field S (pm_type m) path = Some fd \<Longrightarrow>
    \<not> fd_repeated fd \<Longrightarrow> \<exists>v. parseField A (fd_kind fd) s = Inr v \<and> get_path S m' path = Some v"
proof (induction path arbitrary: m m')
  case (Cons n path)
  obtain fd1 where fd1: "field_of S (pm_type m) n = Some fd1" using Cons.prems(3) by (auto split: option.splits)
  have ty: "pm_type m' = pm_type m" using populate_loop_type[OF Cons.prems(2)] .
  show ?case
  proof (cases "path = []")
    case True
    then have "fd1 = fd" using Cons.prems(3) fd1 by simp
    moreover have "fd_map fd = None"
      using singular_no_map[OF assms fd1] Cons.prems(4) \<open>fd1 = fd\<close> by simp
    ultimately show ?thesis using Cons.prems(2,4) fd1 True ty
      by (auto simp: populate_last_def populateField_def IsList_simps pm_lookup_Set split: if_splits sum.splits)
  next
    case False
    then obtain t sub where t: "kind_message (fd_kind fd1) = Some t"
      and sub: "populate_loop A S (mutable_msg fd1 m) path [s] = Inr sub" and m': "m' = pm_Set S fd1 (VMsg sub) m"
      using Cons.prems(2) fd1 by (auto simp: map_sum_Inr_iff split: if_splits)
    have mm: "wt_msg S (mutable_msg fd1 m) \<and> pm_type (mutable_msg fd1 m) = t"
      using wt_mutable_msg[OF assms Cons.prems(1) field_of_ByName[OF assms fd1] t] .
    then have "path_field S (pm_type (mutable_msg fd1 m)) path = Some fd"
      using Cons.prems(3) fd1 False t by simp
    then obtain v where "parseField A (fd_kind fd) s = Inr v" "get_path S sub path = Some v"
      using Cons.IH[OF _ sub] mm Cons.prems(4) by auto
    then show ?thesis using m' fd1 ty False by (simp add: pm_lookup_Set)
  qed
qed simp

text \<open>
  C22. A path parameter arrives where it points: when assigning a parameter to a path that leads to a
  singular field succeeds, reading the message at that path gives exactly the value that the text
  denotes for the field's kind, however deeply the field is nested.
\<close>
theorem PopulateFieldFromPath_reads_back:
  assumes "wf_schema S" and "wt_msg S m" and "PopulateFieldFromPath A S m path s = Inr m'"
    and "path_field S (pm_type m) (SplitByte path (CHR ''.'')) = Some fd" and "\<not> fd_repeated fd"
  shows "\<exists>v. parseField A (fd_kind fd) s = Inr v \<and> get_path S m' (SplitByte path (CHR ''.'')) = Some v"
  using populate_loop_reads[OF assms(1,2) _ assms(4,5), of A s m'] assms(3)
  by (simp add: PopulateFieldFromPath_def populateFieldValueFromPath_def)

section \<open>A concrete schema\<close>

definition fd0 :: "string \<Rightarrow> kind \<Rightarrow> bool \<Rightarrow> field_desc" where
  "fd0 n k rep = \<lparr>fd_name = n, fd_json = n, fd_text = n, fd_kind = k, fd_repeated = rep, fd_map = None, fd_oneof = None\<rparr>"

definition tree_schema :: schema where
  "tree_schema t =
     (case map_of wrapper_kinds t of
        Some k \<Rightarrow> [fd0 ''value'' k False]
      | None \<Rightarrow>
          if t = ''google.protobuf.FieldMask'' then [fd0 ''paths'' StringKind True]
          else if t = ''Tree'' then [fd0 ''id'' Int32Kind False, fd0 ''child'' (MessageKind ''Tree'') False]
          else [])"

definition none_api :: "'x std_api" where
  "none_api = \<lparr>api_ParseFloat = \<lambda>_ _. None, api_Timestamp = \<lambda>_. None, api_Duration = \<lambda>_. None,
     api_Value = \<lambda>_. None, api_Struct = \<lambda>_. None\<rparr>"

lemma tree_schema_ok: "wf_schema tree_schema" "wk_schema tree_schema" "api_typed tree_schema none_api"
proof -
  show "wf_schema tree_schema"
    by (auto simp: wf_schema_def tree_schema_def fd0_def split: option.splits)
  show "wk_schema tree_schema" by code_simp
  show "api_typed tree_schema none_api" by (simp add: api_typed_def none_api_def typed_as_def)
qed

lemma tree_fields:
  "ByName (tree_schema ''Tree'') n = (if n = ''id'' then Some (fd0 ''id'' Int32Kind False)
     else if n = ''child'' then Some (fd0 ''child'' (MessageKind ''Tree'') False) else None)"
  by (auto simp: tree_schema_def wrapper_kinds_def ByName_def fd0_def)

theorem populate_type_safe_witness:
  "case populateFieldValueFromPath none_api tree_schema (empty_msg ''Tree'' :: bool pmsg) [''child'', ''id''] [''7''] of
     Inl e \<Rightarrow> True
   | Inr m' \<Rightarrow> wt_msg tree_schema m' \<and> pm_type m' = pm_type (empty_msg ''Tree'' :: bool pmsg)"
  using populate_type_safe[OF tree_schema_ok, of "empty_msg ''Tree'' :: bool pmsg" "[''child'', ''id'']" "[''7'']"] by simp

lemma tree_seven:
  "PopulateFieldFromPath none_api tree_schema (empty_msg ''Tree'' :: bool pmsg) ''child.id'' ''7'' =
     Inr (PMsg ''Tree'' [(''child'', VMsg (PMsg ''Tree'' [(''id'', VInt32 7)]))])"
  by code_simp

theorem PopulateFieldFromPath_reads_back_witness:
  "\<exists>v. parseField none_api Int32Kind ''7'' = Inr v \<and>
     get_path tree_schema (PMsg ''Tree'' [(''child'', VMsg (PMsg ''Tree'' [(''id'', VInt32 7 :: bool pval)]))]) [''child'', ''id''] = Some v"
proof -
  have p: "SplitByte ''child.id'' (CHR ''.'') = [''child'', ''id'']" by simp
  have "path_field tree_schema ''Tree'' [''child'', ''id''] = Some (fd0 ''id'' Int32Kind False)" by code_simp
  then show ?thesis
    using PopulateFieldFromPath_reads_back[OF tree_schema_ok(1) _ tree_seven, of "fd0 ''id'' Int32Kind False"] p
    by (simp add: fd0_def)
qed

section \<open>The query filter\<close>

text \<open>HasCommonPrefix of the filter: whether one of the sequences it was built from begins the path.\<close>

definition prefix_filter :: "string list list \<Rightarrow> string list \<Rightarrow> bool" where
  "prefix_filter seqs path = list_ex (\<lambda>s. take (length s) path = s) seqs"

lemma length_normalize_loop:
  "length orig = length acc + length path \<Longrightarrow> length (normalize_loop S t orig acc path) = length orig"
  by (induction S t orig acc path rule: normalize_loop.induct) (auto simp: Let_def split: option.split)

lemma length_normalizeFieldPath: "length (normalizeFieldPath S m path) = length path"
  unfolding normalizeFieldPath_def by (rule length_normalize_loop) simp

lemma text_lookup:
  assumes "\<forall>fd \<in> set fds. fd_text fd = fd_name fd"
  shows "ByTextName fds n = ByName fds n"
  using assms unfolding ByTextName_def ByName_def by (induction fds) auto

lemma normalize_single:
  assumes "\<forall>fd \<in> set (S (pm_type m)). fd_text fd = fd_name fd"
  shows "normalizeFieldPath S m [k] = (case field_of S (pm_type m) k of None \<Rightarrow> [k] | Some fd \<Rightarrow> [fd_name fd])"
  by (simp add: normalizeFieldPath_def text_lookup[OF assms] field_of_def Let_def split: option.split)

lemma populate_loop_frame:
  assumes "populate_loop A S m (k # path) vals = Inr m'" and "field_of S (pm_type m) k = Some fd"
    and "fd_name fd \<noteq> n" and "\<not> other_in_oneof S (pm_type m) fd n"
  shows "pm_lookup m' n = pm_lookup m n"
  using assms
  by (auto simp: map_sum_Inr_iff populate_last_def populateField_def pm_lookup_Set split: if_splits option.splits sum.splits)

lemma not_in_oneof:
  assumes "wf_schema S" and "ByName (S t) n = Some fd" and "fd_oneof fd = None"
  shows "\<not> other_in_oneof S t fd' n"
proof
  assume o: "other_in_oneof S t fd' n"
  then obtain fd2 where "fd2 \<in> set (S t)" and "fd_name fd2 = n" and "fd_oneof fd2 \<noteq> None"
    by (auto simp: other_in_oneof_def list_ex_iff)
  then show False using assms ByName_distinct[of "S t" fd2] by (auto simp: wf_schema_def)
qed

lemma populate_reserved:
  assumes wf: "wf_schema S" and tx: "\<forall>fd \<in> set (S (pm_type m)). fd_text fd = fd_name fd"
    and n: "ByName (S (pm_type m)) n = Some fd" and k: "kind_message (fd_kind fd) = None" and oo: "fd_oneof fd = None"
    and flt: "\<not> prefix_filter seqs (normalizeFieldPath S m path)" "[n] \<in> set seqs"
    and p: "populateFieldValueFromPath A S m (normalizeFieldPath S m path) vals = Inr m'"
  shows "pm_lookup m' n = pm_lookup m n"
proof -
  obtain h r where q: "normalizeFieldPath S m path = h # r"
    using p by (cases "normalizeFieldPath S m path") (auto simp: populateFieldValueFromPath_def)
  have pl: "populate_loop A S m (h # r) vals = Inr m'"
    using p q by (auto simp: populateFieldValueFromPath_def split: if_splits)
  show ?thesis
  proof (cases "field_of S (pm_type m) h")
    case None
    then show ?thesis using pl by simp
  next
    case (Some fd')
    show ?thesis
    proof (cases "fd_name fd' = n")
      case False
      then show ?thesis using populate_loop_frame[OF pl Some] not_in_oneof[OF wf n oo] by simp
    next
      case True
      then have "fd' = fd" using field_of_ByName[OF wf Some] n by simp
      then have "r = []" using pl Some k by (auto split: if_splits)
      then obtain k0 where "path = [k0]"
        using length_normalizeFieldPath[of S m path] q by (cases path) auto
      have "h = n"
      proof (cases "field_of S (pm_type m) k0")
        case None
        then have "h = k0" using q \<open>path = [k0]\<close> normalize_single[where S = S and m = m and k = k0, OF tx] by simp
        then show ?thesis using None Some by simp
      next
        case (Some fd0)
        then have h: "h = fd_name fd0" using q \<open>path = [k0]\<close> normalize_single[where S = S and m = m and k = k0, OF tx] by simp
        then have "field_of S (pm_type m) h = Some fd0" using field_of_ByName[OF wf Some] by (simp add: field_of_def)
        then show ?thesis using \<open>field_of S (pm_type m) h = Some fd'\<close> True h by simp
      qed
      then show ?thesis using flt q by (auto simp: prefix_filter_def list_ex_iff)
    qed
  qed
qed

lemma populate_keeps_type: "populateFieldValueFromPath A S m path vals = Inr m' \<Longrightarrow> pm_type m' = pm_type m"
  using populate_loop_type by (auto simp: populateFieldValueFromPath_def split: if_splits)

lemma Parse_query_reserved:
  assumes "wf_schema S" and "\<forall>fd \<in> set (S (pm_type m)). fd_text fd = fd_name fd"
    and "ByName (S (pm_type m)) n = Some fd" and "kind_message (fd_kind fd) = None" and "fd_oneof fd = None"
    and "[n] \<in> set seqs" and "Parse_query A S (prefix_filter seqs) m query = Inr m'"
  shows "pm_lookup m' n = pm_lookup m n"
  using assms(2-3,7)
proof (induction query arbitrary: m)
  case (Cons kv query)
  obtain key vals where kv: "kv = (key, vals)" by (cases kv)
  obtain key' vals' where kv': "(case valuesKey key of None \<Rightarrow> (key, vals) | Some (a, b) \<Rightarrow> (a, b # vals)) = (key', vals')"
    by (metis surj_pair)
  define path where "path = SplitByte key' (CHR ''.'')"
  show ?case
  proof (cases "prefix_filter seqs (normalizeFieldPath S m path)")
    case True
    then show ?thesis using Cons kv kv' path_def by (simp add: Let_def)
  next
    case False
    then obtain m1 where m1: "populateFieldValueFromPath A S m (normalizeFieldPath S m path) vals' = Inr m1"
      and rest: "Parse_query A S (prefix_filter seqs) m1 query = Inr m'"
      using Cons.prems(3) kv kv' path_def by (auto simp: Let_def split: sum.splits)
    have "pm_type m1 = pm_type m" using populate_keeps_type[OF m1] .
    then have "pm_lookup m' n = pm_lookup m1 n" using Cons.IH[of m1] Cons.prems rest by simp
    then show ?thesis
      using populate_reserved[OF assms(1) Cons.prems(1,2) assms(4,5) False assms(6) m1] by simp
  qed
qed simp

text \<open>
  C15. Query parameters never override what the filter reserves: whatever keys and values a query has, in
  whatever order they are visited, a singular scalar field outside of oneofs whose name is in the filter
  (as the path parameters are) has after Parse the value it had before, also when the query names it by
  its JSON name or with brackets.
\<close>
theorem Parse_query_respects_filter:
  assumes "wf_schema S" and "\<forall>fd \<in> set (S (pm_type m)). fd_text fd = fd_name fd"
    and "ByName (S (pm_type m)) n = Some fd" and "kind_message (fd_kind fd) = None" and "fd_oneof fd = None"
    and "[n] \<in> set seqs" and "Parse_query A S (prefix_filter seqs) m query = Inr m'"
  shows "pm_lookup m' n = pm_lookup m n"
  by (rule Parse_query_reserved[OF assms])

theorem Parse_query_respects_filter_witness:
  "pm_lookup (PMsg ''Tree'' [(''id'', VInt32 3 :: bool pval)]) ''id'' = pm_lookup (PMsg ''Tree'' [(''id'', VInt32 3)]) ''id''
    \<and> Parse_query none_api tree_schema (prefix_filter [[''id'']]) (PMsg ''Tree'' [(''id'', VInt32 3 :: bool pval)])
        [(''id'', [''9'']), (''other'', [''x''])] = Inr (PMsg ''Tree'' [(''id'', VInt32 3)])"
proof -
  have r: "Parse_query none_api tree_schema (prefix_filter [[''id'']]) (PMsg ''Tree'' [(''id'', VInt32 3 :: bool pval)])
      [(''id'', [''9'']), (''other'', [''x''])] = Inr (PMsg ''Tree'' [(''id'', VInt32 3)])"
    by code_simp
  have t: "\<forall>fd \<in> set (tree_schema ''Tree''). fd_text fd = fd_name fd"
    by (simp add: tree_schema_def wrapper_kinds_def fd0_def)
  show ?thesis
    using Parse_query_respects_filter[OF tree_schema_ok(1) _ _ _ _ _ r, of "''id''" "fd0 ''id'' Int32Kind False"] r t
    by (simp add: tree_fields fd0_def)
qed

section \<open>Bytes and enums\<close>

definition url_encode :: "string \<Rightarrow> string" where
  "url_encode bs = map (\<lambda>c. if c = CHR ''+'' then CHR ''-'' else if c = CHR ''/'' then CHR ''_'' else c) (b64_encode True bs)"

text \<open>The number of an enum is converted to 32 bits before it is looked up, so larger numbers denote values too.\<close>

theorem parseEnum_wraps:
  "parseField (A :: 'x std_api) (EnumKind ''Color'' [(''RED'', 0), (''BLUE'', 1)]) ''4294967297'' = Inr (VEnum 1)"
proof -
  have "is_number ''4294967297''" "decimal ''4294967297'' = 4294967297"
    by (simp_all add: is_number_def digit_val_def)
  then have "Atoi ''4294967297'' = Some 4294967297" by (simp add: Atoi_def ParseInt_iff signed_numeral_def)
  moreover have "EnumNumber 4294967297 = 1" by (simp add: EnumNumber_def int_word_sint)
  ultimately show ?thesis by (simp add: or_error_def parseEnum_def enum_ByName_def enum_ByNumber_def)
qed

text \<open>Padding is required: the unpadded URL alphabet, which the comment of Bytes names, is refused.\<close>

theorem Bytes_needs_padding:
  "Bytes ''_w'' = None \<and> Bytes ''_w=='' = Some [CHR 0xFF]"
proof -
  have "char_of (255 :: nat) = CHR 0xFF" by code_simp
  then show ?thesis
    by (simp add: Bytes_def StdEncoding_decode_def URLEncoding_decode_def url_char_def b64_val_def b64_alphabet_def b64_bytes_def Let_def)
qed

lemma b64_decode_chars:
  "b64_decode padded s = Some b \<Longrightarrow> c \<in> set s \<Longrightarrow> b64_val c \<noteq> None \<or> c = CHR ''=''"
  by (induction padded s arbitrary: b rule: b64_decode.induct) (auto split: if_splits option.splits prod.splits)

lemma b64_val_outside: "b64_val (CHR ''-'') = None" "b64_val (CHR ''_'') = None"
  by code_simp+

lemma b64_encode_no_url: "c \<in> set (b64_encode True bs) \<Longrightarrow> c \<noteq> CHR ''-'' \<and> c \<noteq> CHR ''_''"
  using b64_decode_chars[OF b64_roundtrip_raw[of True bs], of c] b64_val_outside by auto

lemma StdEncoding_refuses:
  assumes "c = CHR ''-'' \<or> c = CHR ''_''" and "c \<in> set s"
  shows "StdEncoding_decode s = None"
proof (rule ccontr)
  assume "StdEncoding_decode s \<noteq> None"
  then obtain b where "b64_decode True (filter (\<lambda>c. c \<noteq> CHR 0x0A \<and> c \<noteq> CHR 0x0D) s) = Some b"
    by (auto simp: StdEncoding_decode_def)
  then have "b64_val c \<noteq> None \<or> c = CHR ''=''" by (rule b64_decode_chars) (use assms in auto)
  then show False using assms(1) b64_val_outside by auto
qed

lemma StdEncoding_encode: "StdEncoding_decode (b64_encode True bs) = Some bs"
proof -
  have "filter (\<lambda>c. c \<noteq> CHR 0x0A \<and> c \<noteq> CHR 0x0D) (b64_encode True bs) = b64_encode True bs"
    using b64_encode_chars by (auto simp: filter_id_conv)
  then show ?thesis by (simp add: StdEncoding_decode_def b64_roundtrip_raw)
qed

text \<open>
  Round trip of bytes: whatever bytes a client sends, in the standard or in the URL alphabet with
  padding, Bytes gives them back, although the alphabet is only guessed from the text.
\<close>
theorem Bytes_roundtrip:
  "Bytes (b64_encode True bs) = Some bs \<and> Bytes (url_encode bs) = Some bs"
proof (intro conjI)
  show std: "Bytes (b64_encode True bs) = Some bs" by (simp add: Bytes_def StdEncoding_encode)
  show "Bytes (url_encode bs) = Some bs"
  proof (cases "url_encode bs = b64_encode True bs")
    case True
    then show ?thesis using std by simp
  next
    case False
    have "\<exists>c \<in> set (b64_encode True bs). c = CHR ''+'' \<or> c = CHR ''/''"
    proof (rule ccontr)
      assume "\<not> ?thesis"
      then have "url_encode bs = b64_encode True bs" unfolding url_encode_def by (intro map_idI) metis
      then show False using False by simp
    qed
    then obtain c where c: "c \<in> set (b64_encode True bs)" and "c = CHR ''+'' \<or> c = CHR ''/''" by blast
    moreover have "(if c = CHR ''+'' then CHR ''-'' else if c = CHR ''/'' then CHR ''_'' else c) \<in> set (url_encode bs)"
      unfolding url_encode_def set_map using c by (rule imageI)
    ultimately have "CHR ''-'' \<in> set (url_encode bs) \<or> CHR ''_'' \<in> set (url_encode bs)"
      by (auto split: if_splits)
    then have "StdEncoding_decode (url_encode bs) = None"
      using StdEncoding_refuses by blast
    moreover have "CHR ''+'' \<notin> set (url_encode bs)" "CHR ''/'' \<notin> set (url_encode bs)"
      by (auto simp: url_encode_def)
    moreover have "map url_char (url_encode bs) = b64_encode True bs"
      unfolding url_encode_def map_map
      by (rule map_idI) (use b64_encode_no_url[of _ bs] in \<open>simp add: url_char_def\<close>)
    ultimately show ?thesis by (simp add: Bytes_def URLEncoding_decode_def StdEncoding_encode)
  qed
qed

end
