(* ===== verification/Bridgedesc.thy ===== *)
theory Bridgedesc
  imports Prelude
begin

text \<open>
  Target descriptions (bridgedesc/types.go and parse.go): the records the routers and the transcoder
  work on, the dummy method and the default binding of a bare gRPC method, and ParseTarget, which
  reads them off service descriptors.

  The file and type resolvers of a target are references to registries of google.golang.org/protobuf
  that no operation modelled here looks into; the model leaves the two fields out. A message
  descriptor is represented by its full name.
\<close>

section \<open>Descriptions (types.go)\<close>

datatype Message = EmptyMessage | DynamicMessage string

record Binding =
  HTTPMethod :: string
  Pattern :: string
  RequestBodyPath :: string
  ResponseBodyPath :: string

record Method =
  RPCName :: string
  Input :: Message
  Output :: Message
  ClientStreaming :: bool
  ServerStreaming :: bool
  Bindings :: "Binding list"

record Service =
  service_Name :: string
  Methods :: "Method list"

record Target =
  target_Name :: string
  Services :: "Service list"

definition CanonicalRPCName :: "string \<Rightarrow> string \<Rightarrow> string" where
  "CanonicalRPCName svcName methodName = ''/'' @ svcName @ ''/'' @ methodName"

definition DummyMethod :: "string \<Rightarrow> string \<Rightarrow> Method" where
  "DummyMethod svcName methodName =
     \<lparr>RPCName = CanonicalRPCName svcName methodName, Input = EmptyMessage, Output = EmptyMessage,
      ClientStreaming = True, ServerStreaming = True, Bindings = []\<rparr>"

definition DefaultBinding :: "Method \<Rightarrow> Binding" where
  "DefaultBinding m =
     \<lparr>HTTPMethod = ''POST'', Pattern = RPCName m, RequestBodyPath = ''*'', ResponseBodyPath = []\<rparr>"

section \<open>ParseTarget (parse.go)\<close>

text \<open>The google.api.http option of a method; the oneof \<open>pattern\<close> may be unset.\<close>

datatype http_pattern =
    HttpGet string
  | HttpPut string
  | HttpPost string
  | HttpDelete string
  | HttpPatch string
  | HttpCustom string string
  | HttpUnset

datatype http_rule = HttpRule
  (rule_pattern: http_pattern)
  (rule_body: string)
  (rule_response_body: string)
  (rule_additional: "http_rule list")

record method_descriptor =
  md_Name :: string
  md_Input :: string
  md_Output :: string
  md_IsStreamingClient :: bool
  md_IsStreamingServer :: bool
  md_http :: "http_rule option"

datatype descriptor =
    ServiceDescriptor string "method_descriptor list"
  | OtherDescriptor

definition parseBinding :: "http_rule \<Rightarrow> Binding" where
  "parseBinding rule =
     (let (m, p) = (case rule_pattern rule of
         HttpGet p \<Rightarrow> (''GET'', p)
       | HttpPut p \<Rightarrow> (''PUT'', p)
       | HttpPost p \<Rightarrow> (''POST'', p)
       | HttpDelete p \<Rightarrow> (''DELETE'', p)
       | HttpPatch p \<Rightarrow> (''PATCH'', p)
       | HttpCustom k p \<Rightarrow> (k, p)
       | HttpUnset \<Rightarrow> ([], []))
      in \<lparr>HTTPMethod = m, Pattern = p, RequestBodyPath = rule_body rule,
          ResponseBodyPath = rule_response_body rule\<rparr>)"

definition parseMethodDescriptor :: "string \<Rightarrow> method_descriptor \<Rightarrow> Method" where
  "parseMethodDescriptor svcFullName md =
     (let desc = \<lparr>RPCName = CanonicalRPCName svcFullName (md_Name md),
                  Input = DynamicMessage (md_Input md), Output = DynamicMessage (md_Output md),
                  ClientStreaming = md_IsStreamingClient md,
                  ServerStreaming = md_IsStreamingServer md, Bindings = []\<rparr>
      in case md_http md of
           None \<Rightarrow> desc
         | Some rule \<Rightarrow> desc\<lparr>Bindings := parseBinding rule # map parseBinding (rule_additional rule)\<rparr>)"

definition parseServiceDescriptors :: "string \<Rightarrow> method_descriptor list \<Rightarrow> Method list" where
  "parseServiceDescriptors svcFullName mds = map (parseMethodDescriptor svcFullName) mds"

text \<open>\<open>lookup_desc\<close> is FindDescriptorByName of the file resolver; its error is ignored by the code.\<close>

definition ParseTarget :: "(string \<Rightarrow> descriptor option) \<Rightarrow> string \<Rightarrow> string list \<Rightarrow> Target" where
  "ParseTarget lookup_desc name svcNames =
     \<lparr>target_Name = name,
      Services = map (\<lambda>n. case lookup_desc n of
          Some (ServiceDescriptor full mds) \<Rightarrow> \<lparr>service_Name = n, Methods = parseServiceDescriptors full mds\<rparr>
        | _ \<Rightarrow> \<lparr>service_Name = n, Methods = []\<rparr>) svcNames\<rparr>"

section \<open>Properties\<close>

lemma ParseTarget_names: "map service_Name (Services (ParseTarget lookup_desc name svcNames)) = svcNames"
  by (induction svcNames) (auto simp: ParseTarget_def split: option.splits descriptor.splits)

lemma ParseTarget_name [simp]: "target_Name (ParseTarget lookup_desc name svcNames) = name"
  by (simp add: ParseTarget_def)

text \<open>Methods without the http option get no binding at all, the others one per rule.\<close>

lemma parseMethodDescriptor_bindings:
  "length (Bindings (parseMethodDescriptor svc md))
     = (case md_http md of None \<Rightarrow> 0 | Some rule \<Rightarrow> Suc (length (rule_additional rule)))"
  by (auto simp: parseMethodDescriptor_def Let_def split: option.splits)

text \<open>
  ParseTarget describes exactly the requested services, in the order they were requested: the
  names are the requested names whatever the registry holds, and every method of a service the
  registry knows carries the canonical name /service/method and one binding per HTTP rule.
\<close>
theorem ParseTarget_services:
  "map service_Name (Services (ParseTarget lookup_desc name svcNames)) = svcNames
   \<and> (\<forall>i < length svcNames.
        map RPCName (Methods (Services (ParseTarget lookup_desc name svcNames) ! i))
          = (case lookup_desc (svcNames ! i) of
               Some (ServiceDescriptor full mds) \<Rightarrow> map (\<lambda>md. CanonicalRPCName full (md_Name md)) mds
             | _ \<Rightarrow> [])
        \<and> map (length \<circ> Bindings) (Methods (Services (ParseTarget lookup_desc name svcNames) ! i))
          = (case lookup_desc (svcNames ! i) of
               Some (ServiceDescriptor full mds) \<Rightarrow>
                 map (\<lambda>md. case md_http md of None \<Rightarrow> 0 | Some rule \<Rightarrow> Suc (length (rule_additional rule))) mds
             | _ \<Rightarrow> []))"
proof -
  have rpc: "RPCName (parseMethodDescriptor svc md) = CanonicalRPCName svc (md_Name md)" for svc md
    by (auto simp: parseMethodDescriptor_def Let_def split: option.splits)
  show ?thesis
    unfolding ParseTarget_names
    by (auto simp: ParseTarget_def parseServiceDescriptors_def rpc parseMethodDescriptor_bindings comp_def
        split: option.splits descriptor.splits)
qed

theorem ParseTarget_services_witness:
  "map service_Name (Services (ParseTarget
      (\<lambda>n. if n = ''p.S'' then Some (ServiceDescriptor ''p.S''
         [\<lparr>md_Name = ''Get'', md_Input = ''p.Req'', md_Output = ''p.Resp'', md_IsStreamingClient = False,
           md_IsStreamingServer = True, md_http = Some (HttpRule (HttpGet ''/v1'') [] [] [HttpRule HttpUnset [] [] []])\<rparr>])
       else None) ''t'' [''p.S'', ''p.T''])) = [''p.S'', ''p.T'']"
  using ParseTarget_services by blast

end
