(* ===== verification/Transcoding.thy ===== *)
theory Transcoding
  imports Gwquery_Props Bridgedesc
begin

text \<open>
  The standard transcoder (transcoding/http.go, with the interfaces of transcoding/transcoding.go): the
  choice of marshalers from the headers of the request, the walk to the fields that bodies are bound to,
  request and response transcoding, their streaming forms and server-sent events. A request body reference
  is the list of the fields that were passed through with Mutable; writing through it rebuilds the message
  (\<open>put_steps\<close>). mime.ParseMediaType and runtime.PopulateQueryParameters of grpc-gateway are parameters; so is
  a reader (the bytes it still has) and the outcome of a write.
\<close>

section \<open>Interfaces (transcoding.go)\<close>

record ('r, 'x) streamer =
  st_Encode :: "'r \<Rightarrow> (string \<Rightarrow> go_error option) \<Rightarrow> 'x pmsg \<Rightarrow> field_desc option \<Rightarrow> string \<times> go_error option"
  st_Decode :: "'r \<Rightarrow> string \<Rightarrow> 'x pmsg \<Rightarrow> field_desc option \<Rightarrow> string \<times> (go_error + 'x pmsg)"

record ('r, 'x) Marshaler =
  mr_Marshal :: "'r \<Rightarrow> 'x pmsg \<Rightarrow> field_desc option \<Rightarrow> string \<times> go_error option"
  mr_Unmarshal :: "'r \<Rightarrow> string \<Rightarrow> 'x pmsg \<Rightarrow> field_desc option \<Rightarrow> go_error + 'x pmsg"
  mr_ContentType :: "string \<times> bool"
  mr_stream :: "('r, 'x) streamer option"

record 'r HTTPRequest =
  tr_Resolver :: 'r
  tr_Method :: Method
  tr_Binding :: Binding
  tr_Header :: "string \<Rightarrow> string list"
  tr_Query :: "(string \<times> string list) list"
  tr_PathParams :: "(string \<times> string) list"

section \<open>Binding\<close>

record ('r, 'x) StandardTranscoderOpts =
  o_Marshalers :: "('r, 'x) Marshaler list option"
  o_DefaultMarshaler :: "('r, 'x) Marshaler option"

record ('r, 'x) StandardTranscoder =
  defaultMarshaler :: "('r, 'x) Marshaler"
  mimeMarshalers :: "string \<Rightarrow> ('r, 'x) Marshaler option"

text \<open>\<open>dflt\<close> is DefaultJSONMarshaler.\<close>

definition withDefaults ::
    "('r, 'x) Marshaler \<Rightarrow> ('r, 'x) StandardTranscoderOpts \<Rightarrow> ('r, 'x) Marshaler list \<times> ('r, 'x) Marshaler" where
  "withDefaults dflt opts =
     ((case o_Marshalers opts of None \<Rightarrow> [dflt] | Some ms \<Rightarrow> ms),
      (case o_DefaultMarshaler opts of None \<Rightarrow> dflt | Some m \<Rightarrow> m))"

definition NewStandardTranscoder ::
    "('r, 'x) Marshaler \<Rightarrow> ('r, 'x) StandardTranscoderOpts \<Rightarrow> ('r, 'x) StandardTranscoder" where
  "NewStandardTranscoder dflt opts =
     (let (ms, d) = withDefaults dflt opts
      in \<lparr>defaultMarshaler = d, mimeMarshalers = fold (\<lambda>m tbl. tbl(fst (mr_ContentType m) \<mapsto> m)) ms Map.empty\<rparr>)"

fun first_some :: "('a \<Rightarrow> 'b option) \<Rightarrow> 'a list \<Rightarrow> 'b option" where
  "first_some f [] = None"
| "first_some f (x # xs) = (case f x of Some y \<Rightarrow> Some y | None \<Rightarrow> first_some f xs)"

definition unsupportedMediaType :: go_error where
  "unsupportedMediaType = ErrHTTP 415 (ErrStatus InvalidArgument ''Unsupported Media Type'')"

definition pickRequestMarshaler ::
    "(string \<Rightarrow> string option) \<Rightarrow> ('r, 'x) StandardTranscoder \<Rightarrow> 'r HTTPRequest \<Rightarrow> go_error + ('r, 'x) Marshaler" where
  "pickRequestMarshaler ParseMediaType t req =
     (let ctHeader = tr_Header req ''Content-Type''
      in if ctHeader = [] then Inr (defaultMarshaler t)
         else case first_some (\<lambda>ct. case ParseMediaType ct of None \<Rightarrow> None | Some mt \<Rightarrow> mimeMarshalers t mt) ctHeader of
                Some m \<Rightarrow> Inr m
              | None \<Rightarrow> Inl unsupportedMediaType)"

definition pickResponseMarshaler :: "('r, 'x) StandardTranscoder \<Rightarrow> 'r HTTPRequest \<Rightarrow> ('r, 'x) Marshaler option" where
  "pickResponseMarshaler t req = first_some (mimeMarshalers t) (tr_Header req ''Accept'')"

text \<open>
  The bound transcoders. They offer Stream exactly when the marshaler is a StreamMarshaler; the cached query
  filter is not kept, as it is a function of the request.
\<close>

record ('r, 'x) requestTranscoder =
  rq_req :: "'r HTTPRequest"
  rq_marshaler :: "('r, 'x) Marshaler"
  rq_streamer :: "('r, 'x) streamer option"

record ('r, 'x) responseTranscoder =
  rp_req :: "'r HTTPRequest"
  rp_marshaler :: "('r, 'x) Marshaler"
  rp_isSSE :: bool
  rp_streamer :: "('r, 'x) streamer option"

definition newRequestTranscoder :: "'r HTTPRequest \<Rightarrow> ('r, 'x) Marshaler \<Rightarrow> ('r, 'x) requestTranscoder" where
  "newRequestTranscoder req m = \<lparr>rq_req = req, rq_marshaler = m, rq_streamer = mr_stream m\<rparr>"

definition newResponseTranscoder :: "'r HTTPRequest \<Rightarrow> ('r, 'x) Marshaler \<Rightarrow> bool \<Rightarrow> ('r, 'x) responseTranscoder" where
  "newResponseTranscoder req m isSSE = \<lparr>rp_req = req, rp_marshaler = m, rp_isSSE = isSSE, rp_streamer = mr_stream m\<rparr>"

definition Bind ::
    "(string \<Rightarrow> string option) \<Rightarrow> ('r, 'x) StandardTranscoder \<Rightarrow> 'r HTTPRequest
      \<Rightarrow> go_error + (('r, 'x) requestTranscoder \<times> ('r, 'x) responseTranscoder)" where
  "Bind ParseMediaType t req =
     (case pickRequestMarshaler ParseMediaType t req of
        Inl err \<Rightarrow> Inl err
      | Inr requestMarshaler \<Rightarrow>
          let (responseMarshaler, isSSE) =
                (case pickResponseMarshaler t req of
                   Some m \<Rightarrow> (m, False)
                 | None \<Rightarrow> (requestMarshaler, ''text/event-stream'' \<in> set (tr_Header req ''Accept'')))
          in if isSSE \<and> ClientStreaming (tr_Method req)
             then Inl (ErrStatus InvalidArgument ''SSE cannot be used with client streaming methods'')
             else if isSSE \<and> \<not> ServerStreaming (tr_Method req)
             then Inl (ErrStatus InvalidArgument ''SSE needs to be used with server streaming methods'')
             else Inr (newRequestTranscoder req requestMarshaler, newResponseTranscoder req responseMarshaler isSSE))"

section \<open>Field paths\<close>

lemma CutByte_shorter: "(a, b, found) = CutByte s c \<Longrightarrow> b \<noteq> [] \<Longrightarrow> length b < length s"
  by (cases rule: CutByte_cases[of c s]) auto

text \<open>The loop of traverseFieldPath; its condition can only fail for the empty path, which the caller excludes.\<close>

function trav_loop :: "schema \<Rightarrow> string \<Rightarrow> string \<Rightarrow> field_desc list \<Rightarrow> go_error + (field_desc list \<times> field_desc option)" where
  "trav_loop S t path steps =
     (case CutByte path (CHR ''.'') of (elem, rest, foundSep) \<Rightarrow>
        if foundSep \<and> elem = [] then Inl (ErrMsg ''invalid path: contains empty element'')
        else case ByName (S t) elem of
          None \<Rightarrow> Inl (ErrMsg ''no field found'')
        | Some fd \<Rightarrow>
            if rest = [] then Inr (steps, Some fd)
            else (case kind_message (fd_kind fd) of
                    None \<Rightarrow> Inl (ErrMsg ''invalid path: not a message'')
                  | Some t' \<Rightarrow>
                      if fd_repeated fd then Inl (ErrMsg ''invalid path: not a message'')
                      else trav_loop S t' rest (steps @ [fd])))"
  by pat_completeness auto
termination
  by (relation "measure (\<lambda>(S, t, path, steps). length path)") (auto dest: CutByte_shorter)

declare trav_loop.simps [simp del]

definition traverseFieldPath :: "schema \<Rightarrow> string \<Rightarrow> string \<Rightarrow> go_error + (field_desc list \<times> field_desc option)" where
  "traverseFieldPath S t path =
     (if path = [] \<or> path = ''*'' then Inr ([], None) else trav_loop S t path [])"

fun at_steps :: "field_desc list \<Rightarrow> 'x pmsg \<Rightarrow> 'x pmsg" where
  "at_steps [] m = m"
| "at_steps (fd # fds) m = at_steps fds (mutable_msg fd m)"

fun put_steps :: "schema \<Rightarrow> field_desc list \<Rightarrow> 'x pmsg \<Rightarrow> 'x pmsg \<Rightarrow> 'x pmsg" where
  "put_steps S [] m sub = sub"
| "put_steps S (fd # fds) m sub = pm_Set S fd (VMsg (put_steps S fds (mutable_msg fd m) sub)) m"

section \<open>Requests\<close>

type_synonym 'x query_parser = "'x pmsg \<Rightarrow> (string \<times> string list) list \<Rightarrow> string list list \<Rightarrow> go_error + 'x pmsg"

definition queryParamFilter :: "'r HTTPRequest \<Rightarrow> string list list" where
  "queryParamFilter req =
     (if RequestBodyPath (tr_Binding req) \<noteq> [] then [SplitByte (RequestBodyPath (tr_Binding req)) (CHR ''.'')] else [])
     @ map (\<lambda>(k, v). SplitByte k (CHR ''.'')) (tr_PathParams req)"

definition shouldParseQuery :: "'r HTTPRequest \<Rightarrow> bool" where
  "shouldParseQuery req = (RequestBodyPath (tr_Binding req) \<noteq> ''*'')"

fun path_params_loop :: "'x std_api \<Rightarrow> schema \<Rightarrow> (string \<times> string) list \<Rightarrow> 'x pmsg \<Rightarrow> go_error + 'x pmsg" where
  "path_params_loop A S [] m = Inr m"
| "path_params_loop A S ((k, v) # params) m =
     (case PopulateFieldFromPath A S m k v of
        Inl err \<Rightarrow> Inl (ErrStatus InvalidArgument ''type mismatch'')
      | Inr m' \<Rightarrow> path_params_loop A S params m')"

text \<open>The first part of transcodeFunc, up to the path parameters; \<open>d\<close> is the state of the decoder.\<close>

definition body_step ::
    "schema \<Rightarrow> 'r HTTPRequest \<Rightarrow> bool \<Rightarrow> 'd \<Rightarrow> ('d \<Rightarrow> 'x pmsg \<Rightarrow> field_desc option \<Rightarrow> 'd \<times> (go_error + 'x pmsg))
      \<Rightarrow> 'x pmsg \<Rightarrow> 'd \<times> (go_error + 'x pmsg)" where
  "body_step S req supportsEOF d f m =
     (if RequestBodyPath (tr_Binding req) = [] then (d, Inr m)
      else case traverseFieldPath S (pm_type m) (RequestBodyPath (tr_Binding req)) of
        Inl err \<Rightarrow> (d, Inl (ErrStatus Internal ''request body path''))
      | Inr (steps, fd) \<Rightarrow>
          (case f d (at_steps steps m) fd of
             (d', Inl err) \<Rightarrow>
               (d', Inl (if is_EOF err \<and> supportsEOF then ErrWrap ''unmarshaling request body'' err
                         else ErrStatus InvalidArgument ''unmarshaling request body''))
           | (d', Inr sub) \<Rightarrow> (d', Inr (put_steps S steps m sub))))"

definition request_transcodeFunc ::
    "'x std_api \<Rightarrow> schema \<Rightarrow> 'x query_parser \<Rightarrow> 'r HTTPRequest \<Rightarrow> bool \<Rightarrow> 'd
      \<Rightarrow> ('d \<Rightarrow> 'x pmsg \<Rightarrow> field_desc option \<Rightarrow> 'd \<times> (go_error + 'x pmsg)) \<Rightarrow> 'x pmsg \<Rightarrow> 'd \<times> (go_error + 'x pmsg)" where
  "request_transcodeFunc A S pq req supportsEOF d f m =
     (case body_step S req supportsEOF d f m of
        (d', Inl err) \<Rightarrow> (d', Inl err)
      | (d', Inr m1) \<Rightarrow>
          (d', case path_params_loop A S (tr_PathParams req) m1 of
                 Inl err \<Rightarrow> Inl err
               | Inr m2 \<Rightarrow>
                   if \<not> shouldParseQuery req then Inr m2
                   else (case pq m2 (tr_Query req) (queryParamFilter req) of
                           Inl err \<Rightarrow> Inl (ErrStatus InvalidArgument ''parsing query parameters'')
                         | Inr m3 \<Rightarrow> Inr m3)))"

definition request_Transcode ::
    "'x std_api \<Rightarrow> schema \<Rightarrow> 'x query_parser \<Rightarrow> ('r, 'x) requestTranscoder \<Rightarrow> string \<Rightarrow> 'x pmsg \<Rightarrow> go_error + 'x pmsg" where
  "request_Transcode A S pq t b m =
     snd (request_transcodeFunc A S pq (rq_req t) False ()
       (\<lambda>d msg fd. (d, if b = [] then Inr msg else mr_Unmarshal (rq_marshaler t) (tr_Resolver (rq_req t)) b msg fd)) m)"

text \<open>The streaming form: the decoder's state is what is left of the reader.\<close>

definition requestStream_Transcode ::
    "'x std_api \<Rightarrow> schema \<Rightarrow> 'x query_parser \<Rightarrow> ('r, 'x) requestTranscoder \<Rightarrow> ('r, 'x) streamer \<Rightarrow> string \<Rightarrow> 'x pmsg
      \<Rightarrow> string \<times> (go_error + 'x pmsg)" where
  "requestStream_Transcode A S pq t st input m =
     request_transcodeFunc A S pq (rq_req t) True input (st_Decode st (tr_Resolver (rq_req t))) m"

section \<open>Responses\<close>

text \<open>The callback returns what it produced (bytes marshaled, or written) and its error.\<close>

definition response_transcodeFunc ::
    "schema \<Rightarrow> 'r HTTPRequest \<Rightarrow> 'x pmsg \<Rightarrow> ('x pmsg \<Rightarrow> field_desc option \<Rightarrow> string \<times> go_error option) \<Rightarrow> string \<times> go_error option" where
  "response_transcodeFunc S req m f =
     (if pm_type m = ''google.rpc.Status''
      then (case f m None of
              (b, Some err) \<Rightarrow> (b, Some (ErrStatus Internal ''marshaling response status''))
            | (b, None) \<Rightarrow> (b, None))
      else case traverseFieldPath S (pm_type m) (ResponseBodyPath (tr_Binding req)) of
             Inl err \<Rightarrow> ([], Some (ErrStatus Internal ''response body path''))
           | Inr (steps, fd) \<Rightarrow>
               (case f (at_steps steps m) fd of
                  (b, Some err) \<Rightarrow> (b, Some (ErrStatus Internal ''marshaling response body''))
                | (b, None) \<Rightarrow> (b, None)))"

definition response_Transcode :: "schema \<Rightarrow> ('r, 'x) responseTranscoder \<Rightarrow> 'x pmsg \<Rightarrow> string \<times> go_error option" where
  "response_Transcode S t m =
     response_transcodeFunc S (rp_req t) m (mr_Marshal (rp_marshaler t) (tr_Resolver (rp_req t)))"

definition sse_frame :: "string \<Rightarrow> string" where
  "sse_frame b = ''data:'' @ b @ [CHR 0x0A, CHR 0x0A]"

text \<open>
  What Stream returns for a writer and what Transcode of that stream does: \<open>wr\<close> gives the outcome of a
  write. The result is the bytes passed to Write, and the error.
\<close>

definition sse_Transcode ::
    "schema \<Rightarrow> ('r, 'x) responseTranscoder \<Rightarrow> (string \<Rightarrow> go_error option) \<Rightarrow> 'x pmsg \<Rightarrow> string \<times> go_error option" where
  "sse_Transcode S t wr m =
     (case response_Transcode S t m of
        (b, Some err) \<Rightarrow> ([], Some err)
      | (b, None) \<Rightarrow> (sse_frame b, wr (sse_frame b)))"

definition responseStream_Transcode ::
    "schema \<Rightarrow> ('r, 'x) responseTranscoder \<Rightarrow> ('r, 'x) streamer \<Rightarrow> (string \<Rightarrow> go_error option) \<Rightarrow> 'x pmsg \<Rightarrow> string \<times> go_error option" where
  "responseStream_Transcode S t st wr m =
     (if rp_isSSE t then sse_Transcode S t wr m
      else response_transcodeFunc S (rp_req t) m (st_Encode st (tr_Resolver (rp_req t)) wr))"

end
