(* ===== verification/Transcoding_Props.thy ===== *)
theory Transcoding_Props
  imports Transcoding
begin

text \<open>
  What the standard transcoder guarantees: the outcome of content negotiation, field paths against a
  reference walk over their segments, path parameters that win over body and query, statuses for all
  errors, and server-sent events that a client reads back.
\<close>

section \<open>Content negotiation\<close>

lemma first_some_Some: "first_some f xs = Some y \<Longrightarrow> \<exists>x \<in> set xs. f x = Some y"
  by (induction xs) (auto split: option.splits)

lemma first_some_None: "first_some f xs = None \<longleftrightarrow> (\<forall>x \<in> set xs. f x = None)"
  by (induction xs) (auto split: option.splits)

lemma mime_fold:
  "fold (\<lambda>m tbl. tbl(fst (mr_ContentType m) \<mapsto> m)) ms tbl mt = Some m \<Longrightarrow>
     m \<in> set ms \<and> fst (mr_ContentType m) = mt \<or> tbl mt = Some m"
proof (induction ms arbitrary: tbl)
  case (Cons m0 ms)
  have "m \<in> set ms \<and> fst (mr_ContentType m) = mt \<or> (tbl(fst (mr_ContentType m0) \<mapsto> m0)) mt = Some m"
    by (rule Cons.IH) (use Cons.prems in simp)
  then show ?case by (auto split: if_splits)
qed simp

lemma mime_table: "mimeMarshalers (NewStandardTranscoder dflt opts) mt = Some m \<Longrightarrow> fst (mr_ContentType m) = mt"
  using mime_fold[of "fst (withDefaults dflt opts)" Map.empty mt m]
  by (simp add: NewStandardTranscoder_def split: prod.splits)

lemma pickRequest_Inr:
  assumes "pickRequestMarshaler PM t req = Inr m"
  shows "tr_Header req ''Content-Type'' = [] \<and> m = defaultMarshaler t
    \<or> (\<exists>ct mt. ct \<in> set (tr_Header req ''Content-Type'') \<and> PM ct = Some mt \<and> mimeMarshalers t mt = Some m)"
  using assms first_some_Some[of "\<lambda>ct. case PM ct of None \<Rightarrow> None | Some mt \<Rightarrow> mimeMarshalers t mt" "tr_Header req ''Content-Type''" m]
  by (auto simp: pickRequestMarshaler_def Let_def split: if_splits option.splits)

definition negotiated_request ::
    "(string \<Rightarrow> string option) \<Rightarrow> ('r, 'x) StandardTranscoder \<Rightarrow> 'r HTTPRequest \<Rightarrow> ('r, 'x) Marshaler \<Rightarrow> bool" where
  "negotiated_request PM t req m \<longleftrightarrow>
     (if tr_Header req ''Content-Type'' = [] then m = defaultMarshaler t
      else \<exists>ct \<in> set (tr_Header req ''Content-Type''). PM ct = Some (fst (mr_ContentType m)))"

definition negotiated_response :: "'r HTTPRequest \<Rightarrow> ('r, 'x) Marshaler \<Rightarrow> ('r, 'x) Marshaler \<Rightarrow> bool \<Rightarrow> bool" where
  "negotiated_response req inm outm sse \<longleftrightarrow>
     (if sse then outm = inm \<and> ''text/event-stream'' \<in> set (tr_Header req ''Accept'')
             \<and> ServerStreaming (tr_Method req) \<and> \<not> ClientStreaming (tr_Method req)
      else outm = inm \<or> fst (mr_ContentType outm) \<in> set (tr_Header req ''Accept''))"

lemma Bind_parts:
  assumes "Bind PM (NewStandardTranscoder dflt opts) req = Inr (rq, rp)"
  shows "negotiated_request PM (NewStandardTranscoder dflt opts) req (rq_marshaler rq)"
    and "negotiated_response req (rq_marshaler rq) (rp_marshaler rp) (rp_isSSE rp)"
    and "rq_streamer rq = mr_stream (rq_marshaler rq)" "rp_streamer rp = mr_stream (rp_marshaler rp)"
proof -
  let ?t = "NewStandardTranscoder dflt opts"
  obtain m where m: "pickRequestMarshaler PM ?t req = Inr m" and rq: "rq = newRequestTranscoder req m"
    using assms by (auto simp: Bind_def Let_def split: sum.splits option.splits if_splits)
  show "negotiated_request PM ?t req (rq_marshaler rq)"
    using pickRequest_Inr[OF m] mime_table[of dflt opts] rq
    by (fastforce simp: negotiated_request_def newRequestTranscoder_def)
  show "negotiated_response req (rq_marshaler rq) (rp_marshaler rp) (rp_isSSE rp)"
    using assms m rq first_some_Some[of "mimeMarshalers ?t" "tr_Header req ''Accept''"] mime_table[of dflt opts]
    by (fastforce simp: Bind_def Let_def negotiated_response_def newRequestTranscoder_def newResponseTranscoder_def
        pickResponseMarshaler_def split: sum.splits option.splits if_splits)
  show "rq_streamer rq = mr_stream (rq_marshaler rq)" using rq by (simp add: newRequestTranscoder_def)
  show "rp_streamer rp = mr_stream (rp_marshaler rp)"
    using assms m by (auto simp: Bind_def Let_def newResponseTranscoder_def split: sum.splits option.splits if_splits)
qed

text \<open>
  C23. Content negotiation: when Bind of a constructed transcoder succeeds, the request is read with the
  default marshaler if it names no Content-Type, and otherwise with a marshaler whose own content type is
  one of those named; the response is written with a marshaler that the Accept header names, or with that
  of the request; server-sent events are used only when they were asked for, on a method that streams
  responses and only those; and a transcoder streams exactly if its marshaler does.
\<close>
theorem Bind_negotiates:
  assumes "Bind PM (NewStandardTranscoder dflt opts) req = Inr (rq, rp)"
  shows "negotiated_request PM (NewStandardTranscoder dflt opts) req (rq_marshaler rq)
    \<and> negotiated_response req (rq_marshaler rq) (rp_marshaler rp) (rp_isSSE rp)
    \<and> rq_streamer rq = mr_stream (rq_marshaler rq) \<and> rp_streamer rp = mr_stream (rp_marshaler rp)"
  using Bind_parts[OF assms] by blast

definition ex_mk :: "(unit, bool) Marshaler" where
  "ex_mk = \<lparr>mr_Marshal = (\<lambda>_ m _. (''{}'', None)), mr_Unmarshal = (\<lambda>_ _ m _. Inr m),
     mr_ContentType = (''application/json'', False), mr_stream = None\<rparr>"

definition ex_req :: "(string \<Rightarrow> string list) \<Rightarrow> string \<Rightarrow> (string \<times> string) list \<Rightarrow> (string \<times> string list) list \<Rightarrow> unit HTTPRequest" where
  "ex_req hdr body params query = \<lparr>tr_Resolver = (),
     tr_Method = \<lparr>RPCName = ''/S/M'', Input = DynamicMessage ''Tree'', Output = DynamicMessage ''Tree'',
        ClientStreaming = False, ServerStreaming = True, Bindings = []\<rparr>,
     tr_Binding = \<lparr>HTTPMethod = ''POST'', Pattern = ''/x'', RequestBodyPath = body, ResponseBodyPath = []\<rparr>,
     tr_Header = hdr, tr_Query = query, tr_PathParams = params\<rparr>"

definition ex_opts :: "(unit, bool) StandardTranscoderOpts" where
  "ex_opts = \<lparr>o_Marshalers = None, o_DefaultMarshaler = None\<rparr>"

theorem Bind_negotiates_witness:
  "negotiated_request Some (NewStandardTranscoder ex_mk ex_opts)
      (ex_req (\<lambda>h. if h = ''Accept'' then [''text/event-stream''] else [''application/json'']) [] [] []) ex_mk
    \<and> negotiated_response (ex_req (\<lambda>h. if h = ''Accept'' then [''text/event-stream''] else [''application/json'']) [] [] []) ex_mk ex_mk True"
proof -
  let ?r = "ex_req (\<lambda>h. if h = ''Accept'' then [''text/event-stream''] else [''application/json'']) [] [] []"
  have "Bind Some (NewStandardTranscoder ex_mk ex_opts) ?r = Inr (newRequestTranscoder ?r ex_mk, newResponseTranscoder ?r ex_mk True)"
    by (simp add: Bind_def pickRequestMarshaler_def pickResponseMarshaler_def NewStandardTranscoder_def withDefaults_def
        ex_opts_def ex_req_def ex_mk_def)
  from Bind_negotiates[OF this] show ?thesis by (simp add: newRequestTranscoder_def newResponseTranscoder_def)
qed

section \<open>Field paths\<close>

text \<open>The reference: a walk over the names of the path.\<close>

fun walk :: "schema \<Rightarrow> string \<Rightarrow> string list \<Rightarrow> field_desc list \<Rightarrow> (field_desc list \<times> field_desc option) option" where
  "walk S t [] steps = None"
| "walk S t (n # ns) steps =
     (case ByName (S t) n of
        None \<Rightarrow> None
      | Some fd \<Rightarrow>
          if ns = [] then Some (steps, Some fd)
          else case kind_message (fd_kind fd) of
                 None \<Rightarrow> None
               | Some t' \<Rightarrow> if fd_repeated fd then None else walk S t' ns (steps @ [fd]))"

definition plain_path :: "string list \<Rightarrow> bool" where
  "plain_path ns \<longleftrightarrow> ns \<noteq> [] \<and> (\<forall>n \<in> set ns. n \<noteq> [] \<and> CHR ''.'' \<notin> set n)"

definition ok_result :: "'e + 'a \<Rightarrow> 'a option" where
  "ok_result r = (case r of Inl e \<Rightarrow> None | Inr x \<Rightarrow> Some x)"

lemma Join_nonempty: "plain_path ns \<Longrightarrow> Join ns sep \<noteq> []"
  by (cases ns rule: list.exhaust; cases "tl ns") (auto simp: plain_path_def)

lemma trav_loop_walk:
  "plain_path ns \<Longrightarrow> dot = [] \<or> dot = ''.'' \<Longrightarrow> ok_result (trav_loop S t (Join ns ''.'' @ dot) steps) = walk S t ns steps"
proof (induction ns arbitrary: t steps)
  case (Cons n ns)
  have n: "n \<noteq> []" "CHR ''.'' \<notin> set n" using Cons.prems(1) by (auto simp: plain_path_def)
  show ?case
  proof (cases "ns = []")
    case True
    then show ?thesis using n Cons.prems(2)
      by (subst trav_loop.simps) (auto simp: ok_result_def CutByte_no_sep CutByte_sep split: option.split)
  next
    case False
    then have p: "plain_path ns" using Cons.prems(1) by (auto simp: plain_path_def)
    have j: "Join (n # ns) ''.'' @ dot = n @ CHR ''.'' # (Join ns ''.'' @ dot)" using False by (simp add: Join_Cons)
    show ?thesis unfolding j using n Join_nonempty[OF p, of "''.''"] False Cons.IH[OF p Cons.prems(2)]
      by (subst trav_loop.simps) (auto simp: ok_result_def[where r = "Inl _"] CutByte_sep split: option.split)
  qed
qed (simp add: plain_path_def)

text \<open>
  C24. The walk along a body path agrees with the reference on the names of the path: it succeeds exactly
  when every name is a field of the message reached so far and all but the last are singular messages, with
  the same fields passed through and the same target. A trailing separator makes no difference.
\<close>
theorem traverseFieldPath_walks:
  assumes "plain_path ns" and "ns \<noteq> [''*'']"
  shows "ok_result (traverseFieldPath S t (Join ns ''.'')) = walk S t ns []
    \<and> ok_result (traverseFieldPath S t (Join ns ''.'' @ ''.'')) = walk S t ns []"
proof -
  have "Join ns ''.'' \<noteq> ''*''"
  proof
    assume s: "Join ns ''.'' = ''*''"
    then have "SplitByte (Join ns ''.'') (CHR ''.'') = [''*'']" by simp
    then show False using SplitByte_Join[of ns "CHR ''.''"] assms by (simp add: plain_path_def)
  qed
  moreover have "Join ns ''.'' @ ''.'' \<noteq> ''*''" using Join_nonempty[OF assms(1), of "''.''"] by (cases "Join ns ''.''") auto
  ultimately show ?thesis
    using Join_nonempty[OF assms(1), of "''.''"] trav_loop_walk[OF assms(1), of "[]"] trav_loop_walk[OF assms(1), of "''.''"]
    by (simp add: traverseFieldPath_def)
qed

theorem traverseFieldPath_walks_witness:
  "ok_result (traverseFieldPath tree_schema ''Tree'' ''child.id'') = walk tree_schema ''Tree'' [''child'', ''id''] []
    \<and> ok_result (traverseFieldPath tree_schema ''Tree'' ''child.id.'') = walk tree_schema ''Tree'' [''child'', ''id''] []"
  using traverseFieldPath_walks[of "[''child'', ''id'']" tree_schema "''Tree''"] by (simp add: plain_path_def)

section \<open>Who wins: path, body and query\<close>

text \<open>A field that a text can be assigned to once and for all: singular, no message, outside of oneofs.\<close>

definition plain_scalar :: "schema \<Rightarrow> string \<Rightarrow> field_desc \<Rightarrow> bool" where
  "plain_scalar S t fd \<longleftrightarrow> wf_schema S \<and> (\<forall>fd \<in> set (S t). fd_text fd = fd_name fd)
     \<and> ByName (S t) (fd_name fd) = Some fd \<and> kind_message (fd_kind fd) = None \<and> \<not> fd_repeated fd \<and> fd_oneof fd = None
     \<and> CHR ''.'' \<notin> set (fd_name fd)"

text \<open>What the transcoder needs of a query parser: it keeps the message's type and what the filter reserves.\<close>

locale query_populator =
  fixes S :: schema and pq :: "'x query_parser"
  assumes pq_type: "pq m q seqs = Inr m' \<Longrightarrow> pm_type m' = pm_type m"
    and pq_reserved: "pq m q seqs = Inr m' \<Longrightarrow> plain_scalar S (pm_type m) fd \<Longrightarrow> [fd_name fd] \<in> set seqs \<Longrightarrow>
      pm_lookup m' (fd_name fd) = pm_lookup m (fd_name fd)"

text \<open>Unmarshal writes into the message that it is given, which keeps its type.\<close>

locale typed_marshaler =
  fixes mk :: "('r, 'x) Marshaler"
  assumes unmarshal_type: "mr_Unmarshal mk r b m fd = Inr m' \<Longrightarrow> pm_type m' = pm_type m"

lemma put_steps_type: "pm_type sub = pm_type (at_steps steps m) \<Longrightarrow> pm_type (put_steps S steps m sub) = pm_type m"
  by (cases steps) auto

definition aims_at :: "schema \<Rightarrow> string \<Rightarrow> string \<Rightarrow> field_desc \<Rightarrow> bool" where
  "aims_at S t path fd \<longleftrightarrow> field_of S t (hd (SplitByte path (CHR ''.''))) = Some fd"

lemma PopulateFieldFromPath_other:
  assumes "plain_scalar S (pm_type m) fd" and "\<not> aims_at S (pm_type m) k fd" and "PopulateFieldFromPath A S m k v = Inr m'"
  shows "pm_lookup m' (fd_name fd) = pm_lookup m (fd_name fd)"
proof -
  obtain h r where hr: "SplitByte k (CHR ''.'') = h # r" by (cases "SplitByte k (CHR ''.'')") auto
  then have p: "populate_loop A S m (h # r) [v] = Inr m'"
    using assms(3) by (simp add: PopulateFieldFromPath_def populateFieldValueFromPath_def)
  show ?thesis
  proof (cases "field_of S (pm_type m) h")
    case None
    then show ?thesis using p by simp
  next
    case (Some fd')
    have "fd_name fd' \<noteq> fd_name fd"
      using assms(1,2) hr Some field_of_ByName[OF _ Some] by (auto simp: plain_scalar_def aims_at_def)
    then show ?thesis
      using populate_loop_frame[OF p Some] not_in_oneof[of S "pm_type m" "fd_name fd" fd fd'] assms(1)
      by (simp add: plain_scalar_def)
  qed
qed

lemma PopulateFieldFromPath_type: "PopulateFieldFromPath A S m k v = Inr m' \<Longrightarrow> pm_type m' = pm_type m"
  using populate_keeps_type by (simp add: PopulateFieldFromPath_def)

lemma path_params_type: "path_params_loop A S params m = Inr m' \<Longrightarrow> pm_type m' = pm_type m"
  by (induction params arbitrary: m) (auto split: sum.splits dest: PopulateFieldFromPath_type)

lemma path_params_other:
  assumes "plain_scalar S (pm_type m) fd" and "\<forall>(k, v) \<in> set params. \<not> aims_at S (pm_type m) k fd"
    and "path_params_loop A S params m = Inr m'"
  shows "pm_lookup m' (fd_name fd) = pm_lookup m (fd_name fd)"
  using assms
proof (induction params arbitrary: m)
  case (Cons kv params)
  obtain k v where kv: "kv = (k, v)" by (cases kv)
  then obtain m1 where m1: "PopulateFieldFromPath A S m k v = Inr m1" and r: "path_params_loop A S params m1 = Inr m'"
    using Cons.prems(3) by (auto split: sum.splits)
  have "pm_type m1 = pm_type m" using PopulateFieldFromPath_type[OF m1] .
  then show ?case using Cons.IH[OF _ _ r] Cons.prems(1,2) kv PopulateFieldFromPath_other[OF _ _ m1] by auto
qed simp

lemma Populate_plain:
  assumes "plain_scalar S (pm_type m) fd" and "PopulateFieldFromPath A S m (fd_name fd) s = Inr m'"
  shows "\<exists>v. parseField A (fd_kind fd) s = Inr v \<and> pm_lookup m' (fd_name fd) = Some v"
proof -
  have "field_of S (pm_type m) (fd_name fd) = Some fd" using assms(1) by (simp add: plain_scalar_def field_of_def)
  moreover have "SplitByte (fd_name fd) (CHR ''.'') = [fd_name fd]" using assms(1) by (simp add: plain_scalar_def SplitByte_no_sep)
  moreover have "fd_map fd = None" using singular_no_map[of S] calculation(1) assms(1) by (simp add: plain_scalar_def)
  ultimately show ?thesis using assms
    by (auto simp: PopulateFieldFromPath_def populateFieldValueFromPath_def populate_last_def populateField_def
        IsList_simps plain_scalar_def pm_lookup_Set split: if_splits sum.splits)
qed

definition only_aim :: "schema \<Rightarrow> string \<Rightarrow> (string \<times> string) list \<Rightarrow> field_desc \<Rightarrow> bool" where
  "only_aim S t params fd \<longleftrightarrow>
     distinct (map fst params) \<and> (\<forall>(k, v) \<in> set params. k \<noteq> fd_name fd \<longrightarrow> \<not> aims_at S t k fd)"

lemma path_params_set:
  assumes "plain_scalar S (pm_type m) fd" and "only_aim S (pm_type m) params fd" and "(fd_name fd, s) \<in> set params"
    and "path_params_loop A S params m = Inr m'"
  shows "\<exists>v. parseField A (fd_kind fd) s = Inr v \<and> pm_lookup m' (fd_name fd) = Some v"
  using assms
proof (induction params arbitrary: m)
  case (Cons kv params)
  obtain k v where kv: "kv = (k, v)" by (cases kv)
  then obtain m1 where m1: "PopulateFieldFromPath A S m k v = Inr m1" and r: "path_params_loop A S params m1 = Inr m'"
    using Cons.prems(4) by (auto split: sum.splits)
  have ty: "pm_type m1 = pm_type m" using PopulateFieldFromPath_type[OF m1] .
  have aim: "only_aim S (pm_type m1) params fd" using Cons.prems(2) ty by (auto simp: only_aim_def)
  show ?case
  proof (cases "k = fd_name fd")
    case True
    then have s: "v = s" using Cons.prems(2,3) kv by (auto simp: only_aim_def image_iff split: prod.splits)
    have "\<forall>(k, v) \<in> set params. \<not> aims_at S (pm_type m1) k fd"
      using Cons.prems(2) kv True ty by (force simp: only_aim_def)
    then have "pm_lookup m' (fd_name fd) = pm_lookup m1 (fd_name fd)"
      using path_params_other[OF _ _ r] Cons.prems(1) ty by simp
    then show ?thesis using Populate_plain[OF Cons.prems(1)] m1 True s by simp
  next
    case False
    then show ?thesis using Cons.IH[OF _ aim _ r] Cons.prems(1,3) kv ty by simp
  qed
qed simp

lemma queryParamFilter_mem: "(fd_name fd, s) \<in> set (tr_PathParams req) \<Longrightarrow> CHR ''.'' \<notin> set (fd_name fd) \<Longrightarrow>
    [fd_name fd] \<in> set (queryParamFilter req)"
  by (force simp: queryParamFilter_def SplitByte_no_sep image_iff)

context query_populator
begin

lemma path_wins:
  assumes "plain_scalar S (pm_type m) fd" and "only_aim S (pm_type m) (tr_PathParams req) fd"
    and "(fd_name fd, s) \<in> set (tr_PathParams req)"
    and body: "\<And>m1. snd (body_step S req eof d f m) = Inr m1 \<Longrightarrow> pm_type m1 = pm_type m"
    and ok: "snd (request_transcodeFunc A S pq req eof d f m) = Inr m'"
  shows "\<exists>v. parseField A (fd_kind fd) s = Inr v \<and> pm_lookup m' (fd_name fd) = Some v"
proof -
  obtain d' m1 where b: "body_step S req eof d f m = (d', Inr m1)"
    using ok by (auto simp: request_transcodeFunc_def split: prod.splits sum.splits)
  then obtain m2 where p: "path_params_loop A S (tr_PathParams req) m1 = Inr m2"
    and q: "m' = m2 \<or> pq m2 (tr_Query req) (queryParamFilter req) = Inr m'"
    using ok by (auto simp: request_transcodeFunc_def split: sum.splits if_splits)
  have t1: "pm_type m1 = pm_type m" using body b by simp
  have t2: "pm_type m2 = pm_type m" using path_params_type[OF p] t1 by simp
  obtain v where v: "parseField A (fd_kind fd) s = Inr v" "pm_lookup m2 (fd_name fd) = Some v"
    using path_params_set[OF _ _ assms(3) p] assms(1,2) t1 by auto
  have "pm_lookup m' (fd_name fd) = pm_lookup m2 (fd_name fd)"
    using q
  proof
    assume "pq m2 (tr_Query req) (queryParamFilter req) = Inr m'"
    moreover have "[fd_name fd] \<in> set (queryParamFilter req)"
      using queryParamFilter_mem[OF assms(3)] assms(1) by (simp add: plain_scalar_def)
    ultimately show ?thesis using pq_reserved assms(1) t2 by simp
  qed simp
  then show ?thesis using v by simp
qed

end

context typed_marshaler
begin

lemma body_type:
  assumes "snd (body_step S req False d (\<lambda>d msg fd. (d, if b = [] then Inr msg else mr_Unmarshal mk r b msg fd)) m) = Inr m1"
  shows "pm_type m1 = pm_type m"
  using assms unmarshal_type
  by (auto simp: body_step_def split: if_splits sum.splits prod.splits intro!: put_steps_type)

end

text \<open>The repository's own query parser meets the contract on every schema.\<close>

interpretation gq: query_populator S "\<lambda>m q seqs. PopulateQueryParameters A S (prefix_filter seqs) m q" for S A
proof
  fix m q seqs m' fd
  assume ok: "PopulateQueryParameters A S (prefix_filter seqs) m q = Inr m'"
  have t: "Parse_query A S h m q = Inr m' \<Longrightarrow> pm_type m' = pm_type m" for h
    by (induction q arbitrary: m) (auto simp: Let_def split: prod.splits if_splits sum.splits dest: populate_keeps_type)
  show "pm_type m' = pm_type m" using t ok by (simp add: PopulateQueryParameters_def)
  assume "plain_scalar S (pm_type m) fd" and "[fd_name fd] \<in> set seqs"
  then show "pm_lookup m' (fd_name fd) = pm_lookup m (fd_name fd)"
    using Parse_query_reserved ok by (auto simp: plain_scalar_def PopulateQueryParameters_def)
qed

lemma request_Transcode_type:
  assumes "query_populator S pq" and "typed_marshaler (rq_marshaler t)" and "request_Transcode A S pq t b m = Inr m'"
  shows "pm_type m' = pm_type m"
proof -
  obtain d' m1 m2 where b1: "body_step S (rq_req t) False () (\<lambda>d msg fd. (d, if b = [] then Inr msg
        else mr_Unmarshal (rq_marshaler t) (tr_Resolver (rq_req t)) b msg fd)) m = (d', Inr m1)"
    and p: "path_params_loop A S (tr_PathParams (rq_req t)) m1 = Inr m2"
    and q: "m' = m2 \<or> pq m2 (tr_Query (rq_req t)) (queryParamFilter (rq_req t)) = Inr m'"
    using assms(3) by (auto simp: request_Transcode_def request_transcodeFunc_def split: prod.splits sum.splits if_splits)
  from typed_marshaler.body_type[OF assms(2), where S = S and r = "tr_Resolver (rq_req t)" and req = "rq_req t" and d = "()" and b = b and m = m and ?m1.0 = m1]
  have "pm_type m1 = pm_type m" using b1 by simp
  then have t2: "pm_type m2 = pm_type m" using path_params_type[OF p] by simp
  show ?thesis
    using q
  proof
    assume "m' = m2"
    then show ?thesis using t2 by simp
  next
    assume "pq m2 (tr_Query (rq_req t)) (queryParamFilter (rq_req t)) = Inr m'"
    then show ?thesis using query_populator.pq_type[OF assms(1)] t2 by simp
  qed
qed

lemma path_parameter_set:
  assumes "query_populator S pq" and "typed_marshaler (rq_marshaler t)"
    and "plain_scalar S (pm_type m) fd" and "only_aim S (pm_type m) (tr_PathParams (rq_req t)) fd"
    and "(fd_name fd, s) \<in> set (tr_PathParams (rq_req t))"
    and "request_Transcode A S pq t b m = Inr m'"
  shows "\<exists>v. parseField A (fd_kind fd) s = Inr v \<and> pm_lookup m' (fd_name fd) = Some v"
  by (rule query_populator.path_wins[OF assms(1,3,4,5) _ assms(6)[unfolded request_Transcode_def]])
    (rule typed_marshaler.body_type[OF assms(2)])


lemma ex_mk_typed: "typed_marshaler ex_mk"
  by unfold_locales (simp add: ex_mk_def)

lemma tree_id_plain: "plain_scalar tree_schema ''Tree'' (fd0 ''id'' Int32Kind False)"
  using tree_schema_ok(1)
  by (simp add: plain_scalar_def tree_fields) (simp add: tree_schema_def wrapper_kinds_def fd0_def)

abbreviation "gq_parser \<equiv> \<lambda>m q seqs. PopulateQueryParameters none_api tree_schema (prefix_filter seqs) m q"


text \<open>
  Outside of that the priority does not hold: a path parameter for a field of a oneof, and every proto3
  optional field is one, is refused when the body has set the field before.
\<close>

lemma WhichOneof_set:
  assumes "fd \<in> set (S (pm_type m))" and "fd_oneof fd = Some f" and "pm_lookup m (fd_name fd) \<noteq> None"
  shows "WhichOneof S f m \<noteq> None"
  using assms by (auto simp: WhichOneof_def find_None_iff)

theorem optional_path_parameter_refused:
  assumes "ByName (S (pm_type m)) n = Some fd" and "CHR ''.'' \<notin> set n" and "fd_oneof fd = Some f"
    and "RequestBodyPath (tr_Binding (rq_req t)) = ''*''" and "b \<noteq> []"
    and "mr_Unmarshal (rq_marshaler t) (tr_Resolver (rq_req t)) b m None = Inr m1" and "pm_type m1 = pm_type m"
    and "pm_lookup m1 n \<noteq> None" and "tr_PathParams (rq_req t) = [(n, s)]"
  shows "request_Transcode A S pq t b m = Inl (ErrStatus InvalidArgument ''type mismatch'')"
proof -
  have fd: "fd \<in> set (S (pm_type m))" "fd_name fd = n" using ByName_SomeD[OF assms(1)] by auto
  then have "WhichOneof S f m1 \<noteq> None" using WhichOneof_set[of fd S m1 f] assms(3,7,8) by simp
  then have "PopulateFieldFromPath A S m1 n s = Inl (ErrMsg ''field already set for oneof'')"
    using assms(1,2,3,7) by (simp add: PopulateFieldFromPath_def populateFieldValueFromPath_def SplitByte_no_sep field_of_def populate_last_def)
  then show ?thesis
    using assms(4,5,6,9) by (simp add: request_Transcode_def request_transcodeFunc_def body_step_def traverseFieldPath_def)
qed

section \<open>Errors\<close>

lemma path_params_status: "path_params_loop A S params m = Inl e \<Longrightarrow> e = ErrStatus InvalidArgument ''type mismatch''"
  by (induction params arbitrary: m) (auto split: sum.splits)

text \<open>The binding's body path does not lead to a field of the message.\<close>

definition body_path_missing :: "schema \<Rightarrow> 'r HTTPRequest \<Rightarrow> string \<Rightarrow> bool" where
  "body_path_missing S req t \<longleftrightarrow>
     RequestBodyPath (tr_Binding req) \<noteq> [] \<and> ok_result (traverseFieldPath S t (RequestBodyPath (tr_Binding req))) = None"

lemma body_step_missing:
  assumes "body_path_missing S req (pm_type m)"
  shows "snd (body_step S req eof d f m) = Inl (ErrStatus Internal ''request body path'')"
  using assms by (auto simp: body_path_missing_def body_step_def ok_result_def split: sum.splits)

lemma body_step_error:
  assumes "snd (body_step S req eof d f m) = Inl e" and "\<not> body_path_missing S req (pm_type m)"
  shows "e = ErrStatus InvalidArgument ''unmarshaling request body''
    \<or> eof \<and> is_EOF e \<and> (\<exists>sub fd e'. snd (f d sub fd) = Inl e' \<and> is_EOF e')"
  using assms
  by (auto simp: body_path_missing_def body_step_def ok_result_def split: if_splits sum.splits prod.splits) (metis snd_conv)+

lemma request_error_missing:
  assumes "body_path_missing S req (pm_type m)"
  shows "\<exists>msg. snd (request_transcodeFunc A S pq req eof d f m) = Inl (ErrStatus Internal msg)"
  using body_step_missing[OF assms, of eof d f] by (auto simp: request_transcodeFunc_def split: prod.splits)

lemma request_error:
  assumes "snd (request_transcodeFunc A S pq req eof d f m) = Inl e" and "\<not> body_path_missing S req (pm_type m)"
  shows "(\<exists>msg. e = ErrStatus InvalidArgument msg) \<or> eof \<and> is_EOF e \<and> (\<exists>sub fd e'. snd (f d sub fd) = Inl e' \<and> is_EOF e')"
proof (cases "snd (body_step S req eof d f m)")
  case (Inl e')
  then have "e = e'" using assms(1) by (auto simp: request_transcodeFunc_def split: prod.splits)
  then show ?thesis using body_step_error[OF _ assms(2), of eof d f e] Inl by simp blast
next
  case (Inr m1)
  then show ?thesis using assms(1) path_params_status[of A S "tr_PathParams req" m1]
    by (auto simp: request_transcodeFunc_def split: prod.splits sum.splits if_splits)
qed

text \<open>
  C37. Errors of the request transcoder are gRPC statuses, as HTTPRequestTranscoder asks, with the code that
  tells whose fault it is. When the binding has a body path that leads to no field of the message, every
  request fails with Internal; in any other case one fails with InvalidArgument, never with Internal, a bare
  error or EOF. A stream can in addition end with an error that wraps EOF, which marks its regular end, only
  because decoding the body gave EOF.
\<close>
theorem request_errors_are_statuses:
  "(if body_path_missing S (rq_req t) (pm_type m)
    then (\<exists>msg. request_Transcode A S pq t b m = Inl (ErrStatus Internal msg))
      \<and> (\<exists>msg. snd (requestStream_Transcode A S pq t st input m) = Inl (ErrStatus Internal msg))
    else (case request_Transcode A S pq t b m of Inr m' \<Rightarrow> True | Inl e \<Rightarrow> \<exists>msg. e = ErrStatus InvalidArgument msg)
      \<and> (case snd (requestStream_Transcode A S pq t st input m) of Inr m' \<Rightarrow> True
         | Inl e \<Rightarrow> (\<exists>msg. e = ErrStatus InvalidArgument msg)
             \<or> is_EOF e \<and> (\<exists>sub fd e'. snd (st_Decode st (tr_Resolver (rq_req t)) input sub fd) = Inl e' \<and> is_EOF e')))"
proof (cases "body_path_missing S (rq_req t) (pm_type m)")
  case True
  then show ?thesis by (simp add: True request_Transcode_def requestStream_Transcode_def request_error_missing)
next
  case False
  show ?thesis unfolding request_Transcode_def requestStream_Transcode_def
    by (auto simp: False split: sum.split dest!: request_error[OF _ False])
qed

section \<open>Server-sent events\<close>

text \<open>
  A client of text/event-stream: lines up to an empty one are an event, whose data is what the lines that
  begin with "data:" have after it (less one leading space), joined by line breaks.
\<close>

definition strip_space :: "string \<Rightarrow> string" where
  "strip_space s = (case s of [] \<Rightarrow> [] | c # cs \<Rightarrow> if c = CHR '' '' then cs else s)"

fun sse_events :: "string list \<Rightarrow> string list \<Rightarrow> string list" where
  "sse_events [] acc = []"
| "sse_events (l # ls) acc =
     (if l = [] then (if acc = [] then sse_events ls [] else Join acc [CHR 0x0A] # sse_events ls [])
      else if HasPrefix l ''data:'' then sse_events ls (acc @ [strip_space (drop 5 l)])
      else sse_events ls acc)"

text \<open>A line ends with LF, CR or both; \<open>sse_newlines\<close> makes all of them LF. What is behind the last line end is no line.\<close>

fun sse_newlines :: "bool \<Rightarrow> string \<Rightarrow> string" where
  "sse_newlines cr [] = []"
| "sse_newlines cr (c # cs) =
     (if c = CHR 0x0D then CHR 0x0A # sse_newlines True cs
      else if c = CHR 0x0A \<and> cr then sse_newlines False cs
      else c # sse_newlines False cs)"

definition sse_client :: "string \<Rightarrow> string list" where
  "sse_client s = sse_events (butlast (SplitByte (sse_newlines False s) (CHR 0x0A))) []"

definition one_line :: "string \<Rightarrow> bool" where
  "one_line b \<longleftrightarrow> CHR 0x0A \<notin> set b \<and> CHR 0x0D \<notin> set b \<and> strip_space b = b"

lemma sse_newlines_append: "CHR 0x0D \<notin> set xs \<Longrightarrow> sse_newlines False (xs @ ys) = xs @ sse_newlines False ys"
  by (induction xs) auto

lemma sse_client_frames: "list_all one_line bs \<Longrightarrow> sse_client (concat (map sse_frame bs)) = bs"
proof (induction bs)
  case (Cons b bs)
  let ?rest = "concat (map sse_frame bs)"
  have nl: "CHR 0x0A \<notin> set (''data:'' @ b)" and cr: "CHR 0x0D \<notin> set (sse_frame b)"
    using Cons.prems by (auto simp: one_line_def sse_frame_def)
  have "SplitByte (sse_newlines False (sse_frame b @ ?rest)) (CHR 0x0A) = (''data:'' @ b) # [] # SplitByte (sse_newlines False ?rest) (CHR 0x0A)"
    unfolding sse_newlines_append[OF cr]
    using SplitByte_sep[OF nl, of "CHR 0x0A # sse_newlines False ?rest"] by (simp add: sse_frame_def)
  then show ?case using Cons by (simp add: sse_client_def HasPrefix_def one_line_def)
qed (simp add: sse_client_def)

text \<open>
  Server-sent events round trip: the messages that an SSE stream writes, when they transcode to single
  lines (as JSON does without indentation), are read back by a client one event per message, in order.
\<close>
theorem sse_roundtrip:
  assumes "\<forall>m \<in> set ms. snd (response_Transcode S t m) = None \<and> one_line (fst (response_Transcode S t m))"
  shows "sse_client (concat (map (\<lambda>m. fst (sse_Transcode S t wr m)) ms)) = map (\<lambda>m. fst (response_Transcode S t m)) ms"
proof -
  have "map (\<lambda>m. fst (sse_Transcode S t wr m)) ms = map sse_frame (map (\<lambda>m. fst (response_Transcode S t m)) ms)"
    using assms by (auto simp: sse_Transcode_def split: prod.splits option.splits)
  moreover have "list_all one_line (map (\<lambda>m. fst (response_Transcode S t m)) ms)" using assms by (auto simp: list_all_iff)
  ultimately show ?thesis by (simp only: sse_client_frames)
qed

theorem sse_roundtrip_witness:
  "sse_client (concat (map (\<lambda>m. fst (sse_Transcode tree_schema (newResponseTranscoder (ex_req (\<lambda>_. []) [] [] []) ex_mk True) (\<lambda>_. None) m))
     [empty_msg ''Tree'', empty_msg ''Tree''])) = [''{}'', ''{}'']"
  using sse_roundtrip[of "[empty_msg ''Tree'', empty_msg ''Tree'']" tree_schema
      "newResponseTranscoder (ex_req (\<lambda>_. []) [] [] []) ex_mk True" "\<lambda>_. None"]
  by (simp add: response_Transcode_def response_transcodeFunc_def newResponseTranscoder_def ex_req_def traverseFieldPath_def ex_mk_def
      one_line_def strip_space_def empty_msg_def)

text \<open>A payload of several lines is cut at the first one, as only that line gets the "data:" prefix.\<close>

theorem sse_cuts_lines: "sse_client (sse_frame (''{'' @ [CHR 0x0A] @ ''}'')) = [''{'']"
  by (simp add: sse_client_def sse_frame_def HasPrefix_def strip_space_def)

end
