(* ===== verification/Json_Marshaler.thy ===== *)
theory Json_Marshaler
  imports Transcoding_Props
begin

text \<open>
  The JSON marshaler (transcoding/json.go). JSON values are trees; the syntax (the next value of a reader,
  and the rendering of a tree), floating point numbers and protojson for whole messages are parameters
  (\<open>json_lib\<close>). What encoding/json stores for a tree in a Go variable of each type that is used is spelled
  out. A decoder on the raw bytes of a nested value is the nested tree. The outcome of decoding is \<open>None\<close>
  where the code panics. Iteration over a Go map visits the entries in the order of the list.
\<close>

section \<open>JSON\<close>

datatype json = JNull | JBool bool | JNum string | JStr string | JArr "json list" | JObj "(string \<times> json) list"

record 'r JSONMarshaler =
  jm_EmitUnpopulated :: bool
  jm_EmitDefaultValues :: bool
  jm_UseEnumNumbers :: bool
  jm_Indent :: string
  jm_MarshalResolver :: "'r option"
  jm_DiscardUnknown :: bool
  jm_UnmarshalResolver :: "'r option"

record ('r, 'x) json_lib =
  jl_next :: "string \<Rightarrow> string \<times> (go_error + json)"
  jl_render :: "string \<Rightarrow> json \<Rightarrow> string"
  jl_ParseFloat :: "string \<Rightarrow> 'x option"
  jl_FormatFloat :: "nat \<Rightarrow> 'x \<Rightarrow> string option"
  jl_ToFloat32 :: "'x \<Rightarrow> 'x"
  jl_ToInt32 :: "'x \<Rightarrow> int"
  jl_unprintable_astral :: "string \<Rightarrow> bool"
  jl_pbMarshal :: "'r JSONMarshaler \<Rightarrow> 'r \<Rightarrow> 'x pmsg \<Rightarrow> go_error + json"
  jl_pbUnmarshal :: "'r JSONMarshaler \<Rightarrow> 'r \<Rightarrow> json \<Rightarrow> string \<Rightarrow> go_error + (string \<times> 'x pval) list"

definition DefaultJSONMarshaler :: "'r JSONMarshaler" where
  "DefaultJSONMarshaler =
     \<lparr>jm_EmitUnpopulated = False, jm_EmitDefaultValues = True, jm_UseEnumNumbers = False, jm_Indent = [],
      jm_MarshalResolver = None, jm_DiscardUnknown = True, jm_UnmarshalResolver = None\<rparr>"

definition ContentType_json :: "string \<times> bool" where
  "ContentType_json = (''application/json'', False)"

section \<open>Decoding into Go variables (encoding/json)\<close>

definition type_error :: go_error where
  "type_error = ErrMsg ''json: cannot unmarshal''"

text \<open>strconv.ParseInt for json.Number.Int64 with its error dropped: out of range it gives the nearest bound, else 0.\<close>

definition is_signed :: "string \<Rightarrow> bool" where
  "is_signed s = (let ds = snd (sign_digits s) in ds \<noteq> [] \<and> list_all (\<lambda>c. digit_val c \<noteq> None) ds)"

definition Number_Int64 :: "string \<Rightarrow> int" where
  "Number_Int64 s =
     (case ParseInt 64 s of
        Some v \<Rightarrow> v
      | None \<Rightarrow> if is_signed s then (if fst (sign_digits s) then - (2 ^ 63) else 2 ^ 63 - 1) else 0)"

text \<open>A string is stored in a json.Number only if it is a JSON number literal.\<close>

fun drop_digits :: "string \<Rightarrow> string" where
  "drop_digits [] = []"
| "drop_digits (c # cs) = (if digit_val c \<noteq> None then drop_digits cs else c # cs)"

definition starts_digit :: "string \<Rightarrow> bool" where
  "starts_digit s = (case s of [] \<Rightarrow> False | c # cs \<Rightarrow> digit_val c \<noteq> None)"

definition number_int :: "string \<Rightarrow> string option" where
  "number_int s =
     (let s = TrimPrefix s ''-''
      in if HasPrefix s ''0'' then Some (drop 1 s) else if starts_digit s then Some (drop_digits s) else None)"

definition number_frac :: "string \<Rightarrow> string option" where
  "number_frac s =
     (if HasPrefix s ''.'' then (if starts_digit (drop 1 s) then Some (drop_digits (drop 1 s)) else None) else Some s)"

definition number_exp :: "string \<Rightarrow> string option" where
  "number_exp s =
     (if HasPrefix s ''e'' \<or> HasPrefix s ''E''
      then (let s = drop 1 s; s = (if HasPrefix s ''+'' \<or> HasPrefix s ''-'' then drop 1 s else s)
            in if starts_digit s then Some (drop_digits s) else None)
      else Some s)"

definition isValidNumber :: "string \<Rightarrow> bool" where
  "isValidNumber s =
     (case number_int s of None \<Rightarrow> False
      | Some r \<Rightarrow> (case number_frac r of None \<Rightarrow> False
                 | Some r \<Rightarrow> number_exp r = Some []))"

fun dec_Number :: "json \<Rightarrow> go_error + string" where
  "dec_Number (JNum s) = Inr s"
| "dec_Number (JStr s) = (if isValidNumber s then Inr s else Inl (ErrMsg ''json: invalid number literal''))"
| "dec_Number JNull = Inr []"
| "dec_Number _ = Inl type_error"

fun dec_bool :: "json \<Rightarrow> go_error + bool" where
  "dec_bool (JBool b) = Inr b"
| "dec_bool JNull = Inr False"
| "dec_bool _ = Inl type_error"

fun dec_string :: "json \<Rightarrow> go_error + string" where
  "dec_string (JStr s) = Inr s"
| "dec_string JNull = Inr []"
| "dec_string _ = Inl type_error"

text \<open>A byte slice is base64, or an array of numbers that fit into a byte.\<close>

fun dec_byte :: "json \<Rightarrow> char option" where
  "dec_byte (JNum s) = map_option (\<lambda>v. char_of v) (ParseUint 8 s)"
| "dec_byte JNull = Some (CHR 0x00)"
| "dec_byte _ = None"

fun dec_bytes :: "json \<Rightarrow> go_error + string" where
  "dec_bytes (JStr s) = or_error ''illegal base64 data'' (StdEncoding_decode s)"
| "dec_bytes JNull = Inr []"
| "dec_bytes (JArr js) = (let bs = map dec_byte js in if None \<in> set bs then Inl type_error else Inr (map the bs))"
| "dec_bytes _ = Inl type_error"

fun dec_list :: "json \<Rightarrow> go_error + json list" where
  "dec_list (JArr js) = Inr js"
| "dec_list JNull = Inr []"
| "dec_list _ = Inl type_error"

fun dec_map :: "json \<Rightarrow> go_error + (string \<times> json) list" where
  "dec_map (JObj kvs) = Inr (fold (\<lambda>(k, j). AList.update k j) kvs [])"
| "dec_map JNull = Inr []"
| "dec_map _ = Inl type_error"

section \<open>Scalars\<close>

definition null_enum :: string where
  "null_enum = ''google.protobuf.NullValue''"

text \<open>unmarshalScalar; the inner \<open>None\<close> is the invalid protoreflect.Value.\<close>

definition jsonFloatDecode :: "('r, 'x) json_lib \<Rightarrow> ('x \<Rightarrow> 'x pval) \<Rightarrow> json \<Rightarrow> go_error + 'x pval option" where
  "jsonFloatDecode L convert j =
     (case j of
        JNum s \<Rightarrow> map_sum id (\<lambda>f. Some (convert f)) (or_error ''strconv.ParseFloat'' (jl_ParseFloat L s))
      | JStr s \<Rightarrow> map_sum id (\<lambda>f. Some (convert f)) (or_error ''invalid value'' (jl_ParseFloat L s))
      | _ \<Rightarrow> Inl (ErrMsg ''invalid value''))"

definition jsonConvertNumber :: "(int \<Rightarrow> 'x pval) \<Rightarrow> string \<Rightarrow> 'x pval" where
  "jsonConvertNumber convert n = convert (Number_Int64 n)"

definition jsonValueDecode :: "(json \<Rightarrow> go_error + 'a) \<Rightarrow> ('a \<Rightarrow> 'x pval) \<Rightarrow> json \<Rightarrow> go_error + 'x pval option" where
  "jsonValueDecode dec convert j = map_sum id (\<lambda>v. Some (convert v)) (dec j)"

definition unmarshalEnum ::
    "('r, 'x) json_lib \<Rightarrow> 'r JSONMarshaler \<Rightarrow> string \<Rightarrow> (string \<times> int) list \<Rightarrow> json \<Rightarrow> go_error + 'x pval option" where
  "unmarshalEnum L opts t vs j =
     (if t = null_enum \<and> j = JNull then Inr (Some (VEnum 0))
      else case j of
        JStr s \<Rightarrow>
          (case enum_ByName vs s of
             Some n \<Rightarrow> Inr (Some (VEnum n))
           | None \<Rightarrow> if jm_DiscardUnknown opts then Inr None else Inl (ErrMsg ''invalid value''))
      | JNum s \<Rightarrow>
          (case jl_ParseFloat L s of
             None \<Rightarrow> Inl type_error
           | Some f \<Rightarrow> Inr (Some (VEnum (jl_ToInt32 L f))))
      | _ \<Rightarrow> Inl (ErrMsg ''invalid value''))"

fun unmarshalScalar :: "('r, 'x) json_lib \<Rightarrow> 'r JSONMarshaler \<Rightarrow> kind \<Rightarrow> json \<Rightarrow> (go_error + 'x pval option) option" where
  "unmarshalScalar L opts BoolKind j = Some (jsonValueDecode dec_bool VBool j)"
| "unmarshalScalar L opts Int32Kind j = Some (jsonValueDecode dec_Number (jsonConvertNumber (\<lambda>i. VInt32 (word_of_int i))) j)"
| "unmarshalScalar L opts Sint32Kind j = Some (jsonValueDecode dec_Number (jsonConvertNumber (\<lambda>i. VInt32 (word_of_int i))) j)"
| "unmarshalScalar L opts Sfixed32Kind j = Some (jsonValueDecode dec_Number (jsonConvertNumber (\<lambda>i. VInt32 (word_of_int i))) j)"
| "unmarshalScalar L opts Int64Kind j = Some (jsonValueDecode dec_Number (jsonConvertNumber (\<lambda>i. VInt64 (word_of_int i))) j)"
| "unmarshalScalar L opts Sint64Kind j = Some (jsonValueDecode dec_Number (jsonConvertNumber (\<lambda>i. VInt64 (word_of_int i))) j)"
| "unmarshalScalar L opts Sfixed64Kind j = Some (jsonValueDecode dec_Number (jsonConvertNumber (\<lambda>i. VInt64 (word_of_int i))) j)"
| "unmarshalScalar L opts Uint32Kind j = Some (jsonValueDecode dec_Number (jsonConvertNumber (\<lambda>i. VUint32 (word_of_int i))) j)"
| "unmarshalScalar L opts Fixed32Kind j = Some (jsonValueDecode dec_Number (jsonConvertNumber (\<lambda>i. VUint32 (word_of_int i))) j)"
| "unmarshalScalar L opts Uint64Kind j = Some (jsonValueDecode dec_Number (jsonConvertNumber (\<lambda>i. VUint64 (word_of_int i))) j)"
| "unmarshalScalar L opts Fixed64Kind j = Some (jsonValueDecode dec_Number (jsonConvertNumber (\<lambda>i. VUint64 (word_of_int i))) j)"
| "unmarshalScalar L opts FloatKind j = Some (jsonFloatDecode L (\<lambda>f. VFloat (jl_ToFloat32 L f)) j)"
| "unmarshalScalar L opts DoubleKind j = Some (jsonFloatDecode L VDouble j)"
| "unmarshalScalar L opts StringKind j = Some (jsonValueDecode dec_string VString j)"
| "unmarshalScalar L opts BytesKind j = Some (jsonValueDecode dec_bytes VBytes j)"
| "unmarshalScalar L opts (EnumKind t vs) j = Some (unmarshalEnum L opts t vs j)"
| "unmarshalScalar L opts (MessageKind t) j = None"
| "unmarshalScalar L opts (GroupKind t) j = None"

text \<open>A scalar on its way into Set, Append or a map, which panic on the invalid value.\<close>

definition scalar_value :: "('r, 'x) json_lib \<Rightarrow> 'r JSONMarshaler \<Rightarrow> kind \<Rightarrow> json \<Rightarrow> (go_error + 'x pval) option" where
  "scalar_value L opts k j =
     (case unmarshalScalar L opts k j of
        None \<Rightarrow> None
      | Some (Inl err) \<Rightarrow> Some (Inl err)
      | Some (Inr None) \<Rightarrow> None
      | Some (Inr (Some v)) \<Rightarrow> Some (Inr v))"

section \<open>Unmarshaling\<close>

definition unmarshalMessage :: "('r, 'x) json_lib \<Rightarrow> 'r JSONMarshaler \<Rightarrow> 'r \<Rightarrow> json \<Rightarrow> string \<Rightarrow> go_error + 'x pmsg" where
  "unmarshalMessage L opts r j t = map_sum id (PMsg t) (jl_pbUnmarshal L opts r j t)"

text \<open>One value of a list or map: a message, or a scalar.\<close>

definition unmarshal_value ::
    "('r, 'x) json_lib \<Rightarrow> 'r JSONMarshaler \<Rightarrow> 'r \<Rightarrow> kind \<Rightarrow> json \<Rightarrow> (go_error + 'x pval) option" where
  "unmarshal_value L opts r k j =
     (case kind_message k of
        Some t \<Rightarrow> Some (map_sum id VMsg (unmarshalMessage L opts r j t))
      | None \<Rightarrow> scalar_value L opts k j)"

fun unmarshalList ::
    "('r, 'x) json_lib \<Rightarrow> 'r JSONMarshaler \<Rightarrow> 'r \<Rightarrow> kind \<Rightarrow> 'x pval list \<Rightarrow> json list \<Rightarrow> (go_error + 'x pval list) option" where
  "unmarshalList L opts r k vs [] = Some (Inr vs)"
| "unmarshalList L opts r k vs (j # js) =
     (case unmarshal_value L opts r k j of
        None \<Rightarrow> None
      | Some (Inl err) \<Rightarrow> Some (Inl err)
      | Some (Inr v) \<Rightarrow> unmarshalList L opts r k (vs @ [v]) js)"

text \<open>
  Whether strconv.Quote of a map key is JSON: control characters other than the five with a JSON escape
  become Go escapes that JSON does not have, and so do unprintable characters beyond the basic plane.
\<close>

definition quoted_is_json :: "('r, 'x) json_lib \<Rightarrow> string \<Rightarrow> bool" where
  "quoted_is_json L key =
     (list_all (\<lambda>c. let n = (of_char c :: nat) in (n < 32 \<longrightarrow> n \<in> set [8, 9, 10, 12, 13]) \<and> n \<noteq> 127) key
      \<and> \<not> jl_unprintable_astral L key)"

definition unmarshal_key :: "('r, 'x) json_lib \<Rightarrow> 'r JSONMarshaler \<Rightarrow> kind \<Rightarrow> string \<Rightarrow> (go_error + 'x pval) option" where
  "unmarshal_key L opts k key =
     (if quoted_is_json L key then scalar_value L opts k (JStr key) else Some (Inl (ErrMsg ''invalid character in string escape code'')))"

fun unmarshalMap ::
    "('r, 'x) json_lib \<Rightarrow> 'r JSONMarshaler \<Rightarrow> 'r \<Rightarrow> kind \<times> kind \<Rightarrow> ('x pval \<times> 'x pval) list \<Rightarrow> (string \<times> json) list
      \<Rightarrow> (go_error + ('x pval \<times> 'x pval) list) option" where
  "unmarshalMap L opts r kv mp [] = Some (Inr mp)"
| "unmarshalMap L opts r kv mp ((key, raw) # rest) =
     (case unmarshal_key L opts (fst kv) key of
        None \<Rightarrow> None
      | Some (Inl err) \<Rightarrow> Some (Inl (ErrWrap ''invalid map key value'' err))
      | Some (Inr k) \<Rightarrow>
          (case unmarshal_value L opts r (snd kv) raw of
             None \<Rightarrow> None
           | Some (Inl err) \<Rightarrow> Some (Inl err)
           | Some (Inr v) \<Rightarrow> unmarshalMap L opts r kv (AList.update k v mp) rest))"

definition and_then :: "go_error + 'a \<Rightarrow> ('a \<Rightarrow> (go_error + 'b) option) \<Rightarrow> (go_error + 'b) option" where
  "and_then res f = (case res of Inl err \<Rightarrow> Some (Inl err) | Inr a \<Rightarrow> f a)"

text \<open>Decode, applied to the value that the reader has next.\<close>

definition decode_value ::
    "('r, 'x) json_lib \<Rightarrow> 'r JSONMarshaler \<Rightarrow> 'r \<Rightarrow> schema \<Rightarrow> json \<Rightarrow> 'x pmsg \<Rightarrow> field_desc option \<Rightarrow> (go_error + 'x pmsg) option" where
  "decode_value L opts r S j m fdo =
     (case fdo of
        None \<Rightarrow> Some (unmarshalMessage L opts r j (pm_type m))
      | Some fd \<Rightarrow>
          if IsList fd then
            and_then (dec_list j) (\<lambda>js. map_option (map_sum id (\<lambda>vs. pm_Set S fd (VList vs) m))
              (unmarshalList L opts r (fd_kind fd) (mutable_list fd m) js))
          else (case fd_map fd of
            Some kv \<Rightarrow>
              and_then (dec_map j) (\<lambda>kvs. map_option (map_sum id (\<lambda>mp. pm_Set S fd (VMap mp) m))
                (unmarshalMap L opts r kv (mutable_map fd m) kvs))
          | None \<Rightarrow> map_option (map_sum id (\<lambda>v. pm_Set S fd v m)) (unmarshal_value L opts r (fd_kind fd) j)))"

definition resolver :: "'r option \<Rightarrow> 'r \<Rightarrow> 'r" where
  "resolver own types = (case own of None \<Rightarrow> types | Some r \<Rightarrow> r)"

text \<open>Decode of a decoder whose reader still has \<open>input\<close>, and Unmarshal.\<close>

definition json_Decode ::
    "('r, 'x) json_lib \<Rightarrow> 'r JSONMarshaler \<Rightarrow> schema \<Rightarrow> 'r \<Rightarrow> string \<Rightarrow> 'x pmsg \<Rightarrow> field_desc option
      \<Rightarrow> string \<times> (go_error + 'x pmsg) option" where
  "json_Decode L opts S types input m fdo =
     (case jl_next L input of
        (rest, Inl err) \<Rightarrow> (rest, Some (Inl err))
      | (rest, Inr j) \<Rightarrow> (rest, decode_value L opts (resolver (jm_UnmarshalResolver opts) types) S j m fdo))"

definition json_Unmarshal ::
    "('r, 'x) json_lib \<Rightarrow> 'r JSONMarshaler \<Rightarrow> schema \<Rightarrow> 'r \<Rightarrow> string \<Rightarrow> 'x pmsg \<Rightarrow> field_desc option \<Rightarrow> (go_error + 'x pmsg) option" where
  "json_Unmarshal L opts S types b m fdo = snd (json_Decode L opts S types b m fdo)"

section \<open>Marshaling\<close>

fun nat_digits :: "nat \<Rightarrow> string" where
  "nat_digits n = (if n < 10 then [char_of (48 + n)] else nat_digits (n div 10) @ [char_of (48 + n mod 10)])"

declare nat_digits.simps [simp del]

definition itoa :: "int \<Rightarrow> string" where
  "itoa i = (if i < 0 then CHR ''-'' # nat_digits (nat (- i)) else nat_digits (nat i))"

text \<open>json.MarshalIndent of the value's Interface; a float without a finite form is an error.\<close>

definition json_float :: "('r, 'x) json_lib \<Rightarrow> nat \<Rightarrow> 'x \<Rightarrow> go_error + json" where
  "json_float L bits x = (case jl_FormatFloat L bits x of None \<Rightarrow> Inl (ErrMsg ''json: unsupported value'') | Some s \<Rightarrow> Inr (JNum s))"

fun json_interface :: "('r, 'x) json_lib \<Rightarrow> 'x pval \<Rightarrow> go_error + json" where
  "json_interface L (VBool b) = Inr (JBool b)"
| "json_interface L (VInt32 w) = Inr (JNum (itoa (sint w)))"
| "json_interface L (VInt64 w) = Inr (JNum (itoa (sint w)))"
| "json_interface L (VUint32 w) = Inr (JNum (itoa (uint w)))"
| "json_interface L (VUint64 w) = Inr (JNum (itoa (uint w)))"
| "json_interface L (VFloat x) = json_float L 32 x"
| "json_interface L (VDouble x) = json_float L 64 x"
| "json_interface L (VString s) = Inr (JStr s)"
| "json_interface L (VBytes b) = Inr (JStr (b64_encode True b))"
| "json_interface L _ = Inl (ErrMsg ''json: unsupported value'')"

definition marshalEnum :: "'r JSONMarshaler \<Rightarrow> string \<Rightarrow> (string \<times> int) list \<Rightarrow> int \<Rightarrow> json" where
  "marshalEnum opts t vs n =
     (if t = null_enum then JNull
      else case find (\<lambda>(name, k). k = n) vs of
             Some (name, k) \<Rightarrow> if jm_UseEnumNumbers opts then JNum (itoa n) else JStr name
           | None \<Rightarrow> JNum (itoa n))"

definition marshalSingular ::
    "('r, 'x) json_lib \<Rightarrow> 'r JSONMarshaler \<Rightarrow> 'r \<Rightarrow> kind \<Rightarrow> 'x pval \<Rightarrow> go_error + json" where
  "marshalSingular L opts r k v =
     (case v of
        VEnum n \<Rightarrow> (case k of EnumKind t vs \<Rightarrow> Inr (marshalEnum opts t vs n) | _ \<Rightarrow> Inr (JNum (itoa n)))
      | VMsg m \<Rightarrow> jl_pbMarshal L opts r m
      | _ \<Rightarrow> json_interface L v)"

fun marshal_elems ::
    "('r, 'x) json_lib \<Rightarrow> 'r JSONMarshaler \<Rightarrow> 'r \<Rightarrow> kind \<Rightarrow> 'x pval list \<Rightarrow> go_error + json list" where
  "marshal_elems L opts r k [] = Inr []"
| "marshal_elems L opts r k (v # vs) =
     (case marshalSingular L opts r k v of
        Inl err \<Rightarrow> Inl err
      | Inr j \<Rightarrow> map_sum id ((#) j) (marshal_elems L opts r k vs))"

text \<open>A list or map that was never stored is not valid: \<open>None\<close>.\<close>

definition emits_empty :: "'r JSONMarshaler \<Rightarrow> bool" where
  "emits_empty opts = (jm_EmitUnpopulated opts \<or> jm_EmitDefaultValues opts)"

definition marshalList ::
    "('r, 'x) json_lib \<Rightarrow> 'r JSONMarshaler \<Rightarrow> 'r \<Rightarrow> kind \<Rightarrow> 'x pval list option \<Rightarrow> go_error + json" where
  "marshalList L opts r k vso =
     (if vso = None \<and> \<not> emits_empty opts then Inr JNull
      else map_sum id JArr (marshal_elems L opts r k (case vso of None \<Rightarrow> [] | Some vs \<Rightarrow> vs)))"

text \<open>MapKey.String.\<close>

fun key_String :: "'x pval \<Rightarrow> string" where
  "key_String (VBool b) = (if b then ''true'' else ''false'')"
| "key_String (VInt32 w) = itoa (sint w)"
| "key_String (VInt64 w) = itoa (sint w)"
| "key_String (VUint32 w) = itoa (uint w)"
| "key_String (VUint64 w) = itoa (uint w)"
| "key_String (VString s) = s"
| "key_String _ = []"

fun marshal_entries ::
    "('r, 'x) json_lib \<Rightarrow> 'r JSONMarshaler \<Rightarrow> 'r \<Rightarrow> kind \<Rightarrow> (string \<times> json) list \<Rightarrow> ('x pval \<times> 'x pval) list
      \<Rightarrow> go_error + (string \<times> json) list" where
  "marshal_entries L opts r k acc [] = Inr acc"
| "marshal_entries L opts r k acc ((mk, v) # rest) =
     (case marshalSingular L opts r k v of
        Inl err \<Rightarrow> Inl err
      | Inr j \<Rightarrow> marshal_entries L opts r k (AList.update (key_String mk) j acc) rest)"

definition marshalMap ::
    "('r, 'x) json_lib \<Rightarrow> 'r JSONMarshaler \<Rightarrow> 'r \<Rightarrow> kind \<Rightarrow> ('x pval \<times> 'x pval) list option \<Rightarrow> go_error + json" where
  "marshalMap L opts r k mpo =
     (if mpo = None \<and> \<not> emits_empty opts then Inr JNull
      else map_sum id JObj (marshal_entries L opts r k [] (case mpo of None \<Rightarrow> [] | Some mp \<Rightarrow> mp)))"

text \<open>Get of a singular field that is not stored gives its default, the parameter \<open>dflt\<close>.\<close>

definition marshal_tree ::
    "('r, 'x) json_lib \<Rightarrow> 'r JSONMarshaler \<Rightarrow> 'r \<Rightarrow> (field_desc \<Rightarrow> 'x pval) \<Rightarrow> 'x pmsg \<Rightarrow> field_desc option \<Rightarrow> go_error + json" where
  "marshal_tree L opts r dflt m fdo =
     (case fdo of
        None \<Rightarrow> jl_pbMarshal L opts r m
      | Some fd \<Rightarrow>
          if IsList fd then
            marshalList L opts r (fd_kind fd) (case pm_lookup m (fd_name fd) of Some (VList vs) \<Rightarrow> Some vs | _ \<Rightarrow> None)
          else (case fd_map fd of
            Some kv \<Rightarrow> marshalMap L opts r (snd kv) (case pm_lookup m (fd_name fd) of Some (VMap mp) \<Rightarrow> Some mp | _ \<Rightarrow> None)
          | None \<Rightarrow> marshalSingular L opts r (fd_kind fd) (case pm_lookup m (fd_name fd) of Some v \<Rightarrow> v | None \<Rightarrow> dflt fd)))"

definition json_Marshal ::
    "('r, 'x) json_lib \<Rightarrow> 'r JSONMarshaler \<Rightarrow> (field_desc \<Rightarrow> 'x pval) \<Rightarrow> 'r \<Rightarrow> 'x pmsg \<Rightarrow> field_desc option \<Rightarrow> string \<times> go_error option" where
  "json_Marshal L opts dflt types m fdo =
     (case marshal_tree L opts (resolver (jm_MarshalResolver opts) types) dflt m fdo of
        Inl err \<Rightarrow> ([], Some err)
      | Inr j \<Rightarrow> (jl_render L (jm_Indent opts) j, None))"

definition json_Encode ::
    "('r, 'x) json_lib \<Rightarrow> 'r JSONMarshaler \<Rightarrow> (field_desc \<Rightarrow> 'x pval) \<Rightarrow> 'r \<Rightarrow> (string \<Rightarrow> go_error option)
      \<Rightarrow> 'x pmsg \<Rightarrow> field_desc option \<Rightarrow> string \<times> go_error option" where
  "json_Encode L opts dflt types wr m fdo =
     (case json_Marshal L opts dflt types m fdo of
        (b, Some err) \<Rightarrow> ([], Some err)
      | (b, None) \<Rightarrow> (b @ [CHR 0x0A], wr (b @ [CHR 0x0A])))"

text \<open>
  The marshaler as the transcoder sees it. A panic unwinds past the transcoder; where its callers are
  modelled with results only, it is an error.
\<close>

definition panic_error :: "(go_error + 'a) option \<Rightarrow> go_error + 'a" where
  "panic_error r = (case r of None \<Rightarrow> Inl (ErrMsg ''panic'') | Some res \<Rightarrow> res)"

definition json_marshaler ::
    "('r, 'x) json_lib \<Rightarrow> 'r JSONMarshaler \<Rightarrow> schema \<Rightarrow> (field_desc \<Rightarrow> 'x pval) \<Rightarrow> ('r, 'x) Marshaler" where
  "json_marshaler L opts S dflt =
     \<lparr>mr_Marshal = json_Marshal L opts dflt,
      mr_Unmarshal = (\<lambda>r b m fd. panic_error (json_Unmarshal L opts S r b m fd)),
      mr_ContentType = ContentType_json,
      mr_stream = Some \<lparr>st_Encode = json_Encode L opts dflt,
        st_Decode = (\<lambda>r i m fd. map_prod id panic_error (json_Decode L opts S r i m fd))\<rparr>\<rparr>"

end
