(* ===== verification/Json_Text.thy ===== *)
theory Json_Text
  imports Json_Marshaler
begin

text \<open>
  What the JSON marshaler (theory Json_Marshaler) relies on of encoding/json as text: that the decoder reads what the
  encoder has written, for the trees that fields of scalars are written as. A small encoder and decoder of
  those trees show that it can be had.
\<close>

section \<open>Text\<close>

text \<open>
  UTF-8, as utf8.Valid has it: JSON has no other strings, so that encoding/json replaces invalid bytes.
\<close>

function utf8_valid :: "string \<Rightarrow> bool" where
  "utf8_valid [] = True"
| "utf8_valid (c # cs) =
     (let n = (of_char c :: nat); a = (case cs of [] \<Rightarrow> 0 | x # r \<Rightarrow> (of_char x :: nat));
          k = (if n < 224 then 1 else if n < 240 then 2 else 3)
      in if n < 128 then utf8_valid cs
         else 194 \<le> n \<and> n \<le> 244 \<and> k \<le> length cs \<and> list_all (\<lambda>x. 128 \<le> (of_char x :: nat) \<and> (of_char x :: nat) < 192) (take k cs)
           \<and> (n = 224 \<longrightarrow> 160 \<le> a) \<and> (n = 237 \<longrightarrow> a < 160) \<and> (n = 240 \<longrightarrow> 144 \<le> a) \<and> (n = 244 \<longrightarrow> a < 144)
           \<and> utf8_valid (drop k cs))"
  by pat_completeness auto
termination by (relation "measure length") auto

lemma utf8_ascii: "list_all (\<lambda>c. (of_char c :: nat) < 128) s \<Longrightarrow> utf8_valid s"
  by (induction s) auto

text \<open>
  The trees that a field of scalars is written as, and what the encoder and decoder of encoding/json promise of
  them: the text of a tree, indented with blanks, is read as the tree.
\<close>

definition text_scalar :: "json \<Rightarrow> bool" where
  "text_scalar j = (case j of JNum s \<Rightarrow> isValidNumber s | JStr s \<Rightarrow> utf8_valid s | JArr js \<Rightarrow> False | JObj kvs \<Rightarrow> False | _ \<Rightarrow> True)"

definition text_flat :: "json \<Rightarrow> bool" where
  "text_flat j = (case j of JArr js \<Rightarrow> list_all text_scalar js | _ \<Rightarrow> text_scalar j)"

definition blanks :: "string \<Rightarrow> bool" where
  "blanks = list_all (\<lambda>c. c = CHR '' '' \<or> c = CHR 0x09)"

definition json_reads :: "('r, 'x) json_lib \<Rightarrow> bool" where
  "json_reads L \<longleftrightarrow> (\<forall>ind j. blanks ind \<and> text_flat j \<longrightarrow> snd (jl_next L (jl_render L ind j)) = Inr j)"

section \<open>An encoder and decoder of flat trees\<close>

definition hex_digits :: string where
  "hex_digits = ''0123456789abcdef''"

definition hex_char :: "nat \<Rightarrow> char" where
  "hex_char n = hex_digits ! n"

definition hex_val :: "char \<Rightarrow> nat" where
  "hex_val c = (case index_of c hex_digits of None \<Rightarrow> 0 | Some n \<Rightarrow> n)"

definition escape :: "char \<Rightarrow> string" where
  "escape c =
     (if c = CHR 0x22 \<or> c = CHR 0x5C then [CHR 0x5C, c]
      else if (of_char c :: nat) < 32 then CHR 0x5C # ''u00'' @ [hex_char (of_char c div 16), hex_char (of_char c mod 16)]
      else [c])"

definition quote :: "string \<Rightarrow> string" where
  "quote s = concat (map escape s) @ [CHR 0x22]"

function unquote :: "string \<Rightarrow> string \<times> string" where
  "unquote [] = ([], [])"
| "unquote (c # r) =
     (if c = CHR 0x22 then ([], r)
      else if c = CHR 0x5C then
        (if HasPrefix r ''u00'' then map_prod ((#) (char_of (16 * hex_val (r ! 3) + hex_val (r ! 4)))) id (unquote (drop 5 r))
         else map_prod ((#) (hd r)) id (unquote (tl r)))
      else map_prod ((#) c) id (unquote r))"
  by pat_completeness auto
termination by (relation "measure length") auto

lemma escape_control:
  assumes "(of_char c :: nat) < 32"
  shows "char_of (16 * hex_val (hex_char (of_char c div 16)) + hex_val (hex_char (of_char c mod 16))) = c"
proof -
  have all: "\<forall>n \<in> set [0..<16]. hex_val (hex_char n) = n" by code_simp
  let ?n = "of_char c :: nat"
  have "?n div 16 \<in> set [0..<16]" "?n mod 16 \<in> set [0..<16]" using assms unfolding set_upt by auto
  then have "16 * hex_val (hex_char (?n div 16)) + hex_val (hex_char (?n mod 16)) = 16 * (?n div 16) + ?n mod 16"
    using all by (simp only: bspec[OF all])
  then show ?thesis by (simp only: mult_div_mod_eq char_of_char)
qed

lemma unquote_quote: "unquote (concat (map escape s) @ CHR 0x22 # r) = (s, r)"
proof (induction s)
  case (Cons c s)
  then show ?case using escape_control[of c] by (auto simp: escape_def HasPrefix_def)
qed simp

definition scalar_text :: "json \<Rightarrow> string" where
  "scalar_text j =
     (case j of JBool b \<Rightarrow> if b then ''true'' else ''false'' | JNum s \<Rightarrow> s | JStr s \<Rightarrow> CHR 0x22 # quote s | _ \<Rightarrow> ''null'')"

fun elems_text :: "json list \<Rightarrow> string" where
  "elems_text [] = '']''"
| "elems_text [j] = scalar_text j @ '']''"
| "elems_text (j # js) = scalar_text j @ '','' @ elems_text js"

definition flat_text :: "json \<Rightarrow> string" where
  "flat_text j = (case j of JArr js \<Rightarrow> ''['' @ elems_text js | _ \<Rightarrow> scalar_text j)"

definition ends_scalar :: "char \<Rightarrow> bool" where
  "ends_scalar c \<longleftrightarrow> c = CHR '','' \<or> c = CHR '']''"

definition next_scalar :: "string \<Rightarrow> json \<times> string" where
  "next_scalar s =
     (if HasPrefix s [CHR 0x22] then map_prod JStr id (unquote (drop 1 s))
      else (let t = takeWhile (\<lambda>c. \<not> ends_scalar c) s
            in (if t = ''null'' then JNull else if t = ''true'' then JBool True else if t = ''false'' then JBool False else JNum t,
                dropWhile (\<lambda>c. \<not> ends_scalar c) s)))"

fun next_elems :: "nat \<Rightarrow> string \<Rightarrow> json list" where
  "next_elems 0 s = []"
| "next_elems (Suc n) s = (case next_scalar s of (j, r) \<Rightarrow> j # (if HasPrefix r '','' then next_elems n (drop 1 r) else []))"

definition next_flat :: "string \<Rightarrow> json" where
  "next_flat s =
     (if HasPrefix s ''[]'' then JArr []
      else if HasPrefix s ''['' then JArr (next_elems (length s) (drop 1 s)) else fst (next_scalar s))"

text \<open>The characters of numbers.\<close>

definition number_char :: "char \<Rightarrow> bool" where
  "number_char c \<longleftrightarrow> digit_val c \<noteq> None \<or> c \<in> set ''+-.eE''"

lemma drop_digits_chars: "list_all number_char (drop_digits s) \<Longrightarrow> list_all number_char s"
  by (induction s) (auto simp: number_char_def split: if_splits)

lemma drop_prefix_chars: "HasPrefix s [c] \<Longrightarrow> number_char c \<Longrightarrow> list_all number_char (drop 1 s) \<Longrightarrow> list_all number_char s"
  by (cases s) (auto simp: HasPrefix_def)

lemma number_signs:
  "number_char (CHR ''-'')" "number_char (CHR ''+'')" "number_char (CHR ''0'')" "number_char (CHR ''.'')"
  "number_char (CHR ''e'')" "number_char (CHR ''E'')"
  by (simp_all add: number_char_def digit_val_def)

lemma number_exp_chars:
  assumes "number_exp s = Some r" and "list_all number_char r"
  shows "list_all number_char s"
proof (cases "HasPrefix s ''e'' \<or> HasPrefix s ''E''")
  case True
  let ?t = "drop 1 s"
  let ?u = "if HasPrefix ?t ''+'' \<or> HasPrefix ?t ''-'' then drop 1 ?t else ?t"
  have "r = drop_digits ?u" using assms(1) True by (auto simp: number_exp_def Let_def split: if_splits)
  then have "list_all number_char ?u" using assms(2) drop_digits_chars by blast
  then have "list_all number_char ?t"
    using drop_prefix_chars[of ?t "CHR ''+''"] drop_prefix_chars[of ?t "CHR ''-''"] number_signs by (auto split: if_splits)
  then show ?thesis using True drop_prefix_chars[of s "CHR ''e''"] drop_prefix_chars[of s "CHR ''E''"] number_signs by auto
next
  case False
  then show ?thesis using assms by (simp add: number_exp_def)
qed

lemma number_frac_chars: "number_frac s = Some r \<Longrightarrow> list_all number_char r \<Longrightarrow> list_all number_char s"
  using drop_prefix_chars[of s "CHR ''.''"] number_signs drop_digits_chars[of "drop 1 s"] by (auto simp: number_frac_def split: if_splits)

lemma number_int_chars:
  assumes "number_int s = Some r" and "list_all number_char r"
  shows "list_all number_char s"
proof -
  let ?t = "TrimPrefix s ''-''"
  have "list_all number_char ?t"
    using assms drop_prefix_chars[of ?t "CHR ''0''"] number_signs drop_digits_chars[of ?t]
    by (auto simp: number_int_def Let_def split: if_splits)
  then show ?thesis using number_signs drop_prefix_chars[of s "CHR ''-''"] by (auto simp: TrimPrefix_def split: if_splits)
qed

lemma number_chars:
  assumes "isValidNumber s"
  shows "list_all number_char s \<and> s \<noteq> []"
proof -
  obtain r1 r2 where r: "number_int s = Some r1" "number_frac r1 = Some r2" "number_exp r2 = Some []"
    using assms by (auto simp: isValidNumber_def split: option.splits)
  have "list_all number_char s"
    using number_int_chars[OF r(1) number_frac_chars[OF r(2) number_exp_chars[OF r(3)]]] by simp
  moreover have "s \<noteq> []" using r(1) by (auto simp: number_int_def HasPrefix_def TrimPrefix_def starts_digit_def)
  ultimately show ?thesis by blast
qed

lemma number_char_other: "number_char c \<Longrightarrow> c \<notin> set [CHR 0x22, CHR ''['', CHR '']'', CHR '','', CHR ''n'', CHR ''t'', CHR ''f'']"
  by (auto simp: number_char_def digit_val_def)

lemma scalar_text_head:
  assumes "text_scalar j"
  obtains c cs where "scalar_text j = c # cs" "c \<noteq> CHR ''[''" "c \<noteq> CHR '']''"
proof (cases j)
  case (JNum s)
  then show ?thesis using assms number_chars[of s] number_char_other that by (cases s) (auto simp: text_scalar_def scalar_text_def)
next
  case (JBool b)
  then show ?thesis using that by (cases b) (simp_all add: scalar_text_def)
qed (use assms that in \<open>auto simp: text_scalar_def scalar_text_def\<close>)

lemma next_scalar_text:
  assumes "text_scalar j" and "r = [] \<or> ends_scalar (hd r)"
  shows "next_scalar (scalar_text j @ r) = (j, r)"
proof -
  have tw: "takeWhile (\<lambda>c. \<not> ends_scalar c) (s @ r) = s \<and> dropWhile (\<lambda>c. \<not> ends_scalar c) (s @ r) = r"
    if "list_all (\<lambda>c. \<not> ends_scalar c) s" for s
    using assms(2) that by (cases r) (auto simp: list_all_iff takeWhile_append dropWhile_append)
  show ?thesis
  proof (cases j)
    case (JNum s)
    have s: "list_all number_char s" "s \<noteq> []" using assms(1) JNum number_chars by (auto simp: text_scalar_def)
    have "list_all (\<lambda>c. \<not> ends_scalar c) s" using s(1) number_char_other by (auto simp: list_all_iff ends_scalar_def)
    note tw = tw[OF this]
    obtain c cs where c: "s = c # cs" "number_char c" using s by (cases s) auto
    then show ?thesis using tw JNum number_char_other[OF c(2)] by (auto simp: next_scalar_def scalar_text_def HasPrefix_def)
  next
    case (JStr s)
    then show ?thesis by (simp add: next_scalar_def scalar_text_def HasPrefix_def quote_def unquote_quote)
  qed (use assms tw[of "''null''"] tw[of "''true''"] tw[of "''false''"] in
      \<open>auto simp: text_scalar_def next_scalar_def scalar_text_def HasPrefix_def ends_scalar_def\<close>)
qed

lemma next_elems_text:
  "list_all text_scalar js \<Longrightarrow> js \<noteq> [] \<Longrightarrow> length js \<le> n \<Longrightarrow> next_elems n (elems_text js) = js"
proof (induction js arbitrary: n rule: elems_text.induct)
  case (2 j)
  then show ?case by (cases n) (simp_all add: next_scalar_text ends_scalar_def HasPrefix_def)
next
  case (3 j k js)
  then show ?case by (cases n) (simp_all add: next_scalar_text ends_scalar_def HasPrefix_def)
qed simp

lemma elems_text_length: "length js \<le> length (elems_text js)"
  by (induction js rule: elems_text.induct) simp_all

lemma next_flat_text:
  assumes "text_flat j"
  shows "next_flat (flat_text j) = j"
proof -
  have scalar: "next_flat (scalar_text k) = k" if k: "text_scalar k" for k
  proof -
    obtain c cs where "scalar_text k = c # cs" "c \<noteq> CHR ''[''" "c \<noteq> CHR '']''" by (rule scalar_text_head[OF k])
    then show ?thesis using next_scalar_text[OF k, of "[]"] by (simp add: next_flat_def HasPrefix_def)
  qed
  show ?thesis
  proof (cases j)
    case (JArr js)
    then have js: "list_all text_scalar js" using assms by (simp add: text_flat_def)
    show ?thesis
    proof (cases js)
      case Nil
      then show ?thesis using JArr by (simp add: flat_text_def next_flat_def HasPrefix_def)
    next
      case (Cons k ks)
      then have "text_scalar k" using js by simp
      then obtain c cs where c: "scalar_text k = c # cs" "c \<noteq> CHR ''[''" "c \<noteq> CHR '']''" by (rule scalar_text_head)
      then have "\<exists>r. elems_text js = c # r" using Cons by (cases ks) simp_all
      then have "\<not> HasPrefix (CHR ''['' # elems_text js) ''[]''" using c(3) by (auto simp: HasPrefix_def)
      moreover have "next_elems (Suc (length (elems_text js))) (elems_text js) = js"
        by (rule next_elems_text) (use js Cons elems_text_length[of js] in auto)
      ultimately show ?thesis using JArr by (simp add: flat_text_def next_flat_def HasPrefix_def[of _ "''[''"])
    qed
  qed (use assms scalar in \<open>auto simp: text_flat_def flat_text_def text_scalar_def\<close>)
qed

definition text_lib :: "(unit, bool) json_lib" where
  "text_lib = \<lparr>jl_next = (\<lambda>s. ([], if s = [] then Inl ErrEOF else Inr (next_flat s))), jl_render = (\<lambda>ind. flat_text),
     jl_ParseFloat = (\<lambda>s. None), jl_FormatFloat = (\<lambda>b x. None), jl_ToFloat32 = id, jl_ToInt32 = (\<lambda>x. 0),
     jl_unprintable_astral = (\<lambda>s. False), jl_pbMarshal = (\<lambda>_ _ _. Inl ErrEOF), jl_pbUnmarshal = (\<lambda>_ _ _ _. Inl ErrEOF)\<rparr>"

lemma text_lib_reads: "json_reads text_lib"
proof -
  have "flat_text j \<noteq> []" if "text_flat j" for j
  proof (cases "text_scalar j")
    case True
    then obtain c cs where "scalar_text j = c # cs" "c \<noteq> CHR ''[''" "c \<noteq> CHR '']''" by (rule scalar_text_head)
    then show ?thesis by (cases j) (simp_all add: flat_text_def)
  next
    case False
    then show ?thesis using that by (cases j) (simp_all add: text_flat_def text_scalar_def flat_text_def)
  qed
  then show ?thesis by (simp add: json_reads_def text_lib_def next_flat_text)
qed

end
