(* ===== verification/Json_Props.thy ===== *)
theory Json_Props
  imports Json_Text
begin

text \<open>
  What the JSON marshaler guarantees: fields round trip, decoding keeps messages well typed and can only
  panic where unknown enum names are discarded, and it fits the transcoder's contract; then the inputs
  where it departs from the JSON mapping.
\<close>

section \<open>Numbers\<close>

lemma digit_char: "n < 10 \<Longrightarrow> digit_val (char_of (48 + n :: nat) :: char) = Some (int n)"
proof -
  have "\<forall>n \<in> set [0..<10]. digit_val (char_of (48 + n) :: char) = Some (int n)" by code_simp
  then show "n < 10 \<Longrightarrow> ?thesis" by simp
qed

lemma decimal_snoc: "decimal (s @ [c]) = decimal s * 10 + the (digit_val c)"
  by (induction s) (auto simp: algebra_simps)

lemma nat_digits_number: "is_number (nat_digits n) \<and> decimal (nat_digits n) = int n"
proof (induction n rule: nat_digits.induct)
  case (1 n)
  show ?case
  proof (cases "n < 10")
    case True
    then show ?thesis using digit_char[OF True] by (subst (1 2) nat_digits.simps) (simp add: is_number_def)
  next
    case False
    have d: "digit_val (char_of (48 + n mod 10) :: char) = Some (int (n mod 10))" by (rule digit_char) simp
    have "int (n div 10) * 10 + int (n mod 10) = int n" by presburger
    with False 1[OF False] d show ?thesis
      by (subst (1 2) nat_digits.simps) (auto simp: is_number_def decimal_snoc)
  qed
qed

lemma itoa_numeral: "signed_numeral (itoa i) i"
  using nat_digits_number[of "nat i"] nat_digits_number[of "nat (- i)"]
  by (auto simp: itoa_def signed_numeral_def)

lemma Number_itoa: "- (2 ^ 63) \<le> i \<Longrightarrow> i < 2 ^ 63 \<Longrightarrow> Number_Int64 (itoa i) = i"
  using ParseInt_iff[of 64 "itoa i" i] itoa_numeral[of i] by (simp add: Number_Int64_def)

lemma nat_digits_prefix: "nat_digits n \<noteq> [] \<and> list_all (\<lambda>c. digit_val c \<noteq> None) (nat_digits n) \<and> (0 < n \<longrightarrow> hd (nat_digits n) \<noteq> CHR ''0'')"
proof (induction n rule: nat_digits.induct)
  case (1 n)
  have nz: "\<forall>k \<in> set [1..<10]. (char_of (48 + k :: nat) :: char) \<noteq> CHR ''0''" by code_simp
  show ?case
  proof (cases "n < 10")
    case True
    then show ?thesis using digit_char[OF True] nz by (subst (1 2 3) nat_digits.simps) auto
  next
    case False
    have d: "digit_val (char_of (48 + n mod 10) :: char) = Some (int (n mod 10))" by (rule digit_char) simp
    have "0 < n div 10" using False by (simp add: div_greater_zero_iff)
    with False 1[OF False] d show ?thesis by (subst (1 2 3) nat_digits.simps) simp
  qed
qed

lemma drop_digits_all: "list_all (\<lambda>c. digit_val c \<noteq> None) s \<Longrightarrow> drop_digits s = []"
  by (induction s) auto

lemma nat_digits_valid: "number_int (nat_digits n) = Some [] \<and> \<not> HasPrefix (nat_digits n) ''-''"
proof (cases "n = 0")
  case True
  have "(char_of (48 :: nat) :: char) = CHR ''0''" by code_simp
  then show ?thesis using True by (simp add: nat_digits.simps[of 0] number_int_def HasPrefix_def TrimPrefix_def)
next
  case False
  then obtain c cs where s: "nat_digits n = c # cs" "digit_val c \<noteq> None" "c \<noteq> CHR ''0''" "list_all (\<lambda>c. digit_val c \<noteq> None) cs"
    using nat_digits_prefix[of n] by (cases "nat_digits n") auto
  then have "c \<noteq> CHR ''-''" by (auto simp: digit_val_def)
  then show ?thesis using s by (simp add: number_int_def starts_digit_def drop_digits_all HasPrefix_def TrimPrefix_def)
qed

lemma itoa_valid: "isValidNumber (itoa i)"
proof -
  have "number_int (CHR ''-'' # s) = number_int s" if "\<not> HasPrefix s ''-''" for s
    using that by (simp add: number_int_def TrimPrefix_def HasPrefix_def[of "_ # _"])
  then have "number_int (itoa i) = Some []" using nat_digits_valid by (simp add: itoa_def)
  then show ?thesis by (simp add: isValidNumber_def number_frac_def number_exp_def HasPrefix_def)
qed

section \<open>Round trips\<close>

text \<open>
  The values that the marshaler can read back: no floats (their text is a parameter) and messages, unsigned
  numbers below 2 ^ 63, valid UTF-8, enum numbers that have a name, printed as names, and the one value of NullValue.
\<close>

definition json_safe :: "'r JSONMarshaler \<Rightarrow> kind \<Rightarrow> 'x pval \<Rightarrow> bool" where
  "json_safe opts k v =
     (case v of
        VUint64 w \<Rightarrow> uint w < 2 ^ 63
      | VString s \<Rightarrow> utf8_valid s
      | VEnum n \<Rightarrow>
          (case k of
             EnumKind t vs \<Rightarrow>
               if t = null_enum then n = 0
               else \<not> jm_UseEnumNumbers opts \<and> distinct (map fst vs) \<and> list_all utf8_valid (map fst vs) \<and> n \<in> snd ` set vs
           | _ \<Rightarrow> False)
      | VFloat x \<Rightarrow> False | VDouble x \<Rightarrow> False | VMsg m \<Rightarrow> False | VList vs \<Rightarrow> False | VMap kvs \<Rightarrow> False
      | _ \<Rightarrow> True)"

lemma enum_reads_back:
  assumes "json_safe opts (EnumKind t vs) (VEnum n)"
  shows "unmarshalEnum L opts' t vs (marshalEnum opts t vs n) = Inr (Some (VEnum n)) \<and> text_scalar (marshalEnum opts t vs n)"
proof (cases "t = null_enum")
  case True
  then show ?thesis using assms by (simp add: json_safe_def marshalEnum_def unmarshalEnum_def text_scalar_def)
next
  case False
  then have safe: "\<not> jm_UseEnumNumbers opts" "distinct (map fst vs)" "list_all utf8_valid (map fst vs)" "n \<in> snd ` set vs"
    using assms by (simp_all add: json_safe_def)
  have "find (\<lambda>(name, k). k = n) vs \<noteq> None" using safe(4) by (auto simp: find_None_iff)
  then obtain name k where f: "find (\<lambda>(name, k). k = n) vs = Some (name, k)" by auto
  then have e: "(name, n) \<in> set vs" by (auto simp: find_Some_iff in_set_conv_nth)
  then have "enum_ByName vs name = Some n" using safe(2) by (simp add: enum_ByName_def map_of_eq_Some_iff)
  moreover have "utf8_valid name" using e safe(3) by (auto simp: list_all_iff)
  ultimately show ?thesis using False safe(1) f by (simp add: marshalEnum_def unmarshalEnum_def text_scalar_def)
qed

lemma index_of_in: "index_of c xs = Some n \<Longrightarrow> c \<in> set xs"
  by (induction xs arbitrary: n) (auto split: if_splits)

lemma b64_val_ascii: "b64_val c = Some n \<Longrightarrow> (of_char c :: nat) < 128"
proof -
  have "list_all (\<lambda>c. (of_char c :: nat) < 128) b64_alphabet" by (simp add: b64_alphabet_def)
  then show "b64_val c = Some n \<Longrightarrow> ?thesis" by (auto simp: b64_val_def list_all_iff dest: index_of_in)
qed

lemma utf8_base64: "utf8_valid (b64_encode True b)"
proof (rule utf8_ascii, unfold list_all_iff, rule ballI)
  fix c assume "c \<in> set (b64_encode True b)"
  then consider "b64_val c \<noteq> None" | "c = CHR ''=''" using b64_decode_chars[OF b64_roundtrip_raw[of True b]] by blast
  then show "(of_char c :: nat) < 128" using b64_val_ascii by cases auto
qed

lemma signed_of_word: "- (2 ^ 63) \<le> sint (w :: 32 word) \<and> sint w < 2 ^ 63" "- (2 ^ 63) \<le> sint (u :: 64 word) \<and> sint u < 2 ^ 63"
  "- (2 ^ 63) \<le> uint w \<and> uint w < 2 ^ 63"
proof -
  show "- (2 ^ 63) \<le> sint w \<and> sint w < 2 ^ 63" using sint_range_size[of w] by (simp add: word_size)
  show "- (2 ^ 63) \<le> sint u \<and> sint u < 2 ^ 63" using sint_range_size[of u] by (simp add: word_size)
  have "- (2 ^ 63) \<le> uint w" by (rule order_trans[of _ 0]) simp_all
  moreover have "uint w < 2 ^ 63" using uint_range_size[of w] by (simp add: word_size)
  ultimately show "- (2 ^ 63) \<le> uint w \<and> uint w < 2 ^ 63" by blast
qed

lemma scalar_reads_back:
  assumes "wt_val S k v" and "json_safe opts k v"
  shows "\<exists>j. marshalSingular L opts r k v = Inr j \<and> scalar_value L opts' k j = Some (Inr v) \<and> kind_message k = None \<and> text_scalar j"
proof (cases v)
  case (VEnum n)
  then obtain t vs where "k = EnumKind t vs" using assms by (auto split: kind.splits)
  then show ?thesis using VEnum assms(2) enum_reads_back[of opts t vs n L opts']
    by (auto simp: marshalSingular_def scalar_value_def)
next
  case (VUint64 w)
  then show ?thesis using assms Number_itoa[of "uint w"] uint_ge_0[of w]
    by (auto simp: json_safe_def marshalSingular_def scalar_value_def jsonValueDecode_def jsonConvertNumber_def text_scalar_def itoa_valid)
qed (use assms signed_of_word in \<open>auto simp: json_safe_def marshalSingular_def scalar_value_def jsonValueDecode_def
       jsonConvertNumber_def Number_itoa StdEncoding_encode or_error_def text_scalar_def itoa_valid utf8_base64\<close>)

lemma list_reads_back:
  assumes "list_all (\<lambda>v. wt_val S k v \<and> json_safe opts k v) vs"
  shows "\<exists>js. marshal_elems L opts r k vs = Inr js \<and> unmarshalList L opts' r' k us js = Some (Inr (us @ vs)) \<and> list_all text_scalar js"
  using assms
proof (induction vs arbitrary: us)
  case (Cons v vs)
  obtain j where j: "marshalSingular L opts r k v = Inr j" "scalar_value L opts' k j = Some (Inr v)" "kind_message k = None" "text_scalar j"
    using scalar_reads_back[of S k v opts L r opts'] Cons.prems by auto
  obtain js where "marshal_elems L opts r k vs = Inr js" "unmarshalList L opts' r' k (us @ [v]) js = Some (Inr ((us @ [v]) @ vs))" "list_all text_scalar js"
    using Cons.IH[of "us @ [v]"] Cons.prems by auto
  then show ?case using j by (simp add: unmarshal_value_def)
qed simp

definition field_safe :: "schema \<Rightarrow> 'r JSONMarshaler \<Rightarrow> field_desc \<Rightarrow> 'x pval \<Rightarrow> bool" where
  "field_safe S opts fd v \<longleftrightarrow> wt_field S fd v \<and>
     (case v of VList vs \<Rightarrow> list_all (json_safe opts (fd_kind fd)) vs | _ \<Rightarrow> json_safe opts (fd_kind fd) v)"

lemma field_safe_cases:
  assumes "field_safe S opts fd v"
  obtains (many) vs where "v = VList vs" "IsList fd" "list_all (\<lambda>v. wt_val S (fd_kind fd) v \<and> json_safe opts (fd_kind fd) v) vs"
  | (one) "\<not> fd_repeated fd" "wt_val S (fd_kind fd) v" "json_safe opts (fd_kind fd) v"
  using assms by (cases v) (auto simp: field_safe_def list_all_iff json_safe_def)

lemma field_tree_reads_back:
  assumes "fd_map fd = None" and "pm_lookup m (fd_name fd) = Some v" and "field_safe S opts fd v"
    and "pm_lookup m0 (fd_name fd) = None"
  shows "\<exists>j. marshal_tree L opts r dflt m (Some fd) = Inr j \<and> text_flat j \<and>
     decode_value L opts' r' S j m0 (Some fd) = Some (Inr (pm_Set S fd v m0))"
  using assms(3)
proof (cases rule: field_safe_cases)
  case (many vs)
  obtain js where "marshal_elems L opts r (fd_kind fd) vs = Inr js" "unmarshalList L opts' r' (fd_kind fd) [] js = Some (Inr vs)"
      "list_all text_scalar js"
    using list_reads_back[OF many(3), of L r opts' r' "[]"] by auto
  then show ?thesis using assms many
    by (simp add: marshal_tree_def marshalList_def decode_value_def and_then_def mutable_list_def text_flat_def)
next
  case one
  obtain j where "marshalSingular L opts r (fd_kind fd) v = Inr j" "scalar_value L opts' (fd_kind fd) j = Some (Inr v)"
      "kind_message (fd_kind fd) = None" "text_scalar j"
    using scalar_reads_back[OF one(2,3), of L r opts'] by auto
  moreover from this(4) have "text_flat j" by (cases j) (simp_all add: text_flat_def text_scalar_def)
  ultimately show ?thesis using assms one
    by (simp add: marshal_tree_def decode_value_def IsList_def unmarshal_value_def)
qed

text \<open>
  C16. Round trip of JSON bodies: the text that Marshal gives for a field with scalar values, singular or repeated, is
  unmarshaled into a message without that field as the same value, whatever the options of the reader and the
  resolvers of both, given that encoding/json reads the text of a scalar or an array of scalars as what it was
  rendered from. The values (json_safe) are no floats, unsigned 64-bit values are below 2 ^ 63, strings
  are valid UTF-8, an enum value is one that has a name, of an enum with distinct names, and the marshaler prints
  enums by name; of google.protobuf.NullValue it is the value 0. Indentation, if any, is blank.
\<close>
theorem json_field_roundtrip:
  assumes "fd_map fd = None" and "pm_lookup m (fd_name fd) = Some v" and "field_safe S opts fd v"
    and "pm_lookup m0 (fd_name fd) = None" and "json_reads L" and "blanks (jm_Indent opts)"
  shows "\<exists>b. json_Marshal L opts dflt types m (Some fd) = (b, None) \<and>
     json_Unmarshal L opts' S types' b m0 (Some fd) = Some (Inr (pm_Set S fd v m0))"
proof -
  obtain j where j: "marshal_tree L opts (resolver (jm_MarshalResolver opts) types) dflt m (Some fd) = Inr j" "text_flat j"
    "decode_value L opts' (resolver (jm_UnmarshalResolver opts') types') S j m0 (Some fd) = Some (Inr (pm_Set S fd v m0))"
    using field_tree_reads_back[OF assms(1-4)] by blast
  have "snd (jl_next L (jl_render L (jm_Indent opts) j)) = Inr j" using assms(5,6) j(2) by (simp add: json_reads_def)
  then obtain rest where "jl_next L (jl_render L (jm_Indent opts) j) = (rest, Inr j)" by (metis prod.collapse)
  then show ?thesis using j by (simp add: json_Marshal_def json_Unmarshal_def json_Decode_def)
qed

definition dummy_lib :: "(unit, bool) json_lib" where
  "dummy_lib = \<lparr>jl_next = (\<lambda>s. (s, Inl ErrEOF)), jl_render = (\<lambda>i j. []), jl_ParseFloat = (\<lambda>s. None),
     jl_FormatFloat = (\<lambda>b x. None), jl_ToFloat32 = id, jl_ToInt32 = (\<lambda>x. 0), jl_unprintable_astral = (\<lambda>s. False),
     jl_pbMarshal = (\<lambda>_ _ _. Inl ErrEOF), jl_pbUnmarshal = (\<lambda>_ _ _ _. Inl ErrEOF)\<rparr>"

theorem json_field_roundtrip_witness:
  "\<exists>b. json_Marshal text_lib DefaultJSONMarshaler (\<lambda>_. VBool False) ()
       (PMsg ''Tree'' [(''ids'', VList [VInt32 7, VInt32 (- 1)])]) (Some (fd0 ''ids'' Int32Kind True)) = (b, None) \<and>
     json_Unmarshal text_lib DefaultJSONMarshaler tree_schema () b (empty_msg ''Tree'') (Some (fd0 ''ids'' Int32Kind True))
       = Some (Inr (pm_Set tree_schema (fd0 ''ids'' Int32Kind True) (VList [VInt32 7, VInt32 (- 1)]) (empty_msg ''Tree'')))"
  by (rule json_field_roundtrip[OF _ _ _ _ text_lib_reads])
    (simp_all add: fd0_def pm_lookup_def empty_msg_def field_safe_def json_safe_def IsList_def DefaultJSONMarshaler_def blanks_def)

section \<open>Typing and panics\<close>

text \<open>protojson gives messages of the type that it is asked for.\<close>

definition pb_typed :: "schema \<Rightarrow> ('r, 'x) json_lib \<Rightarrow> bool" where
  "pb_typed S L \<longleftrightarrow> (\<forall>opts r j t fs. jl_pbUnmarshal L opts r j t = Inr fs \<longrightarrow> wt_msg S (PMsg t fs))"

text \<open>An outcome that is not a panic, unless \<open>D\<close>, and whose value, if any, has the property.\<close>

definition outcome_ok :: "bool \<Rightarrow> ('a \<Rightarrow> bool) \<Rightarrow> (go_error + 'a) option \<Rightarrow> bool" where
  "outcome_ok D P res = (case res of None \<Rightarrow> D | Some (Inl e) \<Rightarrow> True | Some (Inr x) \<Rightarrow> P x)"

lemma outcome_ok_simps [simp]:
  "outcome_ok D P None = D" "outcome_ok D P (Some (Inl e))" "outcome_ok D P (Some (Inr x)) = P x"
  by (simp_all add: outcome_ok_def)

lemma outcome_bind:
  assumes "outcome_ok D P res" and "\<And>v. P v \<Longrightarrow> outcome_ok D Q (f v)"
  shows "outcome_ok D Q (case res of None \<Rightarrow> None | Some (Inl e) \<Rightarrow> Some (Inl (g e)) | Some (Inr v) \<Rightarrow> f v)"
  using assms by (auto simp: outcome_ok_def[where P = P] split: option.splits sum.splits)

lemma outcome_map:
  assumes "outcome_ok D P res" and "\<And>x. P x \<Longrightarrow> Q (f x)"
  shows "outcome_ok D Q (map_option (map_sum id f) res)"
  using assms by (auto simp: outcome_ok_def split: option.splits sum.splits)

lemma scalar_value_typed:
  assumes "kind_message k = None"
  shows "outcome_ok (jm_DiscardUnknown opts) (wt_val S k) (scalar_value L opts k j)"
  using assms
  by (cases k) (auto simp: outcome_ok_def scalar_value_def jsonValueDecode_def jsonConvertNumber_def jsonFloatDecode_def
      unmarshalEnum_def result_iff split: option.splits sum.splits json.splits if_splits)

lemma unmarshal_value_typed:
  assumes "pb_typed S L"
  shows "outcome_ok (jm_DiscardUnknown opts) (wt_val S k) (unmarshal_value L opts r k j)"
proof (cases "kind_message k")
  case None
  then show ?thesis by (simp add: unmarshal_value_def scalar_value_typed)
next
  case (Some t)
  then show ?thesis using assms
    by (auto simp: outcome_ok_def unmarshal_value_def unmarshalMessage_def pb_typed_def result_iff split: sum.splits)
qed

lemma unmarshalList_typed:
  assumes "pb_typed S L"
  shows "list_all (wt_val S k) vs \<Longrightarrow>
    outcome_ok (jm_DiscardUnknown opts) (list_all (wt_val S k)) (unmarshalList L opts r k vs js)"
proof (induction js arbitrary: vs)
  case (Cons j js)
  show ?case
    by (simp, rule outcome_bind[OF unmarshal_value_typed[OF assms], where g = id, unfolded id_apply])
      (rule Cons.IH, use Cons.prems in simp)
qed simp

lemma unmarshal_key_typed:
  assumes "kind_message k = None"
  shows "outcome_ok (jm_DiscardUnknown opts) (wt_val S k) (unmarshal_key L opts k key)"
  by (simp add: unmarshal_key_def scalar_value_typed[OF assms])

definition map_typed :: "schema \<Rightarrow> kind \<times> kind \<Rightarrow> ('x pval \<times> 'x pval) list \<Rightarrow> bool" where
  "map_typed S kv mp = list_all (\<lambda>(a, b). wt_val S (fst kv) a \<and> wt_val S (snd kv) b) mp"

lemma map_typed_update: "map_typed S kv mp \<Longrightarrow> wt_val S (fst kv) k \<Longrightarrow> wt_val S (snd kv) v \<Longrightarrow> map_typed S kv (AList.update k v mp)"
  using set_update_subset[of k v mp] by (auto simp: map_typed_def list_all_iff)

lemma unmarshalMap_typed:
  assumes "pb_typed S L" and "kind_message (fst kv) = None"
  shows "map_typed S kv mp \<Longrightarrow> outcome_ok (jm_DiscardUnknown opts) (map_typed S kv) (unmarshalMap L opts r kv mp es)"
proof (induction es arbitrary: mp)
  case (Cons e es)
  obtain key j where e: "e = (key, j)" by (cases e)
  have "outcome_ok (jm_DiscardUnknown opts) (map_typed S kv)
      (case unmarshal_value L opts r (snd kv) j of None \<Rightarrow> None | Some (Inl err) \<Rightarrow> Some (Inl (id err))
       | Some (Inr v) \<Rightarrow> unmarshalMap L opts r kv (AList.update k v mp) es)" if "wt_val S (fst kv) k" for k
    by (rule outcome_bind[OF unmarshal_value_typed[OF assms(1)]]) (rule Cons.IH[OF map_typed_update[OF Cons.prems that]])
  then show ?case unfolding e unmarshalMap.simps id_apply
    by (rule outcome_bind[OF unmarshal_key_typed[OF assms(2)]])
qed simp

lemma decode_typed:
  assumes "wf_schema S" and "pb_typed S L" and "wt_msg S m" and n: "ByName (S (pm_type m)) (fd_name fd) = Some fd"
    and keys: "case fd_map fd of None \<Rightarrow> True | Some kv \<Rightarrow> kind_message (fst kv) = None"
  shows "outcome_ok (jm_DiscardUnknown opts) (\<lambda>m'. wt_msg S m' \<and> pm_type m' = pm_type m) (decode_value L opts r S j m (Some fd))"
proof -
  have set: "wt_field S fd v \<Longrightarrow> wt_msg S (pm_Set S fd v m) \<and> pm_type (pm_Set S fd v m) = pm_type m" for v
    using wt_Set[OF assms(3) n] by simp
  consider (list) "IsList fd" | (map) kk vk where "\<not> IsList fd" "fd_map fd = Some (kk, vk)" | (single) "\<not> IsList fd" "fd_map fd = None"
    by (cases "fd_map fd") auto
  then show ?thesis
  proof cases
    case list
    have "outcome_ok (jm_DiscardUnknown opts) (\<lambda>m'. wt_msg S m' \<and> pm_type m' = pm_type m)
        (map_option (map_sum id (\<lambda>vs. pm_Set S fd (VList vs) m)) (unmarshalList L opts r (fd_kind fd) (mutable_list fd m) js))" for js
      by (rule outcome_map[OF unmarshalList_typed[OF assms(2) wt_mutable_list[OF assms(3) n]]]) (rule set, use list in simp)
    then show ?thesis using list by (simp add: decode_value_def and_then_def split: sum.split)
  next
    case map
    have mt: "map_typed S (kk, vk) (mutable_map fd m)" using wt_mutable_map[OF assms(3) n map(2)] by (simp add: map_typed_def)
    have "outcome_ok (jm_DiscardUnknown opts) (\<lambda>m'. wt_msg S m' \<and> pm_type m' = pm_type m)
        (map_option (map_sum id (\<lambda>mp. pm_Set S fd (VMap mp) m)) (unmarshalMap L opts r (kk, vk) (mutable_map fd m) es))" for es
      by (rule outcome_map[OF unmarshalMap_typed[OF assms(2) _ mt]], use keys map in simp)
        (rule set, use map in \<open>simp add: map_typed_def\<close>)
    then show ?thesis using map by (simp add: decode_value_def and_then_def split: sum.split)
  next
    case single
    then have nr: "\<not> fd_repeated fd" by (simp add: IsList_def)
    show ?thesis using single
      by (simp add: decode_value_def) (rule outcome_map[OF unmarshal_value_typed[OF assms(2)]], rule set, rule wt_field_single[OF nr])
  qed
qed

text \<open>
  C12. Decoding JSON into a field is type safe: into whatever field, singular, list or map, of whatever well-typed message
  a JSON value of whatever shape is decoded, given that protojson, to which every message in the field is left, gives
  well-typed ones, the result is an error, or a well-typed message of the same type; a panic is possible only for
  a marshaler that discards unknown enum values.
\<close>
theorem json_decode_type_safe:
  assumes "wf_schema S" and "pb_typed S L" and "wt_msg S m" and "ByName (S (pm_type m)) (fd_name fd) = Some fd"
    and "case fd_map fd of None \<Rightarrow> True | Some kv \<Rightarrow> kind_message (fst kv) = None"
  shows "case decode_value L opts r S j m (Some fd) of
     None \<Rightarrow> jm_DiscardUnknown opts | Some (Inl e) \<Rightarrow> True | Some (Inr m') \<Rightarrow> wt_msg S m' \<and> pm_type m' = pm_type m"
  using decode_typed[OF assms] unfolding outcome_ok_def .

theorem json_decode_type_safe_witness:
  "case decode_value dummy_lib DefaultJSONMarshaler () tree_schema (JNum ''7'') (empty_msg ''Tree'') (Some (fd0 ''id'' Int32Kind False)) of
     None \<Rightarrow> jm_DiscardUnknown (DefaultJSONMarshaler :: unit JSONMarshaler) | Some (Inl e) \<Rightarrow> True
   | Some (Inr m') \<Rightarrow> wt_msg tree_schema m' \<and> pm_type m' = pm_type (empty_msg ''Tree'' :: bool pmsg)"
  by (rule json_decode_type_safe[OF tree_schema_ok(1)]) (simp_all add: pb_typed_def dummy_lib_def tree_fields fd0_def)

text \<open>The JSON marshaler keeps the types of messages, as the transcoder relies on.\<close>

lemma decode_keeps_type: "decode_value L opts r S j m fdo = Some (Inr m') \<Longrightarrow> pm_type m' = pm_type m"
  by (auto simp: decode_value_def and_then_def unmarshalMessage_def map_sum_Inr_iff split: option.splits if_splits sum.splits)

interpretation jm: typed_marshaler "json_marshaler L opts S dflt" for L opts S dflt
  by unfold_locales
    (auto simp: json_marshaler_def panic_error_def json_Unmarshal_def json_Decode_def
      split: option.splits prod.splits sum.splits dest: decode_keeps_type)

section \<open>Departures from the JSON mapping\<close>

text \<open>
  The default marshaler is to discard unknown enum values. Decoding one into a singular enum field, or into
  a list of enums, panics instead: the invalid value is passed to Set or Append.
\<close>

theorem json_unknown_enum_panics:
  assumes "fd_kind fd = EnumKind t vs" and "fd_map fd = None" and "enum_ByName vs s = None"
  shows "decode_value L DefaultJSONMarshaler r S (if IsList fd then JArr [JStr s] else JStr s) m (Some fd) = None"
  using assms
  by (simp add: decode_value_def and_then_def unmarshal_value_def scalar_value_def unmarshalEnum_def DefaultJSONMarshaler_def)

text \<open>
  Numbers of all integer kinds go through json.Number.Int64 with its error dropped: the largest unsigned
  64-bit number becomes the largest signed one, a number beyond 32 bits wraps, a fraction is zero.
\<close>

lemma unsigned_ParseInt_None:
  assumes "is_number s \<Longrightarrow> 2 ^ (w - 1) \<le> decimal s" and "hd s \<noteq> CHR ''+''" and "hd s \<noteq> CHR ''-''"
  shows "ParseInt w s = None"
proof (cases "ParseInt w s")
  case (Some v)
  then have "signed_numeral s v" "v < 2 ^ (w - 1)" by (simp_all add: ParseInt_iff)
  then show ?thesis using assms by (auto simp: signed_numeral_def)
qed simp

lemma big_numbers:
  "Number_Int64 ''18446744073709551615'' = 9223372036854775807" "Number_Int64 ''4294967297'' = 4294967297"
  "Number_Int64 ''1.5'' = 0"
proof -
  have d: "is_number ''18446744073709551615''" "decimal ''18446744073709551615'' = 18446744073709551615"
    "is_number ''4294967297''" "decimal ''4294967297'' = 4294967297" "\<not> is_number ''1.5''"
    by (simp_all add: is_number_def digit_val_def)
  have "ParseInt 64 ''18446744073709551615'' = None" by (rule unsigned_ParseInt_None, unfold d(2)) simp_all
  moreover have "ParseInt 64 ''1.5'' = None" by (rule unsigned_ParseInt_None) (simp_all add: d(5))
  moreover have "ParseInt 64 ''4294967297'' = Some 4294967297" using d by (simp add: ParseInt_iff signed_numeral_def)
  moreover have "is_signed ''18446744073709551615''" "\<not> is_signed ''1.5''"
    by (simp_all add: is_signed_def sign_digits_def digit_val_def)
  moreover have "fst (sign_digits ''18446744073709551615'') = False" by (simp add: sign_digits_def)
  ultimately show "Number_Int64 ''18446744073709551615'' = 9223372036854775807" "Number_Int64 ''4294967297'' = 4294967297"
    "Number_Int64 ''1.5'' = 0"
    by (simp_all add: Number_Int64_def)
qed

theorem json_numbers_silently_changed:
  "unmarshalScalar L opts Uint64Kind (JNum ''18446744073709551615'') = Some (Inr (Some (VUint64 9223372036854775807)))
    \<and> unmarshalScalar L opts Int32Kind (JNum ''4294967297'') = Some (Inr (Some (VInt32 1)))
    \<and> unmarshalScalar L opts Int64Kind (JNum ''1.5'') = Some (Inr (Some (VInt64 0)))"
proof -
  have "(word_of_int 9223372036854775807 :: 64 word) = 9223372036854775807" "(word_of_int 4294967297 :: 32 word) = 1"
    by (simp_all add: word_of_int_eq_iff)
  then show ?thesis by (simp add: jsonValueDecode_def jsonConvertNumber_def big_numbers)
qed

text \<open>
  A map with keys of type bool cannot be read: a key is decoded as a JSON string, which is no bool. So the
  marshaler does not read what it writes.
\<close>

theorem json_bool_keys_unreadable:
  assumes "quoted_is_json L key"
  shows "unmarshalMap L opts r (BoolKind, vk) mp ((key, j) # rest) = Some (Inl (ErrWrap ''invalid map key value'' type_error))"
  using assms by (simp add: unmarshal_key_def scalar_value_def jsonValueDecode_def)

text \<open>A map key with a control character is refused, as Go's quoting of it is not JSON.\<close>

theorem json_control_key_refused:
  "\<exists>e. unmarshalMap L opts r (StringKind, vk) mp (([CHR 0x01], j) # rest) = Some (Inl e)"
  by (simp add: unmarshal_key_def quoted_is_json_def)

text \<open>64-bit integers are written as JSON numbers, where the JSON mapping has strings.\<close>

theorem json_int64_as_number:
  "marshalSingular L opts r Int64Kind (VInt64 w) = Inr (JNum (itoa (sint w)))"
  by (simp add: marshalSingular_def)

text \<open>A float that has no JSON number (NaN or an infinity) is read, but is an error to write.\<close>

theorem json_nan_unwritable:
  assumes "jl_FormatFloat L 64 x = None"
  shows "marshalSingular L opts r DoubleKind (VDouble x) = Inl (ErrMsg ''json: unsupported value'')"
  using assms by (simp add: marshalSingular_def json_float_def)

end
