(* ===== verification/Syncset.thy ===== *)
theory Syncset
  imports Prelude
begin

text \<open>
  The synchronized set of internal/syncset. Every operation holds the mutex from start to end, so an
  operation is one atomic step on the set: it returns its answer and the new set.
\<close>

type_synonym 'k sync_set = "'k set"

definition syncset_New :: "'k sync_set" where
  "syncset_New = {}"

definition syncset_Add :: "'k \<Rightarrow> 'k sync_set \<Rightarrow> bool \<times> 'k sync_set" where
  "syncset_Add key ss = (if key \<in> ss then (False, ss) else (True, insert key ss))"

definition syncset_Remove :: "'k \<Rightarrow> 'k sync_set \<Rightarrow> bool \<times> 'k sync_set" where
  "syncset_Remove key ss = (if key \<notin> ss then (False, ss) else (True, ss - {key}))"

lemma syncset_Add_simps [simp]:
  "fst (syncset_Add key ss) = (key \<notin> ss)"
  "snd (syncset_Add key ss) = insert key ss"
  by (auto simp: syncset_Add_def)

lemma syncset_Remove_simps [simp]:
  "fst (syncset_Remove key ss) = (key \<in> ss)"
  "snd (syncset_Remove key ss) = ss - {key}"
  by (auto simp: syncset_Remove_def)

end
