(* ===== verification/Routing.thy ===== *)
theory Routing
  imports Bridgedesc Syncset
begin

text \<open>
  What the two routers share (routing/routing.go): the parts of a request they read, the routes they
  return, and the life cycle of the watcher through which a target's description reaches a router.

  The life cycle is an interface: the client of a router (the ReflectionRouter, through its
  closableWatcher) only calls Watch, UpdateDesc and Close. The locale below states what a router
  promises about the three, and proves what the client may conclude from it; both routers interpret it.
\<close>

section \<open>Requests and routes\<close>

record http_request =
  req_Method :: string
  url_Path :: string
  url_RawPath :: string

record GRPCRoute =
  gr_Target :: Target
  gr_Service :: Service
  gr_Method :: Method

record HTTPRoute =
  hr_Target :: Target
  hr_Service :: Service
  hr_Method :: Method
  hr_Binding :: Binding
  hr_PathParams :: "(string \<times> string) list"

text \<open>ErrAlreadyWatching\<close>
definition ErrAlreadyWatching :: go_error where
  "ErrAlreadyWatching = ErrMsg ''target already being watched''"

section \<open>The watcher interface\<close>

text \<open>
  \<open>watch t s\<close> gives a watcher, or an error when \<open>t\<close> is being watched; \<open>close w s\<close> is \<open>None\<close> when the
  code panics. \<open>view s t\<close> are the routes the router holds for the target named \<open>t\<close>, \<open>none\<close> when it
  holds none, and \<open>watched s\<close> is the set of watched targets.
\<close>

locale watched_router =
  fixes watch :: "string \<Rightarrow> 's \<Rightarrow> ('w \<times> 's) option"
    and update :: "'w \<Rightarrow> Target \<Rightarrow> 's \<Rightarrow> 's"
    and close :: "'w \<Rightarrow> 's \<Rightarrow> ('w \<times> 's) option"
    and target_of :: "'w \<Rightarrow> string"
    and closed :: "'w \<Rightarrow> bool"
    and view :: "'s \<Rightarrow> string \<Rightarrow> 'v"
    and none :: 'v
    and watched :: "'s \<Rightarrow> string set"
    and inv :: "'s \<Rightarrow> bool"
  assumes watch_free: "inv s \<Longrightarrow> t \<notin> watched s \<Longrightarrow>
      \<exists>w s'. watch t s = Some (w, s') \<and> target_of w = t \<and> \<not> closed w
        \<and> inv s' \<and> watched s' = insert t (watched s) \<and> view s' = view s"
    and watch_taken: "t \<in> watched s \<Longrightarrow> watch t s = None"
    and update_inv: "inv s \<Longrightarrow> inv (update w d s)"
    and update_watched: "watched (update w d s) = watched s"
    and update_ignored: "closed w \<or> target_Name d \<noteq> target_of w \<Longrightarrow> update w d s = s"
    and update_other: "inv s \<Longrightarrow> t \<noteq> target_of w \<Longrightarrow> view (update w d s) t = view s t"
    and close_open: "inv s \<Longrightarrow> \<not> closed w \<Longrightarrow>
      \<exists>w' s'. close w s = Some (w', s') \<and> closed w' \<and> target_of w' = target_of w
        \<and> inv s' \<and> watched s' = watched s - {target_of w}
        \<and> view s' (target_of w) = none \<and> (\<forall>t. t \<noteq> target_of w \<longrightarrow> view s' t = view s t)"
    and close_closed: "closed w \<Longrightarrow> close w s = None"
begin

lemma close_twice_panics:
  assumes "inv s" and "close w s = Some (w', s')"
  shows "close w' s'' = None"
proof -
  have "\<not> closed w" using assms(2) close_closed by force
  then have "closed w'" using close_open[OF assms(1)] assms(2) by fastforce
  then show ?thesis by (rule close_closed)
qed

lemma closed_is_inert:
  assumes "inv s" and "close w s = Some (w', s')"
  shows "update w' d s'' = s''"
proof -
  have "\<not> closed w" using assms(2) close_closed by force
  then have "closed w'" using close_open[OF assms(1)] assms(2) by fastforce
  then show ?thesis by (simp add: update_ignored)
qed

lemma close_removes:
  assumes "inv s" and "close w s = Some (w', s')"
  shows "view s' (target_of w) = none" and "inv s'"
    and "t \<noteq> target_of w \<Longrightarrow> view s' t = view s t"
    and "watched s' = watched s - {target_of w}"
proof -
  have "\<not> closed w" using assms(2) close_closed by force
  then show "view s' (target_of w) = none" "inv s'" "watched s' = watched s - {target_of w}"
    "t \<noteq> target_of w \<Longrightarrow> view s' t = view s t"
    using close_open[OF assms(1)] assms(2) by fastforce+
qed

lemma watch_again:
  assumes "inv s" and "close w s = Some (w', s')"
  shows "\<exists>w'' s''. watch (target_of w) s' = Some (w'', s'') \<and> view s'' (target_of w) = none"
  using watch_free[of s' "target_of w"] close_removes[OF assms] by force

text \<open>A run of updates through watchers of other targets.\<close>

lemma fold_update_other:
  assumes "inv s" and "\<forall>(w, d) \<in> set us. target_of w \<noteq> t"
  shows "inv (fold (\<lambda>(w, d). update w d) us s) \<and> view (fold (\<lambda>(w, d). update w d) us s) t = view s t"
  using assms
proof (induction us arbitrary: s)
  case (Cons u us)
  obtain w d where u: "u = (w, d)" by fastforce
  have "inv (update w d s)" "view (update w d s) t = view s t"
    using Cons.prems u update_inv update_other by auto
  with Cons.IH[of "update w d s"] Cons.prems(2) u show ?case by simp
qed simp

lemma removed_for_good:
  assumes "inv s" and "close w s = Some (w', s')"
    and "\<forall>(v, d) \<in> set us. target_of v = target_of w \<longrightarrow> closed v"
  shows "view (fold (\<lambda>(v, d). update v d) us s') (target_of w) = none"
proof -
  have "inv s' \<Longrightarrow> view s' (target_of w) = none \<Longrightarrow>
      view (fold (\<lambda>(v, d). update v d) us s') (target_of w) = none" for s'
    using assms(3)
  proof (induction us arbitrary: s')
    case (Cons u us)
    obtain v d where u: "u = (v, d)" by fastforce
    have "inv (update v d s')" using Cons.prems(1) by (rule update_inv)
    moreover have "view (update v d s') (target_of w) = none"
    proof (cases "target_of v = target_of w")
      case True
      with Cons.prems(3) u have "closed v" by auto
      then show ?thesis using Cons.prems(2) by (simp add: update_ignored)
    next
      case False
      then show ?thesis using Cons.prems(1,2) by (simp add: update_other)
    qed
    ultimately show ?case using Cons.IH Cons.prems(3) u by auto
  qed simp
  with close_removes(1,2)[OF assms(1,2)] show ?thesis by blast
qed

end

end
