(* ===== verification/Service_Router.thy ===== *)
theory Service_Router
  imports Routing
begin

text \<open>
  The ServiceRouter (routing/service_router.go): the table from gRPC service names to targets, its
  updates, the two Route functions and the watcher. Updates and removals run under the mutex and the
  table is a sync.Map, so each operation below is one sequential run; the interleaving of a check of
  the closed flag with the update it guards is modelled in the theory Watcher_Race.

  Messages of status errors are kept without the operands that Errorf formats into them.
\<close>

section \<open>State\<close>

record serviceRoute =
  route_target :: Target
  route_service :: Service

record ServiceRouter =
  sr_routes :: "string \<Rightarrow> serviceRoute option"
  sr_svcRoutes :: "string \<Rightarrow> string list option"
  sr_watcherSet :: "string sync_set"

record ServiceRouterWatcher =
  srw_target :: string
  srw_closed :: bool

definition NewServiceRouter :: ServiceRouter where
  "NewServiceRouter = \<lparr>sr_routes = Map.empty, sr_svcRoutes = Map.empty, sr_watcherSet = syncset_New\<rparr>"

section \<open>Updating the table\<close>

text \<open>
  The first loop of updateRoutes, over the services of the description. Its state is the table, the
  list newSvcRoutes and the set presentSvcRoutes. A service that another target already serves is
  skipped; LoadOrStore keeps the stored route when there is one.
\<close>

fun sr_add_routes :: "Target \<Rightarrow> Service list \<Rightarrow>
    (string \<Rightarrow> serviceRoute option) \<times> string list \<times> string set \<Rightarrow>
    (string \<Rightarrow> serviceRoute option) \<times> string list \<times> string set" where
  "sr_add_routes desc [] st = st"
| "sr_add_routes desc (svc # svcs) (routes, newSvc, present) =
     (case routes (service_Name svc) of
        None \<Rightarrow>
          sr_add_routes desc svcs
            (routes(service_Name svc \<mapsto> \<lparr>route_target = desc, route_service = svc\<rparr>),
             newSvc @ [service_Name svc], insert (service_Name svc) present)
      | Some route \<Rightarrow>
          if target_Name (route_target route) \<noteq> target_Name desc
          then sr_add_routes desc svcs (routes, newSvc, present)
          else sr_add_routes desc svcs
            (routes, newSvc @ [service_Name svc], insert (service_Name svc) present))"

text \<open>The second loop: routes the target had and no longer lists are deleted.\<close>

fun sr_drop_routes :: "string set \<Rightarrow> string list \<Rightarrow>
    (string \<Rightarrow> serviceRoute option) \<Rightarrow> (string \<Rightarrow> serviceRoute option)" where
  "sr_drop_routes present [] routes = routes"
| "sr_drop_routes present (route # rest) routes =
     sr_drop_routes present rest (if route \<notin> present then routes(route := None) else routes)"

definition slice :: "'a list option \<Rightarrow> 'a list" where
  "slice x = (case x of None \<Rightarrow> [] | Some ys \<Rightarrow> ys)"

definition sr_updateRoutes :: "Target \<Rightarrow> ServiceRouter \<Rightarrow> ServiceRouter" where
  "sr_updateRoutes desc sr =
     (let (routes, newSvc, present) = sr_add_routes desc (Services desc) (sr_routes sr, [], {});
          routes = sr_drop_routes present (slice (sr_svcRoutes sr (target_Name desc))) routes
      in sr\<lparr>sr_routes := routes, sr_svcRoutes := (sr_svcRoutes sr)(target_Name desc \<mapsto> newSvc)\<rparr>)"

definition sr_removeTarget :: "string \<Rightarrow> ServiceRouter \<Rightarrow> ServiceRouter" where
  "sr_removeTarget target sr =
     (let routes = fold (\<lambda>route rs. rs(route := None)) (slice (sr_svcRoutes sr target)) (sr_routes sr)
      in sr\<lparr>sr_routes := routes, sr_svcRoutes := (sr_svcRoutes sr)(target := None)\<rparr>)"

section \<open>The watcher\<close>

definition sr_Watch :: "string \<Rightarrow> ServiceRouter \<Rightarrow> (ServiceRouterWatcher \<times> ServiceRouter) option" where
  "sr_Watch target sr =
     (let (added, ws) = syncset_Add target (sr_watcherSet sr)
      in if added then Some (\<lparr>srw_target = target, srw_closed = False\<rparr>, sr\<lparr>sr_watcherSet := ws\<rparr>)
         else None)"

text \<open>UpdateDesc and Close as single steps; the theory Watcher_Race has both in their parts, interleaved.\<close>

definition srw_UpdateDesc :: "ServiceRouterWatcher \<Rightarrow> Target \<Rightarrow> ServiceRouter \<Rightarrow> ServiceRouter" where
  "srw_UpdateDesc srw desc sr =
     (if srw_closed srw then sr
      else if target_Name desc \<noteq> srw_target srw then sr
      else sr_updateRoutes desc sr)"

definition srw_Close :: "ServiceRouterWatcher \<Rightarrow> ServiceRouter \<Rightarrow> (ServiceRouterWatcher \<times> ServiceRouter) option" where
  "srw_Close srw sr =
     (if srw_closed srw then None
      else let sr = sr_removeTarget (srw_target srw) sr;
               sr = sr\<lparr>sr_watcherSet := snd (syncset_Remove (srw_target srw) (sr_watcherSet sr))\<rparr>
           in Some (srw\<lparr>srw_closed := True\<rparr>, sr))"

section \<open>Routing\<close>

definition parseRPCName :: "string \<Rightarrow> string \<times> string \<times> bool" where
  "parseRPCName rpcName =
     (let rpcName = (if rpcName \<noteq> [] \<and> hd rpcName = CHR ''/'' then drop 1 rpcName else rpcName)
      in CutByte rpcName CHR ''/'')"

text \<open>\<open>pool\<close> is Get of the client pool, \<open>rpcName\<close> what grpc.Method found in the context.\<close>

definition sr_RouteGRPC :: "(string \<Rightarrow> 'conn option) \<Rightarrow> ServiceRouter \<Rightarrow> string option \<Rightarrow>
    go_error + 'conn \<times> GRPCRoute" where
  "sr_RouteGRPC pool sr rpcName =
     (case rpcName of
        None \<Rightarrow> Inl (ErrStatus Internal ''grpcbridge: no method name in request context'')
      | Some name \<Rightarrow>
          let (svc, meth, ok) = parseRPCName name
          in if \<not> ok then Inl (ErrStatus Unimplemented ''malformed method name'')
             else case sr_routes sr svc of
                    None \<Rightarrow> Inl (ErrStatus Unimplemented ''unknown service'')
                  | Some route \<Rightarrow>
                      (case pool (target_Name (route_target route)) of
                         None \<Rightarrow> Inl (ErrStatus Unavailable ''no connection available to target'')
                       | Some conn \<Rightarrow>
                           Inr (conn, \<lparr>gr_Target = route_target route, gr_Service = route_service route,
                                       gr_Method = DummyMethod svc meth\<rparr>)))"

definition sr_RouteHTTP :: "(string \<Rightarrow> 'conn option) \<Rightarrow> ServiceRouter \<Rightarrow> http_request \<Rightarrow>
    go_error + 'conn \<times> HTTPRoute" where
  "sr_RouteHTTP pool sr r =
     (if req_Method r \<noteq> ''POST'' then
        Inl (ErrHTTP 405 (ErrStatus Unimplemented ''Method Not Allowed''))
      else
        let rpcName = url_RawPath r;
            (svc, meth, ok) = parseRPCName rpcName
        in if \<not> ok then Inl (ErrStatus NotFound ''Not Found'')
           else case sr_routes sr svc of
                  None \<Rightarrow> Inl (ErrStatus NotFound ''Not Found'')
                | Some route \<Rightarrow>
                    (case pool (target_Name (route_target route)) of
                       None \<Rightarrow> Inl (ErrStatus Unavailable ''no connection available to target'')
                     | Some conn \<Rightarrow>
                         let methodDesc = DummyMethod svc meth
                         in Inr (conn, \<lparr>hr_Target = route_target route, hr_Service = route_service route,
                               hr_Method = methodDesc, hr_Binding = DefaultBinding methodDesc,
                               hr_PathParams = []\<rparr>)))"

section \<open>The invariant\<close>

text \<open>A target's list holds exactly the names of the services routed to it.\<close>

definition sr_owner :: "(string \<Rightarrow> serviceRoute option) \<Rightarrow> string \<Rightarrow> string option" where
  "sr_owner routes svc = map_option (\<lambda>r. target_Name (route_target r)) (routes svc)"

definition sr_inv :: "ServiceRouter \<Rightarrow> bool" where
  "sr_inv sr \<longleftrightarrow> (\<forall>t svc. svc \<in> set (slice (sr_svcRoutes sr t)) \<longleftrightarrow> sr_owner (sr_routes sr) svc = Some t)"

lemma slice_simps [simp]: "slice None = []" "slice (Some xs) = xs"
  by (simp_all add: slice_def)

lemma sr_owner_upd [simp]:
  "sr_owner (routes(svc \<mapsto> r)) s = (if s = svc then Some (target_Name (route_target r)) else sr_owner routes s)"
  "sr_owner (routes(svc := None)) s = (if s = svc then None else sr_owner routes s)"
  by (auto simp: sr_owner_def)

lemma sr_inv_New: "sr_inv NewServiceRouter"
  by (simp add: sr_inv_def NewServiceRouter_def sr_owner_def)

text \<open>The services the description adds: those nobody else serves.\<close>

definition sr_claimable :: "(string \<Rightarrow> serviceRoute option) \<Rightarrow> Target \<Rightarrow> string set" where
  "sr_claimable routes desc =
     {svc \<in> service_Name ` set (Services desc). sr_owner routes svc \<in> {None, Some (target_Name desc)}}"

lemma sr_add_routes_spec:
  assumes "sr_add_routes desc svcs (routes, newSvc, present) = (routes', newSvc', present')"
    and "set newSvc = present"
    and "\<forall>s \<in> present. sr_owner routes s = Some (target_Name desc)"
  shows "set newSvc' = present'
    \<and> present' = present \<union> {s \<in> service_Name ` set svcs. sr_owner routes s \<in> {None, Some (target_Name desc)}}
    \<and> sr_owner routes' = (\<lambda>s. if s \<in> present' then Some (target_Name desc) else sr_owner routes s)"
  using assms
proof (induction svcs arbitrary: routes newSvc present)
  case Nil
  then show ?case by (auto intro!: ext)
next
  case (Cons svc svcs)
  let ?n = "service_Name svc" and ?t = "target_Name desc"
  show ?case
  proof (cases "sr_owner routes ?n \<in> {None, Some ?t}")
    case False
    then obtain r where "routes ?n = Some r" "target_Name (route_target r) \<noteq> ?t"
      by (cases "routes ?n") (auto simp: sr_owner_def)
    with Cons.prems(1) have "sr_add_routes desc svcs (routes, newSvc, present) = (routes', newSvc', present')"
      by simp
    with Cons.IH[OF this Cons.prems(2,3)] False show ?thesis by auto
  next
    case True
    define routes1 where "routes1 =
      (if routes ?n = None then routes(?n \<mapsto> \<lparr>route_target = desc, route_service = svc\<rparr>) else routes)"
    have owner1: "sr_owner routes1 = (sr_owner routes)(?n := Some ?t)"
      using True by (auto simp: routes1_def sr_owner_def fun_eq_iff)
    have "sr_add_routes desc svcs (routes1, newSvc @ [?n], insert ?n present) = (routes', newSvc', present')"
      using Cons.prems(1) True by (auto simp: routes1_def sr_owner_def split: option.splits)
    from Cons.IH[OF this] Cons.prems(2,3) have IH: "set newSvc' = present'"
      "present' = insert ?n present \<union> {s \<in> service_Name ` set svcs. sr_owner routes1 s \<in> {None, Some ?t}}"
      "sr_owner routes' = (\<lambda>s. if s \<in> present' then Some ?t else sr_owner routes1 s)"
      by (auto simp: owner1)
    have "present' = present \<union> {s \<in> service_Name ` set (svc # svcs). sr_owner routes s \<in> {None, Some ?t}}"
      unfolding IH(2) owner1 using True by auto
    moreover have "sr_owner routes' = (\<lambda>s. if s \<in> present' then Some ?t else sr_owner routes s)"
      unfolding IH(3) owner1 using IH(2) by (auto intro!: ext)
    ultimately show ?thesis using IH(1) by blast
  qed
qed

lemma sr_drop_routes_owner:
  "sr_owner (sr_drop_routes present old routes)
     = (\<lambda>s. if s \<in> set old - present then None else sr_owner routes s)"
  by (induction present old routes rule: sr_drop_routes.induct) (auto simp: fun_eq_iff)

lemma fold_delete_owner:
  "sr_owner (fold (\<lambda>route rs. rs(route := None)) old routes)
     = (\<lambda>s. if s \<in> set old then None else sr_owner routes s)"
  by (induction old arbitrary: routes) (auto simp: fun_eq_iff)

text \<open>What an update and a removal do to the owners of the services.\<close>

lemma sr_updateRoutes_owner:
  assumes "sr_inv sr"
  shows "sr_owner (sr_routes (sr_updateRoutes desc sr))
       = (\<lambda>s. if s \<in> sr_claimable (sr_routes sr) desc then Some (target_Name desc)
              else if sr_owner (sr_routes sr) s = Some (target_Name desc) then None
              else sr_owner (sr_routes sr) s)"
    and "set (slice (sr_svcRoutes (sr_updateRoutes desc sr) t))
       = (if t = target_Name desc then sr_claimable (sr_routes sr) desc else set (slice (sr_svcRoutes sr t)))"
proof -
  obtain routes newSvc present where st:
    "sr_add_routes desc (Services desc) (sr_routes sr, [], {}) = (routes, newSvc, present)"
    by (metis prod_cases3)
  from sr_add_routes_spec[OF st] have spec: "set newSvc = present" "present = sr_claimable (sr_routes sr) desc"
    "sr_owner routes = (\<lambda>s. if s \<in> present then Some (target_Name desc) else sr_owner (sr_routes sr) s)"
    by (auto simp: sr_claimable_def)
  have old: "s \<in> set (slice (sr_svcRoutes sr (target_Name desc)))
      \<longleftrightarrow> sr_owner (sr_routes sr) s = Some (target_Name desc)" for s
    using assms by (simp add: sr_inv_def)
  show "sr_owner (sr_routes (sr_updateRoutes desc sr))
       = (\<lambda>s. if s \<in> sr_claimable (sr_routes sr) desc then Some (target_Name desc)
              else if sr_owner (sr_routes sr) s = Some (target_Name desc) then None
              else sr_owner (sr_routes sr) s)"
    by (auto simp: sr_updateRoutes_def st sr_drop_routes_owner spec(3) old fun_eq_iff simp flip: spec(2))
  show "set (slice (sr_svcRoutes (sr_updateRoutes desc sr) t))
       = (if t = target_Name desc then sr_claimable (sr_routes sr) desc else set (slice (sr_svcRoutes sr t)))"
    using spec(1,2) by (simp add: sr_updateRoutes_def st)
qed

lemma sr_removeTarget_owner:
  assumes "sr_inv sr"
  shows "sr_owner (sr_routes (sr_removeTarget target sr))
       = (\<lambda>s. if sr_owner (sr_routes sr) s = Some target then None else sr_owner (sr_routes sr) s)"
    and "set (slice (sr_svcRoutes (sr_removeTarget target sr) t))
       = (if t = target then {} else set (slice (sr_svcRoutes sr t)))"
  using assms by (auto simp: sr_removeTarget_def fold_delete_owner sr_inv_def fun_eq_iff)

lemma sr_updateRoutes_inv: "sr_inv sr \<Longrightarrow> sr_inv (sr_updateRoutes desc sr)"
  unfolding sr_inv_def[of "sr_updateRoutes desc sr"]
  by (auto simp: sr_updateRoutes_owner) (auto simp: sr_inv_def sr_claimable_def split: if_splits)

lemma sr_removeTarget_inv: "sr_inv sr \<Longrightarrow> sr_inv (sr_removeTarget target sr)"
  unfolding sr_inv_def[of "sr_removeTarget target sr"]
  by (auto simp: sr_removeTarget_owner) (auto simp: sr_inv_def)

section \<open>Routes, not only owners\<close>

lemma sr_add_routes_keeps:
  "sr_add_routes desc svcs (routes, newSvc, present) = (routes', newSvc', present') \<Longrightarrow>
     routes s = Some r \<Longrightarrow> routes' s = Some r"
  by (induction svcs arbitrary: routes newSvc present) (force split: option.splits if_splits)+

lemma sr_add_routes_new:
  "sr_add_routes desc svcs (routes, newSvc, present) = (routes', newSvc', present') \<Longrightarrow>
     routes' s = Some r \<Longrightarrow> routes s = Some r \<or> route_target r = desc"
  by (induction svcs arbitrary: routes newSvc present) (fastforce split: option.splits if_splits)+

lemma sr_drop_routes_apply:
  "sr_drop_routes present old routes s = (if s \<in> set old - present then None else routes s)"
  by (induction present old routes rule: sr_drop_routes.induct) auto

lemma fold_delete_apply:
  "fold (\<lambda>route rs. rs(route := None)) old routes s = (if s \<in> set old then None else routes s)"
  by (induction old arbitrary: routes) auto

definition sr_view :: "ServiceRouter \<Rightarrow> string \<Rightarrow> (string \<times> serviceRoute) set" where
  "sr_view sr t = {(svc, r). sr_routes sr svc = Some r \<and> target_Name (route_target r) = t}"

lemma sr_updateRoutes_keeps:
  assumes "sr_inv sr" and "sr_routes sr svc = Some r"
    and "target_Name (route_target r) \<noteq> target_Name desc \<or> svc \<in> service_Name ` set (Services desc)"
  shows "sr_routes (sr_updateRoutes desc sr) svc = Some r"
proof -
  obtain routes newSvc present where st:
    "sr_add_routes desc (Services desc) (sr_routes sr, [], {}) = (routes, newSvc, present)"
    by (metis prod_cases3)
  have "routes svc = Some r" by (rule sr_add_routes_keeps[OF st assms(2)])
  moreover have "svc \<notin> set (slice (sr_svcRoutes sr (target_Name desc))) - present"
    using sr_add_routes_spec[OF st] assms by (auto simp: sr_inv_def sr_owner_def)
  ultimately show ?thesis by (simp add: sr_updateRoutes_def st sr_drop_routes_apply)
qed

lemma sr_updateRoutes_new:
  assumes "sr_routes (sr_updateRoutes desc sr) svc = Some r"
  shows "sr_routes sr svc = Some r \<or> route_target r = desc"
proof -
  obtain routes newSvc present where st:
    "sr_add_routes desc (Services desc) (sr_routes sr, [], {}) = (routes, newSvc, present)"
    by (metis prod_cases3)
  with assms have "routes svc = Some r"
    by (auto simp: sr_updateRoutes_def sr_drop_routes_apply split: if_splits)
  then show ?thesis by (rule sr_add_routes_new[OF st])
qed

lemma sr_view_update_other: "sr_inv sr \<Longrightarrow> t \<noteq> target_Name desc \<Longrightarrow> sr_view (sr_updateRoutes desc sr) t = sr_view sr t"
  by (auto simp: sr_view_def sr_updateRoutes_keeps dest: sr_updateRoutes_new)

lemma sr_view_remove:
  assumes "sr_inv sr"
  shows "sr_view (sr_removeTarget target sr) t = (if t = target then {} else sr_view sr t)"
  using assms by (auto simp: sr_view_def sr_removeTarget_def fold_delete_apply sr_inv_def sr_owner_def
      split: if_splits)

lemma sr_frame [simp]:
  "sr_watcherSet (sr_updateRoutes desc sr) = sr_watcherSet sr"
  "sr_watcherSet (sr_removeTarget t sr) = sr_watcherSet sr"
  by (simp_all add: sr_updateRoutes_def sr_removeTarget_def split: prod.split)

lemma sr_inv_watcherSet [simp]: "sr_inv (sr\<lparr>sr_watcherSet := ws\<rparr>) = sr_inv sr"
  by (simp add: sr_inv_def)

lemma sr_view_watcherSet [simp]: "sr_view (sr\<lparr>sr_watcherSet := ws\<rparr>) = sr_view sr"
  by (simp add: sr_view_def fun_eq_iff)

interpretation srw: watched_router sr_Watch srw_UpdateDesc srw_Close srw_target srw_closed sr_view "{}"
  sr_watcherSet sr_inv
proof (unfold_locales, goal_cases)
  case (1 s t)
  then show ?case by (auto simp: sr_Watch_def syncset_Add_def)
next
  case (2 t s)
  then show ?case by (simp add: sr_Watch_def syncset_Add_def)
next
  case (7 s w)
  then show ?case
    by (auto simp: srw_Close_def Let_def sr_view_remove intro: sr_removeTarget_inv)
qed (auto simp: srw_UpdateDesc_def srw_Close_def sr_updateRoutes_inv sr_view_update_other)

section \<open>Properties\<close>

text \<open>The router's states: what a new router becomes by any sequence of the watcher operations.\<close>

inductive sr_reachable :: "ServiceRouter \<Rightarrow> bool" where
  sr_new: "sr_reachable NewServiceRouter"
| sr_watch: "sr_reachable sr \<Longrightarrow> sr_Watch t sr = Some (w, sr') \<Longrightarrow> sr_reachable sr'"
| sr_update: "sr_reachable sr \<Longrightarrow> sr_reachable (srw_UpdateDesc w desc sr)"
| sr_close: "sr_reachable sr \<Longrightarrow> srw_Close w sr = Some (w', sr') \<Longrightarrow> sr_reachable sr'"

lemma sr_Watch_inv: "sr_inv sr \<Longrightarrow> sr_Watch t sr = Some (w, sr') \<Longrightarrow> sr_inv sr'"
  by (auto simp: sr_Watch_def Let_def split: prod.splits if_splits)

text \<open>
  C2. In every state a ServiceRouter can reach, the list kept for a target holds exactly the services
  whose route points to that target; so no service is in the lists of two targets.
\<close>
theorem sr_reachable_inv:
  assumes "sr_reachable sr"
  shows "(svc \<in> set (slice (sr_svcRoutes sr t)) \<longleftrightarrow> sr_owner (sr_routes sr) svc = Some t)
    \<and> (svc \<in> set (slice (sr_svcRoutes sr t)) \<and> svc \<in> set (slice (sr_svcRoutes sr t')) \<longrightarrow> t = t')"
proof -
  from assms have "sr_inv sr"
    by induction (auto intro: sr_inv_New sr_Watch_inv srw.update_inv srw.close_removes(2))
  then show ?thesis by (auto simp: sr_inv_def)
qed

lemma sr_reachable_run:
  "sr_reachable (srw_UpdateDesc \<lparr>srw_target = ''b'', srw_closed = False\<rparr>
      \<lparr>target_Name = ''b'', Services = [\<lparr>service_Name = ''S'', Methods = []\<rparr>, \<lparr>service_Name = ''T'', Methods = []\<rparr>]\<rparr>
      (srw_UpdateDesc \<lparr>srw_target = ''a'', srw_closed = False\<rparr>
        \<lparr>target_Name = ''a'', Services = [\<lparr>service_Name = ''S'', Methods = []\<rparr>]\<rparr> NewServiceRouter))"
  by (rule sr_update[OF sr_update[OF sr_new]])

theorem sr_reachable_inv_witness:
  "\<exists>sr. sr_reachable sr \<and> (''T'' \<in> set (slice (sr_svcRoutes sr ''b'')) \<longleftrightarrow> sr_owner (sr_routes sr) ''T'' = Some ''b'')"
  using sr_reachable_inv[OF sr_reachable_run, of "''T''" "''b''" "''b''"] sr_reachable_run by blast

text \<open>
  C26. An update through a target's description gives the target every listed service that is free or
  already its own, takes from it every service it no longer lists, and moves no service of another
  target: a conflicting claim is skipped.
\<close>
theorem sr_updateRoutes_owners:
  assumes "sr_inv sr"
  shows "sr_owner (sr_routes (sr_updateRoutes desc sr)) svc =
    (case sr_owner (sr_routes sr) svc of
       None \<Rightarrow> if svc \<in> service_Name ` set (Services desc) then Some (target_Name desc) else None
     | Some t \<Rightarrow>
         if t \<noteq> target_Name desc then Some t
         else if svc \<in> service_Name ` set (Services desc) then Some t else None)
    \<and> sr_inv (sr_updateRoutes desc sr)"
proof
  show "sr_inv (sr_updateRoutes desc sr)" by (rule sr_updateRoutes_inv[OF assms])
qed (simp add: sr_updateRoutes_owner(1)[OF assms] sr_claimable_def split: option.splits)

theorem sr_updateRoutes_owners_witness:
  "sr_owner (sr_routes (sr_updateRoutes \<lparr>target_Name = ''a'', Services = [\<lparr>service_Name = ''S'', Methods = []\<rparr>]\<rparr>
      NewServiceRouter)) ''S'' = Some ''a''"
  using sr_updateRoutes_owners[OF sr_inv_New, of "\<lparr>target_Name = ''a'', Services = [\<lparr>service_Name = ''S'', Methods = []\<rparr>]\<rparr>" "''S''"]
  by (simp add: NewServiceRouter_def sr_owner_def)

text \<open>
  An update never refreshes the route of a service the target already serves: RouteGRPC goes on
  returning the Target and the Service of the description with which the service was first added.
\<close>
theorem sr_updateRoutes_stale:
  assumes "sr_inv sr" and "sr_routes sr svc = Some r"
    and "target_Name (route_target r) = target_Name desc" and "svc \<in> service_Name ` set (Services desc)"
  shows "sr_routes (sr_updateRoutes desc sr) svc = Some r"
  using sr_updateRoutes_keeps[OF assms(1,2)] assms(4) by blast

theorem sr_updateRoutes_stale_witness:
  "sr_routes (sr_updateRoutes
       \<lparr>target_Name = ''a'', Services = [\<lparr>service_Name = ''S'', Methods = [DummyMethod ''S'' ''New'']\<rparr>]\<rparr>
       (sr_updateRoutes \<lparr>target_Name = ''a'', Services = [\<lparr>service_Name = ''S'', Methods = []\<rparr>]\<rparr> NewServiceRouter)) ''S''
   = Some \<lparr>route_target = \<lparr>target_Name = ''a'', Services = [\<lparr>service_Name = ''S'', Methods = []\<rparr>]\<rparr>,
          route_service = \<lparr>service_Name = ''S'', Methods = []\<rparr>\<rparr>"
  by (rule sr_updateRoutes_stale[OF sr_updateRoutes_inv[OF sr_inv_New]])
    (auto simp: sr_updateRoutes_def NewServiceRouter_def)

text \<open>
  A conflicting service is lost when its owner leaves: if B described a service that A serves, the
  service is unrouted once A is removed, until B sends another update.
\<close>
theorem sr_conflict_then_remove:
  assumes "sr_inv sr" and "sr_owner (sr_routes sr) svc = Some a" and "a \<noteq> target_Name descB"
  shows "sr_routes (sr_removeTarget a (sr_updateRoutes descB sr)) svc = None"
proof -
  have inv: "sr_inv (sr_updateRoutes descB sr)" by (rule sr_updateRoutes_inv[OF assms(1)])
  have "sr_owner (sr_routes (sr_updateRoutes descB sr)) svc = Some a"
    using assms by (simp add: sr_updateRoutes_owner(1)[OF assms(1)] sr_claimable_def)
  then have "sr_owner (sr_routes (sr_removeTarget a (sr_updateRoutes descB sr))) svc = None"
    by (simp add: sr_removeTarget_owner(1)[OF inv])
  then show ?thesis by (simp add: sr_owner_def)
qed

theorem sr_conflict_then_remove_witness:
  "sr_routes (sr_removeTarget ''a''
     (sr_updateRoutes \<lparr>target_Name = ''b'', Services = [\<lparr>service_Name = ''S'', Methods = []\<rparr>]\<rparr>
       (sr_updateRoutes \<lparr>target_Name = ''a'', Services = [\<lparr>service_Name = ''S'', Methods = []\<rparr>]\<rparr> NewServiceRouter))) ''S'' = None"
  by (rule sr_conflict_then_remove[OF sr_updateRoutes_inv[OF sr_inv_New]])
    (auto simp: sr_updateRoutes_def NewServiceRouter_def sr_owner_def)

text \<open>
  RouteGRPC answers a canonical method name /service/method with the connection and the stored
  route of the service, and each way to fail has its own status code: Internal without a method name,
  Unimplemented for an unknown service, Unavailable when the pool has no connection to the target.
\<close>
theorem sr_RouteGRPC_canonical:
  assumes "CHR ''/'' \<notin> set svc"
  shows "sr_RouteGRPC pool sr (Some (CanonicalRPCName svc meth)) =
    (case sr_routes sr svc of
       None \<Rightarrow> Inl (ErrStatus Unimplemented ''unknown service'')
     | Some r \<Rightarrow>
         (case pool (target_Name (route_target r)) of
            None \<Rightarrow> Inl (ErrStatus Unavailable ''no connection available to target'')
          | Some conn \<Rightarrow> Inr (conn, \<lparr>gr_Target = route_target r, gr_Service = route_service r,
                                    gr_Method = DummyMethod svc meth\<rparr>)))
    \<and> sr_RouteGRPC pool sr None = Inl (ErrStatus Internal ''grpcbridge: no method name in request context'')"
  using assms by (simp add: sr_RouteGRPC_def parseRPCName_def CanonicalRPCName_def CutByte_sep)

theorem sr_RouteGRPC_canonical_witness:
  "sr_RouteGRPC (\<lambda>t. if t = ''a'' then Some (7::nat) else None)
     (sr_updateRoutes \<lparr>target_Name = ''a'', Services = [\<lparr>service_Name = ''S'', Methods = []\<rparr>]\<rparr> NewServiceRouter)
     (Some ''/S/M'')
   = Inr (7, \<lparr>gr_Target = \<lparr>target_Name = ''a'', Services = [\<lparr>service_Name = ''S'', Methods = []\<rparr>]\<rparr>,
             gr_Service = \<lparr>service_Name = ''S'', Methods = []\<rparr>, gr_Method = DummyMethod ''S'' ''M''\<rparr>)"
  using sr_RouteGRPC_canonical[of "''S''" "\<lambda>t. if t = ''a'' then Some (7::nat) else None"
      "sr_updateRoutes \<lparr>target_Name = ''a'', Services = [\<lparr>service_Name = ''S'', Methods = []\<rparr>]\<rparr> NewServiceRouter" "''M''"]
  by (simp add: CanonicalRPCName_def sr_updateRoutes_def NewServiceRouter_def)

text \<open>
  RouteHTTP reads the method name from URL.RawPath only. net/http leaves RawPath empty whenever
  the default encoding of the path is the path itself, so every such POST request is answered NotFound,
  whatever the table holds.
\<close>
theorem sr_RouteHTTP_empty_RawPath:
  "req_Method r = ''POST'' \<Longrightarrow> url_RawPath r = [] \<Longrightarrow>
     sr_RouteHTTP pool sr r = Inl (ErrStatus NotFound ''Not Found'')"
  by (simp add: sr_RouteHTTP_def parseRPCName_def CutByte_no_sep)

theorem sr_RouteHTTP_empty_RawPath_witness:
  "sr_RouteHTTP (\<lambda>t. Some (7::nat))
     (sr_updateRoutes \<lparr>target_Name = ''a'', Services = [\<lparr>service_Name = ''S'', Methods = []\<rparr>]\<rparr> NewServiceRouter)
     \<lparr>req_Method = ''POST'', url_Path = ''/S/M'', url_RawPath = []\<rparr>
   = Inl (ErrStatus NotFound ''Not Found'')"
  by (rule sr_RouteHTTP_empty_RawPath) simp_all

text \<open>
  Closing a watcher removes every route of its target, leaves the routes of all other targets as
  they are, and frees the target for a new watcher; an update that begins after that changes nothing through the
  closed watcher. The operations are single steps here; the theory Watcher_Race has them interleaved.
\<close>
theorem srw_Close_effect:
  assumes "sr_inv sr" and "srw_Close w sr = Some (w', sr')"
  shows "sr_view sr' (srw_target w) = {}
    \<and> (\<forall>t. t \<noteq> srw_target w \<longrightarrow> sr_view sr' t = sr_view sr t)
    \<and> srw_UpdateDesc w' desc sr'' = sr''
    \<and> (\<exists>w2 sr2. sr_Watch (srw_target w) sr' = Some (w2, sr2) \<and> sr_view sr2 (srw_target w) = {})
    \<and> ((\<forall>(v, d) \<in> set us. srw_target v = srw_target w \<longrightarrow> srw_closed v) \<longrightarrow>
        sr_view (fold (\<lambda>(v, d). srw_UpdateDesc v d) us sr') (srw_target w) = {})"
  using srw.close_removes[OF assms] srw.closed_is_inert[OF assms] srw.watch_again[OF assms]
    srw.removed_for_good[OF assms, of us] by blast

theorem srw_Close_effect_witness:
  "\<exists>w' sr'. srw_Close \<lparr>srw_target = ''a'', srw_closed = False\<rparr>
       (sr_updateRoutes \<lparr>target_Name = ''a'', Services = [\<lparr>service_Name = ''S'', Methods = []\<rparr>]\<rparr> NewServiceRouter)
     = Some (w', sr') \<and> sr_view sr' ''a'' = {}"
proof -
  let ?w = "\<lparr>srw_target = ''a'', srw_closed = False\<rparr>"
  let ?sr = "sr_updateRoutes \<lparr>target_Name = ''a'', Services = [\<lparr>service_Name = ''S'', Methods = []\<rparr>]\<rparr> NewServiceRouter"
  obtain w' sr' where c: "srw_Close ?w ?sr = Some (w', sr')" by (simp add: srw_Close_def Let_def)
  from srw_Close_effect[OF sr_updateRoutes_inv[OF sr_inv_New] c] have "sr_view sr' (srw_target ?w) = {}" by blast
  with c show ?thesis by auto
qed

end
