(* ===== verification/Pattern_Table.thy ===== *)
theory Pattern_Table
  imports Routing
begin

text \<open>
  The mutable routing table of the PatternRouter (mutablePatternRoutingTable and
  staticPatternRoutingTable of routing/pattern_router.go) and its refinement to an ordered table.

  A container/list element is an identity with a Value that the code overwrites in place through
  links kept per target. The model keeps that aliasing: \<open>mt_values\<close> is the store of element values,
  a list is the sequence of its element identities, and a link is a method with an identity.
  \<open>mt_next\<close> is the next identity to allocate. Every exported operation holds the mutex from start to
  end, so an operation is one step; the readers only see \<open>mt_static\<close>, which is replaced as a whole.

  A map the code ranges over (the routes given to addTarget) is an association list in the order of
  that range loop, and the results below hold for every order.
\<close>

section \<open>State\<close>

record ('r) targetPatternRoutes =
  tpr_target :: Target
  tpr_routes :: "'r list"

type_synonym elem = nat

record ('r) mutablePatternRoutingTable =
  mt_static :: "string \<Rightarrow> 'r targetPatternRoutes list option"
  mt_routes :: "string \<Rightarrow> elem list option"
  mt_targetLinks :: "string \<Rightarrow> (string \<times> elem) list option"
  mt_values :: "elem \<Rightarrow> 'r targetPatternRoutes option"
  mt_next :: elem

definition newMutablePatternRoutingTable :: "'r mutablePatternRoutingTable" where
  "newMutablePatternRoutingTable =
     \<lparr>mt_static = Map.empty, mt_routes = Map.empty, mt_targetLinks = Map.empty,
      mt_values = Map.empty, mt_next = 0\<rparr>"

section \<open>Operations\<close>

text \<open>commit copies the values of every list into a new static table.\<close>

definition mt_commit :: "'r mutablePatternRoutingTable \<Rightarrow> (string \<Rightarrow> 'r targetPatternRoutes list option)" where
  "mt_commit mt = (\<lambda>method. map_option (List.map_filter (mt_values mt)) (mt_routes mt method))"

text \<open>removeRoute: \<open>None\<close> is the nil dereference on a method without a list.\<close>

definition mt_removeRoute :: "string \<Rightarrow> elem \<Rightarrow> 'r mutablePatternRoutingTable \<Rightarrow> 'r mutablePatternRoutingTable option" where
  "mt_removeRoute method link mt =
     (case mt_routes mt method of
        None \<Rightarrow> None
      | Some lst \<Rightarrow>
          let lst = remove1 link lst
          in Some (mt\<lparr>mt_routes := (mt_routes mt)(method := (if lst = [] then None else Some lst))\<rparr>))"

definition mt_addRoute :: "string \<Rightarrow> 'r targetPatternRoutes \<Rightarrow> 'r mutablePatternRoutingTable \<Rightarrow>
    elem \<times> 'r mutablePatternRoutingTable" where
  "mt_addRoute method route mt =
     (let lst = (case mt_routes mt method of None \<Rightarrow> [] | Some lst \<Rightarrow> lst);
          e = mt_next mt
      in (e, mt\<lparr>mt_routes := (mt_routes mt)(method \<mapsto> lst @ [e]),
                mt_values := (mt_values mt)(e \<mapsto> route), mt_next := Suc e\<rparr>))"

text \<open>
  The first loop of addTarget, over the target's links: a method without new routes is removed, any
  other gets its value overwritten, keeps its link and is deleted from the routes still to add.
\<close>

fun mt_update_links :: "Target \<Rightarrow> (string \<times> elem) list \<Rightarrow>
    (string \<times> 'r list) list \<times> (string \<times> elem) list \<times> 'r mutablePatternRoutingTable \<Rightarrow>
    ((string \<times> 'r list) list \<times> (string \<times> elem) list \<times> 'r mutablePatternRoutingTable) option" where
  "mt_update_links target [] st = Some st"
| "mt_update_links target ((method, link) # links) (routes, newLinks, mt) =
     (case map_of routes method of
        None \<Rightarrow>
          (case mt_removeRoute method link mt of
             None \<Rightarrow> None
           | Some mt' \<Rightarrow> mt_update_links target links (routes, newLinks, mt'))
      | Some patternRoutes \<Rightarrow>
          mt_update_links target links
            (AList.delete method routes, newLinks @ [(method, link)],
             mt\<lparr>mt_values := (mt_values mt)(link \<mapsto> \<lparr>tpr_target = target, tpr_routes = patternRoutes\<rparr>)\<rparr>))"

text \<open>The second loop: a new element for every method left.\<close>

fun mt_add_links :: "Target \<Rightarrow> (string \<times> 'r list) list \<Rightarrow>
    (string \<times> elem) list \<times> 'r mutablePatternRoutingTable \<Rightarrow>
    (string \<times> elem) list \<times> 'r mutablePatternRoutingTable" where
  "mt_add_links target [] st = st"
| "mt_add_links target ((method, patternRoutes) # routes) (newLinks, mt) =
     (let (link, mt') = mt_addRoute method \<lparr>tpr_target = target, tpr_routes = patternRoutes\<rparr> mt
      in mt_add_links target routes (newLinks @ [(method, link)], mt'))"

definition mt_links :: "'r mutablePatternRoutingTable \<Rightarrow> string \<Rightarrow> (string \<times> elem) list" where
  "mt_links mt target = (case mt_targetLinks mt target of None \<Rightarrow> [] | Some ls \<Rightarrow> ls)"

definition mt_addTarget :: "Target \<Rightarrow> (string \<times> 'r list) list \<Rightarrow> 'r mutablePatternRoutingTable \<Rightarrow>
    'r mutablePatternRoutingTable option" where
  "mt_addTarget target routes mt =
     (case mt_update_links target (mt_links mt (target_Name target)) (routes, [], mt) of
        None \<Rightarrow> None
      | Some (routes', newLinks, mt1) \<Rightarrow>
          let (newLinks', mt2) = mt_add_links target routes' (newLinks, mt1);
              mt3 = mt2\<lparr>mt_targetLinks := (mt_targetLinks mt2)(target_Name target \<mapsto> newLinks')\<rparr>
          in Some (mt3\<lparr>mt_static := mt_commit mt3\<rparr>))"

fun mt_remove_links :: "(string \<times> elem) list \<Rightarrow> 'r mutablePatternRoutingTable \<Rightarrow>
    'r mutablePatternRoutingTable option" where
  "mt_remove_links [] mt = Some mt"
| "mt_remove_links ((method, link) # links) mt =
     (case mt_removeRoute method link mt of
        None \<Rightarrow> None
      | Some mt' \<Rightarrow> mt_remove_links links mt')"

definition mt_removeTarget :: "string \<Rightarrow> 'r mutablePatternRoutingTable \<Rightarrow> 'r mutablePatternRoutingTable option" where
  "mt_removeTarget target mt =
     (case mt_remove_links (mt_links mt target) mt of
        None \<Rightarrow> None
      | Some mt1 \<Rightarrow>
          let mt2 = mt1\<lparr>mt_targetLinks := (mt_targetLinks mt1)(target := None)\<rparr>
          in Some (mt2\<lparr>mt_static := mt_commit mt2\<rparr>))"

text \<open>
  iterate: the routes of the static table for a method in order, each with its target. The callback
  that stops the iteration is modelled by its caller.
\<close>

definition st_iterate :: "(string \<Rightarrow> 'r targetPatternRoutes list option) \<Rightarrow> string \<Rightarrow> (Target \<times> 'r) list" where
  "st_iterate static method =
     (case static method of
        None \<Rightarrow> []
      | Some lst \<Rightarrow> concat (map (\<lambda>pr. map (Pair (tpr_target pr)) (tpr_routes pr)) lst))"

definition mt_iterate :: "'r mutablePatternRoutingTable \<Rightarrow> string \<Rightarrow> (Target \<times> 'r) list" where
  "mt_iterate mt method = st_iterate (mt_static mt) method"

section \<open>The ordered table it implements\<close>

text \<open>
  Per HTTP method, a list of targets with their routes. Adding a target keeps the places of the
  others: its entry is replaced where it stands, appended when it is new, dropped when it has no
  routes for the method any more.
\<close>

type_synonym 'r ordered_table = "string \<Rightarrow> 'r targetPatternRoutes list"

abbreviation tpr_name :: "'r targetPatternRoutes \<Rightarrow> string" where
  "tpr_name e \<equiv> target_Name (tpr_target e)"

definition ot_put :: "Target \<Rightarrow> 'r list \<Rightarrow> 'r targetPatternRoutes list \<Rightarrow> 'r targetPatternRoutes list" where
  "ot_put target rs es =
     (let e = \<lparr>tpr_target = target, tpr_routes = rs\<rparr>
      in if target_Name target \<in> tpr_name ` set es
         then map (\<lambda>x. if tpr_name x = target_Name target then e else x) es
         else es @ [e])"

definition ot_drop :: "string \<Rightarrow> 'r targetPatternRoutes list \<Rightarrow> 'r targetPatternRoutes list" where
  "ot_drop t es = filter (\<lambda>x. tpr_name x \<noteq> t) es"

definition ot_add :: "Target \<Rightarrow> (string \<Rightarrow> 'r list option) \<Rightarrow> 'r ordered_table \<Rightarrow> 'r ordered_table" where
  "ot_add target routes tab = (\<lambda>method.
     case routes method of
       None \<Rightarrow> ot_drop (target_Name target) (tab method)
     | Some rs \<Rightarrow> ot_put target rs (tab method))"

definition ot_remove :: "string \<Rightarrow> 'r ordered_table \<Rightarrow> 'r ordered_table" where
  "ot_remove t tab = (\<lambda>method. ot_drop t (tab method))"

text \<open>The abstraction function, and the table the readers see.\<close>

definition mt_ids :: "'r mutablePatternRoutingTable \<Rightarrow> string \<Rightarrow> elem list" where
  "mt_ids mt method = (case mt_routes mt method of None \<Rightarrow> [] | Some lst \<Rightarrow> lst)"

definition mt_abs :: "'r mutablePatternRoutingTable \<Rightarrow> 'r ordered_table" where
  "mt_abs mt = (\<lambda>method. List.map_filter (mt_values mt) (mt_ids mt method))"

definition st_abs :: "(string \<Rightarrow> 'r targetPatternRoutes list option) \<Rightarrow> 'r ordered_table" where
  "st_abs static = (\<lambda>method. case static method of None \<Rightarrow> [] | Some es \<Rightarrow> es)"

end
