(* ===== verification/Pattern_Refine.thy ===== *)
theory Pattern_Refine
  imports Pattern_Table
begin

text \<open>
  The linked-list table of the PatternRouter refines the ordered table of the theory Pattern_Table:
  addTarget and removeTarget never hit a missing list, keep the structure's invariant, and the
  static table they publish is the ordered table after the abstract operation.

  Inside addTarget the stored links are out of step with the lists, so the invariant is stated over
  a function \<open>L\<close> giving the links each target has at that moment.
\<close>

definition wf_links :: "(string \<Rightarrow> (string \<times> elem) list) \<Rightarrow> 'r mutablePatternRoutingTable \<Rightarrow> bool" where
  "wf_links L mt \<longleftrightarrow>
     (\<forall>m. mt_routes mt m \<noteq> Some [] \<and> distinct (mt_ids mt m))
     \<and> (\<forall>m el. el \<in> set (mt_ids mt m) \<longrightarrow> el < mt_next mt \<and> mt_values mt el \<noteq> None)
     \<and> (\<forall>m m' el. el \<in> set (mt_ids mt m) \<longrightarrow> el \<in> set (mt_ids mt m') \<longrightarrow> m = m')
     \<and> (\<forall>t. distinct (map fst (L t)))
     \<and> (\<forall>t m el. (m, el) \<in> set (L t) \<longleftrightarrow>
          el \<in> set (mt_ids mt m) \<and> map_option tpr_name (mt_values mt el) = Some t)"

definition mt_inv :: "'r mutablePatternRoutingTable \<Rightarrow> bool" where
  "mt_inv mt \<longleftrightarrow> wf_links (mt_links mt) mt \<and> mt_static mt = mt_commit mt"

lemma wf_linksD:
  assumes "wf_links L mt"
  shows "mt_routes mt m \<noteq> Some []" "distinct (mt_ids mt m)"
    and "el \<in> set (mt_ids mt m) \<Longrightarrow> el < mt_next mt"
    and "el \<in> set (mt_ids mt m) \<Longrightarrow> \<exists>v. mt_values mt el = Some v"
    and "el \<in> set (mt_ids mt m) \<Longrightarrow> el \<in> set (mt_ids mt m') \<Longrightarrow> m = m'"
    and "distinct (map fst (L t))"
    and "(m, el) \<in> set (L t) \<longleftrightarrow> el \<in> set (mt_ids mt m) \<and> map_option tpr_name (mt_values mt el) = Some t"
  using assms unfolding wf_links_def by blast+

lemma wf_linksI:
  assumes "\<And>m. mt_routes mt m \<noteq> Some []" and "\<And>m. distinct (mt_ids mt m)"
    and "\<And>m el. el \<in> set (mt_ids mt m) \<Longrightarrow> el < mt_next mt \<and> mt_values mt el \<noteq> None"
    and "\<And>m m' el. el \<in> set (mt_ids mt m) \<Longrightarrow> el \<in> set (mt_ids mt m') \<Longrightarrow> m = m'"
    and "\<And>t. distinct (map fst (L t))"
    and "\<And>t m el. (m, el) \<in> set (L t) \<longleftrightarrow>
          el \<in> set (mt_ids mt m) \<and> map_option tpr_name (mt_values mt el) = Some t"
  shows "wf_links L mt"
  using assms unfolding wf_links_def by blast

lemma map_filter_values: "\<forall>el \<in> set ids. f el \<noteq> None \<Longrightarrow> List.map_filter f ids = map (\<lambda>el. the (f el)) ids"
  by (induction ids) (auto simp: List.map_filter_simps)

lemma mt_abs_map:
  assumes "wf_links L mt"
  shows "mt_abs mt m = map (\<lambda>el. the (mt_values mt el)) (mt_ids mt m)"
  unfolding mt_abs_def using wf_linksD(4)[OF assms] by (intro map_filter_values) force

lemma mt_abs_names:
  assumes "wf_links L mt"
  shows "t \<in> tpr_name ` set (mt_abs mt m) \<longleftrightarrow> m \<in> fst ` set (L t)"
proof
  assume "t \<in> tpr_name ` set (mt_abs mt m)"
  then obtain x where x: "x \<in> set (mt_ids mt m)" "tpr_name (the (mt_values mt x)) = t"
    unfolding mt_abs_map[OF assms] by auto
  with wf_linksD(4)[OF assms x(1)] have "(m, x) \<in> set (L t)" by (auto simp: wf_linksD(7)[OF assms])
  then show "m \<in> fst ` set (L t)" by force
next
  assume "m \<in> fst ` set (L t)"
  then obtain x where "(m, x) \<in> set (L t)" by force
  then have "x \<in> set (mt_ids mt m)" "tpr_name (the (mt_values mt x)) = t"
    by (auto simp: wf_linksD(7)[OF assms])
  then show "t \<in> tpr_name ` set (mt_abs mt m)" unfolding mt_abs_map[OF assms] by force
qed

lemma link_unique:
  assumes "wf_links L mt" and "(m, el) \<in> set (L t)" and "(m, el') \<in> set (L t)"
  shows "el = el'"
  using eq_key_imp_eq_value[OF wf_linksD(6)[OF assms(1)] assms(2,3)] .

lemma ids_upd [simp]:
  "mt_ids (mt\<lparr>mt_routes := (mt_routes mt)(m := x)\<rparr>) m' = (if m' = m then (case x of None \<Rightarrow> [] | Some l \<Rightarrow> l) else mt_ids mt m')"
  "mt_ids (mt\<lparr>mt_values := v\<rparr>) = mt_ids mt"
  "mt_ids (mt\<lparr>mt_next := n\<rparr>) = mt_ids mt"
  "mt_ids (mt\<lparr>mt_targetLinks := tll\<rparr>) = mt_ids mt"
  "mt_ids (mt\<lparr>mt_static := st\<rparr>) = mt_ids mt"
  by (auto simp: mt_ids_def fun_eq_iff)

section \<open>One step at a time\<close>

lemma split_links_unique:
  assumes "wf_links L mt" and "L t = nl @ (m, el) # ls"
  shows "(m, el') \<in> set (L t) \<longleftrightarrow> el' = el"
    and "(m', el') \<in> set (nl @ ls) \<longleftrightarrow> (m', el') \<in> set (L t) \<and> m' \<noteq> m"
    and "distinct (map fst (nl @ ls))"
proof -
  have d: "distinct (map fst (L t))" by (rule wf_linksD(6)[OF assms(1)])
  have "(m, el) \<in> set (L t)" using assms(2) by simp
  then show "(m, el') \<in> set (L t) \<longleftrightarrow> el' = el" using link_unique[OF assms(1)] by blast
  show "(m', el') \<in> set (nl @ ls) \<longleftrightarrow> (m', el') \<in> set (L t) \<and> m' \<noteq> m"
  proof -
    have "m \<notin> fst ` set (nl @ ls)" using d unfolding assms(2) by auto
    then have "(m, el') \<notin> set (nl @ ls)" for el' by force
    then show ?thesis unfolding assms(2) by auto
  qed
  show "distinct (map fst (nl @ ls))" using d unfolding assms(2) by auto
qed

lemma removeRoute_step:
  assumes wf: "wf_links L mt" and L: "L t = nl @ (m, el) # ls"
  shows "\<exists>mt'. mt_removeRoute m el mt = Some mt' \<and> wf_links (L(t := nl @ ls)) mt'
    \<and> mt_abs mt' = (mt_abs mt)(m := ot_drop t (mt_abs mt m)) \<and> mt_targetLinks mt' = mt_targetLinks mt"
proof -
  have mem: "el \<in> set (mt_ids mt m)" "map_option tpr_name (mt_values mt el) = Some t"
    using wf_linksD(7)[OF wf, of m el t] L by auto
  then obtain lst where lst: "mt_routes mt m = Some lst" "mt_ids mt m = lst"
    by (cases "mt_routes mt m") (auto simp: mt_ids_def)
  let ?mt = "mt\<lparr>mt_routes := (mt_routes mt)(m := (if remove1 el lst = [] then None else Some (remove1 el lst)))\<rparr>"
  have rem: "mt_removeRoute m el mt = Some ?mt" by (simp add: mt_removeRoute_def lst)
  have dl: "distinct lst" using wf_linksD(2)[OF wf, of m] lst by simp
  have ids: "mt_ids ?mt m' = (if m' = m then remove1 el lst else mt_ids mt m')" for m' by simp
  have sub: "x \<in> set (mt_ids ?mt m') \<longleftrightarrow> x \<in> set (mt_ids mt m') \<and> (m' = m \<longrightarrow> x \<noteq> el)" for x m'
    unfolding ids using dl lst(2) set_remove1_eq[OF dl, of el] by auto
  have wf': "wf_links (L(t := nl @ ls)) ?mt"
  proof (rule wf_linksI)
    fix m' show "mt_routes ?mt m' \<noteq> Some []" using wf_linksD(1)[OF wf] by auto
    show "distinct (mt_ids ?mt m')" unfolding ids using wf_linksD(2)[OF wf] dl by auto
  next
    fix m' x assume "x \<in> set (mt_ids ?mt m')"
    then show "x < mt_next ?mt \<and> mt_values ?mt x \<noteq> None"
      using wf_linksD(3,4)[OF wf, of x m'] sub by auto
  next
    fix m1 m2 x assume "x \<in> set (mt_ids ?mt m1)" "x \<in> set (mt_ids ?mt m2)"
    then show "m1 = m2" using wf_linksD(5)[OF wf] sub by blast
  next
    fix t' show "distinct (map fst ((L(t := nl @ ls)) t'))"
      using split_links_unique(3)[OF wf L] wf_linksD(6)[OF wf] by auto
  next
    fix t' m' x
    show "(m', x) \<in> set ((L(t := nl @ ls)) t') \<longleftrightarrow>
      x \<in> set (mt_ids ?mt m') \<and> map_option tpr_name (mt_values ?mt x) = Some t'"
      unfolding sub using wf_linksD(7)[OF wf, of m' x t'] split_links_unique[OF wf L] mem(2)
      by (cases "t' = t") auto
  qed
  have "mt_abs ?mt m' = ((mt_abs mt)(m := ot_drop t (mt_abs mt m))) m'" for m'
  proof (cases "m' = m")
    case True
    have name: "tpr_name (the (mt_values mt x)) = t \<longleftrightarrow> x = el" if "x \<in> set lst" for x
      using split_links_unique(1)[OF wf L, of x] wf_linksD(7)[OF wf, of m x t] wf_linksD(4)[OF wf, of x m] lst that
      by auto
    have "filter (\<lambda>x. x \<noteq> el) lst = remove1 el lst"
      using distinct_remove1_removeAll[OF dl] by (simp add: removeAll_filter_not_eq eq_commute)
    then have "mt_abs ?mt m = map (\<lambda>x. the (mt_values mt x)) (filter (\<lambda>x. x \<noteq> el) lst)"
      using mt_abs_map[OF wf', of m] ids[of m] by (simp only: refl if_True) simp
    also have "\<dots> = ot_drop t (mt_abs mt m)"
      unfolding mt_abs_map[OF wf] lst(2) ot_drop_def filter_map comp_def
      by (rule arg_cong[where f = "map _"], rule filter_cong) (use name in auto)
    finally show ?thesis using True by simp
  next
    case False
    then show ?thesis using ids[of m'] by (simp add: mt_abs_map[OF wf] mt_abs_map[OF wf'])
  qed
  then show ?thesis using rem wf' by (auto simp: fun_eq_iff)
qed

lemma setValue_step:
  fixes rs :: "'r list"
  assumes wf: "wf_links L mt" and L: "L (target_Name target) = nl @ (m, el) # ls"
  defines "mt' \<equiv> mt\<lparr>mt_values := (mt_values mt)(el \<mapsto> \<lparr>tpr_target = target, tpr_routes = rs\<rparr>)\<rparr>"
  shows "wf_links L mt' \<and> mt_abs mt' = (mt_abs mt)(m := ot_put target rs (mt_abs mt m))"
proof -
  let ?t = "target_Name target" and ?e = "\<lparr>tpr_target = target, tpr_routes = rs\<rparr>"
  have mem: "el \<in> set (mt_ids mt m)" "map_option tpr_name (mt_values mt el) = Some ?t"
    using wf_linksD(7)[OF wf, of m el ?t] L by auto
  have ids: "mt_ids mt' = mt_ids mt" by (simp add: mt'_def)
  have names: "map_option tpr_name (mt_values mt' x) = map_option tpr_name (mt_values mt x)" for x
    using mem(2) by (auto simp: mt'_def)
  have wf': "wf_links L mt'"
  proof (rule wf_linksI, unfold ids names)
    fix m' show "mt_routes mt' m' \<noteq> Some []" using wf_linksD(1)[OF wf] by (simp add: mt'_def)
    show "distinct (mt_ids mt m')" by (rule wf_linksD(2)[OF wf])
  next
    fix m' x assume "x \<in> set (mt_ids mt m')"
    then show "x < mt_next mt' \<and> mt_values mt' x \<noteq> None"
      using wf_linksD(3,4)[OF wf, of x m'] by (auto simp: mt'_def)
  qed (use wf_linksD(5-7)[OF wf] in blast)+
  have "mt_abs mt' m' = ((mt_abs mt)(m := ot_put target rs (mt_abs mt m))) m'" for m'
  proof (cases "m' = m")
    case True
    have name: "tpr_name (the (mt_values mt x)) = ?t \<longleftrightarrow> x = el" if "x \<in> set (mt_ids mt m)" for x
      using split_links_unique(1)[OF wf L, of x] wf_linksD(7)[OF wf, of m x ?t] wf_linksD(4)[OF wf, of x m] that
      by auto
    have "?t \<in> tpr_name ` set (mt_abs mt m)"
      using mt_abs_names[OF wf, of ?t m] L by force
    then have "ot_put target rs (mt_abs mt m) = map (\<lambda>x. if tpr_name x = ?t then ?e else x) (mt_abs mt m)"
      by (simp add: ot_put_def)
    also have "\<dots> = mt_abs mt' m"
      unfolding mt_abs_map[OF wf] mt_abs_map[OF wf'] ids using name by (auto simp: mt'_def)
    finally show ?thesis using True by simp
  next
    case False
    with mem(1) have "el \<notin> set (mt_ids mt m')" using wf_linksD(5)[OF wf] by blast
    with False show ?thesis
      unfolding fun_upd_apply mt_abs_map[OF wf] mt_abs_map[OF wf'] ids by (auto simp: mt'_def)
  qed
  with wf' show ?thesis by (auto simp: fun_eq_iff)
qed

lemma addRoute_step:
  assumes wf: "wf_links L mt" and new: "m \<notin> fst ` set (L (target_Name target))"
    and add: "mt_addRoute m \<lparr>tpr_target = target, tpr_routes = rs\<rparr> mt = (el, mt')"
  shows "wf_links (L(target_Name target := L (target_Name target) @ [(m, el)])) mt'
    \<and> mt_abs mt' = (mt_abs mt)(m := ot_put target rs (mt_abs mt m)) \<and> mt_targetLinks mt' = mt_targetLinks mt"
proof -
  let ?t = "target_Name target" and ?e = "\<lparr>tpr_target = target, tpr_routes = rs\<rparr>"
  have el: "el = mt_next mt" and mt': "mt' = mt\<lparr>mt_routes := (mt_routes mt)(m \<mapsto> mt_ids mt m @ [el]),
      mt_values := (mt_values mt)(el \<mapsto> ?e), mt_next := Suc el\<rparr>"
    using add by (auto simp: mt_addRoute_def mt_ids_def Let_def)
  have fresh: "el \<notin> set (mt_ids mt m')" for m' using wf_linksD(3)[OF wf, of el m'] el by auto
  have freshL: "(m', el) \<notin> set (L t')" for m' t' using wf_linksD(7)[OF wf, of m' el t'] fresh by auto
  have ids: "mt_ids mt' m' = (if m' = m then mt_ids mt m @ [el] else mt_ids mt m')" for m'
    by (simp add: mt' mt_ids_def)
  have vals: "mt_values mt' x = (if x = el then Some ?e else mt_values mt x)" for x by (simp add: mt')
  have wf': "wf_links (L(?t := L ?t @ [(m, el)])) mt'"
  proof (rule wf_linksI)
    fix m' show "mt_routes mt' m' \<noteq> Some []" using wf_linksD(1)[OF wf] by (auto simp: mt')
    show "distinct (mt_ids mt' m')" unfolding ids using wf_linksD(2)[OF wf] fresh by auto
  next
    fix m' x assume "x \<in> set (mt_ids mt' m')"
    then show "x < mt_next mt' \<and> mt_values mt' x \<noteq> None"
      using wf_linksD(3,4)[OF wf, of x m'] wf_linksD(3,4)[OF wf, of x m] el
      by (auto simp: ids vals mt' split: if_splits)
  next
    fix m1 m2 x assume "x \<in> set (mt_ids mt' m1)" "x \<in> set (mt_ids mt' m2)"
    then show "m1 = m2" using wf_linksD(5)[OF wf, of x] fresh by (auto simp: ids split: if_splits)
  next
    fix t' show "distinct (map fst ((L(?t := L ?t @ [(m, el)])) t'))"
      using wf_linksD(6)[OF wf] new by auto
  next
    fix t' m' x
    show "(m', x) \<in> set ((L(?t := L ?t @ [(m, el)])) t') \<longleftrightarrow>
      x \<in> set (mt_ids mt' m') \<and> map_option tpr_name (mt_values mt' x) = Some t'"
      using wf_linksD(7)[OF wf, of m' x t'] fresh[of m'] freshL[of m' t'] by (auto simp: ids vals)
  qed
  have "mt_abs mt' m' = ((mt_abs mt)(m := ot_put target rs (mt_abs mt m))) m'" for m'
  proof (cases "m' = m")
    case True
    have "?t \<notin> tpr_name ` set (mt_abs mt m)" using mt_abs_names[OF wf, of ?t m] new by blast
    then have "ot_put target rs (mt_abs mt m) = mt_abs mt m @ [?e]" by (simp add: ot_put_def)
    also have "\<dots> = mt_abs mt' m"
      unfolding mt_abs_map[OF wf] mt_abs_map[OF wf'] using fresh by (auto simp: ids vals)
    finally show ?thesis using True by simp
  next
    case False
    then show ?thesis unfolding mt_abs_map[OF wf] mt_abs_map[OF wf'] using fresh by (auto simp: ids vals)
  qed
  with wf' show ?thesis by (auto simp: fun_eq_iff mt')
qed

section \<open>The two loops of addTarget\<close>

definition ot_step :: "Target \<Rightarrow> 'r list option \<Rightarrow> 'r targetPatternRoutes list \<Rightarrow> 'r targetPatternRoutes list" where
  "ot_step target r es = (case r of None \<Rightarrow> ot_drop (target_Name target) es | Some rs \<Rightarrow> ot_put target rs es)"

lemma ot_step_simps [simp]:
  "ot_step target None es = ot_drop (target_Name target) es"
  "ot_step target (Some rs) es = ot_put target rs es"
  by (simp_all add: ot_step_def)

lemma ot_add_step: "ot_add target routes tab m = ot_step target (routes m) (tab m)"
  by (simp add: ot_add_def ot_step_def)

lemma mt_update_links_ok:
  assumes "wf_links L mt" and "L (target_Name target) = nl @ ls" and "distinct (map fst routes)"
  shows "\<exists>routes' nl' mt'. mt_update_links target ls (routes, nl, mt) = Some (routes', nl', mt')
    \<and> wf_links (L(target_Name target := nl')) mt' \<and> mt_targetLinks mt' = mt_targetLinks mt
    \<and> distinct (map fst routes') \<and> fst ` set nl' \<inter> dom (map_of routes') \<subseteq> fst ` set nl
    \<and> (\<forall>m. map_of routes' m = (if m \<in> fst ` set ls then None else map_of routes m))
    \<and> (\<forall>m. mt_abs mt' m = (if m \<in> fst ` set ls then ot_step target (map_of routes m) (mt_abs mt m) else mt_abs mt m))"
  using assms
proof (induction ls arbitrary: L mt nl routes)
  case Nil
  then have "L(target_Name target := nl) = L" by (intro fun_upd_idem) simp
  with Nil.prems(1,3) show ?case by (auto simp del: fun_upd_apply)
next
  case (Cons l ls)
  obtain m el where l: "l = (m, el)" by (cases l)
  note L = Cons.prems(2)[unfolded l]
  let ?t = "target_Name target"
  have dist: "distinct (map fst (L ?t))" by (rule wf_linksD(6)[OF Cons.prems(1)])
  then have m: "m \<notin> fst ` set ls" "m \<notin> fst ` set nl" unfolding L by auto
  show ?case
  proof (cases "map_of routes m")
    case None
    obtain mt1 where mt1: "mt_removeRoute m el mt = Some mt1" "wf_links (L(?t := nl @ ls)) mt1"
      "mt_abs mt1 = (mt_abs mt)(m := ot_drop ?t (mt_abs mt m))" "mt_targetLinks mt1 = mt_targetLinks mt"
      using removeRoute_step[OF Cons.prems(1) L] by blast
    obtain routes' nl' mt' where IH: "mt_update_links target ls (routes, nl, mt1) = Some (routes', nl', mt')"
      "wf_links ((L(?t := nl @ ls))(?t := nl')) mt'" "mt_targetLinks mt' = mt_targetLinks mt1"
      "distinct (map fst routes')" "fst ` set nl' \<inter> dom (map_of routes') \<subseteq> fst ` set nl"
      "\<forall>m. map_of routes' m = (if m \<in> fst ` set ls then None else map_of routes m)"
      "\<forall>m. mt_abs mt' m = (if m \<in> fst ` set ls then ot_step target (map_of routes m) (mt_abs mt1 m) else mt_abs mt1 m)"
      using Cons.IH[OF mt1(2) _ Cons.prems(3)] by (metis fun_upd_same)
    show ?thesis
      using IH mt1 None m by (intro exI[of _ routes'] exI[of _ nl'] exI[of _ mt']) (auto simp: l fun_upd_def cong: if_cong)
  next
    case (Some rs)
    let ?mt = "mt\<lparr>mt_values := (mt_values mt)(el \<mapsto> \<lparr>tpr_target = target, tpr_routes = rs\<rparr>)\<rparr>"
    have mt1: "wf_links L ?mt" "mt_abs ?mt = (mt_abs mt)(m := ot_put target rs (mt_abs mt m))"
      using setValue_step[OF Cons.prems(1) L, of rs] by auto
    have L': "L ?t = (nl @ [(m, el)]) @ ls" using L by simp
    obtain routes' nl' mt' where IH:
      "mt_update_links target ls (AList.delete m routes, nl @ [(m, el)], ?mt) = Some (routes', nl', mt')"
      "wf_links (L(?t := nl')) mt'" "mt_targetLinks mt' = mt_targetLinks ?mt"
      "distinct (map fst routes')" "fst ` set nl' \<inter> dom (map_of routes') \<subseteq> fst ` set (nl @ [(m, el)])"
      "\<forall>m'. map_of routes' m' = (if m' \<in> fst ` set ls then None else map_of (AList.delete m routes) m')"
      "\<forall>m'. mt_abs mt' m' = (if m' \<in> fst ` set ls then ot_step target (map_of (AList.delete m routes) m') (mt_abs ?mt m') else mt_abs ?mt m')"
      using Cons.IH[OF mt1(1) L' distinct_delete[OF Cons.prems(3), of m]] by blast
    have "m \<notin> dom (map_of routes')" using IH(6) m by (auto simp: delete_conv domIff)
    with IH(5) have sub: "fst ` set nl' \<inter> dom (map_of routes') \<subseteq> fst ` set nl" by auto
    show ?thesis
      using IH(1-4,6-) sub mt1(2) Some m
      by (intro exI[of _ routes'] exI[of _ nl'] exI[of _ mt']) (auto simp: l delete_conv fun_upd_def cong: if_cong)
  qed
qed

lemma mt_add_links_ok:
  assumes "wf_links L mt" and "L (target_Name target) = nl" and "distinct (map fst routes)"
    and "fst ` set nl \<inter> fst ` set routes = {}" and "mt_add_links target routes (nl, mt) = (nl', mt')"
  shows "wf_links (L(target_Name target := nl')) mt' \<and> mt_targetLinks mt' = mt_targetLinks mt
    \<and> (\<forall>m. mt_abs mt' m = (case map_of routes m of None \<Rightarrow> mt_abs mt m | Some rs \<Rightarrow> ot_put target rs (mt_abs mt m)))"
  using assms
proof (induction routes arbitrary: L mt nl)
  case Nil
  then have "L(target_Name target := nl) = L" by (intro fun_upd_idem) simp
  with Nil.prems(1,5) show ?case by (auto simp del: fun_upd_apply)
next
  case (Cons r routes)
  obtain m rs where r: "r = (m, rs)" by (cases r)
  let ?t = "target_Name target"
  obtain el mt1 where add: "mt_addRoute m \<lparr>tpr_target = target, tpr_routes = rs\<rparr> mt = (el, mt1)" by fastforce
  have m: "m \<notin> fst ` set (L ?t)" using Cons.prems(2,4) by (auto simp: r)
  note step = addRoute_step[OF Cons.prems(1) m add, unfolded Cons.prems(2)]
  have "wf_links ((L(?t := nl @ [(m, el)]))(?t := nl')) mt' \<and> mt_targetLinks mt' = mt_targetLinks mt1
    \<and> (\<forall>m. mt_abs mt' m = (case map_of routes m of None \<Rightarrow> mt_abs mt1 m | Some rs \<Rightarrow> ot_put target rs (mt_abs mt1 m)))"
    by (rule Cons.IH) (use step Cons.prems(3,4,5) add in \<open>auto simp: r simp del: fun_upd_apply, simp_all\<close>)
  moreover have "map_of routes m = None" using Cons.prems(3) by (auto simp: r map_of_eq_None_iff)
  ultimately show ?case using step by (auto simp: r fun_upd_def cong: if_cong split: option.splits)
qed

section \<open>The operations\<close>

lemma st_abs_commit: "st_abs (mt_commit mt) = mt_abs mt"
  by (auto simp: st_abs_def mt_commit_def mt_abs_def mt_ids_def fun_eq_iff List.map_filter_simps split: option.splits)

lemma wf_links_frame:
  "wf_links L (mt\<lparr>mt_targetLinks := tls\<rparr>) \<longleftrightarrow> wf_links L mt"
  "wf_links L (mt\<lparr>mt_static := st\<rparr>) \<longleftrightarrow> wf_links L mt"
  "mt_abs (mt\<lparr>mt_targetLinks := tls\<rparr>) = mt_abs mt"
  "mt_abs (mt\<lparr>mt_static := st\<rparr>) = mt_abs mt"
  "mt_commit (mt\<lparr>mt_static := st\<rparr>) = mt_commit mt"
  by (simp_all add: wf_links_def mt_abs_def mt_commit_def)

lemma mt_links_upd:
  "mt_links (mt\<lparr>mt_static := st\<rparr>) = mt_links mt"
  "mt_targetLinks mt' = mt_targetLinks mt \<Longrightarrow> mt_links (mt'\<lparr>mt_targetLinks := (mt_targetLinks mt)(t \<mapsto> nl)\<rparr>) = (mt_links mt)(t := nl)"
  "mt_targetLinks mt' = mt_targetLinks mt \<Longrightarrow> mt_links (mt'\<lparr>mt_targetLinks := (mt_targetLinks mt)(t := None)\<rparr>) = (mt_links mt)(t := [])"
  by (auto simp: mt_links_def fun_eq_iff)

lemma ot_drop_none: "t \<notin> tpr_name ` set es \<Longrightarrow> ot_drop t es = es"
  by (auto simp: ot_drop_def filter_id_conv)

lemma mt_drop_none:
  assumes "wf_links L mt" and "m \<notin> fst ` set (L t)"
  shows "ot_drop t (mt_abs mt m) = mt_abs mt m"
  by (rule ot_drop_none) (use assms(2) in \<open>simp only: mt_abs_names[OF assms(1)] not_False_eq_True\<close>)

lemma mt_addTarget_ok:
  assumes inv: "mt_inv mt" and d: "distinct (map fst routes)"
  shows "\<exists>mt'. mt_addTarget target routes mt = Some mt' \<and> mt_inv mt'
    \<and> mt_abs mt' = ot_add target (map_of routes) (mt_abs mt) \<and> st_abs (mt_static mt') = mt_abs mt'
    \<and> (\<forall>t. t \<noteq> target_Name target \<longrightarrow> mt_targetLinks mt' t = mt_targetLinks mt t)
    \<and> mt_targetLinks mt' (target_Name target) \<noteq> None"
proof -
  let ?t = "target_Name target" and ?L = "mt_links mt"
  have wf: "wf_links ?L mt" using inv by (simp add: mt_inv_def)
  obtain routes' nl1 mt1 where u: "mt_update_links target (?L ?t) (routes, [], mt) = Some (routes', nl1, mt1)"
    "wf_links (?L(?t := nl1)) mt1" "mt_targetLinks mt1 = mt_targetLinks mt" "distinct (map fst routes')"
    "fst ` set nl1 \<inter> dom (map_of routes') = {}"
    "\<forall>m. map_of routes' m = (if m \<in> fst ` set (?L ?t) then None else map_of routes m)"
    "\<forall>m. mt_abs mt1 m = (if m \<in> fst ` set (?L ?t) then ot_step target (map_of routes m) (mt_abs mt m) else mt_abs mt m)"
    using mt_update_links_ok[OF wf _ d, of target "[]"] by force
  obtain nl2 mt2 where a: "mt_add_links target routes' (nl1, mt1) = (nl2, mt2)" by fastforce
  have a2: "wf_links ((?L(?t := nl1))(?t := nl2)) mt2" "mt_targetLinks mt2 = mt_targetLinks mt1"
    "\<forall>m. mt_abs mt2 m = (case map_of routes' m of None \<Rightarrow> mt_abs mt1 m | Some rs \<Rightarrow> ot_put target rs (mt_abs mt1 m))"
    using mt_add_links_ok[OF u(2) _ u(4) _ a] u(5) by (auto simp: dom_map_of_conv_image_fst)
  have "mt_abs mt2 m = ot_add target (map_of routes) (mt_abs mt) m" for m
  proof (cases "m \<in> fst ` set (?L ?t)")
    case True
    then show ?thesis using a2(3) u(6,7) by (simp add: ot_add_step)
  next
    case False
    then have "ot_drop ?t (mt_abs mt m) = mt_abs mt m" by (rule mt_drop_none[OF wf])
    then show ?thesis using False a2(3) u(6,7) by (simp add: ot_add_step split: option.splits)
  qed
  then have abs: "mt_abs mt2 = ot_add target (map_of routes) (mt_abs mt)" by (simp add: fun_eq_iff)
  let ?mt3 = "mt2\<lparr>mt_targetLinks := (mt_targetLinks mt2)(?t \<mapsto> nl2)\<rparr>"
  let ?mt4 = "?mt3\<lparr>mt_static := mt_commit ?mt3\<rparr>"
  have tl: "mt_targetLinks mt2 = mt_targetLinks mt" using a2(2) u(3) by simp
  have "mt_addTarget target routes mt = Some ?mt4" by (simp add: mt_addTarget_def u(1) a Let_def)
  moreover have "mt_inv ?mt4"
    using a2(1) unfolding mt_inv_def tl by (simp add: wf_links_frame mt_links_upd tl)
  moreover have "mt_abs ?mt4 = ot_add target (map_of routes) (mt_abs mt)" by (simp add: wf_links_frame abs)
  ultimately show ?thesis
    using tl by (intro exI[of _ ?mt4]) (auto simp: st_abs_commit wf_links_frame)
qed

lemma mt_remove_links_ok:
  assumes "wf_links L mt" and "L t = ls"
  shows "\<exists>mt'. mt_remove_links ls mt = Some mt' \<and> wf_links (L(t := [])) mt'
    \<and> mt_targetLinks mt' = mt_targetLinks mt
    \<and> (\<forall>m. mt_abs mt' m = (if m \<in> fst ` set ls then ot_drop t (mt_abs mt m) else mt_abs mt m))"
  using assms
proof (induction ls arbitrary: L mt)
  case Nil
  then have "L(t := []) = L" by (intro fun_upd_idem) simp
  with Nil.prems(1) show ?case by simp
next
  case (Cons l ls)
  obtain m el where l: "l = (m, el)" by (cases l)
  have m: "m \<notin> fst ` set ls" using wf_linksD(6)[OF Cons.prems(1), of t] Cons.prems(2) by (simp add: l)
  obtain mt1 where mt1: "mt_removeRoute m el mt = Some mt1" "wf_links (L(t := ls)) mt1"
    "mt_abs mt1 = (mt_abs mt)(m := ot_drop t (mt_abs mt m))" "mt_targetLinks mt1 = mt_targetLinks mt"
    using removeRoute_step[OF Cons.prems(1), of t "[]" m el ls] Cons.prems(2) l by auto
  obtain mt' where "mt_remove_links ls mt1 = Some mt'" "wf_links (L(t := [])) mt'"
    "mt_targetLinks mt' = mt_targetLinks mt1"
    "\<forall>m. mt_abs mt' m = (if m \<in> fst ` set ls then ot_drop t (mt_abs mt1 m) else mt_abs mt1 m)"
    using Cons.IH[OF mt1(2)] unfolding fun_upd_upd by (metis fun_upd_same)
  then show ?case using mt1 m by (intro exI[of _ mt']) (simp add: l fun_upd_def cong: if_cong)
qed

lemma mt_removeTarget_ok:
  assumes inv: "mt_inv mt"
  shows "\<exists>mt'. mt_removeTarget t mt = Some mt' \<and> mt_inv mt'
    \<and> mt_abs mt' = ot_remove t (mt_abs mt) \<and> st_abs (mt_static mt') = mt_abs mt'
    \<and> mt_targetLinks mt' = (mt_targetLinks mt)(t := None)"
proof -
  have wf: "wf_links (mt_links mt) mt" using inv by (simp add: mt_inv_def)
  obtain mt1 where mt1: "mt_remove_links (mt_links mt t) mt = Some mt1" "wf_links ((mt_links mt)(t := [])) mt1"
    "mt_targetLinks mt1 = mt_targetLinks mt"
    "\<forall>m. mt_abs mt1 m = (if m \<in> fst ` set (mt_links mt t) then ot_drop t (mt_abs mt m) else mt_abs mt m)"
    using mt_remove_links_ok[OF wf refl] by blast
  have "mt_abs mt1 m = ot_remove t (mt_abs mt) m" for m
    using mt1(4) mt_drop_none[OF wf, of m t] by (auto simp: ot_remove_def)
  then have abs: "mt_abs mt1 = ot_remove t (mt_abs mt)" by (simp add: fun_eq_iff)
  let ?mt2 = "mt1\<lparr>mt_targetLinks := (mt_targetLinks mt1)(t := None)\<rparr>"
  let ?mt3 = "?mt2\<lparr>mt_static := mt_commit ?mt2\<rparr>"
  have "mt_removeTarget t mt = Some ?mt3" by (simp add: mt_removeTarget_def mt1(1) Let_def)
  moreover have "mt_inv ?mt3"
    using mt1(2) unfolding mt_inv_def by (simp add: wf_links_frame mt_links_upd mt1(3))
  ultimately show ?thesis
    using mt1(3) abs by (intro exI[of _ ?mt3]) (simp add: st_abs_commit wf_links_frame)
qed

lemma mt_inv_new: "mt_inv newMutablePatternRoutingTable"
  by (auto simp: mt_inv_def wf_links_def newMutablePatternRoutingTable_def mt_ids_def mt_links_def mt_commit_def)

end
