(* ===== verification/Pattern_Router.thy ===== *)
theory Pattern_Router
  imports Pattern_Refine Gwbased_Compile
begin

text \<open>
  The PatternRouter of routing/pattern_router.go: building the routes of a description, routing a
  request over them, and the watcher. The table is that of the theories Pattern_Table and
  Pattern_Refine; the templates are parsed and compiled by the gwbased theories.

  The pattern matcher of grpc-gateway's runtime package is not part of the repository: it is the
  parameter \<open>rt\<close>, with its constructor, the verb of a pattern and its match function. Nothing is
  assumed of it. Logging is left out.
\<close>

section \<open>State\<close>

text \<open>What MatchAndEscape returns: the parameters, a MalformedSequenceError, or another error.\<close>

datatype match_result = Match "(string \<times> string) list" | MalformedSequence string | NotMatch

record 'p gw_runtime =
  rt_op :: "opcode \<Rightarrow> int"
  rt_NewPattern :: "int \<Rightarrow> int list \<Rightarrow> string list \<Rightarrow> string \<Rightarrow> go_error + 'p"
  rt_Verb :: "'p \<Rightarrow> string"
  rt_MatchAndEscape :: "'p \<Rightarrow> string list \<Rightarrow> string \<Rightarrow> match_result"

record 'p patternRoute =
  pr_service :: Service
  pr_method :: Method
  pr_binding :: Binding
  pr_pattern :: 'p

record 'p PatternRouter =
  pr_routes :: "'p patternRoute mutablePatternRoutingTable"
  pr_watcherSet :: "string sync_set"

record PatternRouterWatcher =
  prw_target :: string
  prw_closed :: bool

definition NewPatternRouter :: "'p PatternRouter" where
  "NewPatternRouter = \<lparr>pr_routes = newMutablePatternRoutingTable, pr_watcherSet = syncset_New\<rparr>"

section \<open>Building the routes of a description\<close>

text \<open>
  The theorem \<open>gw_Parse_total\<close> shows that the parser always returns a template or an
  InvalidTemplateError, so the last two branches are never taken.
\<close>

definition buildPattern :: "'p gw_runtime \<Rightarrow> string \<Rightarrow> go_error + 'p" where
  "buildPattern rt route =
     (case gw_Parse route of
        Parsed t \<Rightarrow>
          let tp = gw_Compile (rt_op rt) t
          in (case rt_NewPattern rt (Version tp) (OpCodes tp) (Pool tp) (Verb tp) of
                Inl e \<Rightarrow> Inl (ErrWrap ''creating route pattern matcher'' e)
              | Inr p \<Rightarrow> Inr p)
      | Rejected e \<Rightarrow> Inl (ErrWrap ''parsing route'' (ErrMsg ''invalid template''))
      | Crashed \<Rightarrow> Inl (ErrMsg ''panic'')
      | Looped \<Rightarrow> Inl (ErrMsg ''panic''))"

type_synonym 'p patternRouteBuilder = "(string \<times> 'p patternRoute list) list"

definition newPatternRouteBuilder :: "'p patternRouteBuilder" where
  "newPatternRouteBuilder = []"

definition addBinding :: "'p gw_runtime \<Rightarrow> Service \<Rightarrow> Method \<Rightarrow> Binding \<Rightarrow> 'p patternRouteBuilder \<Rightarrow>
    go_error + 'p patternRouteBuilder" where
  "addBinding rt s m b rb =
     (case buildPattern rt (Pattern b) of
        Inl e \<Rightarrow> Inl (ErrWrap (''building pattern for '' @ HTTPMethod b) e)
      | Inr p \<Rightarrow>
          let old = (case map_of rb (HTTPMethod b) of None \<Rightarrow> [] | Some rs \<Rightarrow> rs)
          in Inr (AList.update (HTTPMethod b)
                (old @ [\<lparr>pr_service = s, pr_method = m, pr_binding = b, pr_pattern = p\<rparr>]) rb))"

definition addDefault :: "'p gw_runtime \<Rightarrow> Service \<Rightarrow> Method \<Rightarrow> 'p patternRouteBuilder \<Rightarrow>
    go_error + 'p patternRouteBuilder" where
  "addDefault rt s m rb = addBinding rt s m (DefaultBinding m) rb"

text \<open>The three loops of buildPatternRoutes: an error is logged and the binding skipped.\<close>

definition rb_keep :: "'p patternRouteBuilder \<Rightarrow> go_error + 'p patternRouteBuilder \<Rightarrow> 'p patternRouteBuilder" where
  "rb_keep rb res = (case res of Inl _ \<Rightarrow> rb | Inr rb' \<Rightarrow> rb')"

fun rb_bindings :: "'p gw_runtime \<Rightarrow> Service \<Rightarrow> Method \<Rightarrow> Binding list \<Rightarrow> 'p patternRouteBuilder \<Rightarrow>
    'p patternRouteBuilder" where
  "rb_bindings rt s m [] rb = rb"
| "rb_bindings rt s m (b # bs) rb = rb_bindings rt s m bs (rb_keep rb (addBinding rt s m b rb))"

fun rb_methods :: "'p gw_runtime \<Rightarrow> Service \<Rightarrow> Method list \<Rightarrow> 'p patternRouteBuilder \<Rightarrow>
    'p patternRouteBuilder" where
  "rb_methods rt s [] rb = rb"
| "rb_methods rt s (m # ms) rb =
     rb_methods rt s ms
       (if length (Bindings m) < 1 then rb_keep rb (addDefault rt s m rb)
        else rb_bindings rt s m (Bindings m) rb)"

fun rb_services :: "'p gw_runtime \<Rightarrow> Service list \<Rightarrow> 'p patternRouteBuilder \<Rightarrow> 'p patternRouteBuilder" where
  "rb_services rt [] rb = rb"
| "rb_services rt (s # ss) rb = rb_services rt ss (rb_methods rt s (Methods s) rb)"

definition buildPatternRoutes :: "'p gw_runtime \<Rightarrow> Target \<Rightarrow> 'p patternRouteBuilder" where
  "buildPatternRoutes rt desc = rb_services rt (Services desc) newPatternRouteBuilder"

section \<open>The watcher\<close>

definition pr_Watch :: "string \<Rightarrow> 'p PatternRouter \<Rightarrow> (PatternRouterWatcher \<times> 'p PatternRouter) option" where
  "pr_Watch target pr =
     (let (added, ws) = syncset_Add target (pr_watcherSet pr)
      in if added then Some (\<lparr>prw_target = target, prw_closed = False\<rparr>, pr\<lparr>pr_watcherSet := ws\<rparr>)
         else None)"

text \<open>\<open>None\<close> is a panic inside the routing table.\<close>

definition prw_UpdateDesc :: "'p gw_runtime \<Rightarrow> PatternRouterWatcher \<Rightarrow> Target \<Rightarrow> 'p PatternRouter \<Rightarrow>
    'p PatternRouter option" where
  "prw_UpdateDesc rt prw desc pr =
     (if prw_closed prw then Some pr
      else if target_Name desc \<noteq> prw_target prw then Some pr
      else case mt_addTarget desc (buildPatternRoutes rt desc) (pr_routes pr) of
             None \<Rightarrow> None
           | Some mt \<Rightarrow> Some (pr\<lparr>pr_routes := mt\<rparr>))"

definition prw_Close :: "PatternRouterWatcher \<Rightarrow> 'p PatternRouter \<Rightarrow>
    (PatternRouterWatcher \<times> 'p PatternRouter) option" where
  "prw_Close prw pr =
     (if prw_closed prw then None
      else case mt_removeTarget (prw_target prw) (pr_routes pr) of
             None \<Rightarrow> None
           | Some mt \<Rightarrow>
               Some (prw\<lparr>prw_closed := True\<rparr>,
                     pr\<lparr>pr_routes := mt, pr_watcherSet := snd (syncset_Remove (prw_target prw) (pr_watcherSet pr))\<rparr>))"

section \<open>Routing\<close>

text \<open>
  The callback of RouteHTTP over the routes it is iterated on: \<open>Inl\<close> is an error that ends the
  iteration, \<open>Inr None\<close> the end without a match. \<open>comps\<close> are the components of the path.
\<close>

fun pr_scan :: "'p gw_runtime \<Rightarrow> string list \<Rightarrow> (Target \<times> 'p patternRoute) list \<Rightarrow> go_error + HTTPRoute option" where
  "pr_scan rt comps [] = Inr None"
| "pr_scan rt comps ((target, route) # rest) =
     (let lastc = last comps;
          patternVerb = rt_Verb rt (pr_pattern route);
          hasVerb = (patternVerb \<noteq> [] \<and> HasSuffix lastc ('':'' @ patternVerb));
          verbIdx = length lastc - length patternVerb - 1
      in if hasVerb \<and> verbIdx = 0 then Inl (ErrStatus NotFound ''Not Found'')
         else
           let (matchComponents, verb) =
                 (if hasVerb then (butlast comps @ [take verbIdx lastc], drop (verbIdx + 1) lastc)
                  else (comps, []))
           in case rt_MatchAndEscape rt (pr_pattern route) matchComponents verb of
                MalformedSequence e \<Rightarrow> Inl (ErrStatus InvalidArgument e)
              | NotMatch \<Rightarrow> pr_scan rt comps rest
              | Match params \<Rightarrow>
                  Inr (Some \<lparr>hr_Target = target, hr_Service = pr_service route, hr_Method = pr_method route,
                             hr_Binding = pr_binding route, hr_PathParams = params\<rparr>))"

definition pr_RouteHTTP :: "'p gw_runtime \<Rightarrow> (string \<Rightarrow> 'conn option) \<Rightarrow> 'p PatternRouter \<Rightarrow> http_request \<Rightarrow>
    go_error + 'conn \<times> HTTPRoute" where
  "pr_RouteHTTP rt pool pr r =
     (let path = (if url_RawPath r = [] then url_Path r else url_RawPath r)
      in if \<not> HasPrefix path ''/'' then Inl (ErrStatus InvalidArgument ''Bad Request'')
         else case pr_scan rt (SplitByte (drop 1 path) CHR ''/'') (mt_iterate (pr_routes pr) (req_Method r)) of
                Inl e \<Rightarrow> Inl e
              | Inr None \<Rightarrow> Inl (ErrStatus NotFound ''Not Found'')
              | Inr (Some route) \<Rightarrow>
                  (case pool (target_Name (hr_Target route)) of
                     None \<Rightarrow> Inl (ErrStatus Unavailable ''no connection available to target'')
                   | Some conn \<Rightarrow> Inr (conn, route)))"

end
