(* ===== verification/Pattern_Router_Props.thy ===== *)
theory Pattern_Router_Props
  imports Pattern_Router "HOL-Library.Multiset"
begin

text \<open>
  The PatternRouter's properties. The routes built for a description are described by a list
  comprehension over its bindings; the table is described by the ordered table it refines; the
  watcher's life cycle is an interpretation of the interface both routers share.
\<close>

section \<open>The routes of a description\<close>

definition desc_bindings :: "Target \<Rightarrow> (Service \<times> Method \<times> Binding) list" where
  "desc_bindings desc =
     concat (map (\<lambda>s. concat (map (\<lambda>m.
       map (\<lambda>b. (s, m, b)) (if Bindings m = [] then [DefaultBinding m] else Bindings m)) (Methods s)))
     (Services desc))"

definition binding_routes :: "'p gw_runtime \<Rightarrow> string \<Rightarrow> Service \<times> Method \<times> Binding \<Rightarrow> 'p patternRoute list" where
  "binding_routes rt meth = (\<lambda>(s, m, b).
     case buildPattern rt (Pattern b) of
       Inl _ \<Rightarrow> []
     | Inr p \<Rightarrow> if HTTPMethod b = meth
         then [\<lparr>pr_service = s, pr_method = m, pr_binding = b, pr_pattern = p\<rparr>] else [])"

definition desc_routes :: "'p gw_runtime \<Rightarrow> Target \<Rightarrow> string \<Rightarrow> 'p patternRoute list" where
  "desc_routes rt desc meth = concat (map (binding_routes rt meth) (desc_bindings desc))"

definition rb_routes :: "'p patternRouteBuilder \<Rightarrow> string \<Rightarrow> 'p patternRoute list" where
  "rb_routes rb meth = (case map_of rb meth of None \<Rightarrow> [] | Some rs \<Rightarrow> rs)"

definition rb_ok :: "'p patternRouteBuilder \<Rightarrow> bool" where
  "rb_ok rb \<longleftrightarrow> distinct (map fst rb) \<and> (\<forall>meth. map_of rb meth \<noteq> Some [])"

lemma rb_ok_routes: "rb_ok rb \<Longrightarrow> map_of rb meth = (if rb_routes rb meth = [] then None else Some (rb_routes rb meth))"
  by (auto simp: rb_ok_def rb_routes_def split: option.splits)

lemma rb_binding:
  assumes "rb_ok rb"
  shows "rb_ok (rb_keep rb (addBinding rt s m b rb))
    \<and> rb_routes (rb_keep rb (addBinding rt s m b rb)) meth = rb_routes rb meth @ binding_routes rt meth (s, m, b)"
proof (cases "buildPattern rt (Pattern b)")
  case (Inl e)
  then show ?thesis using assms by (simp add: addBinding_def rb_keep_def binding_routes_def)
next
  case (Inr p)
  let ?new = "\<lparr>pr_service = s, pr_method = m, pr_binding = b, pr_pattern = p\<rparr>"
  have eq: "rb_keep rb (addBinding rt s m b rb)
      = AList.update (HTTPMethod b) (rb_routes rb (HTTPMethod b) @ [?new]) rb"
    using Inr by (simp add: addBinding_def rb_keep_def rb_routes_def)
  have lookup: "map_of (rb_keep rb (addBinding rt s m b rb)) =
      (map_of rb)(HTTPMethod b \<mapsto> rb_routes rb (HTTPMethod b) @ [?new])"
    unfolding eq by (simp add: update_conv')
  have "rb_ok (rb_keep rb (addBinding rt s m b rb))"
    using assms unfolding rb_ok_def lookup by (simp add: eq distinct_update)
  moreover have "rb_routes (rb_keep rb (addBinding rt s m b rb)) meth = rb_routes rb meth @ binding_routes rt meth (s, m, b)"
    using Inr unfolding rb_routes_def lookup by (auto simp: binding_routes_def)
  ultimately show ?thesis ..
qed

lemma rb_bindings_routes:
  assumes "rb_ok rb"
  shows "rb_ok (rb_bindings rt s m bs rb)
    \<and> rb_routes (rb_bindings rt s m bs rb) meth
      = rb_routes rb meth @ concat (map (binding_routes rt meth) (map (\<lambda>b. (s, m, b)) bs))"
  using assms
proof (induction bs arbitrary: rb)
  case (Cons b bs)
  then show ?case using rb_binding[OF Cons.prems] Cons.IH by simp
qed simp

lemma rb_methods_routes:
  assumes "rb_ok rb"
  shows "rb_ok (rb_methods rt s ms rb)
    \<and> rb_routes (rb_methods rt s ms rb) meth
      = rb_routes rb meth @ concat (map (binding_routes rt meth) (concat (map (\<lambda>m.
       map (\<lambda>b. (s, m, b)) (if Bindings m = [] then [DefaultBinding m] else Bindings m)) ms)))"
  using assms
proof (induction ms arbitrary: rb)
  case (Cons m ms)
  then show ?case
    using rb_binding[OF Cons.prems] rb_bindings_routes[OF Cons.prems] Cons.IH
    by (simp add: addDefault_def)
qed simp

lemma rb_services_routes:
  assumes "rb_ok rb"
  shows "rb_ok (rb_services rt ss rb)
    \<and> rb_routes (rb_services rt ss rb) meth
      = rb_routes rb meth @ concat (map (binding_routes rt meth) (concat (map (\<lambda>s. concat (map (\<lambda>m.
       map (\<lambda>b. (s, m, b)) (if Bindings m = [] then [DefaultBinding m] else Bindings m)) (Methods s))) ss)))"
  using assms
proof (induction ss arbitrary: rb)
  case (Cons s ss)
  then show ?case using rb_methods_routes[OF Cons.prems] Cons.IH by simp
qed simp

lemma buildPatternRoutes_spec:
  "distinct (map fst (buildPatternRoutes rt desc))"
  "map_of (buildPatternRoutes rt desc) meth
     = (if desc_routes rt desc meth = [] then None else Some (desc_routes rt desc meth))"
proof -
  have "rb_ok (newPatternRouteBuilder :: 'a patternRouteBuilder)"
    by (simp add: rb_ok_def newPatternRouteBuilder_def)
  note r = rb_services_routes[OF this, of rt "Services desc"]
  have ok: "rb_ok (buildPatternRoutes rt desc)" using r by (simp add: buildPatternRoutes_def)
  then show "distinct (map fst (buildPatternRoutes rt desc))" by (simp add: rb_ok_def)
  have "rb_routes (buildPatternRoutes rt desc) meth = desc_routes rt desc meth"
    using r by (simp add: buildPatternRoutes_def desc_routes_def desc_bindings_def rb_routes_def newPatternRouteBuilder_def)
  then show "map_of (buildPatternRoutes rt desc) meth
     = (if desc_routes rt desc meth = [] then None else Some (desc_routes rt desc meth))"
    using rb_ok_routes[OF ok] by simp
qed

section \<open>The ordered table\<close>

lemma ot_other:
  assumes "t \<noteq> target_Name target"
  shows "filter (\<lambda>x. tpr_name x = t) (ot_put target rs es) = filter (\<lambda>x. tpr_name x = t) es"
    and "filter (\<lambda>x. tpr_name x = t) (ot_drop (target_Name target) es) = filter (\<lambda>x. tpr_name x = t) es"
proof -
  have "filter (\<lambda>x. tpr_name x = t) (map (\<lambda>x. if tpr_name x = target_Name target
      then \<lparr>tpr_target = target, tpr_routes = rs\<rparr> else x) es) = filter (\<lambda>x. tpr_name x = t) es"
    using assms by (induction es) auto
  then show "filter (\<lambda>x. tpr_name x = t) (ot_put target rs es) = filter (\<lambda>x. tpr_name x = t) es"
    using assms by (simp add: ot_put_def Let_def)
  show "filter (\<lambda>x. tpr_name x = t) (ot_drop (target_Name target) es) = filter (\<lambda>x. tpr_name x = t) es"
    using assms by (auto simp: ot_drop_def intro: filter_cong)
qed

lemma ot_add_other:
  "t \<noteq> target_Name target \<Longrightarrow>
     filter (\<lambda>x. tpr_name x = t) (ot_add target routes tab m) = filter (\<lambda>x. tpr_name x = t) (tab m)"
  by (simp add: ot_add_step ot_step_def ot_other split: option.split)

lemma ot_remove_filter:
  "filter (\<lambda>x. tpr_name x = t) (ot_remove t' tab m) = (if t = t' then [] else filter (\<lambda>x. tpr_name x = t) (tab m))"
  by (auto simp: ot_remove_def ot_drop_def intro: filter_cong)

lemma ot_put_names:
  "map tpr_name (ot_put target rs es)
     = (if target_Name target \<in> tpr_name ` set es then map tpr_name es else map tpr_name es @ [target_Name target])"
  by (auto simp: ot_put_def Let_def)

lemma filter_replace:
  assumes "distinct (map f es)" and "k \<in> f ` set es" and "f e = k"
  shows "filter (\<lambda>x. f x = k) (map (\<lambda>x. if f x = k then e else x) es) = [e]"
  using assms(1,2)
proof (induction es)
  case (Cons x es)
  have none: "k \<notin> f ` set es \<Longrightarrow> filter (\<lambda>x. f x = k) (map (\<lambda>x. if f x = k then e else x) es) = []"
    using assms(3) by (induction es) auto
  show ?case
  proof (cases "f x = k")
    case True
    then show ?thesis using Cons.prems(1) none assms(3) by auto
  next
    case False
    then have "k \<in> f ` set es" using Cons.prems(2) by auto
    then show ?thesis using False Cons by simp
  qed
qed simp

lemma ot_put_filter:
  assumes "distinct (map tpr_name es)"
  shows "filter (\<lambda>x. tpr_name x = target_Name target) (ot_put target rs es) = [\<lparr>tpr_target = target, tpr_routes = rs\<rparr>]
    \<and> filter (\<lambda>x. tpr_name x \<noteq> target_Name target) (ot_put target rs es) = filter (\<lambda>x. tpr_name x \<noteq> target_Name target) es"
proof (cases "target_Name target \<in> tpr_name ` set es")
  case False
  then have "x \<in> set es \<Longrightarrow> tpr_name x \<noteq> target_Name target" for x by force
  with False show ?thesis by (auto simp: ot_put_def Let_def filter_empty_conv)
next
  case True
  let ?e = "\<lparr>tpr_target = target, tpr_routes = rs\<rparr>"
  have "filter (\<lambda>x. tpr_name x = target_Name target) (map (\<lambda>x. if tpr_name x = target_Name target then ?e else x) es) = [?e]"
    by (rule filter_replace[OF assms True]) simp
  moreover have "filter (\<lambda>x. tpr_name x \<noteq> target_Name target) (map (\<lambda>x. if tpr_name x = target_Name target then ?e else x) es)
      = filter (\<lambda>x. tpr_name x \<noteq> target_Name target) es"
    by (induction es) auto
  ultimately show ?thesis using True by (simp add: ot_put_def)
qed

lemma mt_abs_distinct:
  assumes "mt_inv mt"
  shows "distinct (map tpr_name (mt_abs mt m))"
proof -
  have wf: "wf_links (mt_links mt) mt" using assms by (simp add: mt_inv_def)
  have "x = y" if xy: "x \<in> set (mt_ids mt m)" "y \<in> set (mt_ids mt m)"
    "tpr_name (the (mt_values mt x)) = tpr_name (the (mt_values mt y))" for x y
  proof -
    obtain u v where uv: "mt_values mt x = Some u" "mt_values mt y = Some v"
      using wf_linksD(4)[OF wf xy(1)] wf_linksD(4)[OF wf xy(2)] by blast
    have "(m, x) \<in> set (mt_links mt (tpr_name u))" "(m, y) \<in> set (mt_links mt (tpr_name u))"
      unfolding wf_linksD(7)[OF wf] using xy uv by simp_all
    then show ?thesis by (rule link_unique[OF wf])
  qed
  then show ?thesis
    using wf_linksD(2)[OF wf, of m] unfolding mt_abs_map[OF wf] by (auto simp: distinct_map inj_on_def)
qed

section \<open>The watcher interface\<close>

definition pr_inv :: "'p PatternRouter \<Rightarrow> bool" where
  "pr_inv pr \<longleftrightarrow> mt_inv (pr_routes pr)"

definition pr_view :: "'p PatternRouter \<Rightarrow> string \<Rightarrow> string \<Rightarrow> 'p patternRoute targetPatternRoutes list" where
  "pr_view pr t = (\<lambda>m. filter (\<lambda>x. tpr_name x = t) (mt_abs (pr_routes pr) m))"

lemma pr_inv_new: "pr_inv NewPatternRouter"
  by (simp add: pr_inv_def NewPatternRouter_def mt_inv_new)

lemma prw_UpdateDesc_ok:
  assumes "pr_inv pr"
  shows "\<exists>pr'. prw_UpdateDesc rt w desc pr = Some pr' \<and> pr_inv pr' \<and> pr_watcherSet pr' = pr_watcherSet pr
    \<and> (prw_closed w \<or> target_Name desc \<noteq> prw_target w \<longrightarrow> pr' = pr)
    \<and> (\<not> prw_closed w \<longrightarrow> target_Name desc = prw_target w \<longrightarrow>
        mt_abs (pr_routes pr') = ot_add desc (map_of (buildPatternRoutes rt desc)) (mt_abs (pr_routes pr)))"
  using mt_addTarget_ok[OF assms[unfolded pr_inv_def] buildPatternRoutes_spec(1), of desc rt desc] assms
  by (auto simp: prw_UpdateDesc_def pr_inv_def)

lemma prw_Close_ok:
  assumes "pr_inv pr" and "\<not> prw_closed w"
  shows "\<exists>pr'. prw_Close w pr = Some (w\<lparr>prw_closed := True\<rparr>, pr') \<and> pr_inv pr'
    \<and> pr_watcherSet pr' = pr_watcherSet pr - {prw_target w}
    \<and> mt_abs (pr_routes pr') = ot_remove (prw_target w) (mt_abs (pr_routes pr))"
  using mt_removeTarget_ok[OF assms(1)[unfolded pr_inv_def], of "prw_target w"] assms
  by (auto simp: prw_Close_def pr_inv_def)

text \<open>UpdateDesc as a total function: the panic never happens in a state that meets the invariant.\<close>

definition prw_update :: "'p gw_runtime \<Rightarrow> PatternRouterWatcher \<Rightarrow> Target \<Rightarrow> 'p PatternRouter \<Rightarrow> 'p PatternRouter" where
  "prw_update rt w desc pr = (case prw_UpdateDesc rt w desc pr of None \<Rightarrow> pr | Some pr' \<Rightarrow> pr')"

lemma prw_update_ok:
  assumes "pr_inv pr"
  shows "pr_inv (prw_update rt w desc pr)"
    and "t \<noteq> prw_target w \<Longrightarrow> pr_view (prw_update rt w desc pr) t = pr_view pr t"
proof -
  obtain pr' where pr': "prw_UpdateDesc rt w desc pr = Some pr'" "pr_inv pr'"
    "prw_closed w \<or> target_Name desc \<noteq> prw_target w \<longrightarrow> pr' = pr"
    "\<not> prw_closed w \<longrightarrow> target_Name desc = prw_target w \<longrightarrow>
        mt_abs (pr_routes pr') = ot_add desc (map_of (buildPatternRoutes rt desc)) (mt_abs (pr_routes pr))"
    using prw_UpdateDesc_ok[OF assms, of rt w desc] by blast
  then have eq: "prw_update rt w desc pr = pr'" by (simp add: prw_update_def)
  show "pr_inv (prw_update rt w desc pr)" using pr'(2) eq by simp
  show "pr_view (prw_update rt w desc pr) t = pr_view pr t" if "t \<noteq> prw_target w"
  proof (cases "prw_closed w \<or> target_Name desc \<noteq> prw_target w")
    case True
    then show ?thesis using pr'(3) eq by simp
  next
    case False
    then have "mt_abs (pr_routes pr') = ot_add desc (map_of (buildPatternRoutes rt desc)) (mt_abs (pr_routes pr))"
      "t \<noteq> target_Name desc" using pr'(4) that by auto
    then show ?thesis unfolding eq by (simp add: pr_view_def ot_add_other)
  qed
qed

lemma prw_update_frame:
  "pr_watcherSet (prw_update rt w desc pr) = pr_watcherSet pr"
  "prw_closed w \<or> target_Name desc \<noteq> prw_target w \<Longrightarrow> prw_update rt w desc pr = pr"
  by (auto simp: prw_update_def prw_UpdateDesc_def split: option.splits)

interpretation prw: watched_router pr_Watch "prw_update rt" prw_Close prw_target prw_closed pr_view "\<lambda>_. []"
  pr_watcherSet pr_inv for rt :: "'p gw_runtime"
proof (unfold_locales, goal_cases)
  case (1 s t)
  then show ?case by (auto simp: pr_Watch_def syncset_Add_def pr_inv_def pr_view_def)
next
  case (2 t s)
  then show ?case by (simp add: pr_Watch_def syncset_Add_def)
next
  case (7 s w)
  obtain pr' where "prw_Close w s = Some (w\<lparr>prw_closed := True\<rparr>, pr')" "pr_inv pr'"
    "pr_watcherSet pr' = pr_watcherSet s - {prw_target w}"
    "mt_abs (pr_routes pr') = ot_remove (prw_target w) (mt_abs (pr_routes s))"
    using prw_Close_ok[OF 7] by blast
  then show ?case by (auto simp: pr_view_def fun_eq_iff ot_remove_filter)
qed (auto simp: prw_update_ok prw_update_frame prw_Close_def)

section \<open>Reachable states\<close>

inductive pr_reachable :: "'p gw_runtime \<Rightarrow> 'p PatternRouter \<Rightarrow> bool" for rt where
  pr_new: "pr_reachable rt NewPatternRouter"
| pr_watch: "pr_reachable rt pr \<Longrightarrow> pr_Watch t pr = Some (w, pr') \<Longrightarrow> pr_reachable rt pr'"
| pr_update: "pr_reachable rt pr \<Longrightarrow> prw_UpdateDesc rt w desc pr = Some pr' \<Longrightarrow> pr_reachable rt pr'"
| pr_close: "pr_reachable rt pr \<Longrightarrow> prw_Close w pr = Some (w', pr') \<Longrightarrow> pr_reachable rt pr'"

text \<open>Every entry of the table holds the routes of its own description, and at least one.\<close>

definition entries_ok :: "'p gw_runtime \<Rightarrow> 'p patternRoute ordered_table \<Rightarrow> bool" where
  "entries_ok rt tab \<longleftrightarrow> (\<forall>m. \<forall>e \<in> set (tab m).
     tpr_routes e = desc_routes rt (tpr_target e) m \<and> desc_routes rt (tpr_target e) m \<noteq> [])"

lemma entries_ok_add:
  assumes "entries_ok rt tab"
  shows "entries_ok rt (ot_add desc (map_of (buildPatternRoutes rt desc)) tab)"
  using assms
  by (auto simp: entries_ok_def ot_add_def buildPatternRoutes_spec(2) ot_drop_def ot_put_def Let_def split: if_splits)

lemma pr_reachable_ok:
  assumes "pr_reachable rt pr"
  shows "pr_inv pr \<and> entries_ok rt (mt_abs (pr_routes pr))"
  using assms
proof induction
  case pr_new
  show ?case
  proof (intro conjI pr_inv_new)
    show "entries_ok rt (mt_abs (pr_routes NewPatternRouter))"
      by (simp add: entries_ok_def NewPatternRouter_def newMutablePatternRoutingTable_def
        mt_abs_def mt_ids_def List.map_filter_simps)
  qed
next
  case (pr_watch pr t w pr')
  then show ?case by (auto simp: pr_Watch_def Let_def pr_inv_def split: prod.splits if_splits)
next
  case (pr_update pr w desc pr')
  then show ?case using prw_UpdateDesc_ok[of pr rt w desc] entries_ok_add[of rt _ desc]
    by (cases "prw_closed w \<or> target_Name desc \<noteq> prw_target w") auto
next
  case (pr_close pr w w' pr')
  then have "\<not> prw_closed w" by (auto simp: prw_Close_def split: if_splits)
  with pr_close prw_Close_ok[of pr w] show ?case by (auto simp: entries_ok_def ot_remove_def ot_drop_def)
qed

lemma pr_static:
  assumes "pr_inv pr"
  shows "st_abs (mt_static (pr_routes pr)) = mt_abs (pr_routes pr)"
  using assms by (simp add: pr_inv_def mt_inv_def st_abs_commit)

lemma pr_new_table: "st_abs (mt_static (pr_routes NewPatternRouter)) m = []"
  by (simp add: NewPatternRouter_def newMutablePatternRoutingTable_def st_abs_def)

lemma mt_iterate_abs:
  "mt_iterate mt m = concat (map (\<lambda>e. map (Pair (tpr_target e)) (tpr_routes e)) (st_abs (mt_static mt) m))"
  by (simp add: mt_iterate_def st_iterate_def st_abs_def split: option.split)

section \<open>A concrete matcher\<close>

text \<open>
  A matcher for templates of literal components, to run the router on: a pattern is its pool and verb.
\<close>

definition lit_rt :: "(string list \<times> string) gw_runtime" where
  "lit_rt = \<lparr>rt_op = (\<lambda>_. 0), rt_NewPattern = (\<lambda>_ _ pool verb. Inr (pool, verb)), rt_Verb = snd,
     rt_MatchAndEscape = (\<lambda>p comps verb. if p = (comps, verb) then Match [] else NotMatch)\<rparr>"

abbreviation ex_method :: "string \<Rightarrow> string \<Rightarrow> Method" where
  "ex_method name pat \<equiv> \<lparr>RPCName = name, Input = EmptyMessage, Output = EmptyMessage, ClientStreaming = False,
     ServerStreaming = False,
     Bindings = [\<lparr>HTTPMethod = ''GET'', Pattern = pat, RequestBodyPath = [], ResponseBodyPath = []\<rparr>]\<rparr>"

abbreviation ex_target :: "string \<Rightarrow> string \<Rightarrow> Target" where
  "ex_target t pat \<equiv> \<lparr>target_Name = t, Services = [\<lparr>service_Name = ''S'', Methods = [ex_method ''/S/M'' pat]\<rparr>]\<rparr>"

lemma ex_pattern: "buildPattern lit_rt ''/a'' = Inr ([''a''], [])"
  by code_simp

definition ex_router :: "(string list \<times> string) PatternRouter" where
  "ex_router = prw_update lit_rt \<lparr>prw_target = ''t'', prw_closed = False\<rparr> (ex_target ''t'' ''/a'') NewPatternRouter"

lemma ex_router_reachable: "pr_reachable lit_rt ex_router"
proof -
  have "\<exists>pr'. prw_UpdateDesc lit_rt \<lparr>prw_target = ''t'', prw_closed = False\<rparr> (ex_target ''t'' ''/a'') NewPatternRouter = Some pr'
      \<and> ex_router = pr'"
    using prw_UpdateDesc_ok[OF pr_inv_new, of lit_rt "\<lparr>prw_target = ''t'', prw_closed = False\<rparr>" "ex_target ''t'' ''/a''"]
    by (auto simp: ex_router_def prw_update_def)
  then show ?thesis using pr_update[OF pr_new] by blast
qed

section \<open>Properties\<close>

text \<open>
  C13. The linked lists of the PatternRouter refine an ordered table. In every reachable state, an
  update of a target replaces its entry in the table the readers see: per HTTP method the entry keeps
  its place when the target had routes for the method, is appended when it had none, and is dropped
  when the new description has none. The result does not depend on the order in which Go ranges
  over the map of built routes, and no nil list is ever dereferenced.
\<close>
theorem pr_update_refines:
  assumes "pr_reachable rt pr" and "mset routes = mset (buildPatternRoutes rt desc)"
  shows "\<exists>mt. mt_addTarget desc routes (pr_routes pr) = Some mt
    \<and> (\<forall>m. st_abs (mt_static mt) m =
         (if desc_routes rt desc m = [] then ot_drop (target_Name desc) (st_abs (mt_static (pr_routes pr)) m)
          else ot_put desc (desc_routes rt desc m) (st_abs (mt_static (pr_routes pr)) m)))"
proof -
  have inv: "pr_inv pr" using pr_reachable_ok[OF assms(1)] ..
  have "mset (map fst routes) = mset (map fst (buildPatternRoutes rt desc))" using assms(2) by simp
  then have d: "distinct (map fst routes)"
    using buildPatternRoutes_spec(1)[of rt desc] by (metis mset_eq_imp_distinct_iff)
  have "set routes = set (buildPatternRoutes rt desc)" using assms(2) by (rule mset_eq_setD)
  then have m: "map_of routes = map_of (buildPatternRoutes rt desc)"
    using d buildPatternRoutes_spec(1)[of rt desc] by (metis map_of_inject_set)
  show ?thesis
    using mt_addTarget_ok[OF inv[unfolded pr_inv_def] d, of desc]
    by (auto simp: pr_static[OF inv] m ot_add_step buildPatternRoutes_spec(2))
qed

theorem pr_update_refines_witness:
  "\<exists>mt. mt_addTarget (ex_target ''t'' ''/a'') (buildPatternRoutes lit_rt (ex_target ''t'' ''/a'')) (pr_routes NewPatternRouter) = Some mt
    \<and> map tpr_name (st_abs (mt_static mt) ''GET'') = [''t'']"
proof -
  have "desc_routes lit_rt (ex_target ''t'' ''/a'') ''GET'' \<noteq> []"
    by (simp add: desc_routes_def desc_bindings_def binding_routes_def ex_pattern)
  then show ?thesis
    using pr_update_refines[OF pr_new refl, where desc = "ex_target ''t'' ''/a''" and rt = lit_rt]
    by (auto simp: ot_put_def Let_def pr_new_table)
qed

text \<open>
  C3. In every reachable state the table the readers see lists a target at most once per HTTP method,
  and an entry holds exactly the routes of the description it carries: the bindings for that method
  whose template builds, in the order of the description, with the default POST binding for methods
  that declare none.
\<close>
theorem pr_table_exact:
  assumes "pr_reachable rt pr"
  shows "distinct (map tpr_name (st_abs (mt_static (pr_routes pr)) m))
    \<and> (\<forall>e. e \<in> set (st_abs (mt_static (pr_routes pr)) m) \<longrightarrow>
         tpr_routes e \<noteq> [] \<and> tpr_routes e = desc_routes rt (tpr_target e) m)"
  using pr_reachable_ok[OF assms] mt_abs_distinct[of "pr_routes pr" m]
  by (auto simp: pr_static pr_inv_def entries_ok_def)

theorem pr_table_exact_witness:
  "distinct (map tpr_name (st_abs (mt_static (pr_routes ex_router)) ''GET''))"
  using pr_table_exact[OF ex_router_reachable, of "''GET''"] by blast

text \<open>
  An update takes effect at once and completely: afterwards the table has, for each HTTP method,
  exactly one entry with the new description when it has routes for the method and none otherwise,
  and the entries of all other targets are as before and in the same order.
\<close>
theorem pr_update_fresh:
  assumes "pr_reachable rt pr" and "prw_UpdateDesc rt w desc pr = Some pr'"
    and "\<not> prw_closed w" and "target_Name desc = prw_target w"
  shows "filter (\<lambda>e. tpr_name e = target_Name desc) (st_abs (mt_static (pr_routes pr')) m)
      = (if desc_routes rt desc m = [] then [] else [\<lparr>tpr_target = desc, tpr_routes = desc_routes rt desc m\<rparr>])
    \<and> filter (\<lambda>e. tpr_name e \<noteq> target_Name desc) (st_abs (mt_static (pr_routes pr')) m)
      = filter (\<lambda>e. tpr_name e \<noteq> target_Name desc) (st_abs (mt_static (pr_routes pr)) m)"
proof -
  have inv: "pr_inv pr" using pr_reachable_ok[OF assms(1)] ..
  have pr': "pr_inv pr'" and abs: "mt_abs (pr_routes pr') = ot_add desc (map_of (buildPatternRoutes rt desc)) (mt_abs (pr_routes pr))"
    using prw_UpdateDesc_ok[OF inv, of rt w desc] assms(2-) by auto
  have "distinct (map tpr_name (mt_abs (pr_routes pr) m))"
    using inv by (simp add: pr_inv_def mt_abs_distinct)
  from ot_put_filter[OF this, of desc "desc_routes rt desc m"] show ?thesis
    by (auto simp: pr_static[OF inv] pr_static[OF pr'] abs ot_add_step buildPatternRoutes_spec(2) ot_drop_def)
qed

theorem pr_update_fresh_witness:
  "filter (\<lambda>e. tpr_name e = ''t'') (st_abs (mt_static (pr_routes ex_router)) ''GET'')
    = [\<lparr>tpr_target = ex_target ''t'' ''/a'', tpr_routes = desc_routes lit_rt (ex_target ''t'' ''/a'') ''GET''\<rparr>]"
proof -
  have "prw_UpdateDesc lit_rt \<lparr>prw_target = ''t'', prw_closed = False\<rparr> (ex_target ''t'' ''/a'') NewPatternRouter = Some ex_router"
    using prw_UpdateDesc_ok[OF pr_inv_new, of lit_rt "\<lparr>prw_target = ''t'', prw_closed = False\<rparr>" "ex_target ''t'' ''/a''"]
    by (auto simp: ex_router_def prw_update_def)
  moreover have "desc_routes lit_rt (ex_target ''t'' ''/a'') ''GET'' \<noteq> []"
    by (simp add: desc_routes_def desc_bindings_def binding_routes_def ex_pattern)
  ultimately show ?thesis using pr_update_fresh[OF pr_new, where m = "''GET''"] by fastforce
qed

section \<open>Routing\<close>

text \<open>The scan of one route, as the step of the scan of a list.\<close>

definition pr_attempt :: "'p gw_runtime \<Rightarrow> string list \<Rightarrow> Target \<times> 'p patternRoute \<Rightarrow> go_error + HTTPRoute option" where
  "pr_attempt rt comps tr = pr_scan rt comps [tr]"

lemma pr_scan_Cons:
  "pr_scan rt comps (tr # rest) =
     (case pr_attempt rt comps tr of Inr None \<Rightarrow> pr_scan rt comps rest | r \<Rightarrow> r)"
  by (cases tr) (auto simp: pr_attempt_def Let_def split: match_result.splits)

lemma pr_scan_skip:
  assumes "\<forall>tr \<in> set pre. pr_attempt rt comps tr = Inr None"
  shows "pr_scan rt comps (pre @ rest) = pr_scan rt comps rest"
  using assms by (induction pre) (auto simp: pr_scan_Cons simp del: pr_scan.simps)

lemma pr_attempt_Some:
  assumes "pr_attempt rt comps (t, r) = Inr (Some route)"
  shows "\<exists>params. route = \<lparr>hr_Target = t, hr_Service = pr_service r, hr_Method = pr_method r,
    hr_Binding = pr_binding r, hr_PathParams = params\<rparr>"
  using assms by (auto simp: pr_attempt_def Let_def split: match_result.splits if_splits prod.splits)

lemma pr_scan_Some:
  assumes "pr_scan rt comps trs = Inr (Some route)"
  shows "\<exists>t r. (t, r) \<in> set trs \<and> pr_attempt rt comps (t, r) = Inr (Some route)"
  using assms
proof (induction trs)
  case (Cons tr trs)
  then show ?case
    by (cases tr) (auto simp: pr_scan_Cons simp del: pr_scan.simps split: sum.splits option.splits)
qed simp

lemma desc_routes_bindings:
  assumes "r \<in> set (desc_routes rt desc m)"
  shows "(pr_service r, pr_method r, pr_binding r) \<in> set (desc_bindings desc)"
    and "HTTPMethod (pr_binding r) = m" and "buildPattern rt (Pattern (pr_binding r)) = Inr (pr_pattern r)"
  using assms unfolding desc_routes_def binding_routes_def
  by (auto split: sum.splits if_splits)

definition req_path :: "http_request \<Rightarrow> string" where
  "req_path r = (if url_RawPath r = [] then url_Path r else url_RawPath r)"

definition req_comps :: "http_request \<Rightarrow> string list" where
  "req_comps r = SplitByte (drop 1 (req_path r)) CHR ''/''"

lemma pr_RouteHTTP_alt:
  "pr_RouteHTTP rt pool pr r =
     (if \<not> HasPrefix (req_path r) ''/'' then Inl (ErrStatus InvalidArgument ''Bad Request'')
      else case pr_scan rt (req_comps r) (mt_iterate (pr_routes pr) (req_Method r)) of
             Inl e \<Rightarrow> Inl e
           | Inr None \<Rightarrow> Inl (ErrStatus NotFound ''Not Found'')
           | Inr (Some route) \<Rightarrow>
               (case pool (target_Name (hr_Target route)) of
                  None \<Rightarrow> Inl (ErrStatus Unavailable ''no connection available to target'')
                | Some conn \<Rightarrow> Inr (conn, route)))"
  by (simp add: pr_RouteHTTP_def req_comps_def req_path_def Let_def)

lemma pr_RouteHTTP_Inr:
  assumes "pr_RouteHTTP rt pool pr r = Inr (conn, route)"
  shows "pr_scan rt (req_comps r) (mt_iterate (pr_routes pr) (req_Method r)) = Inr (Some route)"
    and "pool (target_Name (hr_Target route)) = Some conn"
  using assms by (auto simp: pr_RouteHTTP_alt split: if_splits sum.splits option.splits)

lemma pr_route_view:
  assumes "pr_inv pr" and "pr_RouteHTTP rt pool pr r = Inr (conn, route)"
  shows "pr_view pr (target_Name (hr_Target route)) (req_Method r) \<noteq> []"
proof -
  obtain tg r0 where tr: "(tg, r0) \<in> set (mt_iterate (pr_routes pr) (req_Method r))"
    "pr_attempt rt (req_comps r) (tg, r0) = Inr (Some route)"
    using pr_scan_Some[OF pr_RouteHTTP_Inr(1)[OF assms(2)]] by blast
  then have "hr_Target route = tg" using pr_attempt_Some by fastforce
  with tr(1) obtain e where "e \<in> set (mt_abs (pr_routes pr) (req_Method r))" "tpr_target e = hr_Target route"
    by (auto simp: mt_iterate_abs pr_static[OF assms(1)])
  then have "e \<in> set (pr_view pr (target_Name (hr_Target route)) (req_Method r))" by (simp add: pr_view_def)
  then show ?thesis by auto
qed

text \<open>
  What one route of the table makes of the components of a path, stated without the scan: a last component
  that is only the colon and the route's verb is an error, a verb at the end of the last component is taken
  off it, and the match of the pattern decides: a malformed sequence is an error, a mismatch leaves the
  request to the next route.
\<close>

definition match_outcome :: "Target \<Rightarrow> 'p patternRoute \<Rightarrow> match_result \<Rightarrow> go_error + HTTPRoute option" where
  "match_outcome target route res =
     (case res of
        MalformedSequence msg \<Rightarrow> Inl (ErrStatus InvalidArgument msg)
      | NotMatch \<Rightarrow> Inr None
      | Match params \<Rightarrow>
          Inr (Some \<lparr>hr_Target = target, hr_Service = pr_service route, hr_Method = pr_method route,
            hr_Binding = pr_binding route, hr_PathParams = params\<rparr>))"

inductive route_outcome :: "'p gw_runtime \<Rightarrow> string list \<Rightarrow> Target \<times> 'p patternRoute \<Rightarrow> go_error + HTTPRoute option \<Rightarrow> bool"
  for rt :: "'p gw_runtime" and comps :: "string list" where
  verb_alone: "rt_Verb rt (pr_pattern route) = v \<Longrightarrow> v \<noteq> [] \<Longrightarrow> comps = cs @ [CHR '':'' # v]
    \<Longrightarrow> route_outcome rt comps (target, route) (Inl (ErrStatus NotFound ''Not Found''))"
| verb_at_end: "rt_Verb rt (pr_pattern route) = v \<Longrightarrow> v \<noteq> [] \<Longrightarrow> comps = cs @ [c @ CHR '':'' # v] \<Longrightarrow> c \<noteq> []
    \<Longrightarrow> route_outcome rt comps (target, route) (match_outcome target route (rt_MatchAndEscape rt (pr_pattern route) (cs @ [c]) v))"
| no_verb: "rt_Verb rt (pr_pattern route) = v \<Longrightarrow> v = [] \<or> (\<forall>cs c. comps \<noteq> cs @ [c @ CHR '':'' # v])
    \<Longrightarrow> route_outcome rt comps (target, route) (match_outcome target route (rt_MatchAndEscape rt (pr_pattern route) comps []))"

lemma pr_attempt_alt:
  assumes "comps = cs @ [lastc]" "rt_Verb rt (pr_pattern route) = v"
  shows "pr_attempt rt comps (target, route) =
    (if v \<noteq> [] \<and> lastc = CHR '':'' # v then Inl (ErrStatus NotFound ''Not Found'')
     else match_outcome target route
       (if v \<noteq> [] \<and> HasSuffix lastc (CHR '':'' # v)
        then rt_MatchAndEscape rt (pr_pattern route) (cs @ [take (length lastc - length v - 1) lastc]) (drop (length lastc - length v) lastc)
        else rt_MatchAndEscape rt (pr_pattern route) comps []))"
proof -
  have "lastc = CHR '':'' # v" if "HasSuffix lastc (CHR '':'' # v)" "length lastc - length v - 1 = 0"
    using that by (auto simp: HasSuffix_def)
  moreover have "HasSuffix (CHR '':'' # v) (CHR '':'' # v)" by (simp add: HasSuffix_def)
  moreover have "length lastc - length v - 1 + 1 = length lastc - length v" if "HasSuffix lastc (CHR '':'' # v)"
    using that by (auto simp: HasSuffix_def)
  ultimately show ?thesis
    using assms by (auto simp: pr_attempt_def match_outcome_def Let_def split: match_result.splits)
qed

lemma route_outcome_attempt:
  assumes "route_outcome rt comps x res" and "comps \<noteq> []"
  shows "pr_attempt rt comps x = res"
  using assms
proof (cases rule: route_outcome.cases)
  case (no_verb route v target)
  have "\<not> HasSuffix (last comps) (CHR '':'' # v)" if "v \<noteq> []"
  proof
    assume "HasSuffix (last comps) (CHR '':'' # v)"
    then obtain c where "last comps = c @ CHR '':'' # v" by (metis HasSuffix_def append_take_drop_id)
    then have "comps = butlast comps @ [c @ CHR '':'' # v]" using assms(2) by (metis append_butlast_last_id)
    then show False using no_verb(4) that by blast
  qed
  moreover have "HasSuffix (CHR '':'' # v) (CHR '':'' # v)" by (simp add: HasSuffix_def)
  ultimately show ?thesis
    using no_verb assms(2) pr_attempt_alt[of comps "butlast comps" "last comps" rt route v target] by auto
qed (auto simp: pr_attempt_alt HasSuffix_def)

text \<open>
  C14. First match wins: a request whose path begins with a slash is answered by the first route in table
  order that does not fail to match, whatever stands behind it. A match gives that route with the connection of its target, or
  Unavailable without one; an undecodable component ends the search with InvalidArgument, and a last
  component that is only a colon and the route's verb ends it with NotFound. What a route makes of the
  request is stated by route_outcome, from the verb of its pattern and the match of the library alone.
\<close>
theorem pr_RouteHTTP_first:
  assumes "HasPrefix (req_path r) ''/''"
    and "mt_iterate (pr_routes pr) (req_Method r) = pre @ tr # post"
    and "\<forall>x \<in> set pre. route_outcome rt (req_comps r) x (Inr None)"
    and "route_outcome rt (req_comps r) tr res" and "res \<noteq> Inr None"
  shows "pr_RouteHTTP rt pool pr r =
    (case res of
       Inl e \<Rightarrow> Inl e
     | Inr (Some route) \<Rightarrow>
         (case pool (target_Name (hr_Target route)) of
            None \<Rightarrow> Inl (ErrStatus Unavailable ''no connection available to target'')
          | Some conn \<Rightarrow> Inr (conn, route)))"
proof -
  have ne: "req_comps r \<noteq> []" by (simp add: req_comps_def)
  have pre: "\<forall>x \<in> set pre. pr_attempt rt (req_comps r) x = Inr None" and tr: "pr_attempt rt (req_comps r) tr = res"
    using assms(3,4) route_outcome_attempt ne by blast+
  have "pr_scan rt (req_comps r) (mt_iterate (pr_routes pr) (req_Method r)) = res"
    unfolding assms(2) pr_scan_skip[OF pre] pr_scan_Cons tr
    using assms(5) by (auto split: sum.splits option.splits)
  then show ?thesis using assms(1,5) by (auto simp: pr_RouteHTTP_alt split: sum.splits option.splits)
qed

lemma ex_iterate:
  "\<exists>rt. mt_iterate (pr_routes ex_router) ''GET'' = [(ex_target ''t'' ''/a'', rt)] \<and> pr_pattern rt = ([''a''], [])"
proof -
  have "mt_iterate (pr_routes ex_router) ''GET'' = map (Pair (ex_target ''t'' ''/a'')) (desc_routes lit_rt (ex_target ''t'' ''/a'') ''GET'')"
  proof -
    obtain mt where mt: "mt_addTarget (ex_target ''t'' ''/a'') (buildPatternRoutes lit_rt (ex_target ''t'' ''/a'')) newMutablePatternRoutingTable = Some mt"
      "mt_abs mt = ot_add (ex_target ''t'' ''/a'') (map_of (buildPatternRoutes lit_rt (ex_target ''t'' ''/a''))) (mt_abs newMutablePatternRoutingTable)"
      "st_abs (mt_static mt) = mt_abs mt"
      using mt_addTarget_ok[OF mt_inv_new buildPatternRoutes_spec(1)] by blast
    have "mt_abs newMutablePatternRoutingTable = (\<lambda>m. [] :: (string list \<times> string) patternRoute targetPatternRoutes list)"
      by (simp add: mt_abs_def newMutablePatternRoutingTable_def mt_ids_def List.map_filter_simps fun_eq_iff)
    moreover have "desc_routes lit_rt (ex_target ''t'' ''/a'') ''GET'' \<noteq> []"
      by (simp add: desc_routes_def desc_bindings_def binding_routes_def ex_pattern)
    ultimately show ?thesis using mt
      by (simp add: ex_router_def prw_update_def prw_UpdateDesc_def NewPatternRouter_def mt_iterate_abs ot_add_step
          buildPatternRoutes_spec(2) ot_put_def Let_def)
  qed
  then show ?thesis by (simp add: desc_routes_def desc_bindings_def binding_routes_def ex_pattern)
qed

theorem pr_RouteHTTP_first_witness:
  "\<exists>route. pr_RouteHTTP lit_rt (\<lambda>_. Some ()) ex_router \<lparr>req_Method = ''GET'', url_Path = ''/a'', url_RawPath = []\<rparr>
     = Inr ((), route) \<and> hr_Target route = ex_target ''t'' ''/a''"
proof -
  obtain rt where rt: "mt_iterate (pr_routes ex_router) ''GET'' = [] @ (ex_target ''t'' ''/a'', rt) # []" "pr_pattern rt = ([''a''], [])"
    using ex_iterate by auto
  let ?r = "\<lparr>req_Method = ''GET'', url_Path = ''/a'', url_RawPath = []\<rparr>"
  let ?res = "match_outcome (ex_target ''t'' ''/a'') rt (rt_MatchAndEscape lit_rt (pr_pattern rt) (req_comps ?r) [])"
  have o: "route_outcome lit_rt (req_comps ?r) (ex_target ''t'' ''/a'', rt) ?res"
    by (rule no_verb[OF refl]) (simp add: rt(2) lit_rt_def)
  have "?res = Inr (Some \<lparr>hr_Target = ex_target ''t'' ''/a'', hr_Service = pr_service rt, hr_Method = pr_method rt,
        hr_Binding = pr_binding rt, hr_PathParams = []\<rparr>)"
    using rt(2) by (simp add: match_outcome_def lit_rt_def req_comps_def req_path_def)
  then show ?thesis
    using pr_RouteHTTP_first[where pr = ex_router and r = ?r and pre = "[]" and post = "[]" and pool = "\<lambda>_. Some ()"
        and rt = lit_rt and tr = "(ex_target ''t'' ''/a'', rt)" and res = ?res] o rt(1)
    by (simp add: HasPrefix_def req_path_def)
qed

text \<open>
  C27. Soundness of routing: a route the PatternRouter returns belongs to the description it returns with
  it. Its service, method and binding are of that description, the binding is for the request's HTTP
  method with a template that builds, and the connection is the pool's for that target.
\<close>
theorem pr_RouteHTTP_sound:
  assumes "pr_reachable rt pr" and "pr_RouteHTTP rt pool pr r = Inr (conn, route)"
  shows "(hr_Service route, hr_Method route, hr_Binding route) \<in> set (desc_bindings (hr_Target route))
    \<and> HTTPMethod (hr_Binding route) = req_Method r
    \<and> (\<exists>p. buildPattern rt (Pattern (hr_Binding route)) = Inr p)
    \<and> pool (target_Name (hr_Target route)) = Some conn"
proof -
  have scan: "pr_scan rt (req_comps r) (mt_iterate (pr_routes pr) (req_Method r)) = Inr (Some route)"
    and conn: "pool (target_Name (hr_Target route)) = Some conn"
    using pr_RouteHTTP_Inr[OF assms(2)] by auto
  obtain t pr0 where tr: "(t, pr0) \<in> set (mt_iterate (pr_routes pr) (req_Method r))"
    "pr_attempt rt (req_comps r) (t, pr0) = Inr (Some route)"
    using pr_scan_Some[OF scan] by blast
  have "pr0 \<in> set (desc_routes rt t (req_Method r))"
    using tr(1) pr_reachable_ok[OF assms(1)] by (auto simp: mt_iterate_abs pr_static entries_ok_def)
  then show ?thesis
    using desc_routes_bindings[of pr0 rt t "req_Method r"] pr_attempt_Some[OF tr(2)] conn by auto
qed

theorem pr_RouteHTTP_sound_witness:
  "\<exists>route. pr_RouteHTTP lit_rt (\<lambda>_. Some ()) ex_router \<lparr>req_Method = ''GET'', url_Path = ''/a'', url_RawPath = []\<rparr>
     = Inr ((), route) \<and> HTTPMethod (hr_Binding route) = ''GET''"
proof -
  let ?r = "\<lparr>req_Method = ''GET'', url_Path = ''/a'', url_RawPath = []\<rparr>"
  obtain rt where rt: "mt_iterate (pr_routes ex_router) ''GET'' = [(ex_target ''t'' ''/a'', rt)]" "pr_pattern rt = ([''a''], [])"
    using ex_iterate by auto
  have "\<exists>route. pr_RouteHTTP lit_rt (\<lambda>_. Some ()) ex_router ?r = Inr ((), route)"
    using rt by (simp add: pr_RouteHTTP_def Let_def HasPrefix_def lit_rt_def)
  then show ?thesis using pr_RouteHTTP_sound[OF ex_router_reachable, of "\<lambda>_. Some ()" ?r] by fastforce
qed

text \<open>
  Close takes the target out for good: no later request is routed to it, whatever updates arrive
  through the closed watcher or through the watchers of other targets.
\<close>
theorem pr_close_unroutable:
  assumes "pr_reachable rt pr" and "prw_Close w pr = Some (w', pr')"
    and "\<forall>(v, d) \<in> set us. prw_target v = prw_target w \<longrightarrow> prw_closed v"
    and "pr_RouteHTTP rt pool (fold (\<lambda>(v, d). prw_update rt v d) us pr') r = Inr (conn, route)"
  shows "target_Name (hr_Target route) \<noteq> prw_target w"
proof
  assume t: "target_Name (hr_Target route) = prw_target w"
  let ?pr = "fold (\<lambda>(v, d). prw_update rt v d) us pr'"
  have inv: "pr_inv pr" using pr_reachable_ok[OF assms(1)] ..
  have "pr_inv ?pr" using prw.close_removes(2)[OF inv assms(2)]
    by (induction us arbitrary: pr') (auto simp: prw_update_ok)
  then have "pr_view ?pr (prw_target w) (req_Method r) \<noteq> []" using pr_route_view[OF _ assms(4)] t by simp
  then show False using prw.removed_for_good[OF inv assms(2,3)] by simp
qed

theorem pr_close_unroutable_witness:
  "\<exists>w' pr'. prw_Close \<lparr>prw_target = ''t'', prw_closed = False\<rparr> ex_router = Some (w', pr')
    \<and> (\<forall>r conn route. pr_RouteHTTP lit_rt (\<lambda>_. Some ()) pr' r = Inr (conn, route) \<longrightarrow>
        target_Name (hr_Target route) \<noteq> ''t'')"
proof -
  let ?w = "\<lparr>prw_target = ''t'', prw_closed = False\<rparr>"
  have "pr_inv ex_router" using pr_reachable_ok[OF ex_router_reachable] ..
  then obtain pr' where c: "prw_Close ?w ex_router = Some (?w\<lparr>prw_closed := True\<rparr>, pr')"
    using prw_Close_ok[of ex_router ?w] by auto
  from pr_close_unroutable[OF ex_router_reachable c, of "[]" "\<lambda>_. Some ()"] c show ?thesis by fastforce
qed

end
