(* ===== verification/Client_Pool.thy ===== *)
theory Client_Pool
  imports Prelude
begin

text \<open>
  The client side of grpcadapter: adapted connections (conn.go), adapted streams (stream.go) and the
  pool of connections (pool.go), with rpcutil.ContextError.

  The grpc package is not part of the repository: dialling (\<open>NewClientFunc\<close>), NewStream and the
  states of a connection are parameters. A pool controller and the client in it are shared by
  reference between the pool, the caller of New and the callers of Get, so the model keeps a store of
  controllers and hands out their addresses. New is two steps, since nothing locks the pool between
  the placeholder it stores and the client it fills in.
\<close>

section \<open>rpcutil\<close>

definition ContextError :: "go_error \<Rightarrow> go_error" where
  "ContextError err =
     (case err of
        ErrCtxCanceled \<Rightarrow> ErrStatus Canceled ''context canceled''
      | ErrCtxDeadline \<Rightarrow> ErrStatus DeadlineExceeded ''context deadline exceeded''
      | ErrMsg s \<Rightarrow> ErrStatus Unknown s
      | _ \<Rightarrow> ErrStatus Unknown ''error'')"

section \<open>Connections (conn.go)\<close>

record 'conn AdaptedClientConn =
  cc_conn :: "'conn option"
  cc_err :: "go_error option"

definition AdaptClient :: "'conn \<Rightarrow> 'conn AdaptedClientConn" where
  "AdaptClient conn = \<lparr>cc_conn = Some conn, cc_err = None\<rparr>"

definition cc_Close :: "'conn AdaptedClientConn \<Rightarrow> 'conn AdaptedClientConn" where
  "cc_Close cc =
     (if cc_conn cc = None then cc
      else \<lparr>cc_conn = None, cc_err = Some (ErrStatus Unavailable ''grpcbridge: connection closed'')\<rparr>)"

text \<open>
  waitForReady over the states the connection reports: the list holds the state at the start and after
  each change, and ends where WaitForStateChange gives up. The result tells whether Connect was called
  and whether the connection became ready.
\<close>

datatype conn_state = Idle | Connecting | Ready | TransientFailure | Shutdown

fun wait_loop :: "conn_state \<Rightarrow> conn_state list \<Rightarrow> bool" where
  "wait_loop s [] = (s = Ready)"
| "wait_loop s (s' # rest) = (if s = Ready then True else wait_loop s' rest)"

definition waitForReady :: "conn_state \<Rightarrow> conn_state list \<Rightarrow> bool \<times> bool" where
  "waitForReady s0 changes = (s0 = Idle, wait_loop s0 changes)"

text \<open>Half of the time left, or no deadline (rpc_util.go).\<close>

definition ctxWithHalvedDeadline :: "int option \<Rightarrow> int \<Rightarrow> int option" where
  "ctxWithHalvedDeadline deadline now =
     (case deadline of None \<Rightarrow> None | Some d \<Rightarrow> Some (now + (if d - now \<ge> 0 then (d - now) div 2 else - ((now - d) div 2))))"

definition cc_getConn :: "'conn AdaptedClientConn \<Rightarrow> 'conn option \<times> go_error option" where
  "cc_getConn cc = (cc_conn cc, cc_err cc)"

section \<open>Streams (stream.go)\<close>

record 'stream AdaptedClientStream =
  acs_stream :: "'stream option"
  acs_sendActive :: bool
  acs_recvActive :: bool
  acs_closed :: bool

text \<open>
  withCtx runs a call in a goroutine and takes whichever comes first: the end of the context, which
  closes the stream, or the result of the call.
\<close>

datatype 'a ctx_outcome = CtxDone go_error | CallDone 'a

definition acs_Close :: "'stream AdaptedClientStream \<Rightarrow> 'stream AdaptedClientStream" where
  "acs_Close s = s\<lparr>acs_closed := True\<rparr>"

definition acs_withCtx :: "go_error option ctx_outcome \<Rightarrow> 'stream AdaptedClientStream \<Rightarrow>
    go_error option \<times> 'stream AdaptedClientStream" where
  "acs_withCtx outcome s =
     (case outcome of
        CtxDone e \<Rightarrow> (Some (ContextError e), acs_Close s)
      | CallDone r \<Rightarrow> (r, s))"

text \<open>Send and Recv as two steps each; a second Send before the first one ends is a panic.\<close>

definition acs_Send_begin :: "'stream AdaptedClientStream \<Rightarrow> 'stream AdaptedClientStream option" where
  "acs_Send_begin s = (if acs_sendActive s then None else Some (s\<lparr>acs_sendActive := True\<rparr>))"

definition acs_Send_end :: "go_error option ctx_outcome \<Rightarrow> 'stream AdaptedClientStream \<Rightarrow>
    go_error option \<times> 'stream AdaptedClientStream" where
  "acs_Send_end outcome s =
     (let (r, s) = acs_withCtx outcome s in (r, s\<lparr>acs_sendActive := False\<rparr>))"

definition acs_Recv_begin :: "'stream AdaptedClientStream \<Rightarrow> 'stream AdaptedClientStream option" where
  "acs_Recv_begin s = (if acs_recvActive s then None else Some (s\<lparr>acs_recvActive := True\<rparr>))"

definition acs_Recv_end :: "go_error option ctx_outcome \<Rightarrow> 'stream AdaptedClientStream \<Rightarrow>
    go_error option \<times> 'stream AdaptedClientStream" where
  "acs_Recv_end outcome s =
     (let (r, s) = acs_withCtx outcome s in (r, s\<lparr>acs_recvActive := False\<rparr>))"

text \<open>status.Convert: the code of a status error, Unknown for any other.\<close>

fun status_code :: "go_error \<Rightarrow> code" where
  "status_code (ErrStatus c m) = c"
| "status_code (ErrWrap s e) = status_code e"
| "status_code (ErrHTTP c e) = status_code e"
| "status_code _ = Unknown"

definition cc_Stream :: "('conn \<Rightarrow> string \<Rightarrow> (go_error + 'stream) ctx_outcome) \<Rightarrow>
    'conn AdaptedClientConn \<Rightarrow> string \<Rightarrow> go_error + 'stream AdaptedClientStream" where
  "cc_Stream newStream cc method =
     (case cc_getConn cc of
        (_, Some err) \<Rightarrow> Inl err
      | (None, None) \<Rightarrow> Inl (ErrMsg ''nil conn'')
      | (Some conn, None) \<Rightarrow>
          let wrapped = \<lparr>acs_stream = None, acs_sendActive = False, acs_recvActive = False, acs_closed = False\<rparr>;
              fail = (\<lambda>e. Inl (ErrStatus (status_code e) (''initiating duplex stream '' @ method)))
          in case newStream conn method of
               CtxDone e \<Rightarrow> fail (ContextError e)
             | CallDone (Inl e) \<Rightarrow> fail e
             | CallDone (Inr st) \<Rightarrow> Inr (wrapped\<lparr>acs_stream := Some st\<rparr>))"

section \<open>The pool (pool.go)\<close>

record 'conn PoolController =
  ctl_target :: string
  ctl_client :: "'conn AdaptedClientConn option"
  ctl_closed :: bool

type_synonym ctl = nat

record 'conn AdaptedClientPool =
  pool_conns :: "string \<Rightarrow> ctl option"
  pool_ctls :: "ctl \<Rightarrow> 'conn PoolController option"
  pool_next :: ctl

definition NewAdaptedClientPool :: "'conn AdaptedClientPool" where
  "NewAdaptedClientPool = \<lparr>pool_conns = Map.empty, pool_ctls = Map.empty, pool_next = 0\<rparr>"

definition ErrAlreadyDialed :: go_error where
  "ErrAlreadyDialed = ErrMsg ''connection already dialed''"

text \<open>The first half of New: LoadOrStore of an empty controller.\<close>

definition pool_New_reserve :: "string \<Rightarrow> 'conn AdaptedClientPool \<Rightarrow> go_error + ctl \<times> 'conn AdaptedClientPool" where
  "pool_New_reserve targetName p =
     (case pool_conns p targetName of
        Some _ \<Rightarrow> Inl ErrAlreadyDialed
      | None \<Rightarrow>
          let c = pool_next p
          in Inr (c, p\<lparr>pool_conns := (pool_conns p)(targetName \<mapsto> c),
                       pool_ctls := (pool_ctls p)(c \<mapsto> \<lparr>ctl_target = [], ctl_client = None, ctl_closed = False\<rparr>),
                       pool_next := Suc c\<rparr>))"

text \<open>The second half: \<open>dial\<close> is NewClientFunc on the dial target with all options.\<close>

definition pool_New_finish :: "(go_error + 'conn) \<Rightarrow> string \<Rightarrow> ctl \<Rightarrow> 'conn AdaptedClientPool \<Rightarrow>
    (go_error + ctl) \<times> 'conn AdaptedClientPool" where
  "pool_New_finish dial targetName c p =
     (case dial of
        Inl err \<Rightarrow> (Inl err, p)
      | Inr conn \<Rightarrow>
          (Inr c, p\<lparr>pool_ctls := (pool_ctls p)(c \<mapsto>
             \<lparr>ctl_target = targetName, ctl_client = Some (AdaptClient conn), ctl_closed = False\<rparr>)\<rparr>))"

definition pool_New :: "(string \<Rightarrow> go_error + 'conn) \<Rightarrow> string \<Rightarrow> string \<Rightarrow> 'conn AdaptedClientPool \<Rightarrow>
    (go_error + ctl) \<times> 'conn AdaptedClientPool" where
  "pool_New dial targetName dialTarget p =
     (case pool_New_reserve targetName p of
        Inl err \<Rightarrow> (Inl err, p)
      | Inr (c, p) \<Rightarrow> pool_New_finish (dial dialTarget) targetName c p)"

text \<open>
  Get: \<open>None\<close> is not found, \<open>Some None\<close> is the nil client with true, \<open>Some (Some c)\<close> the client of
  the controller at \<open>c\<close>.
\<close>

definition pool_Get :: "'conn AdaptedClientPool \<Rightarrow> string \<Rightarrow> ctl option option" where
  "pool_Get p target =
     (case pool_conns p target of
        None \<Rightarrow> None
      | Some c \<Rightarrow>
          (case pool_ctls p c of
             None \<Rightarrow> None
           | Some ctl \<Rightarrow> Some (if ctl_client ctl = None then None else Some c)))"

text \<open>Close of a controller; \<open>None\<close> is a panic, also for a controller New did not return.\<close>

definition ctl_Close :: "ctl \<Rightarrow> 'conn AdaptedClientPool \<Rightarrow> 'conn AdaptedClientPool option" where
  "ctl_Close c p =
     (case pool_ctls p c of
        None \<Rightarrow> None
      | Some ctl \<Rightarrow>
          if ctl_closed ctl then None
          else case ctl_client ctl of
                 None \<Rightarrow> None
               | Some cc \<Rightarrow>
                   Some (p\<lparr>pool_conns := (pool_conns p)(ctl_target ctl := None),
                           pool_ctls := (pool_ctls p)(c \<mapsto> ctl\<lparr>ctl_closed := True, ctl_client := Some (cc_Close cc)\<rparr>)\<rparr>))"

definition ctl_Stream :: "('conn \<Rightarrow> string \<Rightarrow> (go_error + 'stream) ctx_outcome) \<Rightarrow>
    'conn AdaptedClientPool \<Rightarrow> ctl \<Rightarrow> string \<Rightarrow> (go_error + 'stream AdaptedClientStream) option" where
  "ctl_Stream newStream p c method =
     (case pool_ctls p c of
        None \<Rightarrow> None
      | Some ctl \<Rightarrow> map_option (\<lambda>cc. cc_Stream newStream cc method) (ctl_client ctl))"

section \<open>The pool's invariant\<close>

text \<open>
  \<open>pending\<close> are the calls of New between their two halves. A controller under a name is empty, or it
  is the open controller of that name; an open controller is under its name.
\<close>

definition pool_inv :: "(string \<times> ctl) set \<Rightarrow> 'conn AdaptedClientPool \<Rightarrow> bool" where
  "pool_inv pending p \<longleftrightarrow>
     (\<forall>t c. pool_conns p t = Some c \<longrightarrow> c < pool_next p \<and> (\<exists>ctl. pool_ctls p c = Some ctl
        \<and> \<not> ctl_closed ctl \<and> (case ctl_client ctl of None \<Rightarrow> True | Some cc \<Rightarrow> ctl_target ctl = t \<and> cc_conn cc \<noteq> None \<and> cc_err cc = None)))
   \<and> (\<forall>c ctl cc. pool_ctls p c = Some ctl \<longrightarrow> ctl_client ctl = Some cc \<longrightarrow> \<not> ctl_closed ctl \<longrightarrow> pool_conns p (ctl_target ctl) = Some c)
   \<and> (\<forall>c ctl cc. pool_ctls p c = Some ctl \<longrightarrow> ctl_client ctl = Some cc \<longrightarrow> ctl_closed ctl \<longrightarrow>
        cc_conn cc = None \<and> cc_err cc = Some (ErrStatus Unavailable ''grpcbridge: connection closed''))
   \<and> (\<forall>c. pool_ctls p c \<noteq> None \<longrightarrow> c < pool_next p)
   \<and> (\<forall>t t' c. pool_conns p t = Some c \<longrightarrow> pool_conns p t' = Some c \<longrightarrow> t = t')
   \<and> (\<forall>(t, c) \<in> pending. pool_conns p t = Some c \<and> (\<exists>ctl. pool_ctls p c = Some ctl \<and> ctl_client ctl = None))"

text \<open>Runs of the pool, by any interleaving of the halves of New with Close.\<close>

inductive pool_reachable :: "(string \<times> ctl) set \<Rightarrow> 'conn AdaptedClientPool \<Rightarrow> bool" where
  p_new: "pool_reachable {} NewAdaptedClientPool"
| p_reserve: "pool_reachable pend p \<Longrightarrow> pool_New_reserve t p = Inr (c, p') \<Longrightarrow> pool_reachable (insert (t, c) pend) p'"
| p_finish: "pool_reachable pend p \<Longrightarrow> (t, c) \<in> pend \<Longrightarrow> pool_New_finish dial t c p = (r, p') \<Longrightarrow>
    pool_reachable (pend - {(t, c)}) p'"
| p_close: "pool_reachable pend p \<Longrightarrow> ctl_Close c p = Some p' \<Longrightarrow> pool_reachable pend p'"

lemma pool_invI:
  assumes "\<And>t c. pool_conns p t = Some c \<Longrightarrow> c < pool_next p \<and> (\<exists>ctl. pool_ctls p c = Some ctl
        \<and> \<not> ctl_closed ctl \<and> (case ctl_client ctl of None \<Rightarrow> True | Some cc \<Rightarrow> ctl_target ctl = t \<and> cc_conn cc \<noteq> None \<and> cc_err cc = None))"
    and "\<And>c ctl cc. pool_ctls p c = Some ctl \<Longrightarrow> ctl_client ctl = Some cc \<Longrightarrow> \<not> ctl_closed ctl \<Longrightarrow> pool_conns p (ctl_target ctl) = Some c"
    and "\<And>c ctl cc. pool_ctls p c = Some ctl \<Longrightarrow> ctl_client ctl = Some cc \<Longrightarrow> ctl_closed ctl \<Longrightarrow>
        cc_conn cc = None \<and> cc_err cc = Some (ErrStatus Unavailable ''grpcbridge: connection closed'')"
    and "\<And>c. pool_ctls p c \<noteq> None \<Longrightarrow> c < pool_next p"
    and "\<And>t t' c. pool_conns p t = Some c \<Longrightarrow> pool_conns p t' = Some c \<Longrightarrow> t = t'"
    and "\<And>t c. (t, c) \<in> pending \<Longrightarrow> pool_conns p t = Some c \<and> (\<exists>ctl. pool_ctls p c = Some ctl \<and> ctl_client ctl = None)"
  shows "pool_inv pending p"
  using assms unfolding pool_inv_def by blast

lemma pool_invD:
  assumes "pool_inv pending p"
  shows "pool_conns p t = Some c \<Longrightarrow> c < pool_next p"
    and "pool_conns p t = Some c \<Longrightarrow> \<exists>ctl. pool_ctls p c = Some ctl
        \<and> \<not> ctl_closed ctl \<and> (case ctl_client ctl of None \<Rightarrow> True | Some cc \<Rightarrow> ctl_target ctl = t \<and> cc_conn cc \<noteq> None \<and> cc_err cc = None)"
    and "pool_ctls p c = Some ctl \<Longrightarrow> ctl_client ctl = Some cc \<Longrightarrow> \<not> ctl_closed ctl \<Longrightarrow> pool_conns p (ctl_target ctl) = Some c"
    and "pool_ctls p c = Some ctl \<Longrightarrow> ctl_client ctl = Some cc \<Longrightarrow> ctl_closed ctl \<Longrightarrow>
        cc_conn cc = None \<and> cc_err cc = Some (ErrStatus Unavailable ''grpcbridge: connection closed'')"
    and "pool_ctls p c \<noteq> None \<Longrightarrow> c < pool_next p"
    and "pool_conns p t = Some c \<Longrightarrow> pool_conns p t' = Some c \<Longrightarrow> t = t'"
    and "(t, c) \<in> pending \<Longrightarrow> pool_conns p t = Some c \<and> (\<exists>ctl. pool_ctls p c = Some ctl \<and> ctl_client ctl = None)"
  using assms unfolding pool_inv_def by blast+

lemma pool_inv_new: "pool_inv {} NewAdaptedClientPool"
  by (rule pool_invI) (auto simp: NewAdaptedClientPool_def)

lemma pool_inv_reserve:
  assumes inv: "pool_inv pend p" and r: "pool_New_reserve t p = Inr (c, p')"
  shows "pool_inv (insert (t, c) pend) p'"
proof -
  have none: "pool_conns p t = None" and c: "c = pool_next p"
    and p': "p' = p\<lparr>pool_conns := (pool_conns p)(t \<mapsto> c),
       pool_ctls := (pool_ctls p)(c \<mapsto> \<lparr>ctl_target = [], ctl_client = None, ctl_closed = False\<rparr>), pool_next := Suc c\<rparr>"
    using r by (auto simp: pool_New_reserve_def Let_def split: option.splits)
  have fresh: "pool_ctls p c = None" "pool_conns p t' \<noteq> Some c" for t'
    using pool_invD(5)[OF inv, of c] pool_invD(1)[OF inv, of t' c] c
    by (cases "pool_ctls p c"; force)+
  show ?thesis
  proof (rule pool_invI, goal_cases)
    case (1 t' c')
    then show ?case using pool_invD(1,2)[OF inv, of t' c'] fresh c
      by (auto simp: p' split: if_splits)
  next
    case (2 c' ctl cc)
    then show ?case using pool_invD(3)[OF inv, of c' ctl cc] none by (auto simp: p' split: if_splits)
  next
    case (3 c' ctl cc)
    then show ?case using pool_invD(4)[OF inv, of c' ctl cc] by (auto simp: p' split: if_splits)
  next
    case (4 c')
    then show ?case using pool_invD(5)[OF inv, of c'] c by (auto simp: p' split: if_splits)
  next
    case (5 t1 t2 c')
    then show ?case using pool_invD(6)[OF inv, of t1 c' t2] fresh by (auto simp: p' split: if_splits)
  next
    case (6 t' c')
    then show ?case using pool_invD(7)[OF inv, of t' c'] none fresh by (auto simp: p' split: if_splits)
  qed
qed

lemma pool_inv_finish:
  assumes inv: "pool_inv pend p" and pend: "(t, c) \<in> pend" and f: "pool_New_finish dial t c p = (r, p')"
  shows "pool_inv (pend - {(t, c)}) p'"
proof (cases dial)
  case (Inl err)
  then have "p' = p" using f by (simp add: pool_New_finish_def)
  then show ?thesis using inv by (auto simp: pool_inv_def)
next
  case (Inr conn)
  then have p': "p' = p\<lparr>pool_ctls := (pool_ctls p)(c \<mapsto>
      \<lparr>ctl_target = t, ctl_client = Some (AdaptClient conn), ctl_closed = False\<rparr>)\<rparr>"
    using f by (auto simp: pool_New_finish_def)
  have t: "pool_conns p t = Some c" using pool_invD(7)[OF inv pend] by blast
  show ?thesis
  proof (rule pool_invI, goal_cases)
    case (1 t' c')
    then show ?case using pool_invD(1,2)[OF inv, of t' c'] pool_invD(6)[OF inv t, of t'] 
      by (auto simp: p' AdaptClient_def split: if_splits)
  next
    case (2 c' ctl cc)
    then show ?case using pool_invD(3)[OF inv, of c' ctl cc] t by (auto simp: p' split: if_splits)
  next
    case (3 c' ctl cc)
    then show ?case using pool_invD(4)[OF inv, of c' ctl cc] by (auto simp: p' split: if_splits)
  next
    case (4 c')
    then show ?case using pool_invD(5)[OF inv, of c'] pool_invD(1)[OF inv t] by (auto simp: p' split: if_splits)
  next
    case (5 t1 t2 c')
    then show ?case using pool_invD(6)[OF inv, of t1 c' t2] by (auto simp: p' split: if_splits)
  next
    case (6 t' c')
    then have "(t', c') \<in> pend" "(t', c') \<noteq> (t, c)" by auto
    then show ?case using pool_invD(7)[OF inv, of t' c'] pool_invD(6)[OF inv t, of t'] by (auto simp: p' split: if_splits)
  qed
qed

lemma pool_inv_close:
  assumes inv: "pool_inv pend p" and cl: "ctl_Close c p = Some p'"
  shows "pool_inv pend p'"
proof -
  obtain ctl cc where ctl: "pool_ctls p c = Some ctl" "ctl_client ctl = Some cc" "\<not> ctl_closed ctl"
    and p': "p' = p\<lparr>pool_conns := (pool_conns p)(ctl_target ctl := None),
       pool_ctls := (pool_ctls p)(c \<mapsto> ctl\<lparr>ctl_closed := True, ctl_client := Some (cc_Close cc)\<rparr>)\<rparr>"
    using cl by (auto simp: ctl_Close_def split: option.splits if_splits)
  have reg: "pool_conns p (ctl_target ctl) = Some c" by (rule pool_invD(3)[OF inv ctl])
  have "cc_conn cc \<noteq> None" using pool_invD(2)[OF inv reg] ctl by auto
  then have closed: "cc_conn (cc_Close cc) = None"
    "cc_err (cc_Close cc) = Some (ErrStatus Unavailable ''grpcbridge: connection closed'')"
    by (auto simp: cc_Close_def)
  show ?thesis
  proof (rule pool_invI, goal_cases)
    case (1 t' c')
    then have "pool_conns p t' = Some c'" "t' \<noteq> ctl_target ctl" by (auto simp: p' split: if_splits)
    moreover from this have "c' \<noteq> c" using pool_invD(6)[OF inv reg] by auto
    ultimately show ?case using pool_invD(1,2)[OF inv, of t' c'] by (auto simp: p')
  next
    case (2 c' ctl' cc')
    then show ?case using pool_invD(3)[OF inv, of c' ctl' cc'] reg by (auto simp: p' split: if_splits)
  next
    case (3 c' ctl' cc')
    then show ?case using pool_invD(4)[OF inv, of c' ctl' cc'] closed by (auto simp: p' split: if_splits)
  next
    case (4 c')
    then show ?case using pool_invD(5)[OF inv, of c'] ctl by (auto simp: p' split: if_splits)
  next
    case (5 t1 t2 c')
    then show ?case using pool_invD(6)[OF inv, of t1 c' t2] by (auto simp: p' split: if_splits)
  next
    case (6 t' c')
    then have pc: "pool_conns p t' = Some c'" "\<exists>ctl. pool_ctls p c' = Some ctl \<and> ctl_client ctl = None"
      using pool_invD(7)[OF inv, of t' c'] by auto
    then have "c' \<noteq> c" using ctl by auto
    moreover have "t' \<noteq> ctl_target ctl" using pc(1) reg \<open>c' \<noteq> c\<close> by auto
    ultimately show ?case using pc by (simp add: p')
  qed
qed

lemma pool_reachable_ok: "pool_reachable pend p \<Longrightarrow> pool_inv pend p"
  by (induction rule: pool_reachable.induct)
    (auto intro: pool_inv_new pool_inv_reserve pool_inv_finish pool_inv_close)

section \<open>Properties\<close>

text \<open>
  Whatever the interleaving of New and Close, a client the pool returns for a target is the client
  of a controller created for that very target, and it is open: Stream on it goes to the underlying
  connection. Two names never share a controller.
\<close>
theorem pool_Get_open:
  assumes "pool_reachable pend p" and "pool_Get p t = Some (Some c)"
  shows "(\<exists>ctl cc. pool_ctls p c = Some ctl \<and> ctl_client ctl = Some cc \<and> ctl_target ctl = t
      \<and> \<not> ctl_closed ctl \<and> cc_conn cc \<noteq> None \<and> cc_err cc = None)
    \<and> (\<forall>t'. pool_Get p t' = Some (Some c) \<longrightarrow> t' = t)"
proof -
  have inv: "pool_inv pend p" by (rule pool_reachable_ok[OF assms(1)])
  have get: "pool_Get p t' = Some (Some c) \<Longrightarrow> pool_conns p t' = Some c \<and> (\<exists>ctl cc. pool_ctls p c = Some ctl \<and> ctl_client ctl = Some cc)" for t'
    by (auto simp: pool_Get_def split: option.splits if_splits)
  obtain ctl cc where c: "pool_conns p t = Some c" "pool_ctls p c = Some ctl" "ctl_client ctl = Some cc"
    using get[OF assms(2)] by blast
  with pool_invD(2)[OF inv c(1)] have "ctl_target ctl = t \<and> \<not> ctl_closed ctl \<and> cc_conn cc \<noteq> None \<and> cc_err cc = None"
    by auto
  moreover have "\<forall>t'. pool_Get p t' = Some (Some c) \<longrightarrow> t' = t"
    using get pool_invD(6)[OF inv c(1)] by blast
  ultimately show ?thesis using c by blast
qed

abbreviation run_new :: "'conn \<Rightarrow> string \<Rightarrow> 'conn AdaptedClientPool" where
  "run_new conn t \<equiv> snd (pool_New (\<lambda>_. Inr conn) t t NewAdaptedClientPool)"

lemma run_new_reachable: "pool_reachable {} (run_new conn t)"
proof -
  have r: "pool_New_reserve t NewAdaptedClientPool = Inr (0, NewAdaptedClientPool
      \<lparr>pool_conns := [t \<mapsto> 0], pool_ctls := [0 \<mapsto> \<lparr>ctl_target = [], ctl_client = None, ctl_closed = False\<rparr>], pool_next := 1\<rparr>)"
    by (simp add: pool_New_reserve_def NewAdaptedClientPool_def)
  have "pool_reachable ({(t, 0)} - {(t, 0)}) (run_new conn t)"
    using p_finish[OF p_reserve[OF p_new r], of t 0 "Inr conn"] by (simp add: pool_New_def r prod_eq_iff)
  then show ?thesis by simp
qed

theorem pool_Get_open_witness:
  "pool_Get (run_new () ''a'') ''a'' = Some (Some 0) \<and> pool_Get (run_new () ''a'') ''b'' \<noteq> Some (Some 0)"
proof -
  have g: "pool_Get (run_new () ''a'') ''a'' = Some (Some 0)"
    by (simp add: pool_Get_def pool_New_def pool_New_reserve_def pool_New_finish_def NewAdaptedClientPool_def)
  with pool_Get_open[OF run_new_reachable g] show ?thesis by auto
qed

text \<open>
  C32. Life cycle of a pooled connection: after a successful New the client is found, a second New of
  the name fails with ErrAlreadyDialed and changes nothing; after Close the name is free again, other
  names are untouched, every copy of the client that was handed out answers Stream with Unavailable,
  and a second Close panics.
\<close>
theorem pool_lifecycle:
  assumes "pool_reachable pend p" and "pool_New dial t d p = (Inr c, p1)" and "ctl_Close c p1 = Some p2"
  shows "pool_Get p1 t = Some (Some c)
    \<and> pool_New dial' t d' p1 = (Inl ErrAlreadyDialed, p1)
    \<and> pool_Get p2 t = None \<and> (\<forall>t'. t' \<noteq> t \<longrightarrow> pool_conns p2 t' = pool_conns p1 t')
    \<and> ctl_Stream newStream p2 c method = Some (Inl (ErrStatus Unavailable ''grpcbridge: connection closed''))
    \<and> ctl_Close c p2 = None"
proof -
  obtain conn where n: "pool_conns p t = None" "c = pool_next p"
    "p1 = p\<lparr>pool_conns := (pool_conns p)(t \<mapsto> c), pool_next := Suc c, pool_ctls := (pool_ctls p)(c \<mapsto>
       \<lparr>ctl_target = t, ctl_client = Some (AdaptClient conn), ctl_closed = False\<rparr>)\<rparr>"
    using assms(2) by (auto simp: pool_New_def pool_New_reserve_def pool_New_finish_def Let_def split: option.splits sum.splits)
  then have p2: "p2 = p1\<lparr>pool_conns := (pool_conns p1)(t := None), pool_ctls := (pool_ctls p1)(c \<mapsto>
       \<lparr>ctl_target = t, ctl_client = Some (cc_Close (AdaptClient conn)), ctl_closed = True\<rparr>)\<rparr>"
    using assms(3) by (simp add: ctl_Close_def)
  show ?thesis
    using n by (simp add: p2 pool_Get_def pool_New_def pool_New_reserve_def ctl_Close_def ctl_Stream_def cc_Stream_def
        cc_getConn_def cc_Close_def AdaptClient_def)
qed

theorem pool_lifecycle_witness:
  "\<exists>p2. ctl_Close 0 (run_new () ''a'') = Some p2 \<and> pool_Get p2 ''a'' = None"
proof -
  have n: "pool_New (\<lambda>_. Inr ()) ''a'' ''a'' NewAdaptedClientPool = (Inr 0, run_new () ''a'')"
    by (simp add: pool_New_def pool_New_reserve_def pool_New_finish_def NewAdaptedClientPool_def)
  obtain p2 where c: "ctl_Close 0 (run_new () ''a'') = Some p2"
    by (simp add: pool_New_def pool_New_reserve_def pool_New_finish_def NewAdaptedClientPool_def ctl_Close_def)
  show ?thesis using pool_lifecycle[OF p_new n c] c by blast
qed

text \<open>
  A dial error poisons the name: New leaves its empty placeholder in the pool, so from then on Get
  reports the target as present with a nil client, and every later New of the name fails with
  ErrAlreadyDialed although no connection exists; there is no controller to close.
\<close>
theorem pool_dial_error_poisons:
  assumes "pool_conns p t = None" and "dial d = Inl err" and "pool_New dial t d p = (r, p1)"
  shows "r = Inl err \<and> pool_Get p1 t = Some None \<and> pool_New dial' t d' p1 = (Inl ErrAlreadyDialed, p1)"
proof -
  have "r = Inl err" and p1: "p1 = p\<lparr>pool_conns := (pool_conns p)(t \<mapsto> pool_next p),
      pool_ctls := (pool_ctls p)(pool_next p \<mapsto> \<lparr>ctl_target = [], ctl_client = None, ctl_closed = False\<rparr>),
      pool_next := Suc (pool_next p)\<rparr>"
    using assms by (auto simp: pool_New_def pool_New_reserve_def pool_New_finish_def Let_def)
  then show ?thesis by (simp add: pool_Get_def pool_New_def pool_New_reserve_def)
qed

theorem pool_dial_error_poisons_witness:
  "\<exists>p1. pool_New (\<lambda>_. Inl (ErrMsg ''bad target'')) ''a'' ''x'' (NewAdaptedClientPool :: unit AdaptedClientPool)
      = (Inl (ErrMsg ''bad target''), p1) \<and> pool_Get p1 ''a'' = Some None"
proof -
  let ?dial = "\<lambda>_. Inl (ErrMsg ''bad target'') :: go_error + unit"
  have n: "pool_conns (NewAdaptedClientPool :: unit AdaptedClientPool) ''a'' = None" by (simp add: NewAdaptedClientPool_def)
  obtain r p1 where e: "pool_New ?dial ''a'' ''x'' NewAdaptedClientPool = (r, p1)" by fastforce
  from pool_dial_error_poisons[OF n _ e] e show ?thesis by auto
qed

end
