(* ===== verification/Forwarder.thy ===== *)
theory Forwarder
  imports Timeout Md_Filter Client_Pool Bridgedesc
begin

text \<open>
  The ProxyForwarder of grpcadapter/forwarder.go: the base context with its timeout, and the
  forwarding of a call by two goroutines and the select loop of Forward.

  Every call on a stream is one step, and its result is chosen by the environment; the two goroutines
  and the main loop take steps in any interleaving. A handler is a function from the result of the
  call and the state to the new state, \<open>None\<close> when the program is not at that call. The state keeps
  the trace of the calls made on the two streams.
\<close>

section \<open>baseContext\<close>

text \<open>
  \<open>now\<close> and the deadline are in nanoseconds; the earlier of the parent's deadline and the new one holds.
\<close>

definition earlier :: "int option \<Rightarrow> int \<Rightarrow> int option" where
  "earlier parent d = (case parent of None \<Rightarrow> Some d | Some p \<Rightarrow> Some (min p d))"

definition baseContext :: "'md md_ops \<Rightarrow> int \<Rightarrow> int option \<Rightarrow> 'md \<Rightarrow> 'md \<times> int option" where
  "baseContext M now parent md =
     (let v = md_Get M md metadataTimeout
      in if length v > 0 then
           let md = md_Delete M metadataTimeout md
           in case decodeTimeout (v ! 0) of
                Some d \<Rightarrow> (md, earlier parent (now + sint d))
              | None \<Rightarrow> (md, parent)
         else (md, parent))"

section \<open>State\<close>

record forwardError =
  incomingErr :: "go_error option"
  outgoingErr :: "go_error option"

abbreviation inErr :: "go_error \<Rightarrow> forwardError" where
  "inErr e \<equiv> \<lparr>incomingErr = Some e, outgoingErr = None\<rparr>"
abbreviation outErr :: "go_error option \<Rightarrow> forwardError" where
  "outErr e \<equiv> \<lparr>incomingErr = None, outgoingErr = e\<rparr>"

datatype ('m, 'md) fw_event =
    OpenOut bool | RecvIn 'm | SendOut 'm bool | CloseSend | CloseOut
  | RecvOut 'm | EndOut go_error | SetHeader 'md | SetTrailer 'md | SendIn 'm bool

text \<open>
  Program counters: the client-to-server goroutine, the server-to-client goroutine (the loop of
  forwardOutgoingToIncoming, or the calls of forwardUnaryResponse), and Forward itself. \<open>Sent\<close> is a
  result in the goroutine's channel, \<open>Taken\<close> one the select loop has received.
\<close>

datatype 'm i2o_pc = I2O_NotStarted | I2O_Recv | I2O_Send 'm | I2O_Sent forwardError | I2O_Taken

datatype 'm o2i_pc =
    O2I_NotStarted | O2I_Recv bool | O2I_Send 'm
  | OU_Recv | OU_RecvStatus 'm | OU_Send 'm
  | O2I_Sent forwardError | O2I_Taken

datatype 'm main_pc =
    M_Stream | MU_Recv | MU_Stream 'm | MU_Send 'm | M_Select | M_Returned "go_error option"

record ('m, 'md) fw_config =
  fw_Method :: Method
  fw_header :: 'md
  fw_trailer :: 'md
  fw_FilterResponse :: "'md \<Rightarrow> 'md"
  fw_FilterTrailer :: "'md \<Rightarrow> 'md"

record ('m, 'md) fw_state =
  fw_main :: "'m main_pc"
  fw_i2o :: "'m i2o_pc"
  fw_o2i :: "'m o2i_pc"
  fw_ctx :: "go_error option"
  fw_trace :: "('m, 'md) fw_event list"

definition fw_init :: "('m, 'md) fw_config \<Rightarrow> ('m, 'md) fw_state" where
  "fw_init cf =
     \<lparr>fw_main = (if ClientStreaming (fw_Method cf) then M_Stream else MU_Recv),
      fw_i2o = I2O_NotStarted, fw_o2i = O2I_NotStarted, fw_ctx = None, fw_trace = []\<rparr>"

abbreviation fw_emit :: "('m, 'md) fw_event list \<Rightarrow> ('m, 'md) fw_state \<Rightarrow> ('m, 'md) fw_state" where
  "fw_emit es s \<equiv> s\<lparr>fw_trace := fw_trace s @ es\<rparr>"

section \<open>The client-to-server goroutine\<close>

text \<open>forwardIncomingToOutgoing: incoming.Recv, then outgoing.Send, until one of them fails.\<close>

definition i2o_recv :: "go_error + 'm \<Rightarrow> ('m, 'md) fw_state \<Rightarrow> ('m, 'md) fw_state option" where
  "i2o_recv r s =
     (case fw_i2o s of
        I2O_Recv \<Rightarrow>
          (case r of
             Inl err \<Rightarrow> Some (s\<lparr>fw_i2o := I2O_Sent (inErr err)\<rparr>)
           | Inr msg \<Rightarrow> Some (fw_emit [RecvIn msg] (s\<lparr>fw_i2o := I2O_Send msg\<rparr>)))
      | _ \<Rightarrow> None)"

definition i2o_send :: "go_error option \<Rightarrow> ('m, 'md) fw_state \<Rightarrow> ('m, 'md) fw_state option" where
  "i2o_send r s =
     (case fw_i2o s of
        I2O_Send msg \<Rightarrow>
          (case r of
             Some err \<Rightarrow> Some (fw_emit [SendOut msg False] (s\<lparr>fw_i2o := I2O_Sent (outErr (Some err))\<rparr>))
           | None \<Rightarrow> Some (fw_emit [SendOut msg True] (s\<lparr>fw_i2o := I2O_Recv\<rparr>)))
      | _ \<Rightarrow> None)"

section \<open>The server-to-client goroutine\<close>

text \<open>
  outgoing.Recv in forwardOutgoingToIncoming: the header is set on the first result, whatever it is,
  the trailer on an error; io.EOF is the successful end.
\<close>

definition o2i_recv :: "('m, 'md) fw_config \<Rightarrow> go_error + 'm \<Rightarrow> ('m, 'md) fw_state \<Rightarrow> ('m, 'md) fw_state option" where
  "o2i_recv cf r s =
     (case fw_o2i s of
        O2I_Recv first \<Rightarrow>
          let hdr = (if first then [SetHeader (fw_FilterResponse cf (fw_header cf))] else [])
          in (case r of
                Inl err \<Rightarrow>
                  Some (fw_emit ([EndOut err] @ hdr @ [SetTrailer (fw_FilterTrailer cf (fw_trailer cf))])
                    (s\<lparr>fw_o2i := O2I_Sent (outErr (if is_EOF err then None else Some err))\<rparr>))
              | Inr msg \<Rightarrow> Some (fw_emit ([RecvOut msg] @ hdr) (s\<lparr>fw_o2i := O2I_Send msg\<rparr>)))
      | _ \<Rightarrow> None)"

definition o2i_send :: "go_error option \<Rightarrow> ('m, 'md) fw_state \<Rightarrow> ('m, 'md) fw_state option" where
  "o2i_send r s =
     (case fw_o2i s of
        O2I_Send msg \<Rightarrow>
          (case r of
             Some err \<Rightarrow> Some (fw_emit [SendIn msg False] (s\<lparr>fw_o2i := O2I_Sent (inErr err)\<rparr>))
           | None \<Rightarrow> Some (fw_emit [SendIn msg True] (s\<lparr>fw_o2i := O2I_Recv False\<rparr>)))
      | _ \<Rightarrow> None)"

text \<open>
  forwardUnaryResponse: a first Recv for the message, a second one for the status. After a second
  message instead of the status everything is pretended to be fine, without trailers.
\<close>

definition unexpectedEOF :: go_error where
  "unexpectedEOF = ErrStatus Unavailable ''grpcbridge: unexpected EOF from server for unary response''"

definition ou_finish :: "('m, 'md) fw_config \<Rightarrow> 'm option \<Rightarrow> bool \<Rightarrow> go_error \<Rightarrow> ('m, 'md) fw_state \<Rightarrow> ('m, 'md) fw_state" where
  "ou_finish cf received receivedTrailers err s =
     (let s = fw_emit ([SetHeader (fw_FilterResponse cf (fw_header cf))]
                @ (if receivedTrailers then [SetTrailer (fw_FilterTrailer cf (fw_trailer cf))] else [])) s
      in if \<not> is_EOF err then s\<lparr>fw_o2i := O2I_Sent (outErr (Some err))\<rparr>
         else case received of
                None \<Rightarrow> s\<lparr>fw_o2i := O2I_Sent (outErr (Some unexpectedEOF))\<rparr>
              | Some msg \<Rightarrow> s\<lparr>fw_o2i := OU_Send msg\<rparr>)"

definition ou_recv :: "('m, 'md) fw_config \<Rightarrow> go_error + 'm \<Rightarrow> ('m, 'md) fw_state \<Rightarrow> ('m, 'md) fw_state option" where
  "ou_recv cf r s =
     (case fw_o2i s of
        OU_Recv \<Rightarrow>
          (case r of
             Inl err \<Rightarrow> Some (ou_finish cf None True err (fw_emit [EndOut err] s))
           | Inr msg \<Rightarrow> Some (fw_emit [RecvOut msg] (s\<lparr>fw_o2i := OU_RecvStatus msg\<rparr>)))
      | OU_RecvStatus msg \<Rightarrow>
          (case r of
             Inl err \<Rightarrow> Some (ou_finish cf (Some msg) True err (fw_emit [EndOut err] s))
           | Inr msg2 \<Rightarrow> Some (ou_finish cf (Some msg) False ErrEOF (fw_emit [RecvOut msg2] s)))
      | _ \<Rightarrow> None)"

definition ou_send :: "go_error option \<Rightarrow> ('m, 'md) fw_state \<Rightarrow> ('m, 'md) fw_state option" where
  "ou_send r s =
     (case fw_o2i s of
        OU_Send msg \<Rightarrow>
          (case r of
             Some err \<Rightarrow> Some (fw_emit [SendIn msg False] (s\<lparr>fw_o2i := O2I_Sent (inErr err)\<rparr>))
           | None \<Rightarrow> Some (fw_emit [SendIn msg True] (s\<lparr>fw_o2i := O2I_Sent (outErr None)\<rparr>)))
      | _ \<Rightarrow> None)"

section \<open>Forward\<close>

definition o2i_start :: "('m, 'md) fw_config \<Rightarrow> 'm o2i_pc" where
  "o2i_start cf = (if ServerStreaming (fw_Method cf) then O2I_Recv True else OU_Recv)"

text \<open>Stream initiation for a client stream, which starts both goroutines; \<open>None\<close> is success.\<close>

definition m_stream :: "('m, 'md) fw_config \<Rightarrow> go_error option \<Rightarrow> ('m, 'md) fw_state \<Rightarrow> ('m, 'md) fw_state option" where
  "m_stream cf r s =
     (case fw_main s of
        M_Stream \<Rightarrow>
          (case r of
             Some err \<Rightarrow> Some (fw_emit [OpenOut False] (s\<lparr>fw_main := M_Returned (Some err)\<rparr>))
           | None \<Rightarrow> Some (fw_emit [OpenOut True] (s\<lparr>fw_i2o := I2O_Recv, fw_o2i := o2i_start cf, fw_main := M_Select\<rparr>)))
      | _ \<Rightarrow> None)"

text \<open>forwardUnaryRequest: the request is read before the stream is opened.\<close>

definition mu_recv :: "go_error + 'm \<Rightarrow> ('m, 'md) fw_state \<Rightarrow> ('m, 'md) fw_state option" where
  "mu_recv r s =
     (case fw_main s of
        MU_Recv \<Rightarrow>
          (case r of
             Inl err \<Rightarrow>
               Some (s\<lparr>fw_main := M_Returned (Some
                 (if is_EOF err then ErrStatus Unavailable ''grpcbridge: unexpected EOF from client for unary request'' else err))\<rparr>)
           | Inr msg \<Rightarrow> Some (fw_emit [RecvIn msg] (s\<lparr>fw_main := MU_Stream msg\<rparr>)))
      | _ \<Rightarrow> None)"

definition mu_stream :: "go_error option \<Rightarrow> ('m, 'md) fw_state \<Rightarrow> ('m, 'md) fw_state option" where
  "mu_stream r s =
     (case fw_main s of
        MU_Stream msg \<Rightarrow>
          (case r of
             Some err \<Rightarrow> Some (fw_emit [OpenOut False] (s\<lparr>fw_main := M_Returned (Some err)\<rparr>))
           | None \<Rightarrow> Some (fw_emit [OpenOut True] (s\<lparr>fw_main := MU_Send msg\<rparr>)))
      | _ \<Rightarrow> None)"

definition mu_send :: "('m, 'md) fw_config \<Rightarrow> go_error option \<Rightarrow> ('m, 'md) fw_state \<Rightarrow> ('m, 'md) fw_state option" where
  "mu_send cf r s =
     (case fw_main s of
        MU_Send msg \<Rightarrow>
          (case r of
             Some err \<Rightarrow>
               if \<not> is_EOF err
               then Some (fw_emit [SendOut msg False, CloseOut] (s\<lparr>fw_main := M_Returned (Some err)\<rparr>))
               else Some (fw_emit [SendOut msg False, CloseSend] (s\<lparr>fw_o2i := o2i_start cf, fw_main := M_Select\<rparr>))
           | None \<Rightarrow> Some (fw_emit [SendOut msg True, CloseSend] (s\<lparr>fw_o2i := o2i_start cf, fw_main := M_Select\<rparr>)))
      | _ \<Rightarrow> None)"

text \<open>
  The three cases of the select loop. The deferred Close of the outgoing stream comes with the return.
\<close>

definition m_ctx_done :: "('m, 'md) fw_state \<Rightarrow> ('m, 'md) fw_state option" where
  "m_ctx_done s =
     (case (fw_main s, fw_ctx s) of
        (M_Select, Some e) \<Rightarrow> Some (fw_emit [CloseOut] (s\<lparr>fw_main := M_Returned (Some (ContextError e))\<rparr>))
      | _ \<Rightarrow> None)"

definition err_is_EOF :: "go_error option \<Rightarrow> bool" where
  "err_is_EOF e = (case e of None \<Rightarrow> False | Some err \<Rightarrow> is_EOF err)"

definition m_i2o :: "('m, 'md) fw_state \<Rightarrow> ('m, 'md) fw_state option" where
  "m_i2o s =
     (case (fw_main s, fw_i2o s) of
        (M_Select, I2O_Sent perr) \<Rightarrow>
          if err_is_EOF (incomingErr perr) \<or> err_is_EOF (outgoingErr perr)
          then Some (fw_emit [CloseSend] (s\<lparr>fw_i2o := I2O_Taken\<rparr>))
          else if incomingErr perr \<noteq> None
          then Some (fw_emit [CloseOut] (s\<lparr>fw_i2o := I2O_Taken, fw_main := M_Returned (incomingErr perr)\<rparr>))
          else Some (fw_emit [CloseOut] (s\<lparr>fw_i2o := I2O_Taken, fw_main := M_Returned (outgoingErr perr)\<rparr>))
      | _ \<Rightarrow> None)"

definition m_o2i :: "('m, 'md) fw_state \<Rightarrow> ('m, 'md) fw_state option" where
  "m_o2i s =
     (case (fw_main s, fw_o2i s) of
        (M_Select, O2I_Sent perr) \<Rightarrow>
          if incomingErr perr \<noteq> None
          then Some (fw_emit [CloseOut] (s\<lparr>fw_o2i := O2I_Taken, fw_main := M_Returned (incomingErr perr)\<rparr>))
          else Some (fw_emit [CloseOut] (s\<lparr>fw_o2i := O2I_Taken, fw_main := M_Returned (outgoingErr perr)\<rparr>))
      | _ \<Rightarrow> None)"

text \<open>Any of these steps, or the end of the context (cancelled, expired, or cancelled by the return).\<close>

inductive fw_step :: "('m, 'md) fw_config \<Rightarrow> ('m, 'md) fw_state \<Rightarrow> ('m, 'md) fw_state \<Rightarrow> bool" for cf where
  fw_i2o_recv: "i2o_recv r s = Some s' \<Longrightarrow> fw_step cf s s'"
| fw_i2o_send: "i2o_send e s = Some s' \<Longrightarrow> fw_step cf s s'"
| fw_o2i_recv: "o2i_recv cf r s = Some s' \<Longrightarrow> fw_step cf s s'"
| fw_o2i_send: "o2i_send e s = Some s' \<Longrightarrow> fw_step cf s s'"
| fw_ou_recv: "ou_recv cf r s = Some s' \<Longrightarrow> fw_step cf s s'"
| fw_ou_send: "ou_send e s = Some s' \<Longrightarrow> fw_step cf s s'"
| fw_m_stream: "m_stream cf e s = Some s' \<Longrightarrow> fw_step cf s s'"
| fw_mu_recv: "mu_recv r s = Some s' \<Longrightarrow> fw_step cf s s'"
| fw_mu_stream: "mu_stream e s = Some s' \<Longrightarrow> fw_step cf s s'"
| fw_mu_send: "mu_send cf e s = Some s' \<Longrightarrow> fw_step cf s s'"
| fw_m_ctx: "m_ctx_done s = Some s' \<Longrightarrow> fw_step cf s s'"
| fw_m_i2o: "m_i2o s = Some s' \<Longrightarrow> fw_step cf s s'"
| fw_m_o2i: "m_o2i s = Some s' \<Longrightarrow> fw_step cf s s'"
| fw_ctx_end: "fw_ctx s = None \<Longrightarrow> fw_step cf s (s\<lparr>fw_ctx := Some e\<rparr>)"

inductive fw_reachable :: "('m, 'md) fw_config \<Rightarrow> ('m, 'md) fw_state \<Rightarrow> bool" for cf where
  fw_start: "fw_reachable cf (fw_init cf)"
| fw_next: "fw_reachable cf s \<Longrightarrow> fw_step cf s s' \<Longrightarrow> fw_reachable cf s'"

end
