(* ===== verification/Forwarder_Props.thy ===== *)
theory Forwarder_Props
  imports Forwarder
begin

text \<open>
  The ProxyForwarder's properties. The invariant gives, for every program point, the exact shape of
  the calls made so far on the client's stream and on the server's stream; the properties read off
  what a returned call has done.
\<close>

section \<open>The calls on each side\<close>

fun is_cli :: "('m, 'md) fw_event \<Rightarrow> bool" where
  "is_cli (RecvIn m) = True" | "is_cli (SendOut m b) = True" | "is_cli CloseSend = True" | "is_cli _ = False"

fun is_srv :: "('m, 'md) fw_event \<Rightarrow> bool" where
  "is_srv (RecvOut m) = True" | "is_srv (EndOut e) = True" | "is_srv (SetHeader h) = True"
| "is_srv (SetTrailer t) = True" | "is_srv (SendIn m b) = True" | "is_srv _ = False"

definition cli :: "('m, 'md) fw_event list \<Rightarrow> ('m, 'md) fw_event list" where
  "cli tr = filter is_cli tr"

definition srv :: "('m, 'md) fw_event list \<Rightarrow> ('m, 'md) fw_event list" where
  "srv tr = filter is_srv tr"

lemma cli_append [simp]: "cli (a @ b) = cli a @ cli b" by (simp add: cli_def)
lemma srv_append [simp]: "srv (a @ b) = srv a @ srv b" by (simp add: srv_def)

lemma cli_list [simp]: "cli [] = []" "cli (e # es) = (if is_cli e then e # cli es else cli es)" by (auto simp: cli_def)
lemma srv_list [simp]: "srv [] = []" "srv (e # es) = (if is_srv e then e # srv es else srv es)" by (auto simp: srv_def)

text \<open>Messages forwarded to the server; messages forwarded to the client, the header before the first.\<close>

definition up :: "'m list \<Rightarrow> ('m, 'md) fw_event list" where
  "up ms = concat (map (\<lambda>m. [RecvIn m, SendOut m True]) ms)"

definition hdr :: "('m, 'md) fw_config \<Rightarrow> 'm list \<Rightarrow> ('m, 'md) fw_event list" where
  "hdr cf ms = (if ms = [] then [SetHeader (fw_FilterResponse cf (fw_header cf))] else [])"

fun down :: "('m, 'md) fw_config \<Rightarrow> 'm list \<Rightarrow> ('m, 'md) fw_event list" where
  "down cf [] = []"
| "down cf (m # ms) = [RecvOut m, SetHeader (fw_FilterResponse cf (fw_header cf)), SendIn m True]
     @ concat (map (\<lambda>m. [RecvOut m, SendIn m True]) ms)"

abbreviation trl :: "('m, 'md) fw_config \<Rightarrow> ('m, 'md) fw_event" where
  "trl cf \<equiv> SetTrailer (fw_FilterTrailer cf (fw_trailer cf))"
abbreviation hd1 :: "('m, 'md) fw_config \<Rightarrow> ('m, 'md) fw_event" where
  "hd1 cf \<equiv> SetHeader (fw_FilterResponse cf (fw_header cf))"

lemma up_snoc: "up (ms @ [m]) = up ms @ [RecvIn m, SendOut m True]"
  by (simp add: up_def)

lemma down_snoc: "down cf (ms @ [m]) = down cf ms @ [RecvOut m] @ hdr cf ms @ [SendIn m True]"
  by (cases ms) (simp_all add: hdr_def)

text \<open>How the server-to-client goroutine can end, and with which result.\<close>

definition o2i_outcome :: "('m, 'md) fw_config \<Rightarrow> forwardError \<Rightarrow> ('m, 'md) fw_event list \<Rightarrow> bool" where
  "o2i_outcome cf p evs \<longleftrightarrow>
     (if ServerStreaming (fw_Method cf) then
        (\<exists>ms e. evs = down cf ms @ [EndOut e] @ hdr cf ms @ [trl cf] \<and> p = outErr (if is_EOF e then None else Some e))
        \<or> (\<exists>ms m e. evs = down cf ms @ [RecvOut m] @ hdr cf ms @ [SendIn m False] \<and> p = inErr e)
      else
        (\<exists>e. evs = [EndOut e, hd1 cf, trl cf] \<and> p = outErr (Some (if is_EOF e then unexpectedEOF else e)))
        \<or> (\<exists>m e. evs = [RecvOut m, EndOut e, hd1 cf, trl cf] \<and> \<not> is_EOF e \<and> p = outErr (Some e))
        \<or> (\<exists>m st b. evs = [RecvOut m] @ st @ [SendIn m b]
             \<and> ((\<exists>e. is_EOF e \<and> st = [EndOut e, hd1 cf, trl cf]) \<or> (\<exists>m2. st = [RecvOut m2, hd1 cf]))
             \<and> (if b then p = outErr None else (\<exists>e. p = inErr e))))"

definition srv_ok :: "('m, 'md) fw_config \<Rightarrow> 'm o2i_pc \<Rightarrow> ('m, 'md) fw_event list \<Rightarrow> bool" where
  "srv_ok cf pc evs \<longleftrightarrow>
     (case pc of
        O2I_NotStarted \<Rightarrow> evs = []
      | O2I_Recv first \<Rightarrow> ServerStreaming (fw_Method cf) \<and> (\<exists>ms. evs = down cf ms \<and> first = (ms = []))
      | O2I_Send m \<Rightarrow> ServerStreaming (fw_Method cf) \<and> (\<exists>ms. evs = down cf ms @ [RecvOut m] @ hdr cf ms)
      | OU_Recv \<Rightarrow> \<not> ServerStreaming (fw_Method cf) \<and> evs = []
      | OU_RecvStatus m \<Rightarrow> \<not> ServerStreaming (fw_Method cf) \<and> evs = [RecvOut m]
      | OU_Send m \<Rightarrow> \<not> ServerStreaming (fw_Method cf) \<and> (\<exists>st. evs = [RecvOut m] @ st
           \<and> ((\<exists>e. is_EOF e \<and> st = [EndOut e, hd1 cf, trl cf]) \<or> (\<exists>m2. st = [RecvOut m2, hd1 cf])))
      | O2I_Sent p \<Rightarrow> o2i_outcome cf p evs
      | O2I_Taken \<Rightarrow> (\<exists>p. o2i_outcome cf p evs))"

text \<open>The client side, for a client stream and for a unary request.\<close>

definition cli_ok :: "('m, 'md) fw_config \<Rightarrow> 'm main_pc \<Rightarrow> 'm i2o_pc \<Rightarrow> ('m, 'md) fw_event list \<Rightarrow> bool" where
  "cli_ok cf main pc evs \<longleftrightarrow>
     (if ClientStreaming (fw_Method cf) then
        (case pc of
           I2O_NotStarted \<Rightarrow> evs = []
         | I2O_Recv \<Rightarrow> (\<exists>ms. evs = up ms)
         | I2O_Send m \<Rightarrow> (\<exists>ms. evs = up ms @ [RecvIn m])
         | I2O_Sent p \<Rightarrow> (\<exists>ms. evs = up ms \<and> (\<exists>e. p = inErr e))
             \<or> (\<exists>ms m. evs = up ms @ [RecvIn m, SendOut m False] \<and> (\<exists>e. p = outErr (Some e)))
         | I2O_Taken \<Rightarrow> (\<exists>ms rest cl. evs = up ms @ rest @ cl \<and> (rest = [] \<or> (\<exists>m. rest = [RecvIn m, SendOut m False]))
             \<and> (cl = [] \<or> cl = [CloseSend])))
      else
        pc = I2O_NotStarted \<and>
        (case main of
           M_Stream \<Rightarrow> False
         | MU_Recv \<Rightarrow> evs = []
         | MU_Stream m \<Rightarrow> evs = [RecvIn m]
         | MU_Send m \<Rightarrow> evs = [RecvIn m]
         | M_Select \<Rightarrow> (\<exists>m b. evs = [RecvIn m, SendOut m b, CloseSend])
         | M_Returned r \<Rightarrow> evs = [] \<or> (\<exists>m. evs = [RecvIn m]) \<or> (\<exists>m. evs = [RecvIn m, SendOut m False])
             \<or> (\<exists>m b. evs = [RecvIn m, SendOut m b, CloseSend])))"

definition fw_result :: "forwardError \<Rightarrow> go_error option" where
  "fw_result p = (if incomingErr p \<noteq> None then incomingErr p else outgoingErr p)"

definition main_ok :: "('m, 'md) fw_config \<Rightarrow> ('m, 'md) fw_state \<Rightarrow> bool" where
  "main_ok cf s \<longleftrightarrow>
     (case fw_main s of
        M_Stream \<Rightarrow> ClientStreaming (fw_Method cf) \<and> fw_i2o s = I2O_NotStarted \<and> fw_o2i s = O2I_NotStarted
      | MU_Recv \<Rightarrow> \<not> ClientStreaming (fw_Method cf) \<and> fw_o2i s = O2I_NotStarted
      | MU_Stream m \<Rightarrow> \<not> ClientStreaming (fw_Method cf) \<and> fw_o2i s = O2I_NotStarted
      | MU_Send m \<Rightarrow> \<not> ClientStreaming (fw_Method cf) \<and> fw_o2i s = O2I_NotStarted
      | M_Select \<Rightarrow> fw_o2i s \<noteq> O2I_NotStarted \<and> fw_o2i s \<noteq> O2I_Taken
          \<and> (ClientStreaming (fw_Method cf) \<longrightarrow> fw_i2o s \<noteq> I2O_NotStarted)
      | M_Returned r \<Rightarrow> (r = None \<longrightarrow> fw_o2i s = O2I_Taken)
          \<and> (fw_o2i s = O2I_Taken \<longrightarrow> (\<exists>p. o2i_outcome cf p (srv (fw_trace s)) \<and> r = fw_result p)))"

definition fw_inv :: "('m, 'md) fw_config \<Rightarrow> ('m, 'md) fw_state \<Rightarrow> bool" where
  "fw_inv cf s \<longleftrightarrow> cli_ok cf (fw_main s) (fw_i2o s) (cli (fw_trace s)) \<and> srv_ok cf (fw_o2i s) (srv (fw_trace s)) \<and> main_ok cf s"

lemma fw_inv_init: "fw_inv cf (fw_init cf)"
  by (auto simp: fw_inv_def fw_init_def cli_ok_def srv_ok_def main_ok_def)

section \<open>One lemma per handler\<close>

lemma inv_i2o_recv: "fw_inv cf s \<Longrightarrow> i2o_recv r s = Some s' \<Longrightarrow> fw_inv cf s'"
  unfolding fw_inv_def i2o_recv_def
  by (auto simp: cli_ok_def main_ok_def split: i2o_pc.splits sum.splits main_pc.splits if_splits)

lemma inv_i2o_send: "fw_inv cf s \<Longrightarrow> i2o_send e s = Some s' \<Longrightarrow> fw_inv cf s'"
  unfolding fw_inv_def i2o_send_def
  by (auto simp: cli_ok_def main_ok_def up_snoc[symmetric] split: i2o_pc.splits option.splits main_pc.splits if_splits)

text \<open>A step of the server-to-client goroutine: only its own side has to be shown.\<close>

lemma fw_inv_srv:
  assumes "fw_inv cf s" and "fw_main s' = fw_main s" and "fw_i2o s' = fw_i2o s" and "cli (fw_trace s') = cli (fw_trace s)"
    and "fw_o2i s \<noteq> O2I_NotStarted" "fw_o2i s \<noteq> O2I_Taken" "fw_o2i s' \<noteq> O2I_NotStarted" "fw_o2i s' \<noteq> O2I_Taken"
    and "srv_ok cf (fw_o2i s') (srv (fw_trace s'))"
  shows "fw_inv cf s'"
  using assms by (auto simp: fw_inv_def main_ok_def split: main_pc.splits)

lemma inv_o2i_recv:
  assumes inv: "fw_inv cf s" and st: "o2i_recv cf r s = Some s'"
  shows "fw_inv cf s'"
proof -
  obtain first where pc: "fw_o2i s = O2I_Recv first" using st by (auto simp: o2i_recv_def split: o2i_pc.splits)
  then obtain ms where ms: "ServerStreaming (fw_Method cf)" "srv (fw_trace s) = down cf ms" "first = (ms = [])"
    using inv by (auto simp: fw_inv_def srv_ok_def)
  have h: "(if first then [hd1 cf] else []) = hdr cf ms" by (simp add: hdr_def ms(3))
  show ?thesis
  proof (cases r)
    case (Inl e)
    then have s': "s' = fw_emit ([EndOut e] @ hdr cf ms @ [trl cf]) (s\<lparr>fw_o2i := O2I_Sent (outErr (if is_EOF e then None else Some e))\<rparr>)"
      using st pc h by (simp add: o2i_recv_def Let_def)
    have "srv_ok cf (fw_o2i s') (srv (fw_trace s'))"
      using ms by (auto simp: s' srv_ok_def o2i_outcome_def hdr_def)
    then show ?thesis by (intro fw_inv_srv[OF inv]) (simp_all add: s' pc hdr_def)
  next
    case (Inr m)
    then have s': "s' = fw_emit ([RecvOut m] @ hdr cf ms) (s\<lparr>fw_o2i := O2I_Send m\<rparr>)"
      using st pc h by (simp add: o2i_recv_def Let_def)
    have "srv_ok cf (fw_o2i s') (srv (fw_trace s'))"
      using ms by (auto simp: s' srv_ok_def hdr_def)
    then show ?thesis by (intro fw_inv_srv[OF inv]) (simp_all add: s' pc hdr_def)
  qed
qed

lemma inv_o2i_send:
  assumes inv: "fw_inv cf s" and st: "o2i_send e s = Some s'"
  shows "fw_inv cf s'"
proof -
  obtain m where pc: "fw_o2i s = O2I_Send m" using st by (auto simp: o2i_send_def split: o2i_pc.splits)
  then obtain ms where ms: "ServerStreaming (fw_Method cf)" "srv (fw_trace s) = down cf ms @ [RecvOut m] @ hdr cf ms"
    using inv by (auto simp: fw_inv_def srv_ok_def)
  show ?thesis
  proof (cases e)
    case None
    then have s': "s' = fw_emit [SendIn m True] (s\<lparr>fw_o2i := O2I_Recv False\<rparr>)" using st pc by (simp add: o2i_send_def)
    have "srv (fw_trace s') = down cf (ms @ [m])" using ms(2) by (simp add: s' down_snoc)
    then have "srv_ok cf (fw_o2i s') (srv (fw_trace s'))"
      using ms(1) by (auto simp: s' srv_ok_def intro!: exI[of _ "ms @ [m]"])
    then show ?thesis by (intro fw_inv_srv[OF inv]) (simp_all add: s' pc)
  next
    case (Some err)
    then have s': "s' = fw_emit [SendIn m False] (s\<lparr>fw_o2i := O2I_Sent (inErr err)\<rparr>)" using st pc by (simp add: o2i_send_def)
    have "srv_ok cf (fw_o2i s') (srv (fw_trace s'))"
      using ms by (auto simp: s' srv_ok_def o2i_outcome_def)
    then show ?thesis by (intro fw_inv_srv[OF inv]) (simp_all add: s' pc)
  qed
qed

lemma inv_ou_recv:
  assumes inv: "fw_inv cf s" and st: "ou_recv cf r s = Some s'"
  shows "fw_inv cf s'"
proof -
  have "fw_o2i s = OU_Recv \<or> (\<exists>m. fw_o2i s = OU_RecvStatus m)" using st by (auto simp: ou_recv_def split: o2i_pc.splits)
  then show ?thesis
  proof (elim disjE exE)
    assume pc: "fw_o2i s = OU_Recv"
    then have u: "\<not> ServerStreaming (fw_Method cf)" "srv (fw_trace s) = []" using inv by (auto simp: fw_inv_def srv_ok_def)
    show ?thesis
    proof (cases r)
      case (Inl e)
      then have s': "s' = ou_finish cf None True e (fw_emit [EndOut e] s)" using st pc by (simp add: ou_recv_def)
      show ?thesis
        by (rule fw_inv_srv[OF inv]) (auto simp: s' pc ou_finish_def Let_def srv_ok_def o2i_outcome_def u)
    next
      case (Inr m)
      then have s': "s' = fw_emit [RecvOut m] (s\<lparr>fw_o2i := OU_RecvStatus m\<rparr>)" using st pc by (simp add: ou_recv_def)
      show ?thesis by (rule fw_inv_srv[OF inv]) (auto simp: s' pc srv_ok_def u)
    qed
  next
    fix m assume pc: "fw_o2i s = OU_RecvStatus m"
    then have u: "\<not> ServerStreaming (fw_Method cf)" "srv (fw_trace s) = [RecvOut m]" using inv by (auto simp: fw_inv_def srv_ok_def)
    show ?thesis
    proof (cases r)
      case (Inl e)
      then have s': "s' = ou_finish cf (Some m) True e (fw_emit [EndOut e] s)" using st pc by (simp add: ou_recv_def)
      show ?thesis
        by (rule fw_inv_srv[OF inv]) (auto simp: s' pc ou_finish_def Let_def srv_ok_def o2i_outcome_def u)
    next
      case (Inr m2)
      then have s': "s' = ou_finish cf (Some m) False ErrEOF (fw_emit [RecvOut m2] s)" using st pc by (simp add: ou_recv_def)
      show ?thesis
        by (rule fw_inv_srv[OF inv]) (auto simp: s' pc ou_finish_def Let_def srv_ok_def u)
    qed
  qed
qed

lemma inv_ou_send:
  assumes inv: "fw_inv cf s" and st: "ou_send e s = Some s'"
  shows "fw_inv cf s'"
proof -
  obtain m where pc: "fw_o2i s = OU_Send m" using st by (auto simp: ou_send_def split: o2i_pc.splits)
  then obtain tl where u: "\<not> ServerStreaming (fw_Method cf)" "srv (fw_trace s) = [RecvOut m] @ tl"
    "(\<exists>e. is_EOF e \<and> tl = [EndOut e, hd1 cf, trl cf]) \<or> (\<exists>m2. tl = [RecvOut m2, hd1 cf])"
    using inv by (auto simp: fw_inv_def srv_ok_def)
  have out: "o2i_outcome cf p ([RecvOut m] @ tl @ [SendIn m b])" if "if b then p = outErr None else (\<exists>e. p = inErr e)" for p b
    unfolding o2i_outcome_def if_not_P[OF u(1)]
    by (intro disjI2 exI[of _ m] exI[of _ tl] exI[of _ b] conjI refl u(3) that)
  show ?thesis
  proof (cases e)
    case None
    then have s': "s' = fw_emit [SendIn m True] (s\<lparr>fw_o2i := O2I_Sent (outErr None)\<rparr>)" using st pc by (simp add: ou_send_def)
    show ?thesis by (rule fw_inv_srv[OF inv]) (use out[of True "outErr None"] u(2) in \<open>auto simp: s' pc srv_ok_def\<close>)
  next
    case (Some err)
    then have s': "s' = fw_emit [SendIn m False] (s\<lparr>fw_o2i := O2I_Sent (inErr err)\<rparr>)" using st pc by (simp add: ou_send_def)
    show ?thesis by (rule fw_inv_srv[OF inv]) (use out[of False "inErr err"] u(2) in \<open>auto simp: s' pc srv_ok_def\<close>)
  qed
qed

lemma o2i_start_ok [simp]: "srv_ok cf (o2i_start cf) []" "o2i_start cf \<noteq> O2I_NotStarted" "o2i_start cf \<noteq> O2I_Taken"
  "O2I_NotStarted \<noteq> o2i_start cf" "O2I_Taken \<noteq> o2i_start cf"
  by (auto simp: srv_ok_def o2i_start_def intro: exI[of _ "[]"])

lemma srv_ok_NotStarted [simp]: "srv_ok cf O2I_NotStarted evs \<longleftrightarrow> evs = []"
  by (simp add: srv_ok_def)

lemma cli_ok_return: "cli_ok cf M_Select pc evs \<Longrightarrow> cli_ok cf (M_Returned r) pc evs"
  by (auto simp: cli_ok_def split: if_splits)

lemma inv_m_stream: "fw_inv cf s \<Longrightarrow> m_stream cf e s = Some s' \<Longrightarrow> fw_inv cf s'"
  unfolding fw_inv_def m_stream_def
  by (auto simp: main_ok_def cli_ok_def up_def split: main_pc.splits option.splits intro: exI[of _ "[]"])

lemma inv_mu_recv: "fw_inv cf s \<Longrightarrow> mu_recv r s = Some s' \<Longrightarrow> fw_inv cf s'"
  unfolding fw_inv_def mu_recv_def
  by (auto simp: main_ok_def cli_ok_def split: main_pc.splits sum.splits if_splits)

lemma inv_mu_stream: "fw_inv cf s \<Longrightarrow> mu_stream e s = Some s' \<Longrightarrow> fw_inv cf s'"
  unfolding fw_inv_def mu_stream_def
  by (auto simp: main_ok_def cli_ok_def split: main_pc.splits option.splits if_splits)

lemma inv_mu_send: "fw_inv cf s \<Longrightarrow> mu_send cf e s = Some s' \<Longrightarrow> fw_inv cf s'"
  unfolding fw_inv_def mu_send_def
  by (auto simp: main_ok_def cli_ok_def split: main_pc.splits option.splits if_splits)

lemma inv_m_ctx_done:
  assumes inv: "fw_inv cf s" and st: "m_ctx_done s = Some s'"
  shows "fw_inv cf s'"
proof -
  obtain e where e: "fw_main s = M_Select" "fw_ctx s = Some e"
    using st by (auto simp: m_ctx_done_def split: main_pc.splits option.splits)
  then have s': "s' = fw_emit [CloseOut] (s\<lparr>fw_main := M_Returned (Some (ContextError e))\<rparr>)"
    using st by (simp add: m_ctx_done_def)
  have "cli_ok cf (M_Returned (Some (ContextError e))) (fw_i2o s) (cli (fw_trace s))"
    using inv e by (simp add: fw_inv_def cli_ok_return)
  then show ?thesis using inv e by (auto simp: s' fw_inv_def main_ok_def)
qed

lemma inv_m_i2o:
  assumes inv: "fw_inv cf s" and st: "m_i2o s = Some s'"
  shows "fw_inv cf s'"
proof -
  obtain p where p: "fw_main s = M_Select" "fw_i2o s = I2O_Sent p"
    using st by (auto simp: m_i2o_def split: main_pc.splits i2o_pc.splits)
  have cs: "ClientStreaming (fw_Method cf)" using inv p by (auto simp: fw_inv_def cli_ok_def split: if_splits)
  obtain ms rest where tr: "cli (fw_trace s) = up ms @ rest"
    "rest = [] \<and> (\<exists>e. p = inErr e) \<or> (\<exists>m e. rest = [RecvIn m, SendOut m False] \<and> p = outErr (Some e))"
  proof -
    have "(\<exists>ms. cli (fw_trace s) = up ms \<and> (\<exists>e. p = inErr e))
        \<or> (\<exists>ms m. cli (fw_trace s) = up ms @ [RecvIn m, SendOut m False] \<and> (\<exists>e. p = outErr (Some e)))"
      using inv p cs by (simp add: fw_inv_def cli_ok_def)
    then show ?thesis using that by (elim disjE exE conjE) (metis append_Nil2, metis)
  qed
  have r: "fw_result p \<noteq> None" using tr(2) by (auto simp: fw_result_def)
  have mk: "fw_o2i s \<noteq> O2I_NotStarted \<and> fw_o2i s \<noteq> O2I_Taken" using inv p by (simp add: fw_inv_def main_ok_def)
  have cl: "cli_ok cf main I2O_Taken (cli (fw_trace s) @ cl)" if "cl = [] \<or> cl = [CloseSend]" for main cl
    unfolding cli_ok_def i2o_pc.case using tr that cs by (simp only: if_True append_assoc) blast
  show ?thesis
  proof (cases "err_is_EOF (incomingErr p) \<or> err_is_EOF (outgoingErr p)")
    case True
    then have s': "s' = fw_emit [CloseSend] (s\<lparr>fw_i2o := I2O_Taken\<rparr>)" using st p by (simp add: m_i2o_def)
    then show ?thesis using inv p mk cl[of "[CloseSend]"] by (auto simp: fw_inv_def main_ok_def)
  next
    case False
    then have s': "s' = fw_emit [CloseOut] (s\<lparr>fw_i2o := I2O_Taken, fw_main := M_Returned (fw_result p)\<rparr>)"
      using st p by (auto simp: m_i2o_def fw_result_def)
    then show ?thesis using inv p r mk cl[of "[]"] by (auto simp: fw_inv_def main_ok_def)
  qed
qed

lemma inv_m_o2i:
  assumes inv: "fw_inv cf s" and st: "m_o2i s = Some s'"
  shows "fw_inv cf s'"
proof -
  obtain p where p: "fw_main s = M_Select" "fw_o2i s = O2I_Sent p"
    using st by (auto simp: m_o2i_def split: main_pc.splits o2i_pc.splits)
  have o: "o2i_outcome cf p (srv (fw_trace s))" using inv p by (simp add: fw_inv_def srv_ok_def)
  have s': "s' = fw_emit [CloseOut] (s\<lparr>fw_o2i := O2I_Taken, fw_main := M_Returned (fw_result p)\<rparr>)"
    using st p by (auto simp: m_o2i_def fw_result_def)
  have c: "cli_ok cf (M_Returned (fw_result p)) (fw_i2o s) (cli (fw_trace s))"
    using inv p by (simp add: fw_inv_def cli_ok_return)
  show ?thesis using inv o c by (auto simp: s' fw_inv_def srv_ok_def main_ok_def)
qed

lemma inv_ctx_end: "fw_inv cf s \<Longrightarrow> fw_inv cf (s\<lparr>fw_ctx := Some e\<rparr>)"
  by (auto simp: fw_inv_def main_ok_def split: main_pc.splits)

lemmas fw_handlers = inv_i2o_recv inv_i2o_send inv_o2i_recv inv_o2i_send inv_ou_recv inv_ou_send
  inv_m_stream inv_mu_recv inv_mu_stream inv_mu_send inv_m_ctx_done inv_m_i2o inv_m_o2i inv_ctx_end

lemma fw_step_inv: "fw_step cf s s' \<Longrightarrow> fw_inv cf s \<Longrightarrow> fw_inv cf s'"
  by (induction rule: fw_step.induct) (auto intro: fw_handlers)

lemma fw_reachable_inv: "fw_reachable cf s \<Longrightarrow> fw_inv cf s"
  by (induction rule: fw_reachable.induct) (auto intro: fw_inv_init fw_step_inv)

section \<open>Properties\<close>

lemma Forward_nil_shape:
  assumes "fw_reachable cf s" and "fw_main s = M_Returned None"
  shows "ServerStreaming (fw_Method cf) \<Longrightarrow>
      \<exists>ms e. is_EOF e \<and> srv (fw_trace s) = down cf ms @ [EndOut e] @ hdr cf ms @ [trl cf]"
    and "\<not> ServerStreaming (fw_Method cf) \<Longrightarrow>
      \<exists>m st. srv (fw_trace s) = [RecvOut m] @ st @ [SendIn m True]
      \<and> ((\<exists>e. is_EOF e \<and> st = [EndOut e, hd1 cf, trl cf]) \<or> (\<exists>m2. st = [RecvOut m2, hd1 cf]))"
proof -
  obtain p where p: "o2i_outcome cf p (srv (fw_trace s))" "fw_result p = None"
    using fw_reachable_inv[OF assms(1)] assms(2) by (auto simp: fw_inv_def main_ok_def)
  then have n: "incomingErr p = None" "outgoingErr p = None" by (auto simp: fw_result_def split: if_splits)
  {
    assume "ServerStreaming (fw_Method cf)"
    then show "\<exists>ms e. is_EOF e \<and> srv (fw_trace s) = down cf ms @ [EndOut e] @ hdr cf ms @ [trl cf]"
      using p(1) n by (auto simp: o2i_outcome_def split: if_splits)
  next
    assume u: "\<not> ServerStreaming (fw_Method cf)"
    show "\<exists>m st. srv (fw_trace s) = [RecvOut m] @ st @ [SendIn m True]
      \<and> ((\<exists>e. is_EOF e \<and> st = [EndOut e, hd1 cf, trl cf]) \<or> (\<exists>m2. st = [RecvOut m2, hd1 cf]))"
      using p(1) n unfolding o2i_outcome_def if_not_P[OF u] by (auto split: if_splits)
  }
qed

text \<open>
  C5. A successful call is complete. When Forward returns nil, then for a server stream every message
  received from the server was sent to the client, in order and without an error, the header was set
  once, before the first message, and the stream ended with io.EOF after which the trailer was set;
  for a unary response exactly one message was sent, after the header, and the server ended with
  io.EOF and the trailer was set, or it sent a second message and the trailer was left out.
\<close>
theorem Forward_nil_complete:
  assumes "fw_reachable cf s" and "fw_main s = M_Returned None"
  shows "if ServerStreaming (fw_Method cf)
    then \<exists>ms e. is_EOF e \<and> srv (fw_trace s) = down cf ms @ [EndOut e] @ hdr cf ms @ [trl cf]
    else \<exists>m st. srv (fw_trace s) = [RecvOut m] @ st @ [SendIn m True]
      \<and> ((\<exists>e. is_EOF e \<and> st = [EndOut e, hd1 cf, trl cf]) \<or> (\<exists>m2. st = [RecvOut m2, hd1 cf]))"
  using Forward_nil_shape[OF assms] by simp

text \<open>A run of a server-streaming call with one message, to apply the properties to.\<close>

definition ex_cf :: "(nat, nat) fw_config" where
  "ex_cf = \<lparr>fw_Method = DummyMethod ''S'' ''M'', fw_header = 1, fw_trailer = 2,
     fw_FilterResponse = (\<lambda>x. x), fw_FilterTrailer = (\<lambda>x. x)\<rparr>"

definition ex_run :: "(nat, nat) fw_state option" where
  "ex_run = Option.bind (m_stream ex_cf None (fw_init ex_cf)) (\<lambda>s.
     Option.bind (o2i_recv ex_cf (Inr 7) s) (\<lambda>s.
     Option.bind (o2i_send None s) (\<lambda>s.
     Option.bind (o2i_recv ex_cf (Inl ErrEOF) s) m_o2i)))"

lemma ex_run_value:
  "ex_run = Some \<lparr>fw_main = M_Returned None, fw_i2o = I2O_Recv, fw_o2i = O2I_Taken, fw_ctx = None,
     fw_trace = [OpenOut True, RecvOut 7, SetHeader 1, SendIn 7 True, EndOut ErrEOF, SetTrailer 2, CloseOut]\<rparr>"
  by code_simp

lemma ex_run_reachable: "ex_run = Some s \<Longrightarrow> fw_reachable ex_cf s"
proof -
  assume "ex_run = Some s"
  then obtain s1 s2 s3 s4 where "m_stream ex_cf None (fw_init ex_cf) = Some s1" "o2i_recv ex_cf (Inr 7) s1 = Some s2"
    "o2i_send None s2 = Some s3" "o2i_recv ex_cf (Inl ErrEOF) s3 = Some s4" "m_o2i s4 = Some s"
    by (auto simp: ex_run_def bind_eq_Some_conv)
  note st = fw_m_stream[OF this(1)] fw_o2i_recv[OF this(2)] fw_o2i_send[OF this(3)] fw_o2i_recv[OF this(4)] fw_m_o2i[OF this(5)]
  show ?thesis
    by (rule fw_next[OF fw_next[OF fw_next[OF fw_next[OF fw_next[OF fw_start st(1)] st(2)] st(3)] st(4)] st(5)])
qed

theorem Forward_nil_complete_witness:
  "\<exists>s ms e. ex_run = Some s \<and> is_EOF e \<and> srv (fw_trace s) = down ex_cf ms @ [EndOut e] @ hdr ex_cf ms @ [trl ex_cf]"
  using Forward_nil_complete[OF ex_run_reachable[OF ex_run_value]]
  by (auto simp: ex_run_value ex_cf_def DummyMethod_def)

lemma cli_ok_streaming:
  assumes True: "ClientStreaming (fw_Method cf)" and ok: "cli_ok cf (fw_main s) (fw_i2o s) (cli (fw_trace s))"
  shows "\<exists>ms rest cl. cli (fw_trace s) = up ms @ rest @ cl
    \<and> (rest = [] \<or> (\<exists>m. rest = [RecvIn m] \<or> rest = [RecvIn m, SendOut m False]))
    \<and> (cl = [] \<or> cl = [CloseSend]) \<and> (\<not> ClientStreaming (fw_Method cf) \<longrightarrow> length ms \<le> 1 \<and> (rest = [] \<or> ms = []))"
proof (cases "fw_i2o s")
  case I2O_NotStarted
  then show ?thesis using ok True by (intro exI[of _ "[]"]) (auto simp: cli_ok_def up_def)
next
  case I2O_Recv
  then obtain ms where "cli (fw_trace s) = up ms" using ok True by (auto simp: cli_ok_def)
  then show ?thesis using True by (intro exI[of _ ms] exI[of _ "[]"]) auto
next
  case (I2O_Send m)
  then obtain ms where "cli (fw_trace s) = up ms @ [RecvIn m]" using ok True by (auto simp: cli_ok_def)
  then show ?thesis using True by (intro exI[of _ ms] exI[of _ "[RecvIn m]"] exI[of _ "[]"]) auto
next
  case (I2O_Sent p)
  then show ?thesis using ok True unfolding cli_ok_def by (simp, metis append_Nil2)
next
  case I2O_Taken
  then show ?thesis using ok True unfolding cli_ok_def by (simp, blast)
qed

lemma cli_ok_unary:
  assumes False: "\<not> ClientStreaming (fw_Method cf)" and ok: "cli_ok cf (fw_main s) (fw_i2o s) (cli (fw_trace s))"
  shows "\<exists>ms rest cl. cli (fw_trace s) = up ms @ rest @ cl
    \<and> (rest = [] \<or> (\<exists>m. rest = [RecvIn m] \<or> rest = [RecvIn m, SendOut m False]))
    \<and> (cl = [] \<or> cl = [CloseSend]) \<and> (\<not> ClientStreaming (fw_Method cf) \<longrightarrow> length ms \<le> 1 \<and> (rest = [] \<or> ms = []))"
proof -
  have shape: "cli (fw_trace s) = [] \<or> (\<exists>m. cli (fw_trace s) = [RecvIn m]) \<or> (\<exists>m. cli (fw_trace s) = [RecvIn m, SendOut m False])
      \<or> (\<exists>m b. cli (fw_trace s) = [RecvIn m, SendOut m b, CloseSend])"
    using ok unfolding cli_ok_def if_not_P[OF False] by (cases "fw_main s") auto
  have one: "[RecvIn m, SendOut m b, CloseSend] = up (if b then [m] else []) @ (if b then [] else [RecvIn m, SendOut m False]) @ [CloseSend]" for m b
    by (simp add: up_def)
  from shape show ?thesis
  proof (elim disjE exE)
    fix m b assume c: "cli (fw_trace s) = [RecvIn m, SendOut m b, CloseSend]"
    show ?thesis unfolding c one
      by (intro exI[of _ "if b then [m] else []"] exI[of _ "if b then [] else [RecvIn m, SendOut m False]"] exI[of _ "[CloseSend]"]) auto
  next
    fix m assume "cli (fw_trace s) = [RecvIn m]"
    then show ?thesis by (intro exI[of _ "[]"] exI[of _ "[RecvIn m]"]) (simp add: up_def)
  next
    fix m assume "cli (fw_trace s) = [RecvIn m, SendOut m False]"
    then show ?thesis by (intro exI[of _ "[]"] exI[of _ "[RecvIn m, SendOut m False]"]) (simp add: up_def)
  next
    assume "cli (fw_trace s) = []"
    then show ?thesis by (intro exI[of _ "[]"]) (simp add: up_def)
  qed
qed

text \<open>
  C28. In every state of a call, whatever the interleaving: the calls made on the server's stream for a
  streaming client are the messages received from the client, each sent once and in order, at most one
  of them still in flight; CloseSend is called at most once and nothing is sent after it. For a unary
  request at most one message is read and sent.
\<close>
theorem Forward_client_order:
  assumes "fw_reachable cf s"
  shows "\<exists>ms rest cl. cli (fw_trace s) = up ms @ rest @ cl
    \<and> (rest = [] \<or> (\<exists>m. rest = [RecvIn m] \<or> rest = [RecvIn m, SendOut m False]))
    \<and> (cl = [] \<or> cl = [CloseSend]) \<and> (\<not> ClientStreaming (fw_Method cf) \<longrightarrow> length ms \<le> 1 \<and> (rest = [] \<or> ms = []))"
  using cli_ok_streaming[of cf s] cli_ok_unary[of cf s] fw_reachable_inv[OF assms] by (auto simp only: fw_inv_def)

theorem Forward_client_order_witness:
  "\<exists>s ms rest cl. ex_run = Some s \<and> cli (fw_trace s) = up ms @ rest @ cl"
  using Forward_client_order[OF ex_run_reachable[OF ex_run_value]] ex_run_value by blast

text \<open>
  C29. The select loop cannot hang: while Forward is in it, the server-to-client goroutine has its
  result in the channel, so that the loop can take it and return, or it is at one of its calls; and a
  result of the client-to-server goroutine or the end of the context can always be taken, too.
\<close>
theorem Forward_select_live:
  assumes "fw_reachable cf s" and "fw_main s = M_Select"
  shows "((\<exists>r s'. m_o2i s = Some s' \<and> fw_main s' = M_Returned r)
      \<or> (\<forall>r e. o2i_recv cf r s \<noteq> None \<or> ou_recv cf r s \<noteq> None \<or> o2i_send e s \<noteq> None \<or> ou_send e s \<noteq> None))
    \<and> (\<forall>p. fw_i2o s = I2O_Sent p \<longrightarrow> m_i2o s \<noteq> None)
    \<and> (\<forall>e. fw_ctx s = Some e \<longrightarrow> (\<exists>s'. m_ctx_done s = Some s' \<and> fw_main s' = M_Returned (Some (ContextError e))))"
proof -
  have "fw_o2i s \<noteq> O2I_NotStarted" "fw_o2i s \<noteq> O2I_Taken"
    using fw_reachable_inv[OF assms(1)] assms(2) by (auto simp: fw_inv_def main_ok_def)
  then have "(\<exists>r s'. m_o2i s = Some s' \<and> fw_main s' = M_Returned r)
      \<or> (\<forall>r e. o2i_recv cf r s \<noteq> None \<or> ou_recv cf r s \<noteq> None \<or> o2i_send e s \<noteq> None \<or> ou_send e s \<noteq> None)"
    using assms(2) by (cases "fw_o2i s")
      (auto simp: m_o2i_def o2i_recv_def ou_recv_def o2i_send_def ou_send_def Let_def split: sum.splits option.splits)
  then show ?thesis using assms(2) by (auto simp: m_i2o_def m_ctx_done_def)
qed

lemma ex_start_reachable:
  "fw_reachable ex_cf \<lparr>fw_main = M_Select, fw_i2o = I2O_Recv, fw_o2i = O2I_Recv True, fw_ctx = None, fw_trace = [OpenOut True]\<rparr>"
  by (rule fw_next[OF fw_start fw_m_stream[of ex_cf None]])
    (simp add: m_stream_def fw_init_def o2i_start_def ex_cf_def DummyMethod_def)

theorem Forward_select_live_witness:
  "\<exists>s. fw_reachable ex_cf s \<and> fw_main s = M_Select \<and> (\<exists>s'. o2i_recv ex_cf (Inl ErrEOF) s = Some s')"
  using Forward_select_live[OF ex_start_reachable] ex_start_reachable
  by (force simp: m_o2i_def ou_recv_def o2i_send_def ou_send_def)

text \<open>
  The timeout of a request never reaches the server: the outgoing metadata of a forwarded call has
  no grpc-timeout, whether or not its value could be decoded, every other key is unchanged, and the
  call's deadline is never later than the incoming one.
\<close>
theorem baseContext_strips_timeout:
  assumes "md_laws M" and "baseContext M now parent md = (md', d)"
  shows "md_Get M md' metadataTimeout = []
    \<and> (\<forall>k. to_lower k \<noteq> to_lower metadataTimeout \<longrightarrow> md_Get M md' k = md_Get M md k)
    \<and> (\<forall>p. parent = Some p \<longrightarrow> (\<exists>q. d = Some q \<and> q \<le> p))"
proof -
  have del: "md_Get M (md_Delete M metadataTimeout m) k = (if to_lower k = to_lower metadataTimeout then [] else md_Get M m k)" for m k
    using assms(1) by (simp add: md_laws_def)
  show ?thesis
    using assms(2) by (auto simp: baseContext_def Let_def del earlier_def split: if_splits option.splits)
qed

theorem baseContext_strips_timeout_witness:
  "\<exists>md' d. baseContext map_md 0 (Some 5) (\<lambda>k. if k = ''grpc-timeout'' then [''1S''] else [''x'']) = (md', d)
     \<and> md_Get map_md md' ''grpc-timeout'' = [] \<and> md_Get map_md md' ''a'' = [''x'']"
proof -
  obtain md' d where b: "baseContext map_md 0 (Some 5) (\<lambda>k. if k = ''grpc-timeout'' then [''1S''] else [''x'']) = (md', d)"
    by fastforce
  have k: "to_lower ''a'' \<noteq> to_lower metadataTimeout" "metadataTimeout = ''grpc-timeout''"
    "md_Get map_md (\<lambda>k. if k = ''grpc-timeout'' then [''1S''] else [''x'']) ''a'' = [''x'']" by code_simp+
  show ?thesis using baseContext_strips_timeout[OF map_md_laws b] b k by auto
qed

end
