(* ===== verification/Reflection_Router.thy ===== *)
theory Reflection_Router
  imports Service_Router Pattern_Router_Props Client_Pool
begin

text \<open>
  The ReflectionRouter of reflection.go: Add and Remove over the client pool, the two routers and
  their watchers, and the aggregate watcher through which a target's resolver updates both routers.

  Add and Remove hold the router's mutex, so each is one step. The resolver's goroutine is represented
  by the updates it makes: \<open>rr_Update\<close> may come at any time for a present target. The dial function and
  the pattern matcher are parameters, as in the theories of the components; the resolver itself is
  modelled in its own theory.
\<close>

section \<open>State\<close>

record targetState =
  ts_poolController :: ctl
  ts_patternWatcher :: PatternRouterWatcher
  ts_serviceWatcher :: ServiceRouterWatcher

record ('conn, 'p) ReflectionRouter =
  rr_connpool :: "'conn AdaptedClientPool"
  rr_patternRouter :: "'p PatternRouter"
  rr_serviceRouter :: ServiceRouter
  rr_targets :: "string \<Rightarrow> targetState option"

definition NewReflectionRouter :: "('conn, 'p) ReflectionRouter" where
  "NewReflectionRouter =
     \<lparr>rr_connpool = NewAdaptedClientPool, rr_patternRouter = NewPatternRouter,
      rr_serviceRouter = NewServiceRouter, rr_targets = Map.empty\<rparr>"

section \<open>Operations\<close>

definition rr_Add :: "(string \<Rightarrow> go_error + 'conn) \<Rightarrow> string \<Rightarrow> string \<Rightarrow> nat \<Rightarrow> ('conn, 'p) ReflectionRouter \<Rightarrow>
    (go_error + bool) \<times> ('conn, 'p) ReflectionRouter" where
  "rr_Add dial name target nopts r =
     (if rr_targets r name \<noteq> None
      then (Inl (ErrMsg ''ReflectionRouter currently doesn't support adding the same target twice''), r)
      else if nopts > 0
      then (Inl (ErrMsg ''ReflectionRouter currently doesn't support per-target option overrides''), r)
      else case pool_New dial name target (rr_connpool r) of
             (Inl err, p) \<Rightarrow> (Inl (ErrWrap ''creating new gRPC client for target'' err), r\<lparr>rr_connpool := p\<rparr>)
           | (Inr c, p) \<Rightarrow>
               let r = r\<lparr>rr_connpool := p\<rparr>
               in (case pr_Watch name (rr_patternRouter r) of
                     None \<Rightarrow> (Inl (ErrWrap ''failed to watch target with PatternRouter'' ErrAlreadyWatching), r)
                   | Some (pw, pr) \<Rightarrow>
                       let r = r\<lparr>rr_patternRouter := pr\<rparr>
                       in (case sr_Watch name (rr_serviceRouter r) of
                             None \<Rightarrow> (Inl (ErrWrap ''failed to watch target with ServiceRouter'' ErrAlreadyWatching), r)
                           | Some (sw, sr) \<Rightarrow>
                               (Inr True, r\<lparr>rr_serviceRouter := sr, rr_targets := (rr_targets r)(name \<mapsto>
                                  \<lparr>ts_poolController = c, ts_patternWatcher = pw, ts_serviceWatcher = sw\<rparr>)\<rparr>))))"

text \<open>The aggregate watcher; \<open>None\<close> is a panic in one of its watchers.\<close>

definition aw_UpdateDesc :: "'p gw_runtime \<Rightarrow> targetState \<Rightarrow> Target \<Rightarrow> ('conn, 'p) ReflectionRouter \<Rightarrow>
    ('conn, 'p) ReflectionRouter option" where
  "aw_UpdateDesc rt ts desc r =
     (case prw_UpdateDesc rt (ts_patternWatcher ts) desc (rr_patternRouter r) of
        None \<Rightarrow> None
      | Some pr \<Rightarrow> Some (r\<lparr>rr_patternRouter := pr,
           rr_serviceRouter := srw_UpdateDesc (ts_serviceWatcher ts) desc (rr_serviceRouter r)\<rparr>))"

definition aw_Close :: "targetState \<Rightarrow> ('conn, 'p) ReflectionRouter \<Rightarrow> ('conn, 'p) ReflectionRouter option" where
  "aw_Close ts r =
     (case prw_Close (ts_patternWatcher ts) (rr_patternRouter r) of
        None \<Rightarrow> None
      | Some (pw, pr) \<Rightarrow>
          (case srw_Close (ts_serviceWatcher ts) (rr_serviceRouter r) of
             None \<Rightarrow> None
           | Some (sw, sr) \<Rightarrow> Some (r\<lparr>rr_patternRouter := pr, rr_serviceRouter := sr\<rparr>)))"

definition rr_Remove :: "string \<Rightarrow> ('conn, 'p) ReflectionRouter \<Rightarrow> (bool \<times> ('conn, 'p) ReflectionRouter) option" where
  "rr_Remove name r =
     (case rr_targets r name of
        None \<Rightarrow> Some (False, r)
      | Some target \<Rightarrow>
          (case aw_Close target r of
             None \<Rightarrow> None
           | Some r \<Rightarrow>
               (case ctl_Close (ts_poolController target) (rr_connpool r) of
                  None \<Rightarrow> None
                | Some p \<Rightarrow> Some (True, r\<lparr>rr_connpool := p, rr_targets := (rr_targets r)(name := None)\<rparr>))))"

definition rr_Update :: "'p gw_runtime \<Rightarrow> string \<Rightarrow> Target \<Rightarrow> ('conn, 'p) ReflectionRouter \<Rightarrow>
    ('conn, 'p) ReflectionRouter option" where
  "rr_Update rt name desc r =
     (case rr_targets r name of None \<Rightarrow> Some r | Some ts \<Rightarrow> aw_UpdateDesc rt ts desc r)"

text \<open>Routing: the pool's client of a route, as an address.\<close>

definition rr_RouteHTTP :: "'p gw_runtime \<Rightarrow> ('conn, 'p) ReflectionRouter \<Rightarrow> http_request \<Rightarrow> go_error + ctl option \<times> HTTPRoute" where
  "rr_RouteHTTP rt r req = pr_RouteHTTP rt (pool_Get (rr_connpool r)) (rr_patternRouter r) req"

definition rr_RouteGRPC :: "('conn, 'p) ReflectionRouter \<Rightarrow> string option \<Rightarrow> go_error + ctl option \<times> GRPCRoute" where
  "rr_RouteGRPC r rpcName = sr_RouteGRPC (pool_Get (rr_connpool r)) (rr_serviceRouter r) rpcName"

section \<open>The invariant\<close>

definition rr_inv :: "'p gw_runtime \<Rightarrow> ('conn, 'p) ReflectionRouter \<Rightarrow> bool" where
  "rr_inv rt r \<longleftrightarrow>
     pool_inv {} (rr_connpool r) \<and> pr_reachable rt (rr_patternRouter r) \<and> sr_inv (rr_serviceRouter r)
   \<and> pr_watcherSet (rr_patternRouter r) = dom (rr_targets r) \<and> sr_watcherSet (rr_serviceRouter r) = dom (rr_targets r)
   \<and> (\<forall>t. rr_targets r t = None \<longrightarrow> pr_view (rr_patternRouter r) t = (\<lambda>_. []) \<and> sr_view (rr_serviceRouter r) t = {})
   \<and> (\<forall>t ts. rr_targets r t = Some ts \<longrightarrow>
        ts_patternWatcher ts = \<lparr>prw_target = t, prw_closed = False\<rparr> \<and> ts_serviceWatcher ts = \<lparr>srw_target = t, srw_closed = False\<rparr>
        \<and> pool_Get (rr_connpool r) t = Some (Some (ts_poolController ts)))
   \<and> (\<forall>t c. pool_Get (rr_connpool r) t = Some (Some c) \<longrightarrow> rr_targets r t \<noteq> None)"

inductive rr_reachable :: "'p gw_runtime \<Rightarrow> ('conn, 'p) ReflectionRouter \<Rightarrow> bool" for rt where
  rr_new: "rr_reachable rt NewReflectionRouter"
| rr_add: "rr_reachable rt r \<Longrightarrow> rr_Add dial name target nopts r = (res, r') \<Longrightarrow> rr_reachable rt r'"
| rr_update: "rr_reachable rt r \<Longrightarrow> rr_Update rt name desc r = Some r' \<Longrightarrow> rr_reachable rt r'"
| rr_remove: "rr_reachable rt r \<Longrightarrow> rr_Remove name r = Some (b, r') \<Longrightarrow> rr_reachable rt r'"

section \<open>The pool's operations seen through Get\<close>

lemma pool_Get_conns: "pool_Get p t = Some (Some c) \<Longrightarrow> pool_conns p t = Some c"
  by (auto simp: pool_Get_def split: option.splits if_splits)

lemma pool_New_Get:
  assumes inv: "pool_inv {} p" and n: "pool_New dial t d p = (res, p')"
  shows "pool_inv {} p'"
    and "res = Inl e \<Longrightarrow> (pool_Get p' t' = Some (Some c) \<longleftrightarrow> pool_Get p t' = Some (Some c))"
    and "res = Inr c \<Longrightarrow> pool_Get p' t = Some (Some c)"
    and "res = Inr c \<Longrightarrow> t' \<noteq> t \<Longrightarrow> pool_Get p' t' = pool_Get p t'"
proof -
  have other: "pool_conns p t' = Some c' \<Longrightarrow> c' \<noteq> pool_next p" for t' c' using pool_invD(1)[OF inv, of t' c'] by auto
  show "pool_inv {} p'"
  proof (cases "pool_New_reserve t p")
    case (Inl e)
    then show ?thesis using n inv by (simp add: pool_New_def)
  next
    case (Inr cp)
    obtain c p1 where cp: "cp = (c, p1)" by fastforce
    have "pool_New_finish (dial d) t c p1 = (res, p')" using n Inr cp by (simp add: pool_New_def)
    from pool_inv_finish[OF pool_inv_reserve[OF inv Inr[unfolded cp]] _ this] show ?thesis by simp
  qed
  show "res = Inl e \<Longrightarrow> (pool_Get p' t' = Some (Some c) \<longleftrightarrow> pool_Get p t' = Some (Some c))"
    using n other[of t'] by (auto simp: pool_New_def pool_New_reserve_def pool_New_finish_def Let_def pool_Get_def
        split: option.splits sum.splits if_splits)
  show "res = Inr c \<Longrightarrow> pool_Get p' t = Some (Some c)"
    using n by (auto simp: pool_New_def pool_New_reserve_def pool_New_finish_def Let_def pool_Get_def
        split: option.splits sum.splits if_splits)
  show "res = Inr c \<Longrightarrow> t' \<noteq> t \<Longrightarrow> pool_Get p' t' = pool_Get p t'"
    using n other[of t'] by (auto simp: pool_New_def pool_New_reserve_def pool_New_finish_def Let_def pool_Get_def
        split: option.splits sum.splits if_splits)
qed

lemma ctl_Close_Get:
  assumes inv: "pool_inv {} p" and g: "pool_Get p t = Some (Some c)"
  shows "\<exists>p'. ctl_Close c p = Some p' \<and> pool_inv {} p' \<and> pool_conns p' t = None
    \<and> (\<forall>t'. t' \<noteq> t \<longrightarrow> pool_Get p' t' = pool_Get p t')"
proof -
  have c: "pool_conns p t = Some c" by (rule pool_Get_conns[OF g])
  obtain ctl cc where ctl: "pool_ctls p c = Some ctl" "ctl_client ctl = Some cc"
    using g c by (auto simp: pool_Get_def split: option.splits if_splits)
  with pool_invD(2)[OF inv c] have t: "ctl_target ctl = t" "\<not> ctl_closed ctl" by auto
  then obtain p' where p': "ctl_Close c p = Some p'" using ctl by (simp add: ctl_Close_def)
  have "t' \<noteq> t \<Longrightarrow> pool_conns p t' \<noteq> Some c" for t' using pool_invD(6)[OF inv c] by auto
  moreover have p'eq: "pool_conns p' = (pool_conns p)(t := None)"
      "pool_ctls p' = (pool_ctls p)(c \<mapsto> ctl\<lparr>ctl_closed := True, ctl_client := Some (cc_Close cc)\<rparr>)"
    using p' ctl t by (auto simp: ctl_Close_def)
  ultimately have "pool_Get p' t' = pool_Get p t'" if "t' \<noteq> t" for t'
    using that by (cases "pool_conns p t'") (auto simp: pool_Get_def p'eq)
  then have "pool_conns p' t = None \<and> (\<forall>t'. t' \<noteq> t \<longrightarrow> pool_Get p' t' = pool_Get p t')"
    by (simp add: p'eq)
  then show ?thesis using p' pool_inv_close[OF inv p'] by blast
qed

section \<open>Every operation keeps the invariant\<close>

lemma new_views:
  "pr_view NewPatternRouter t = (\<lambda>_. [])" "sr_view NewServiceRouter t = {}"
  "pr_watcherSet NewPatternRouter = {}" "sr_watcherSet NewServiceRouter = {}" "pool_Get NewAdaptedClientPool t = None"
  by (simp_all add: pr_view_def sr_view_def NewServiceRouter_def NewAdaptedClientPool_def pool_Get_def
      NewPatternRouter_def syncset_New_def newMutablePatternRoutingTable_def mt_abs_def mt_ids_def List.map_filter_simps)

lemma rr_inv_new: "rr_inv rt NewReflectionRouter"
  by (simp add: rr_inv_def NewReflectionRouter_def pool_inv_new pr_new sr_inv_New new_views)

lemma rr_invD:
  assumes "rr_inv rt r"
  shows "pool_inv {} (rr_connpool r)" "pr_reachable rt (rr_patternRouter r)" "pr_inv (rr_patternRouter r)"
    "sr_inv (rr_serviceRouter r)"
    "pr_watcherSet (rr_patternRouter r) = dom (rr_targets r)" "sr_watcherSet (rr_serviceRouter r) = dom (rr_targets r)"
    "rr_targets r t = None \<Longrightarrow> pr_view (rr_patternRouter r) t = (\<lambda>_. [])"
    "rr_targets r t = None \<Longrightarrow> sr_view (rr_serviceRouter r) t = {}"
    "rr_targets r t = Some ts \<Longrightarrow> ts_patternWatcher ts = \<lparr>prw_target = t, prw_closed = False\<rparr>"
    "rr_targets r t = Some ts \<Longrightarrow> ts_serviceWatcher ts = \<lparr>srw_target = t, srw_closed = False\<rparr>"
    "rr_targets r t = Some ts \<Longrightarrow> pool_Get (rr_connpool r) t = Some (Some (ts_poolController ts))"
    "pool_Get (rr_connpool r) t = Some (Some c) \<Longrightarrow> \<exists>ts. rr_targets r t = Some ts"
  using assms pr_reachable_ok unfolding rr_inv_def by blast+

lemma rr_Add_cases:
  assumes inv: "rr_inv rt r" and free: "rr_targets r name = None"
  shows "rr_Add dial name target 0 r =
    (case pool_New dial name target (rr_connpool r) of
       (Inl err, p) \<Rightarrow> (Inl (ErrWrap ''creating new gRPC client for target'' err), r\<lparr>rr_connpool := p\<rparr>)
     | (Inr c, p) \<Rightarrow> (Inr True,
         \<lparr>rr_connpool = p,
          rr_patternRouter = (rr_patternRouter r)\<lparr>pr_watcherSet := insert name (pr_watcherSet (rr_patternRouter r))\<rparr>,
          rr_serviceRouter = (rr_serviceRouter r)\<lparr>sr_watcherSet := insert name (sr_watcherSet (rr_serviceRouter r))\<rparr>,
          rr_targets = (rr_targets r)(name \<mapsto> \<lparr>ts_poolController = c,
            ts_patternWatcher = \<lparr>prw_target = name, prw_closed = False\<rparr>,
            ts_serviceWatcher = \<lparr>srw_target = name, srw_closed = False\<rparr>\<rparr>)\<rparr>))"
  using rr_invD(5,6)[OF inv] free
  by (auto simp: rr_Add_def pr_Watch_def sr_Watch_def syncset_Add_def Let_def split: prod.splits sum.splits)

lemma view_watcherSet [simp]: "pr_view (pr\<lparr>pr_watcherSet := ws\<rparr>) = pr_view pr"
  by (simp add: pr_view_def fun_eq_iff)

lemma pr_reachable_watch:
  "pr_reachable rt pr \<Longrightarrow> t \<notin> pr_watcherSet pr \<Longrightarrow> pr_reachable rt (pr\<lparr>pr_watcherSet := insert t (pr_watcherSet pr)\<rparr>)"
  using pr_watch[of rt pr t "\<lparr>prw_target = t, prw_closed = False\<rparr>"] by (simp add: pr_Watch_def syncset_Add_def)

lemma rr_inv_Add:
  assumes inv: "rr_inv rt r" and add: "rr_Add dial name target nopts r = (res, r')"
  shows "rr_inv rt r'"
proof (cases "rr_targets r name \<noteq> None \<or> nopts > 0")
  case True
  then show ?thesis using inv add by (auto simp: rr_Add_def split: if_splits)
next
  case False
  then have free: "rr_targets r name = None" "nopts = 0" by auto
  obtain pres p where n: "pool_New dial name target (rr_connpool r) = (pres, p)" by fastforce
  note g = pool_New_Get[OF rr_invD(1)[OF inv] n]
  show ?thesis
  proof (cases pres)
    case (Inl err)
    then have "r' = r\<lparr>rr_connpool := p\<rparr>" using add rr_Add_cases[OF inv free(1), of dial target] n free by simp
    then show ?thesis using inv g(1,2)[OF] Inl unfolding rr_inv_def by simp
  next
    case (Inr c)
    then have r': "r' = \<lparr>rr_connpool = p,
          rr_patternRouter = (rr_patternRouter r)\<lparr>pr_watcherSet := insert name (pr_watcherSet (rr_patternRouter r))\<rparr>,
          rr_serviceRouter = (rr_serviceRouter r)\<lparr>sr_watcherSet := insert name (sr_watcherSet (rr_serviceRouter r))\<rparr>,
          rr_targets = (rr_targets r)(name \<mapsto> \<lparr>ts_poolController = c,
            ts_patternWatcher = \<lparr>prw_target = name, prw_closed = False\<rparr>,
            ts_serviceWatcher = \<lparr>srw_target = name, srw_closed = False\<rparr>\<rparr>)\<rparr>"
      using add rr_Add_cases[OF inv free(1), of dial target] n free by simp
    have w: "name \<notin> pr_watcherSet (rr_patternRouter r)" using rr_invD(5)[OF inv] free(1) by auto
    show ?thesis
      unfolding rr_inv_def r'
      using g(1) g(3,4)[OF Inr] pr_reachable_watch[OF rr_invD(2)[OF inv] w] rr_invD(4-)[OF inv]
      by (auto split: if_splits)
  qed
qed

lemma rr_inv_Update:
  assumes inv: "rr_inv rt r"
  shows "\<exists>r'. rr_Update rt name desc r = Some r' \<and> rr_inv rt r'"
proof (cases "rr_targets r name")
  case None
  then show ?thesis using inv by (simp add: rr_Update_def)
next
  case (Some ts)
  let ?pw = "\<lparr>prw_target = name, prw_closed = False\<rparr>" and ?sw = "\<lparr>srw_target = name, srw_closed = False\<rparr>"
  have ts: "ts_patternWatcher ts = ?pw" "ts_serviceWatcher ts = ?sw" using rr_invD(9,10)[OF inv Some] by auto
  obtain pr where pr: "prw_UpdateDesc rt ?pw desc (rr_patternRouter r) = Some pr" "pr_watcherSet pr = pr_watcherSet (rr_patternRouter r)"
    using prw_UpdateDesc_ok[OF rr_invD(3)[OF inv], of rt ?pw desc] by blast
  have "prw_update rt ?pw desc (rr_patternRouter r) = pr" using pr by (simp add: prw_update_def)
  then have view: "t \<noteq> name \<Longrightarrow> pr_view pr t = pr_view (rr_patternRouter r) t" for t
    using prw_update_ok(2)[OF rr_invD(3)[OF inv], of t ?pw rt desc] by simp
  let ?sr = "srw_UpdateDesc ?sw desc (rr_serviceRouter r)"
  have sview: "t \<noteq> name \<Longrightarrow> sr_view ?sr t = sr_view (rr_serviceRouter r) t" for t
    using srw.update_other[OF rr_invD(4)[OF inv], of t ?sw desc] by simp
  have u: "rr_Update rt name desc r = Some (r\<lparr>rr_patternRouter := pr, rr_serviceRouter := ?sr\<rparr>)"
    using Some pr ts by (simp add: rr_Update_def aw_UpdateDesc_def)
  have "rr_inv rt (r\<lparr>rr_patternRouter := pr, rr_serviceRouter := ?sr\<rparr>)"
  proof -
    have "\<forall>t. rr_targets r t = None \<longrightarrow> t \<noteq> name" using Some by auto
    then show ?thesis
      using inv view sview pr(2) pr_update[OF rr_invD(2)[OF inv] pr(1)] srw.update_inv[OF rr_invD(4)[OF inv]]
        srw.update_watched[of ?sw desc "rr_serviceRouter r"]
      unfolding rr_inv_def by simp
  qed
  then show ?thesis using u by blast
qed

lemma rr_Remove_present:
  assumes inv: "rr_inv rt r" and ts: "rr_targets r name = Some ts"
  shows "\<exists>r'. rr_Remove name r = Some (True, r') \<and> rr_inv rt r' \<and> rr_targets r' = (rr_targets r)(name := None)
    \<and> pool_conns (rr_connpool r') name = None
    \<and> (\<forall>t. t \<noteq> name \<longrightarrow> pool_Get (rr_connpool r') t = pool_Get (rr_connpool r) t
        \<and> pr_view (rr_patternRouter r') t = pr_view (rr_patternRouter r) t
        \<and> sr_view (rr_serviceRouter r') t = sr_view (rr_serviceRouter r) t)"
proof -
  let ?pw = "\<lparr>prw_target = name, prw_closed = False\<rparr>" and ?sw = "\<lparr>srw_target = name, srw_closed = False\<rparr>"
  have w: "ts_patternWatcher ts = ?pw" "ts_serviceWatcher ts = ?sw" using rr_invD(9,10)[OF inv ts] by auto
  obtain pr where pr: "prw_Close ?pw (rr_patternRouter r) = Some (?pw\<lparr>prw_closed := True\<rparr>, pr)"
    using prw_Close_ok[OF rr_invD(3)[OF inv], of ?pw] by auto
  note prv = prw.close_removes[OF rr_invD(3)[OF inv] pr]
  obtain sw sr where sr: "srw_Close ?sw (rr_serviceRouter r) = Some (sw, sr)"
    using srw.close_open[OF rr_invD(4)[OF inv], of ?sw] by auto
  note srv = srw.close_removes[OF rr_invD(4)[OF inv] sr]
  obtain p where p: "ctl_Close (ts_poolController ts) (rr_connpool r) = Some p" "pool_inv {} p" "pool_conns p name = None"
    "\<forall>t. t \<noteq> name \<longrightarrow> pool_Get p t = pool_Get (rr_connpool r) t"
    using ctl_Close_Get[OF rr_invD(1)[OF inv] rr_invD(11)[OF inv ts]] by blast
  let ?r = "r\<lparr>rr_patternRouter := pr, rr_serviceRouter := sr, rr_connpool := p, rr_targets := (rr_targets r)(name := None)\<rparr>"
  have rem: "rr_Remove name r = Some (True, ?r)"
    using ts pr sr p(1) by (simp add: rr_Remove_def aw_Close_def w)
  have get: "pool_Get p name = None" using p(3) by (simp add: pool_Get_def)
  have "rr_inv rt ?r"
    unfolding rr_inv_def using prv srv p(2,4) get pr_close[OF rr_invD(2)[OF inv] pr] rr_invD(5-)[OF inv] by auto
  then show ?thesis using rem prv srv p by auto
qed

lemma rr_reachable_inv: "rr_reachable rt r \<Longrightarrow> rr_inv rt r"
proof (induction rule: rr_reachable.induct)
  case rr_new
  show ?case by (rule rr_inv_new)
next
  case (rr_add r dial name target nopts res r')
  then show ?case by (metis rr_inv_Add)
next
  case (rr_update r name desc r')
  then show ?case using rr_inv_Update[of rt r name desc] by auto
next
  case (rr_remove r name b r')
  then show ?case
  proof (cases "rr_targets r name")
    case None
    then show ?thesis using rr_remove by (simp add: rr_Remove_def)
  next
    case (Some ts)
    then show ?thesis using rr_Remove_present[OF rr_remove.IH Some] rr_remove.hyps(2) by auto
  qed
qed

section \<open>Properties\<close>

lemma sr_route_view:
  assumes "sr_RouteGRPC pool sr rpcName = Inr (conn, route)"
  shows "sr_view sr (target_Name (gr_Target route)) \<noteq> {}"
  using assms by (force simp: sr_RouteGRPC_def sr_view_def Let_def split: option.splits prod.splits if_splits)

lemma ex_add:
  obtains r1 where "rr_Add (\<lambda>_. Inr ()) ''a'' ''x'' 0 (NewReflectionRouter :: (unit, unit) ReflectionRouter) = (Inr True, r1)"
  by (simp add: NewReflectionRouter_def rr_Add_def pool_New_def pool_New_reserve_def pool_New_finish_def
      NewAdaptedClientPool_def pr_Watch_def sr_Watch_def syncset_Add_def NewPatternRouter_def NewServiceRouter_def
      syncset_New_def Let_def)

text \<open>
  In every reachable state of the router, the errors that should never happen do not: adding an
  absent name fails only when the client cannot be created (or options are given), otherwise the
  target is present afterwards; and neither an update nor Remove ever panics in a watcher, a routing
  table or the client pool.
\<close>
theorem rr_no_panics:
  assumes "rr_reachable rt r" and "rr_targets r name = None"
  shows "((\<exists>r'. rr_Add dial name target 0 r = (Inr True, r') \<and> rr_targets r' name \<noteq> None)
      \<or> (\<exists>err r'. rr_Add dial name target 0 r = (Inl (ErrWrap ''creating new gRPC client for target'' err), r')
          \<and> (dial target = Inl err \<or> err = ErrAlreadyDialed)))
    \<and> rr_Update rt t desc r \<noteq> None \<and> rr_Remove t r \<noteq> None"
proof (intro conjI)
  have inv: "rr_inv rt r" by (rule rr_reachable_inv[OF assms(1)])
  obtain pres p where n: "pool_New dial name target (rr_connpool r) = (pres, p)" by fastforce
  have "pres = Inl err \<Longrightarrow> dial target = Inl err \<or> err = ErrAlreadyDialed" for err
    using n by (auto simp: pool_New_def pool_New_reserve_def pool_New_finish_def Let_def split: option.splits sum.splits)
  then show "(\<exists>r'. rr_Add dial name target 0 r = (Inr True, r') \<and> rr_targets r' name \<noteq> None)
      \<or> (\<exists>err r'. rr_Add dial name target 0 r = (Inl (ErrWrap ''creating new gRPC client for target'' err), r')
          \<and> (dial target = Inl err \<or> err = ErrAlreadyDialed))"
    using rr_Add_cases[OF inv assms(2), of dial target] n by (cases pres) auto
  show "rr_Update rt t desc r \<noteq> None" using rr_inv_Update[OF inv, of t desc] by auto
  show "rr_Remove t r \<noteq> None"
    using rr_Remove_present[OF inv, of t] by (cases "rr_targets r t") (auto simp: rr_Remove_def)
qed

theorem rr_no_panics_witness:
  "\<exists>r'. rr_Add (\<lambda>_. Inr ()) ''a'' ''x'' 0 (NewReflectionRouter :: (unit, unit) ReflectionRouter) = (Inr True, r')
    \<and> rr_targets r' ''a'' \<noteq> None"
proof -
  let ?r = "NewReflectionRouter :: (unit, unit) ReflectionRouter"
  obtain r1 where add: "rr_Add (\<lambda>_. Inr ()) ''a'' ''x'' 0 ?r = (Inr True, r1)" by (rule ex_add)
  have "rr_targets ?r ''a'' = None" by (simp add: NewReflectionRouter_def)
  from rr_no_panics[OF rr_new this, of "\<lambda>_. Inr ()" "''x''"] add show ?thesis by auto
qed

text \<open>
  C30. Remove takes the target out of the whole bridge: afterwards neither HTTP nor gRPC requests are
  routed to it, the name can be added again, and the routes and clients of all other targets are
  untouched.
\<close>
theorem rr_Remove_unroutable:
  assumes "rr_reachable rt r" and "rr_Remove name r = Some (True, r')"
  shows "(\<forall>req conn route. rr_RouteHTTP rt r' req = Inr (conn, route) \<longrightarrow> target_Name (hr_Target route) \<noteq> name)
    \<and> (\<forall>rpc conn route. rr_RouteGRPC r' rpc = Inr (conn, route) \<longrightarrow> target_Name (gr_Target route) \<noteq> name)
    \<and> fst (rr_Add (\<lambda>_. Inr conn0) name target 0 r') = Inr True
    \<and> (\<forall>t. t \<noteq> name \<longrightarrow> pool_Get (rr_connpool r') t = pool_Get (rr_connpool r) t
        \<and> pr_view (rr_patternRouter r') t = pr_view (rr_patternRouter r) t
        \<and> sr_view (rr_serviceRouter r') t = sr_view (rr_serviceRouter r) t)"
proof -
  have inv: "rr_inv rt r" by (rule rr_reachable_inv[OF assms(1)])
  obtain ts where "rr_targets r name = Some ts" using assms(2) by (auto simp: rr_Remove_def split: option.splits)
  from rr_Remove_present[OF inv this] assms(2)
  have r': "rr_inv rt r'" "rr_targets r' name = None" "pool_conns (rr_connpool r') name = None"
    and other: "\<forall>t. t \<noteq> name \<longrightarrow> pool_Get (rr_connpool r') t = pool_Get (rr_connpool r) t
        \<and> pr_view (rr_patternRouter r') t = pr_view (rr_patternRouter r) t
        \<and> sr_view (rr_serviceRouter r') t = sr_view (rr_serviceRouter r) t" by auto
  note gone = rr_invD(7,8)[OF r'(1,2)]
  have "fst (rr_Add (\<lambda>_. Inr conn0) name target 0 r') = Inr True"
    using rr_Add_cases[OF r'(1,2), of "\<lambda>_. Inr conn0" target] r'(3)
    by (auto simp: pool_New_def pool_New_reserve_def pool_New_finish_def Let_def)
  then show ?thesis
    using other gone pr_route_view[OF rr_invD(3)[OF r'(1)]] sr_route_view unfolding rr_RouteHTTP_def rr_RouteGRPC_def by metis
qed

theorem rr_Remove_unroutable_witness:
  "\<exists>r'. rr_Remove ''a'' (snd (rr_Add (\<lambda>_. Inr ()) ''a'' ''x'' 0 (NewReflectionRouter :: (unit, unit) ReflectionRouter))) = Some (True, r')
    \<and> fst (rr_Add (\<lambda>_. Inr ()) ''a'' ''x'' 0 r') = Inr True"
proof -
  let ?r = "NewReflectionRouter :: (unit, unit) ReflectionRouter"
  obtain r1 where add: "rr_Add (\<lambda>_. Inr ()) ''a'' ''x'' 0 ?r = (Inr True, r1)" by (rule ex_add)
  have reach: "rr_reachable rt r1" for rt by (rule rr_add[OF rr_new add])
  have free: "rr_targets ?r ''a'' = None" by (simp add: NewReflectionRouter_def)
  have "rr_targets r1 ''a'' \<noteq> None"
    using rr_Add_cases[OF rr_inv_new free, of "\<lambda>_. Inr ()" "''x''"] add by (auto split: prod.splits sum.splits)
  then obtain r' where "rr_Remove ''a'' r1 = Some (True, r')" using rr_Remove_present[OF rr_reachable_inv[OF reach]] by blast
  from rr_Remove_unroutable[OF reach this, where ?conn0.0 = "()" and target = "''x''"] this add show ?thesis by simp
qed

text \<open>
  A target whose client cannot be created is lost for the life of the router: the failed Add leaves
  its name in the client pool, so every later Add of that name fails with ErrAlreadyDialed, even when
  dialling would work by then, and Remove reports the target as absent and frees nothing.
\<close>
theorem rr_Add_failure_is_permanent:
  assumes "rr_reachable rt r" and "rr_targets r name = None" and "pool_conns (rr_connpool r) name = None"
    and "dial target = Inl err" and "rr_Add dial name target 0 r = (res, r')"
  shows "res = Inl (ErrWrap ''creating new gRPC client for target'' err)
    \<and> rr_Remove name r' = Some (False, r')
    \<and> rr_Add dial' name target' 0 r' = (Inl (ErrWrap ''creating new gRPC client for target'' ErrAlreadyDialed), r')"
proof -
  have inv: "rr_inv rt r" by (rule rr_reachable_inv[OF assms(1)])
  obtain p where n: "pool_New dial name target (rr_connpool r) = (Inl err, p)" "pool_conns p name \<noteq> None"
    using assms(3,4) by (auto simp: pool_New_def pool_New_reserve_def pool_New_finish_def Let_def)
  have r': "res = Inl (ErrWrap ''creating new gRPC client for target'' err)" "r' = r\<lparr>rr_connpool := p\<rparr>"
    using rr_Add_cases[OF inv assms(2), of dial target] n assms(5) by auto
  have inv': "rr_inv rt r'" by (rule rr_inv_Add[OF inv assms(5)])
  have "pool_New dial' name target' (rr_connpool r') = (Inl ErrAlreadyDialed, rr_connpool r')"
    using n(2) by (auto simp: r' pool_New_def pool_New_reserve_def)
  then show ?thesis using r' assms(2) rr_Add_cases[OF inv', of name dial' target'] by (simp add: rr_Remove_def)
qed

theorem rr_Add_failure_is_permanent_witness:
  "\<exists>r'. rr_Add (\<lambda>_. Inl (ErrMsg ''down'')) ''a'' ''x'' 0 (NewReflectionRouter :: (unit, unit) ReflectionRouter)
      = (Inl (ErrWrap ''creating new gRPC client for target'' (ErrMsg ''down'')), r')
    \<and> rr_Add (\<lambda>_. Inr ()) ''a'' ''x'' 0 r' = (Inl (ErrWrap ''creating new gRPC client for target'' ErrAlreadyDialed), r')"
proof -
  let ?r = "NewReflectionRouter :: (unit, unit) ReflectionRouter"
  obtain res r1 where add: "rr_Add (\<lambda>_. Inl (ErrMsg ''down'')) ''a'' ''x'' 0 ?r = (res, r1)" by fastforce
  have "rr_targets ?r ''a'' = None" "pool_conns (rr_connpool ?r) ''a'' = None"
    by (simp_all add: NewReflectionRouter_def NewAdaptedClientPool_def)
  from rr_Add_failure_is_permanent[OF rr_new this _ add, of "ErrMsg ''down''" "\<lambda>_. Inr ()" "''x''"] add
  show ?thesis by auto
qed

end
