(* ===== verification/Watcher_Race.thy ===== *)
theory Watcher_Race
  imports Service_Router
begin

text \<open>
  The watcher of routing/service_router.go under concurrency. UpdateDesc first loads the closed flag and
  only later, under the router's mutex, applies the description; Close first sets the flag and then,
  under the mutex, removes the routes. The resolver's goroutine calls UpdateDesc while Remove calls
  Close, so the two interleave, and so do the watchers of other targets. The PatternRouterWatcher is
  written the same way.
\<close>

section \<open>Steps\<close>

text \<open>How far Close has come: the flag is set, the routes are removed.\<close>

datatype close_pc = NotClosing | Flagged | Removed

record race_state =
  ra_watcher :: ServiceRouterWatcher
  ra_router :: ServiceRouter
  ra_pending :: "Target option"
  ra_closing :: close_pc

text \<open>The guards of UpdateDesc, and its update of the table.\<close>

definition ra_check :: "Target \<Rightarrow> race_state \<Rightarrow> race_state option" where
  "ra_check desc s =
     (if ra_pending s \<noteq> None then None
      else if srw_closed (ra_watcher s) then Some s
      else if target_Name desc \<noteq> srw_target (ra_watcher s) then Some s
      else Some (s\<lparr>ra_pending := Some desc\<rparr>))"

definition ra_apply :: "race_state \<Rightarrow> race_state option" where
  "ra_apply s =
     (case ra_pending s of
        None \<Rightarrow> None
      | Some desc \<Rightarrow> Some (s\<lparr>ra_router := sr_updateRoutes desc (ra_router s), ra_pending := None\<rparr>))"

text \<open>The compare-and-swap of Close, its removal of the routes, and its release of the target's name.\<close>

definition ra_close :: "race_state \<Rightarrow> race_state option" where
  "ra_close s =
     (if srw_closed (ra_watcher s) then None
      else Some (s\<lparr>ra_watcher := (ra_watcher s)\<lparr>srw_closed := True\<rparr>, ra_closing := Flagged\<rparr>))"

definition ra_remove :: "race_state \<Rightarrow> race_state option" where
  "ra_remove s =
     (if ra_closing s = Flagged
      then Some (s\<lparr>ra_router := sr_removeTarget (srw_target (ra_watcher s)) (ra_router s), ra_closing := Removed\<rparr>)
      else None)"

definition ra_free :: "race_state \<Rightarrow> race_state option" where
  "ra_free s =
     (if ra_closing s = Removed
      then Some (s\<lparr>ra_router := (ra_router s)\<lparr>sr_watcherSet :=
             snd (syncset_Remove (srw_target (ra_watcher s)) (sr_watcherSet (ra_router s)))\<rparr>, ra_closing := NotClosing\<rparr>)
      else None)"

text \<open>What the watchers of other targets do to the router.\<close>

inductive ra_other :: "string \<Rightarrow> ServiceRouter \<Rightarrow> ServiceRouter \<Rightarrow> bool" for t sr where
  "target_Name desc \<noteq> t \<Longrightarrow> ra_other t sr (sr_updateRoutes desc sr)"
| "t' \<noteq> t \<Longrightarrow> ra_other t sr (sr_removeTarget t' sr)"
| "t' \<noteq> t \<Longrightarrow> ra_other t sr (sr\<lparr>sr_watcherSet := snd (syncset_Remove t' (sr_watcherSet sr))\<rparr>)"
| "t' \<noteq> t \<Longrightarrow> sr_Watch t' sr = Some (w, sr') \<Longrightarrow> ra_other t sr sr'"

inductive ra_step :: "race_state \<Rightarrow> race_state \<Rightarrow> bool" where
  ras_check: "ra_check desc s = Some s' \<Longrightarrow> ra_step s s'"
| ras_apply: "ra_apply s = Some s' \<Longrightarrow> ra_step s s'"
| ras_close: "ra_close s = Some s' \<Longrightarrow> ra_step s s'"
| ras_remove: "ra_remove s = Some s' \<Longrightarrow> ra_step s s'"
| ras_free: "ra_free s = Some s' \<Longrightarrow> ra_step s s'"
| ras_other: "ra_other (srw_target (ra_watcher s)) (ra_router s) sr \<Longrightarrow> ra_step s (s\<lparr>ra_router := sr\<rparr>)"

text \<open>Without interference the halves make up the operations of the sequential model.\<close>

lemma ra_update_sequential:
  assumes "ra_pending s = None"
  shows "\<exists>s1. ra_check desc s = Some s1
    \<and> (ra_pending s1 = None \<longrightarrow> srw_UpdateDesc (ra_watcher s) desc (ra_router s) = ra_router s1)
    \<and> (ra_pending s1 \<noteq> None \<longrightarrow> (\<exists>s2. ra_apply s1 = Some s2 \<and> ra_router s2 = srw_UpdateDesc (ra_watcher s) desc (ra_router s)))"
  using assms by (auto simp: ra_check_def ra_apply_def srw_UpdateDesc_def)

lemma ra_close_sequential:
  assumes "ra_close s = Some s1" and "ra_remove s1 = Some s2" and "ra_free s2 = Some s3"
  shows "srw_Close (ra_watcher s) (ra_router s) = Some (ra_watcher s3, ra_router s3)"
  using assms by (auto simp: ra_close_def ra_remove_def ra_free_def srw_Close_def Let_def split: if_splits)

section \<open>Invariants\<close>

lemma ra_other_ok:
  assumes "ra_other t sr sr'" and "sr_inv sr"
  shows "sr_inv sr' \<and> sr_view sr' t = sr_view sr t \<and> (t \<in> sr_watcherSet sr' \<longleftrightarrow> t \<in> sr_watcherSet sr)"
  using assms
  by (cases rule: ra_other.cases)
    (auto simp: sr_updateRoutes_inv sr_removeTarget_inv sr_view_update_other sr_view_remove syncset_Remove_def
       sr_Watch_def syncset_Add_def split: if_splits)

text \<open>A watcher of \<open>t\<close> that is open, with nothing under way, over any router.\<close>

definition ra_open :: "string \<Rightarrow> ServiceRouter \<Rightarrow> race_state" where
  "ra_open t sr = \<lparr>ra_watcher = \<lparr>srw_target = t, srw_closed = False\<rparr>, ra_router = sr, ra_pending = None, ra_closing = NotClosing\<rparr>"

definition ra_inv :: "string \<Rightarrow> race_state \<Rightarrow> bool" where
  "ra_inv t s \<longleftrightarrow> sr_inv (ra_router s) \<and> srw_target (ra_watcher s) = t
   \<and> (\<forall>desc. ra_pending s = Some desc \<longrightarrow> target_Name desc = t)
   \<and> (ra_closing s \<noteq> NotClosing \<longrightarrow> srw_closed (ra_watcher s))"

lemma ra_inv_step: "ra_step s s' \<Longrightarrow> ra_inv t s \<Longrightarrow> ra_inv t s'"
proof (induction rule: ra_step.induct)
  case (ras_other s sr)
  then show ?case using ra_other_ok by (simp add: ra_inv_def)
qed (auto simp: ra_inv_def ra_check_def ra_apply_def ra_close_def ra_remove_def ra_free_def sr_updateRoutes_inv sr_removeTarget_inv
    split: if_splits option.splits)

lemma ra_inv_steps: "ra_step\<^sup>*\<^sup>* s s' \<Longrightarrow> ra_inv t s \<Longrightarrow> ra_inv t s'"
  by (induction rule: rtranclp_induct) (auto intro: ra_inv_step)

text \<open>
  After the removal: the only routes of the target are of services in \<open>left\<close>, those of the description that was
  on its way then.
\<close>

definition in_flight :: "race_state \<Rightarrow> string set" where
  "in_flight s = (case ra_pending s of None \<Rightarrow> {} | Some desc \<Rightarrow> service_Name ` set (Services desc))"

definition ra_removed :: "string \<Rightarrow> string set \<Rightarrow> race_state \<Rightarrow> bool" where
  "ra_removed t left s \<longleftrightarrow> srw_closed (ra_watcher s) \<and> ra_closing s \<noteq> Flagged
   \<and> (ra_closing s = NotClosing \<longrightarrow> t \<notin> sr_watcherSet (ra_router s))
   \<and> in_flight s \<subseteq> left \<and> fst ` sr_view (ra_router s) t \<subseteq> left"

lemma sr_view_update_services:
  assumes "sr_inv sr"
  shows "fst ` sr_view (sr_updateRoutes desc sr) (target_Name desc) \<subseteq> service_Name ` set (Services desc)"
proof
  fix svc assume "svc \<in> fst ` sr_view (sr_updateRoutes desc sr) (target_Name desc)"
  then have "sr_owner (sr_routes (sr_updateRoutes desc sr)) svc = Some (target_Name desc)"
    by (auto simp: sr_view_def sr_owner_def)
  then show "svc \<in> service_Name ` set (Services desc)"
    using fun_cong[OF sr_updateRoutes_owner(1)[OF assms, of desc], of svc] by (auto simp: sr_claimable_def split: if_splits)
qed

lemma ra_removed_step: "ra_step s s' \<Longrightarrow> ra_inv t s \<Longrightarrow> ra_removed t left s \<Longrightarrow> ra_removed t left s'"
proof (induction rule: ra_step.induct)
  case (ras_apply s s')
  then obtain desc where d: "ra_pending s = Some desc" "target_Name desc = t" "sr_inv (ra_router s)"
    "s' = s\<lparr>ra_router := sr_updateRoutes desc (ra_router s), ra_pending := None\<rparr>"
    by (auto simp: ra_apply_def ra_inv_def split: option.splits)
  have "fst ` sr_view (sr_updateRoutes desc (ra_router s)) t \<subseteq> left"
    using subset_trans[OF sr_view_update_services[OF d(3), of desc]] ras_apply.prems(2) d(1,2)
    by (simp add: ra_removed_def in_flight_def)
  then show ?case using ras_apply.prems(2) d(4) by (simp add: ra_removed_def in_flight_def)
next
  case (ras_other s sr)
  then have "sr_inv (ra_router s)" "srw_target (ra_watcher s) = t" by (simp_all add: ra_inv_def)
  then show ?case using ra_other_ok[of t "ra_router s" sr] ras_other by (simp add: ra_removed_def in_flight_def)
next
  case (ras_free s s')
  then have "s' = s\<lparr>ra_router := (ra_router s)\<lparr>sr_watcherSet := sr_watcherSet (ra_router s) - {t}\<rparr>, ra_closing := NotClosing\<rparr>"
    by (auto simp: ra_free_def ra_inv_def syncset_Remove_def split: if_splits)
  then show ?case using ras_free.prems(2) by (simp add: ra_removed_def in_flight_def)
qed (auto simp: ra_removed_def ra_inv_def in_flight_def ra_check_def ra_close_def ra_remove_def ra_free_def syncset_Remove_def
    split: if_splits)

lemma ra_removed_steps:
  "ra_step\<^sup>*\<^sup>* s s' \<Longrightarrow> ra_inv t s \<Longrightarrow> ra_removed t left s \<Longrightarrow> ra_removed t left s'"
proof (induction rule: rtranclp_induct)
  case (step y z)
  then show ?case using ra_removed_step ra_inv_steps by blast
qed simp

section \<open>Properties\<close>

text \<open>
  C17. Closing a watcher of the ServiceRouter, interleaved with the updates that come through it and with
  the watchers of other targets. The removal of the routes leaves the routes of all other targets as they
  are; from then on, and until the target is watched again, the only routes of the target that can appear
  are for services of the description whose UpdateDesc had passed the check of the closed flag and not yet
  reached the table when the routes were removed, and when there was none of these the target has no route
  at all. Once Close has returned the target can be watched again.
\<close>
theorem ra_Close_effect:
  assumes "sr_inv sr" and "ra_step\<^sup>*\<^sup>* (ra_open t sr) s" and "ra_remove s = Some s1" and "ra_step\<^sup>*\<^sup>* s1 s2"
  shows "(\<forall>t'. t' \<noteq> t \<longrightarrow> sr_view (ra_router s1) t' = sr_view (ra_router s) t')
    \<and> fst ` sr_view (ra_router s2) t \<subseteq> (case ra_pending s of None \<Rightarrow> {} | Some desc \<Rightarrow> service_Name ` set (Services desc))
    \<and> (ra_closing s2 = NotClosing \<longrightarrow> (\<exists>w sr2. sr_Watch t (ra_router s2) = Some (w, sr2) \<and> \<not> srw_closed w))"
proof -
  have "ra_inv t (ra_open t sr)" using assms(1) by (simp add: ra_inv_def ra_open_def)
  then have i: "ra_inv t s" by (rule ra_inv_steps[OF assms(2)])
  then have sr: "sr_inv (ra_router s)" and w: "srw_target (ra_watcher s) = t" "srw_closed (ra_watcher s)"
    and s1: "s1 = s\<lparr>ra_router := sr_removeTarget t (ra_router s), ra_closing := Removed\<rparr>"
    using assms(3) by (auto simp: ra_inv_def ra_remove_def split: if_splits)
  have "ra_removed t (in_flight s) s1" using w sr by (simp add: s1 ra_removed_def in_flight_def sr_view_remove)
  with assms(4) have "ra_removed t (in_flight s) s2"
    by (rule ra_removed_steps[OF _ ra_inv_step[OF ras_remove[OF assms(3)] i]])
  then show ?thesis using sr by (auto simp: s1 sr_view_remove ra_removed_def in_flight_def sr_Watch_def syncset_Add_def)
qed

lemma fst_image_empty: "fst ` A \<subseteq> {} \<Longrightarrow> A = {}"
  by auto

theorem ra_Close_effect_witness:
  "\<exists>s2. ra_step\<^sup>*\<^sup>* (ra_open ''a'' (sr_updateRoutes \<lparr>target_Name = ''a'', Services = [\<lparr>service_Name = ''S'', Methods = []\<rparr>]\<rparr> NewServiceRouter)) s2
     \<and> ra_closing s2 = NotClosing \<and> sr_view (ra_router s2) ''a'' = {}"
proof -
  let ?sr = "sr_updateRoutes \<lparr>target_Name = ''a'', Services = [\<lparr>service_Name = ''S'', Methods = []\<rparr>]\<rparr> NewServiceRouter"
  let ?s0 = "ra_open ''a'' ?sr"
  obtain s s1 s2 where run: "ra_close ?s0 = Some s" "ra_remove s = Some s1" "ra_free s1 = Some s2"
    and s: "ra_pending s = None" "ra_closing s2 = NotClosing"
    by (simp add: ra_close_def ra_remove_def ra_free_def ra_open_def)
  have r: "ra_step\<^sup>*\<^sup>* ?s0 s" "ra_step\<^sup>*\<^sup>* s1 s2" and all: "ra_step\<^sup>*\<^sup>* ?s0 s2"
    using ras_close[OF run(1)] ras_remove[OF run(2)] ras_free[OF run(3)] by (meson converse_rtranclp_into_rtranclp rtranclp.rtrancl_refl)+
  have "sr_view (ra_router s2) ''a'' = {}"
    by (rule fst_image_empty) (use ra_Close_effect[OF sr_updateRoutes_inv[OF sr_inv_New] r(1) run(2) r(2)] s(1) in simp)
  then show ?thesis using all s(2) by blast
qed

definition ra_start :: "Target \<Rightarrow> race_state" where
  "ra_start desc = \<lparr>ra_watcher = \<lparr>srw_target = target_Name desc, srw_closed = False\<rparr>,
     ra_router = NewServiceRouter\<lparr>sr_watcherSet := {target_Name desc}\<rparr>, ra_pending = None, ra_closing = NotClosing\<rparr>"

lemma sr_updateRoutes_claims:
  assumes "sr_inv sr" and "svc \<in> service_Name ` set (Services desc)" and "sr_owner (sr_routes sr) svc = None"
  shows "sr_owner (sr_routes (sr_updateRoutes desc sr)) svc = Some (target_Name desc)"
  using assms by (simp add: sr_updateRoutes_owner sr_claimable_def)

text \<open>
  Close does not wait for an update that has passed its closed check. In that interleaving the
  router is left with routes of a target that is no longer watched: every service of the description
  still belongs to the removed target once both calls have returned, and no update of another target
  can ever claim it, so requests for it keep failing.
\<close>
theorem ra_stale_after_close:
  assumes "svc \<in> service_Name ` set (Services desc)"
  shows "\<exists>s. ra_step\<^sup>*\<^sup>* (ra_start desc) s \<and> ra_pending s = None \<and> ra_closing s = NotClosing
    \<and> srw_closed (ra_watcher s) \<and> target_Name desc \<notin> sr_watcherSet (ra_router s)
    \<and> sr_owner (sr_routes (ra_router s)) svc = Some (target_Name desc)
    \<and> (\<forall>d. target_Name d \<noteq> target_Name desc \<longrightarrow>
        sr_owner (sr_routes (sr_updateRoutes d (ra_router s))) svc = Some (target_Name desc))"
proof -
  let ?t = "target_Name desc"
  let ?w = "\<lparr>srw_target = ?t, srw_closed = True\<rparr>"
  let ?sr0 = "NewServiceRouter\<lparr>sr_watcherSet := {?t}\<rparr>"
  define sr1 where "sr1 = (sr_removeTarget ?t ?sr0)\<lparr>sr_watcherSet := {}\<rparr>"
  let ?s = "\<lambda>w sr p c. \<lparr>ra_watcher = w, ra_router = sr, ra_pending = p, ra_closing = c\<rparr>"
  have 1: "ra_step (ra_start desc) (?s (?w\<lparr>srw_closed := False\<rparr>) ?sr0 (Some desc) NotClosing)"
    by (rule ras_check[of desc]) (simp add: ra_check_def ra_start_def)
  have 2: "ra_step (?s (?w\<lparr>srw_closed := False\<rparr>) ?sr0 (Some desc) NotClosing) (?s ?w ?sr0 (Some desc) Flagged)"
    by (rule ras_close) (simp add: ra_close_def)
  have 3: "ra_step (?s ?w ?sr0 (Some desc) Flagged) (?s ?w (sr_removeTarget ?t ?sr0) (Some desc) Removed)"
    by (rule ras_remove) (simp add: ra_remove_def)
  have 4: "ra_step (?s ?w (sr_removeTarget ?t ?sr0) (Some desc) Removed) (?s ?w sr1 (Some desc) NotClosing)"
    by (rule ras_free) (simp add: ra_free_def sr1_def syncset_Remove_def)
  have 5: "ra_step (?s ?w sr1 (Some desc) NotClosing) (?s ?w (sr_updateRoutes desc sr1) None NotClosing)"
    by (rule ras_apply) (simp add: ra_apply_def)
  have run: "ra_step\<^sup>*\<^sup>* (ra_start desc) (?s ?w (sr_updateRoutes desc sr1) None NotClosing)"
    using 1 2 3 4 5 by (meson converse_rtranclp_into_rtranclp rtranclp.rtrancl_refl)
  have inv: "sr_inv sr1" unfolding sr1_def using sr_removeTarget_inv[of ?sr0 ?t] sr_inv_New by simp
  have free: "sr_owner (sr_routes sr1) svc = None"
    by (simp add: sr1_def sr_removeTarget_def NewServiceRouter_def slice_def sr_owner_def)
  note own = sr_updateRoutes_claims[OF inv assms free]
  have "sr_owner (sr_routes (sr_updateRoutes d (sr_updateRoutes desc sr1))) svc = Some ?t" if "target_Name d \<noteq> ?t" for d
    using fun_cong[OF sr_updateRoutes_owner(1)[OF sr_updateRoutes_inv[OF inv, of desc], of d], of svc] own that
    by (auto simp: sr_claimable_def split: if_splits option.splits)
  moreover have "?t \<notin> sr_watcherSet (sr_updateRoutes desc sr1)" by (simp add: sr1_def)
  ultimately show ?thesis
    using run own by (intro exI[of _ "?s ?w (sr_updateRoutes desc sr1) None NotClosing"]) simp
qed

theorem ra_stale_after_close_witness:
  "\<exists>s. ra_step\<^sup>*\<^sup>* (ra_start \<lparr>target_Name = ''a'', Services = [\<lparr>service_Name = ''S'', Methods = []\<rparr>]\<rparr>) s
    \<and> srw_closed (ra_watcher s) \<and> sr_owner (sr_routes (ra_router s)) ''S'' = Some ''a''"
  using ra_stale_after_close[of "''S''" "\<lparr>target_Name = ''a'', Services = [\<lparr>service_Name = ''S'', Methods = []\<rparr>]\<rparr>"] by auto

end
