(* ===== verification/Reflection_Client.thy ===== *)
theory Reflection_Client
  imports Client_Pool
begin

text \<open>
  The reflection client of reflection/client.go. A call on the stream is given by its result. The two
  goroutines of execFileDescriptorRequests and the loop that waits for both take steps in any
  interleaving; the semaphore is the number of tokens in the buffered channel.
\<close>

section \<open>Connecting and closing\<close>

record 'stream refl_client =
  rcl_stream :: "'stream AdaptedClientStream"
  rcl_timeout :: int

text \<open>\<open>open_stream\<close> is Stream of the connection, bounded by the timeout.\<close>

definition connectClient :: "int \<Rightarrow> (int \<Rightarrow> string \<Rightarrow> go_error + 'stream AdaptedClientStream) \<Rightarrow> string \<Rightarrow> go_error + 'stream refl_client" where
  "connectClient timeout open_stream meth =
     (case open_stream timeout meth of
        Inl err \<Rightarrow> Inl (ErrWrap ''establishing reflection stream'' err)
      | Inr st \<Rightarrow> Inr \<lparr>rcl_stream = st, rcl_timeout = timeout\<rparr>)"

text \<open>
  close: CloseSend, which the adapter's state does not see, a Recv with the timeout whose result is dropped,
  and Close of the stream. \<open>None\<close> is the panic of a Recv beside another one.
\<close>

definition rc_close :: "go_error option ctx_outcome \<Rightarrow> 'stream refl_client \<Rightarrow> 'stream refl_client option" where
  "rc_close outcome c =
     (case acs_Recv_begin (rcl_stream c) of
        None \<Rightarrow> None
      | Some st \<Rightarrow>
          let (err, st) = acs_Recv_end outcome st
          in Some (c\<lparr>rcl_stream := acs_Close st\<rparr>))"

lemma rc_close_closes:
  assumes "\<not> acs_recvActive (rcl_stream c)"
  shows "\<exists>c'. rc_close outcome c = Some c' \<and> acs_closed (rcl_stream c') \<and> \<not> acs_recvActive (rcl_stream c')"
  using assms
  by (cases outcome) (simp_all add: rc_close_def acs_Recv_begin_def acs_Recv_end_def acs_withCtx_def acs_Close_def)

section \<open>Responses\<close>

text \<open>The oneof of a ServerReflectionResponse, as far as the client tells its cases apart.\<close>

datatype refl_response =
    ListServicesResponse "string list"
  | FileDescriptorResponse "string list"
  | ErrorResponse code string
  | OtherResponse

definition rc_recv :: "go_error + refl_response \<Rightarrow> go_error + refl_response" where
  "rc_recv res =
     (case res of
        Inl err \<Rightarrow> Inl err
      | Inr (ErrorResponse c msg) \<Rightarrow> Inl (ErrWrap ''ErrorResponse with status'' (ErrStatus c msg))
      | Inr r \<Rightarrow> Inr r)"

definition rc_listServiceNames :: "go_error option \<Rightarrow> go_error + refl_response \<Rightarrow> go_error + string list" where
  "rc_listServiceNames send_res recv_res =
     (let isEOF = (case send_res of None \<Rightarrow> False | Some e \<Rightarrow> is_EOF e)
      in case send_res of
           Some err \<Rightarrow>
             if \<not> isEOF then Inl (ErrWrap ''sending ListServices request'' err)
             else (case rc_recv recv_res of
                     Inl err \<Rightarrow> Inl (ErrWrap ''receiving response to ListServices request'' err)
                   | Inr _ \<Rightarrow> Inl (ErrMsg ''misbehaving ClientStream, Recv returned nil error after getting io.EOF from Send''))
         | None \<Rightarrow>
             (case rc_recv recv_res of
                Inl err \<Rightarrow> Inl (ErrWrap ''receiving response to ListServices request'' err)
              | Inr (ListServicesResponse names) \<Rightarrow> Inr names
              | Inr _ \<Rightarrow> Inl (ErrMsg ''received response to different request instead of ListServices'')))"

section \<open>The requests for file descriptors\<close>

datatype refl_request = FileContainingSymbol string | FileByFilename string

definition symbol_requests :: "string list \<Rightarrow> refl_request list" where
  "symbol_requests names = map FileContainingSymbol names"

definition filename_requests :: "string list \<Rightarrow> refl_request list" where
  "filename_requests names = map FileByFilename names"

datatype ex_result = Waiting nat | Returned "go_error + string list"

text \<open>
  \<open>ex_todo\<close> are the requests not sent yet, \<open>ex_files\<close> what the receiver has appended, \<open>ex_i\<close> its loop
  index; \<open>ex_token\<close> tells that it has passed the barrier. A finished goroutine has its error in its
  channel, and \<open>Waiting n\<close> counts the signals already taken.
\<close>

record exec_state =
  ex_todo :: "refl_request list"
  ex_sent :: "refl_request list"
  ex_semaphore :: nat
  ex_sendErr :: "go_error option option"
  ex_sendTaken :: bool
  ex_i :: nat
  ex_token :: bool
  ex_files :: "string list"
  ex_recvErr :: "go_error option option"
  ex_recvTaken :: bool
  ex_cancelled :: bool
  ex_main :: ex_result

definition ex_init :: "refl_request list \<Rightarrow> exec_state" where
  "ex_init reqs =
     \<lparr>ex_todo = reqs, ex_sent = [], ex_semaphore = 0, ex_sendErr = None, ex_sendTaken = False,
      ex_i = 0, ex_token = False, ex_files = [], ex_recvErr = None, ex_recvTaken = False, ex_cancelled = False,
      ex_main = (if reqs = [] then Returned (Inr []) else Waiting 0)\<rparr>"

text \<open>fileDescriptorsRequester: send a request and release a token, or end.\<close>

definition ex_send :: "go_error option \<Rightarrow> exec_state \<Rightarrow> exec_state option" where
  "ex_send res s =
     (if ex_sendErr s \<noteq> None then None
      else case ex_todo s of
             [] \<Rightarrow> Some (s\<lparr>ex_sendErr := Some None\<rparr>)
           | req # reqs \<Rightarrow>
               (case res of
                  Some err \<Rightarrow> Some (s\<lparr>ex_sendErr := Some (Some (ErrWrap ''sending request'' err))\<rparr>)
                | None \<Rightarrow> Some (s\<lparr>ex_todo := reqs, ex_sent := ex_sent s @ [req], ex_semaphore := Suc (ex_semaphore s)\<rparr>)))"

text \<open>fileDescriptorsReceiver: the barrier, then Recv and the check of the response.\<close>

definition ex_barrier :: "nat \<Rightarrow> exec_state \<Rightarrow> exec_state option" where
  "ex_barrier n s =
     (if ex_recvErr s \<noteq> None \<or> ex_token s then None
      else if ex_i s = n then Some (s\<lparr>ex_recvErr := Some None\<rparr>)
      else if ex_semaphore s > 0 then Some (s\<lparr>ex_semaphore := ex_semaphore s - 1, ex_token := True\<rparr>)
      else None)"

definition ex_barrier_cancelled :: "nat \<Rightarrow> exec_state \<Rightarrow> exec_state option" where
  "ex_barrier_cancelled n s =
     (if ex_recvErr s \<noteq> None \<or> ex_token s \<or> ex_i s = n \<or> \<not> ex_cancelled s then None
      else Some (s\<lparr>ex_recvErr := Some (Some ErrCtxCanceled)\<rparr>))"

definition ex_recv :: "go_error + refl_response \<Rightarrow> exec_state \<Rightarrow> exec_state option" where
  "ex_recv res s =
     (if ex_recvErr s \<noteq> None \<or> \<not> ex_token s then None
      else case rc_recv res of
             Inl err \<Rightarrow> Some (s\<lparr>ex_recvErr := Some (Some (ErrWrap ''receiving response'' err))\<rparr>)
           | Inr (FileDescriptorResponse files) \<Rightarrow>
               Some (s\<lparr>ex_files := ex_files s @ files, ex_i := Suc (ex_i s), ex_token := False\<rparr>)
           | Inr _ \<Rightarrow> Some (s\<lparr>ex_recvErr := Some (Some (ErrMsg ''received response to different request''))\<rparr>))"

text \<open>The loop over the two signals; the return cancels the context of both goroutines.\<close>

definition ex_take :: "go_error option \<Rightarrow> exec_state \<Rightarrow> exec_state" where
  "ex_take err s =
     (case (err, ex_main s) of
        (Some e, _) \<Rightarrow> s\<lparr>ex_main := Returned (Inl e), ex_cancelled := True\<rparr>
      | (None, Waiting n) \<Rightarrow>
          if n = 0 then s\<lparr>ex_main := Waiting 1\<rparr>
          else s\<lparr>ex_main := Returned (Inr (ex_files s)), ex_cancelled := True\<rparr>
      | (None, Returned r) \<Rightarrow> s)"

definition ex_take_send :: "exec_state \<Rightarrow> exec_state option" where
  "ex_take_send s =
     (case (ex_main s, ex_sendErr s) of
        (Waiting n, Some err) \<Rightarrow> if ex_sendTaken s then None else Some (ex_take err (s\<lparr>ex_sendTaken := True\<rparr>))
      | _ \<Rightarrow> None)"

definition ex_take_recv :: "exec_state \<Rightarrow> exec_state option" where
  "ex_take_recv s =
     (case (ex_main s, ex_recvErr s) of
        (Waiting n, Some err) \<Rightarrow> if ex_recvTaken s then None else Some (ex_take err (s\<lparr>ex_recvTaken := True\<rparr>))
      | _ \<Rightarrow> None)"

text \<open>
  The step is labelled with the result of Recv it has got, if it is one of the receiver's, so that a run has
  the list of these results beside the state of the program.
\<close>

inductive ex_step :: "nat \<Rightarrow> exec_state \<Rightarrow> (go_error + refl_response) list \<Rightarrow> exec_state \<Rightarrow> bool" for n where
  ex_s_send: "ex_send r s = Some s' \<Longrightarrow> ex_step n s [] s'"
| ex_s_barrier: "ex_barrier n s = Some s' \<Longrightarrow> ex_step n s [] s'"
| ex_s_cancelled: "ex_barrier_cancelled n s = Some s' \<Longrightarrow> ex_step n s [] s'"
| ex_s_recv: "ex_recv r s = Some s' \<Longrightarrow> ex_step n s [r] s'"
| ex_s_take_send: "ex_take_send s = Some s' \<Longrightarrow> ex_step n s [] s'"
| ex_s_take_recv: "ex_take_recv s = Some s' \<Longrightarrow> ex_step n s [] s'"

inductive ex_reachable :: "refl_request list \<Rightarrow> (go_error + refl_response) list \<Rightarrow> exec_state \<Rightarrow> bool" for reqs where
  ex_start: "ex_reachable reqs [] (ex_init reqs)"
| ex_next: "ex_reachable reqs log s \<Longrightarrow> ex_step (length reqs) s l s' \<Longrightarrow> ex_reachable reqs (log @ l) s'"

section \<open>The invariant\<close>

definition ex_inv :: "refl_request list \<Rightarrow> exec_state \<Rightarrow> bool" where
  "ex_inv reqs s \<longleftrightarrow>
     ex_sent s @ ex_todo s = reqs
   \<and> ex_i s + (if ex_token s then 1 else 0) + ex_semaphore s = length (ex_sent s)
   \<and> (ex_sendErr s = Some None \<longrightarrow> ex_todo s = [])
   \<and> (ex_recvErr s = Some None \<longrightarrow> ex_i s = length reqs)
   \<and> (ex_sendTaken s \<longrightarrow> ex_sendErr s \<noteq> None) \<and> (ex_recvTaken s \<longrightarrow> ex_recvErr s \<noteq> None)
   \<and> (case ex_main s of
        Waiting n \<Rightarrow> (ex_sendTaken s \<longrightarrow> ex_sendErr s = Some None) \<and> (ex_recvTaken s \<longrightarrow> ex_recvErr s = Some None)
          \<and> n = (if ex_sendTaken s then 1 else 0) + (if ex_recvTaken s then 1 else 0) \<and> n < 2
      | Returned (Inr files) \<Rightarrow> (reqs = [] \<and> files = []) \<or>
          (ex_sendErr s = Some None \<and> ex_recvErr s = Some None \<and> files = ex_files s)
      | Returned (Inl e) \<Rightarrow> ex_sendErr s = Some (Some e) \<or> ex_recvErr s = Some (Some e))"

lemma ex_inv_init: "ex_inv reqs (ex_init reqs)"
  by (auto simp: ex_inv_def ex_init_def)

lemma ex_inv_step: "ex_step (length reqs) s l s' \<Longrightarrow> ex_inv reqs s \<Longrightarrow> ex_inv reqs s'"
proof (induction rule: ex_step.induct)
  case (ex_s_send r s s')
  then have g: "ex_sendErr s = None" by (auto simp: ex_send_def split: if_splits)
  show ?case
  proof (cases "ex_todo s")
    case Nil
    then have "s' = s\<lparr>ex_sendErr := Some None\<rparr>" using ex_s_send g by (simp add: ex_send_def)
    then show ?thesis using ex_s_send.prems g Nil unfolding ex_inv_def by (cases "ex_main s") (auto split: sum.splits)
  next
    case (Cons req rest)
    then have "(\<exists>err. s' = s\<lparr>ex_sendErr := Some (Some err)\<rparr>)
        \<or> s' = s\<lparr>ex_todo := rest, ex_sent := ex_sent s @ [req], ex_semaphore := Suc (ex_semaphore s)\<rparr>"
      using ex_s_send.hyps g by (auto simp: ex_send_def split: option.splits)
    then show ?thesis
    proof (elim disjE exE)
      fix err assume "s' = s\<lparr>ex_sendErr := Some (Some err)\<rparr>"
      then show ?thesis using ex_s_send.prems g unfolding ex_inv_def by (cases "ex_main s") (auto split: sum.splits)
    next
      assume s': "s' = s\<lparr>ex_todo := rest, ex_sent := ex_sent s @ [req], ex_semaphore := Suc (ex_semaphore s)\<rparr>"
      have "ex_sent s' @ ex_todo s' = ex_sent s @ ex_todo s" "ex_main s' = ex_main s" "ex_sendErr s' = None"
        "length (ex_sent s') = Suc (length (ex_sent s))" using Cons g by (simp_all add: s')
      moreover have "ex_main s \<noteq> Returned (Inr files) \<or> reqs = [] \<and> files = []" for files
        using ex_s_send.prems g by (auto simp: ex_inv_def)
      ultimately show ?thesis using ex_s_send.prems g unfolding ex_inv_def
        by (cases "ex_main s") (simp_all add: s' split: sum.splits)
    qed
  qed
next
  case (ex_s_barrier s s')
  then have g: "ex_recvErr s = None" "\<not> ex_token s" by (auto simp: ex_barrier_def split: if_splits)
  show ?case
  proof (cases "ex_i s = length reqs")
    case True
    then have "s' = s\<lparr>ex_recvErr := Some None\<rparr>" using ex_s_barrier g by (simp add: ex_barrier_def)
    then show ?thesis using ex_s_barrier.prems g True unfolding ex_inv_def by (cases "ex_main s") (auto split: sum.splits)
  next
    case False
    then have "ex_semaphore s > 0" "s' = s\<lparr>ex_semaphore := ex_semaphore s - 1, ex_token := True\<rparr>"
      using ex_s_barrier g by (auto simp: ex_barrier_def split: if_splits)
    then show ?thesis using ex_s_barrier.prems g unfolding ex_inv_def by (cases "ex_main s") (auto split: sum.splits)
  qed
next
  case (ex_s_cancelled s s')
  then have "ex_recvErr s = None" "s' = s\<lparr>ex_recvErr := Some (Some ErrCtxCanceled)\<rparr>"
    by (auto simp: ex_barrier_cancelled_def split: if_splits)
  then show ?case using ex_s_cancelled.prems unfolding ex_inv_def by (cases "ex_main s") (auto split: sum.splits)
next
  case (ex_s_recv r s s')
  then have g: "ex_recvErr s = None" "ex_token s" by (auto simp: ex_recv_def split: if_splits)
  then have "(\<exists>err. s' = s\<lparr>ex_recvErr := Some (Some err)\<rparr>)
      \<or> (\<exists>files. s' = s\<lparr>ex_files := ex_files s @ files, ex_i := Suc (ex_i s), ex_token := False\<rparr>)"
    using ex_s_recv.hyps by (auto simp: ex_recv_def split: sum.splits refl_response.splits)
  then show ?case
  proof (elim disjE exE)
    fix err assume "s' = s\<lparr>ex_recvErr := Some (Some err)\<rparr>"
    then show ?thesis using ex_s_recv.prems g unfolding ex_inv_def by (cases "ex_main s") (auto split: sum.splits)
  next
    fix files assume "s' = s\<lparr>ex_files := ex_files s @ files, ex_i := Suc (ex_i s), ex_token := False\<rparr>"
    then show ?thesis using ex_s_recv.prems g unfolding ex_inv_def by (cases "ex_main s") (auto split: sum.splits)
  qed
next
  case (ex_s_take_send s s')
  then obtain n err where g: "ex_main s = Waiting n" "ex_sendErr s = Some err" "\<not> ex_sendTaken s"
    "s' = ex_take err (s\<lparr>ex_sendTaken := True\<rparr>)"
    by (auto simp: ex_take_send_def split: ex_result.splits option.splits if_splits)
  then show ?case using ex_s_take_send.prems unfolding ex_inv_def ex_take_def
    by (cases err) (auto split: if_splits)
next
  case (ex_s_take_recv s s')
  then obtain n err where g: "ex_main s = Waiting n" "ex_recvErr s = Some err" "\<not> ex_recvTaken s"
    "s' = ex_take err (s\<lparr>ex_recvTaken := True\<rparr>)"
    by (auto simp: ex_take_recv_def split: ex_result.splits option.splits if_splits)
  then show ?case using ex_s_take_recv.prems unfolding ex_inv_def ex_take_def
    by (cases err) (auto split: if_splits)
qed

lemma ex_reachable_inv: "ex_reachable reqs log s \<Longrightarrow> ex_inv reqs s"
  by (induction rule: ex_reachable.induct) (auto intro: ex_inv_init ex_inv_step)

text \<open>
  The receiver's own list against the results of Recv: the files of the responses, one response for each
  round of its loop, and after a round that failed it is done.
\<close>

definition file_response :: "string list \<Rightarrow> go_error + refl_response" where
  "file_response files = Inr (FileDescriptorResponse files)"

definition ex_log_inv :: "(go_error + refl_response) list \<Rightarrow> exec_state \<Rightarrow> bool" where
  "ex_log_inv log s \<longleftrightarrow>
     (\<exists>fss. log = map file_response fss \<and> length fss = ex_i s \<and> ex_files s = concat fss)
   \<or> (\<exists>err. ex_recvErr s = Some (Some err))"

lemma ex_log_inv_init: "ex_log_inv [] (ex_init reqs)"
  by (simp add: ex_log_inv_def ex_init_def)

lemma ex_log_inv_recv:
  assumes s: "ex_recv r s = Some s'" and inv: "ex_log_inv log s"
  shows "ex_log_inv (log @ [r]) s'"
proof -
  have g: "ex_recvErr s = None" using s by (auto simp: ex_recv_def split: if_splits)
  then obtain fss where fss: "log = map file_response fss" "length fss = ex_i s" "ex_files s = concat fss"
    using inv by (auto simp: ex_log_inv_def)
  have "(\<exists>err. ex_recvErr s' = Some (Some err))
      \<or> (\<exists>files. r = file_response files \<and> s' = s\<lparr>ex_files := ex_files s @ files, ex_i := Suc (ex_i s), ex_token := False\<rparr>)"
    using s by (auto simp: ex_recv_def rc_recv_def file_response_def split: sum.splits refl_response.splits if_splits)
  then show ?thesis
  proof (elim disjE exE conjE)
    fix files assume r: "r = file_response files" and s': "s' = s\<lparr>ex_files := ex_files s @ files, ex_i := Suc (ex_i s), ex_token := False\<rparr>"
    have "log @ [r] = map file_response (fss @ [files]) \<and> length (fss @ [files]) = ex_i s' \<and> ex_files s' = concat (fss @ [files])"
      using fss by (simp add: r s')
    then show ?thesis unfolding ex_log_inv_def by blast
  qed (simp add: ex_log_inv_def)
qed

lemma ex_log_inv_frame:
  assumes "ex_i s' = ex_i s" "ex_files s' = ex_files s" "ex_recvErr s' = ex_recvErr s \<or> ex_recvErr s = None" "ex_log_inv log s"
  shows "ex_log_inv log s'"
  using assms by (auto simp: ex_log_inv_def)

lemma ex_take_frame [simp]:
  "ex_i (ex_take e s) = ex_i s" "ex_files (ex_take e s) = ex_files s" "ex_recvErr (ex_take e s) = ex_recvErr s"
  by (simp_all add: ex_take_def split: option.split ex_result.split)

lemma ex_log_inv_step:
  assumes "ex_step n s l s'" "ex_log_inv log s"
  shows "ex_log_inv (log @ l) s'"
  using assms
proof (cases rule: ex_step.cases)
  case (ex_s_recv r)
  then show ?thesis using ex_log_inv_recv[OF _ assms(2)] by simp
qed (auto intro!: ex_log_inv_frame[OF _ _ _ assms(2)]
      simp: ex_send_def ex_barrier_def ex_barrier_cancelled_def ex_take_send_def ex_take_recv_def
      split: if_splits list.splits option.splits ex_result.splits)

lemma ex_reachable_log: "ex_reachable reqs log s \<Longrightarrow> ex_log_inv log s"
  by (induction rule: ex_reachable.induct) (auto intro: ex_log_inv_init ex_log_inv_step)

section \<open>Properties\<close>

text \<open>
  C20. The parallel execution of the file descriptor requests is as good as a sequential one. Requests
  go out in order, a response is only awaited for a request already sent, one at a time, and when the
  call returns without an error every request has been sent, exactly one response has been received for
  each of them, all of them responses with files, and the result is all the files of these responses, in
  order. An error is that of one of the two goroutines.
\<close>
theorem exec_requests_complete:
  assumes "ex_reachable reqs log s"
  shows "ex_sent s @ ex_todo s = reqs
    \<and> ex_i s + (if ex_token s then 1 else 0) \<le> length (ex_sent s)
    \<and> (ex_main s = Returned (Inr files) \<longrightarrow> (reqs = [] \<and> files = []) \<or>
         (ex_sent s = reqs \<and> (\<exists>fss. log = map (\<lambda>fs. Inr (FileDescriptorResponse fs)) fss \<and> length fss = length reqs \<and> files = concat fss)))
    \<and> (ex_main s = Returned (Inl e) \<longrightarrow> ex_sendErr s = Some (Some e) \<or> ex_recvErr s = Some (Some e))"
  using ex_reachable_inv[OF assms] ex_reachable_log[OF assms]
  by (auto simp: ex_inv_def ex_log_inv_def file_response_def)

theorem exec_requests_complete_witness:
  "\<exists>log s. ex_reachable [FileByFilename ''a.proto''] log s \<and> ex_main s = Returned (Inr [''bytes'']) \<and> ex_sent s = [FileByFilename ''a.proto'']"
proof -
  let ?n = "length [FileByFilename ''a.proto'']"
  define run where "run = Option.bind (ex_send None (ex_init [FileByFilename ''a.proto''])) (\<lambda>s.
    Option.bind (ex_barrier 1 s) (\<lambda>s. Option.bind (ex_recv (Inr (FileDescriptorResponse [''bytes''])) s) (\<lambda>s.
    Option.bind (ex_send None s) (\<lambda>s. Option.bind (ex_barrier 1 s) (\<lambda>s.
    Option.bind (ex_take_send s) ex_take_recv)))))"
  have v: "\<exists>s. run = Some s \<and> ex_main s = Returned (Inr [''bytes''])"
    by (simp add: run_def ex_init_def ex_send_def ex_barrier_def ex_recv_def rc_recv_def ex_take_send_def ex_take_recv_def ex_take_def)
  then obtain s where s: "run = Some s" "ex_main s = Returned (Inr [''bytes''])" by blast
  then obtain s1 s2 s3 s4 s5 s6 where "ex_send None (ex_init [FileByFilename ''a.proto'']) = Some s1" "ex_barrier ?n s1 = Some s2"
    "ex_recv (Inr (FileDescriptorResponse [''bytes''])) s2 = Some s3" "ex_send None s3 = Some s4" "ex_barrier ?n s4 = Some s5"
    "ex_take_send s5 = Some s6" "ex_take_recv s6 = Some s"
    by (auto simp: run_def bind_eq_Some_conv)
  note st = ex_s_send[OF this(1)] ex_s_barrier[OF this(2)] ex_s_recv[OF this(3)] ex_s_send[OF this(4)] ex_s_barrier[OF this(5)]
    ex_s_take_send[OF this(6)] ex_s_take_recv[OF this(7)]
  note reach = ex_next[OF ex_next[OF ex_next[OF ex_next[OF ex_next[OF ex_next[OF ex_next[OF ex_start st(1)] st(2)] st(3)] st(4)] st(5)] st(6)] st(7)]
  show ?thesis using exec_requests_complete[OF reach, of "[''bytes'']"] s(2) reach by auto
qed

end
