(* ===== verification/Reflection_Resolver.thy ===== *)
theory Reflection_Resolver
  imports Bridgedesc "HOL-Library.Multiset"
begin

text \<open>
  The reflection resolver of reflection/resolver.go with parse.go and util.go: the options, one poll
  with its dependency retrieval, and the poll loop's effect on the watcher.

  Parameters, all of code outside the repository: the answers of the target's server during a poll
  (\<open>server\<close>, one function per kind of request, through the client of the theory Reflection_Client),
  unmarshalling a descriptor, the registry protodesc.NewFiles, FullName.IsValid and SHA-256.
  A Go set that is ranged over is a list without duplicates, in the order of the range.
\<close>

section \<open>Options\<close>

text \<open>Durations in nanoseconds.\<close>

record ResolverOpts =
  PollInterval :: int
  PollManually :: bool
  ReqTimeout :: int
  IgnorePrefixes :: "string list"
  OnlyServices :: bool
  RecursionLimit :: int

definition opts_withDefaults :: "ResolverOpts \<Rightarrow> ResolverOpts" where
  "opts_withDefaults opts =
     opts\<lparr>PollInterval := (if PollInterval opts = 0 then 300000000000
                            else if PollInterval opts < 1000000000 then 1000000000 else PollInterval opts),
          ReqTimeout := (if ReqTimeout opts = 0 then 10000000000
                          else if ReqTimeout opts < 1000000 then 1000000 else ReqTimeout opts),
          RecursionLimit := (if RecursionLimit opts = 0 then 100
                              else if RecursionLimit opts < 0 then 0 else RecursionLimit opts)\<rparr>"

definition NewResolverBuilder :: "ResolverOpts \<Rightarrow> ResolverOpts" where
  "NewResolverBuilder opts =
     (let opts = opts_withDefaults opts in opts\<lparr>IgnorePrefixes := IgnorePrefixes opts @ [''grpc.'']\<rparr>)"

section \<open>Descriptors (util.go)\<close>

record file_descriptor =
  fd_name :: string
  fd_deps :: "string list"
  fd_services :: "(string \<times> method_descriptor list) list"

record namedProtoBundle =
  b_name :: string
  b_proto :: string

definition updatePresent :: "file_descriptor list \<Rightarrow> string set \<Rightarrow> string set" where
  "updatePresent fds present = fold (\<lambda>fd. insert (fd_name fd)) fds present"

definition growMissing :: "file_descriptor list \<Rightarrow> string set \<Rightarrow> string list \<Rightarrow> string list" where
  "growMissing fds present missing =
     fold (\<lambda>fd. fold (\<lambda>dep ms. if dep \<notin> present then List.insert dep ms else ms) (fd_deps fd)) fds missing"

definition shrinkMissing :: "file_descriptor list \<Rightarrow> string list \<Rightarrow> string list" where
  "shrinkMissing fds missing = fold (\<lambda>fd. removeAll (fd_name fd)) fds missing"

text \<open>A byte-wise comparison of strings, as strings.Compare and slices.Sort use it.\<close>

fun str_le :: "string \<Rightarrow> string \<Rightarrow> bool" where
  "str_le [] t = True"
| "str_le (c # s) [] = False"
| "str_le (c # s) (d # t) = ((of_char c :: nat) < of_char d \<or> (c = d \<and> str_le s t))"

fun insert_by :: "('a \<Rightarrow> string) \<Rightarrow> 'a \<Rightarrow> 'a list \<Rightarrow> 'a list" where
  "insert_by f x [] = [x]"
| "insert_by f x (y # ys) = (if str_le (f x) (f y) then x # y # ys else y # insert_by f x ys)"

definition sort_by :: "('a \<Rightarrow> string) \<Rightarrow> 'a list \<Rightarrow> 'a list" where
  "sort_by f xs = foldr (insert_by f) xs []"

definition hashNamedProtoBundles :: "(string \<Rightarrow> string) \<Rightarrow> namedProtoBundle list \<Rightarrow> string" where
  "hashNamedProtoBundles sha bundles = sha (concat (map b_proto (sort_by b_name bundles)))"

text \<open>hashServiceNames sorts its argument in place, so the caller goes on with the sorted names.\<close>

definition sortedServiceNames :: "string list \<Rightarrow> string list" where
  "sortedServiceNames names = sort_by (\<lambda>x. x) names"

definition hashServiceNames :: "(string \<Rightarrow> string) \<Rightarrow> string list \<Rightarrow> string" where
  "hashServiceNames sha names = sha (concat (sortedServiceNames names))"

section \<open>The outside world\<close>

record server =
  sv_conn :: bool
  sv_connect :: "string \<Rightarrow> go_error option"
  sv_list :: "string \<Rightarrow> go_error + string list"
  sv_symbols :: "string \<Rightarrow> string list \<Rightarrow> go_error + string list"
  sv_files :: "string \<Rightarrow> string list \<Rightarrow> go_error + string list"

record libs =
  lib_unmarshal :: "string \<Rightarrow> go_error + file_descriptor"
  lib_NewFiles :: "file_descriptor list \<Rightarrow> go_error + (string \<Rightarrow> descriptor option)"
  lib_IsValid :: "string \<Rightarrow> bool"
  lib_sha :: "string \<Rightarrow> string"

section \<open>A poll\<close>

text \<open>
  fileDescriptors: the set \<open>processed\<close> is looked up for every file but the code never adds to it.
\<close>

fun parse_files :: "libs \<Rightarrow> string set \<Rightarrow> string list \<Rightarrow> go_error + file_descriptor list \<times> namedProtoBundle list" where
  "parse_files L processed [] = Inr ([], [])"
| "parse_files L processed (bytes # rest) =
     (case lib_unmarshal L bytes of
        Inl err \<Rightarrow> Inl (ErrWrap ''unmarshaling file descriptor'' err)
      | Inr fd \<Rightarrow>
          (case parse_files L processed rest of
             Inl err \<Rightarrow> Inl err
           | Inr (fds, bundles) \<Rightarrow>
               if fd_name fd \<in> processed then Inr (fds, bundles)
               else Inr (fd # fds, \<lparr>b_name = fd_name fd, b_proto = bytes\<rparr> # bundles)))"

definition fileDescriptors :: "libs \<Rightarrow> ResolverOpts \<Rightarrow> (go_error + string list) \<Rightarrow>
    go_error + file_descriptor list \<times> namedProtoBundle list" where
  "fileDescriptors L opts f =
     (if OnlyServices opts then Inr ([], [])
      else case f of Inl err \<Rightarrow> Inl err | Inr protoBytes \<Rightarrow> parse_files L {} protoBytes)"

text \<open>listServiceNames of the resolver: invalid, repeated and ignored names are dropped.\<close>

fun filter_names :: "libs \<Rightarrow> string list \<Rightarrow> string set \<Rightarrow> string list \<Rightarrow> string list" where
  "filter_names L prefixes processed [] = []"
| "filter_names L prefixes processed (s # services) =
     (if \<not> lib_IsValid L s then filter_names L prefixes processed services
      else if s \<in> processed then filter_names L prefixes processed services
      else let rest = filter_names L prefixes (insert s processed) services
           in if list_ex (\<lambda>p. HasPrefix s p) prefixes then rest else s # rest)"

definition rs_listServiceNames :: "libs \<Rightarrow> ResolverOpts \<Rightarrow> (go_error + string list) \<Rightarrow> go_error + string list" where
  "rs_listServiceNames L opts res =
     (case res of Inl err \<Rightarrow> Inl err | Inr services \<Rightarrow> Inr (filter_names L (IgnorePrefixes opts) {} services))"

text \<open>The loop of retrieveDependencies, with the number of attempts left.\<close>

fun retrieve_loop :: "nat \<Rightarrow> (string list \<Rightarrow> go_error + file_descriptor list \<times> namedProtoBundle list) \<Rightarrow>
    file_descriptor list \<times> namedProtoBundle list \<Rightarrow> string set \<Rightarrow> string list \<Rightarrow>
    go_error + file_descriptor list \<times> namedProtoBundle list" where
  "retrieve_loop 0 fetch ds present missing =
     (if missing \<noteq> [] then Inl (ErrMsg ''failed to retrieve all file descriptors' dependencies'') else Inr ds)"
| "retrieve_loop (Suc n) fetch ds present missing =
     (if missing = [] then Inr ds
      else case fetch missing of
             Inl err \<Rightarrow> Inl err
           | Inr (depFds, depBundles) \<Rightarrow>
               let new = filter (\<lambda>(fd, b). fd_name fd \<notin> present) (zip depFds depBundles);
                   ds = (fst ds @ map fst new, snd ds @ map snd new);
                   present = updatePresent depFds present;
                   missing = shrinkMissing depFds missing
               in if missing \<noteq> []
                  then Inl (ErrMsg ''server didn't provide file descriptors while performing recursive dependency retrieval'')
                  else retrieve_loop n fetch ds present (growMissing depFds present missing))"

definition retrieveDependencies :: "int \<Rightarrow> (string list \<Rightarrow> go_error + file_descriptor list \<times> namedProtoBundle list) \<Rightarrow>
    file_descriptor list \<times> namedProtoBundle list \<Rightarrow> go_error + file_descriptor list \<times> namedProtoBundle list" where
  "retrieveDependencies limit fetch ds =
     (let present = updatePresent (fst ds) {};
          missing = growMissing (fst ds) present []
      in retrieve_loop (nat limit) fetch ds present missing)"

record parseResults =
  pr_desc :: Target
  pr_missingServices :: "string list"

definition parseFileDescriptors :: "libs \<Rightarrow> string \<Rightarrow> string list \<Rightarrow> file_descriptor list \<Rightarrow> go_error + parseResults" where
  "parseFileDescriptors L name svcNames fds =
     (case lib_NewFiles L fds of
        Inl err \<Rightarrow> Inl (ErrWrap ''constructing proto file registry from descriptors'' err)
      | Inr files \<Rightarrow>
          Inr \<lparr>pr_desc = ParseTarget files name svcNames,
               pr_missingServices = filter (\<lambda>s. files s = None) svcNames\<rparr>)"

record Resolver =
  res_opts :: ResolverOpts
  res_target :: string
  res_lastProtoHash :: string
  res_lastServicesHash :: string
  res_methodPriority :: "string list"

text \<open>A resolver as Build makes it; reflectionMethods are the two versions of the reflection service.\<close>

definition reflectionMethods :: "string list" where
  "reflectionMethods =
     [''/grpc.reflection.v1.ServerReflection/ServerReflectionInfo'',
      ''/grpc.reflection.v1alpha.ServerReflection/ServerReflectionInfo'']"

definition rb_Build :: "ResolverOpts \<Rightarrow> string \<Rightarrow> Resolver" where
  "rb_Build opts target =
     \<lparr>res_opts = opts, res_target = target, res_lastProtoHash = [], res_lastServicesHash = [],
      res_methodPriority = reflectionMethods\<rparr>"

text \<open>
  resolveWithMethod: \<open>Inr None\<close> is the nil state, when nothing has changed.
\<close>

definition resolveWithMethod :: "libs \<Rightarrow> server \<Rightarrow> string \<Rightarrow> Resolver \<Rightarrow> (go_error + Target option) \<times> Resolver" where
  "resolveWithMethod L sv method r =
     (if \<not> sv_conn sv then (Inl (ErrMsg ''no connection available in pool for target''), r)
      else case sv_connect sv method of
        Some err \<Rightarrow> (Inl (ErrWrap ''establishing reflection stream'' err), r)
      | None \<Rightarrow>
       (case rs_listServiceNames L (res_opts r) (sv_list sv method) of
          Inl err \<Rightarrow> (Inl err, r)
        | Inr serviceNames \<Rightarrow>
         (case fileDescriptors L (res_opts r) (sv_symbols sv method serviceNames) of
            Inl err \<Rightarrow> (Inl err, r)
          | Inr ds \<Rightarrow>
           (case retrieveDependencies (RecursionLimit (res_opts r))
                   (\<lambda>names. fileDescriptors L (res_opts r) (sv_files sv method names)) ds of
              Inl err \<Rightarrow> (Inl err, r)
            | Inr (descriptors, bundles) \<Rightarrow>
                let newProtoHash = hashNamedProtoBundles (lib_sha L) bundles;
                    newServicesHash = hashServiceNames (lib_sha L) serviceNames;
                    serviceNames = sortedServiceNames serviceNames
                in if res_lastProtoHash r = newProtoHash \<and> res_lastServicesHash r = newServicesHash
                   then (Inr None, r)
                   else case parseFileDescriptors L (res_target r) serviceNames descriptors of
                          Inl err \<Rightarrow> (Inl err, r)
                        | Inr parsed \<Rightarrow>
                            (Inr (Some (pr_desc parsed)),
                             r\<lparr>res_lastProtoHash := newProtoHash, res_lastServicesHash := newServicesHash\<rparr>)))))"

text \<open>status.Code of an error: the code of the status it is or wraps.\<close>

fun is_Unimplemented :: "go_error \<Rightarrow> bool" where
  "is_Unimplemented (ErrStatus c m) = (c = Unimplemented)"
| "is_Unimplemented (ErrWrap s e) = is_Unimplemented e"
| "is_Unimplemented (ErrHTTP c e) = is_Unimplemented e"
| "is_Unimplemented _ = False"

text \<open>The loop of resolve over the methods from index \<open>i\<close>, swapping a method that worked to the front.\<close>

fun resolve_loop :: "libs \<Rightarrow> server \<Rightarrow> string list \<Rightarrow> nat \<Rightarrow> Resolver \<Rightarrow> (go_error + Target option) \<times> Resolver" where
  "resolve_loop L sv [] i r = (Inl (ErrMsg ''all reflection methods failed''), r)"
| "resolve_loop L sv (method # methods) i r =
     (case resolveWithMethod L sv method r of
        (Inl err, r') \<Rightarrow>
          if is_Unimplemented err then resolve_loop L sv methods (Suc i) r' else (Inl err, r')
      | (Inr state, r') \<Rightarrow>
          (Inr state, r'\<lparr>res_methodPriority :=
             (res_methodPriority r')[0 := method, i := res_methodPriority r' ! 0]\<rparr>))"

definition rs_resolve :: "libs \<Rightarrow> server \<Rightarrow> Resolver \<Rightarrow> (go_error + Target option) \<times> Resolver" where
  "rs_resolve L sv r = resolve_loop L sv (res_methodPriority r) 0 r"

text \<open>What one iteration of watch does to the watcher.\<close>

datatype watch_event = UpdateDesc Target | ReportError go_error | NoEvent

definition watch_iteration :: "libs \<Rightarrow> server \<Rightarrow> Resolver \<Rightarrow> watch_event \<times> Resolver" where
  "watch_iteration L sv r =
     (case rs_resolve L sv r of
        (Inr (Some state), r') \<Rightarrow> (UpdateDesc state, r')
      | (Inr None, r') \<Rightarrow> (NoEvent, r')
      | (Inl err, r') \<Rightarrow> (ReportError err, r'))"

definition afterInterval :: "ResolverOpts \<Rightarrow> int option" where
  "afterInterval opts = (if PollManually opts then None else Some (PollInterval opts))"

end
