(* ===== verification/Resolver_Props.thy ===== *)
theory Resolver_Props
  imports Reflection_Resolver
begin

text \<open>
  Properties of the reflection resolver: what a poll may ask for and must end with, when it reports a
  change, and two ways in which it misses one.
\<close>

section \<open>Sets of names\<close>

lemma updatePresent_set: "updatePresent fds present = present \<union> fd_name ` set fds"
  unfolding updatePresent_def by (induction fds arbitrary: present) auto

lemma growMissing_deps:
  "set (fold (\<lambda>dep ms. if dep \<notin> present then List.insert dep ms else ms) deps ms) = set ms \<union> (set deps - present)"
  by (induction deps arbitrary: ms) auto

lemma growMissing_set: "set (growMissing fds present missing) = set missing \<union> (\<Union>(set ` fd_deps ` set fds) - present)"
  unfolding growMissing_def by (induction fds arbitrary: missing) (auto simp: growMissing_deps)

lemma shrinkMissing_set: "set (shrinkMissing fds missing) = set missing - fd_name ` set fds"
  unfolding shrinkMissing_def by (induction fds arbitrary: missing) auto

lemma parse_files_parsed:
  "parse_files L processed bs = Inr (fds, bundles) \<Longrightarrow>
     list_all2 (\<lambda>fd b. lib_unmarshal L (b_proto b) = Inr fd \<and> b_name b = fd_name fd) fds bundles"
  by (induction bs arbitrary: fds bundles) (auto split: sum.splits prod.splits if_splits)

lemma fileDescriptors_parsed:
  "fileDescriptors L opts f = Inr (fds, bundles) \<Longrightarrow>
     list_all2 (\<lambda>fd b. lib_unmarshal L (b_proto b) = Inr fd \<and> b_name b = fd_name fd) fds bundles"
  by (auto simp: fileDescriptors_def parse_files_parsed split: if_splits sum.splits)

lemma parse_files_lengths:
  "parse_files L processed bs = Inr (fds, bundles) \<Longrightarrow>
     length fds = length bundles \<and> map b_name bundles = map fd_name fds"
  by (induction bs arbitrary: fds bundles) (auto split: sum.splits prod.splits if_splits)

lemma fileDescriptors_lengths:
  "fileDescriptors L opts f = Inr (fds, bundles) \<Longrightarrow> length fds = length bundles \<and> map b_name bundles = map fd_name fds"
  by (auto simp: fileDescriptors_def parse_files_lengths split: if_splits sum.splits)

section \<open>Dependency retrieval\<close>

lemma zip_filter_names:
  "length xs = length ys \<Longrightarrow> map fst (filter (\<lambda>(x, y). P x) (zip xs ys)) = filter P xs"
  by (induction xs ys rule: list_induct2) auto

text \<open>The imports of the files received that are not in the set, and a file together with the bytes it was parsed from.\<close>

definition missing_imports :: "file_descriptor set \<Rightarrow> file_descriptor list \<Rightarrow> string set" where
  "missing_imports received fds = \<Union>(set ` fd_deps ` received) - fd_name ` set fds"

definition parsed_from :: "libs \<Rightarrow> file_descriptor \<Rightarrow> namedProtoBundle \<Rightarrow> bool" where
  "parsed_from L fd b \<longleftrightarrow> lib_unmarshal L (b_proto b) = Inr fd \<and> b_name b = fd_name fd"

text \<open>
  Retrieval as it is meant to be: while an import of a file received is missing, one request for exactly the
  missing ones, each once, whose answer has to have all of them; the files of the answer whose names the set
  does not have yet are added. \<open>k\<close> counts the requests.
\<close>

inductive retrieval :: "(string list \<Rightarrow> go_error + file_descriptor list \<times> namedProtoBundle list) \<Rightarrow> file_descriptor set \<Rightarrow> nat
    \<Rightarrow> file_descriptor list \<times> namedProtoBundle list \<Rightarrow> file_descriptor list \<times> namedProtoBundle list \<Rightarrow> bool"
  for fetch where
  complete: "missing_imports received (fst ds) = {} \<Longrightarrow> retrieval fetch received 0 ds ds"
| request: "set names = missing_imports received (fst ds) \<Longrightarrow> names \<noteq> [] \<Longrightarrow> distinct names
    \<Longrightarrow> fetch names = Inr (fds, bs) \<Longrightarrow> set names \<subseteq> fd_name ` set fds
    \<Longrightarrow> new = filter (\<lambda>(fd, b). fd_name fd \<notin> fd_name ` set (fst ds)) (zip fds bs)
    \<Longrightarrow> retrieval fetch (received \<union> set fds) k (fst ds @ map fst new, snd ds @ map snd new) ds'
    \<Longrightarrow> retrieval fetch received (Suc k) ds ds'"

lemma growMissing_distinct: "distinct missing \<Longrightarrow> distinct (growMissing fds present missing)"
proof -
  have "distinct ms \<Longrightarrow> distinct (fold (\<lambda>dep ms. if dep \<notin> present then List.insert dep ms else ms) deps ms)" for deps ms
    by (induction deps arbitrary: ms) auto
  then show "distinct missing \<Longrightarrow> distinct (growMissing fds present missing)"
    unfolding growMissing_def by (induction fds arbitrary: missing) auto
qed

lemma retrieve_loop_retrieval:
  assumes "retrieve_loop n fetch ds present missing = Inr ds'"
    and "\<And>names fds bs. fetch names = Inr (fds, bs) \<Longrightarrow> length fds = length bs"
    and "present = fd_name ` set (fst ds)" and "set missing = missing_imports received (fst ds)" and "distinct missing"
  shows "\<exists>k \<le> n. retrieval fetch received k ds ds'"
  using assms(1,3,4,5)
proof (induction n arbitrary: ds present missing received)
  case 0
  then show ?case by (auto split: if_splits intro!: retrieval.complete)
next
  case (Suc n)
  show ?case
  proof (cases "missing = []")
    case True
    then show ?thesis using Suc.prems by (auto intro!: exI[of _ 0] retrieval.complete)
  next
    case False
    obtain depFds depBundles where f: "fetch missing = Inr (depFds, depBundles)"
      using Suc.prems(1) False by (auto split: sum.splits)
    define new where "new = filter (\<lambda>(fd, b). fd_name fd \<notin> present) (zip depFds depBundles)"
    let ?ds = "(fst ds @ map fst new, snd ds @ map snd new)" and ?p = "updatePresent depFds present"
    have new: "map fst new = filter (\<lambda>fd. fd_name fd \<notin> present) depFds"
      unfolding new_def by (rule zip_filter_names[OF assms(2)[OF f]])
    have rest: "retrieve_loop n fetch ?ds ?p (growMissing depFds ?p []) = Inr ds'" "shrinkMissing depFds missing = []"
      using Suc.prems(1) False by (simp_all add: f Let_def new_def split: if_splits)
    have p: "?p = fd_name ` set (fst ?ds)" using Suc.prems(2) by (auto simp: updatePresent_set new)
    have found: "set missing \<subseteq> fd_name ` set depFds" using rest(2) shrinkMissing_set[of depFds missing] by auto
    have "\<Union>(set ` fd_deps ` received) \<subseteq> ?p"
      using Suc.prems(2,3) found by (auto simp: missing_imports_def updatePresent_set)
    then have m: "set (growMissing depFds ?p []) = missing_imports (received \<union> set depFds) (fst ?ds)"
      unfolding missing_imports_def p[symmetric] by (auto simp: growMissing_set)
    obtain k where "k \<le> n" "retrieval fetch (received \<union> set depFds) k ?ds ds'"
      using Suc.IH[OF rest(1) p m growMissing_distinct] by auto
    then show ?thesis using Suc.prems(3,4) False f found new_def
      by (auto intro!: exI[of _ "Suc k"] retrieval.request[where fds = depFds and bs = depBundles and new = new]
          simp: Suc.prems(2))
  qed
qed

lemma retrieval_closed:
  assumes "retrieval fetch received k ds ds'" and "set (fst ds) \<subseteq> received"
    and "\<And>names fds bs. fetch names = Inr (fds, bs) \<Longrightarrow> length fds = length bs"
  shows "\<forall>fd \<in> set (fst ds'). set (fd_deps fd) \<subseteq> fd_name ` set (fst ds')"
  using assms(1,2)
proof (induction rule: retrieval.induct)
  case (request names received ds fds bs new k ds')
  have "set (map fst new) \<subseteq> set fds"
    unfolding request.hyps(6) zip_filter_names[OF assms(3)[OF request.hyps(4)]] by auto
  then show ?case using request.IH request.prems by auto
qed (auto simp: missing_imports_def)

lemma zip_filter_parsed:
  "list_all2 R xs ys \<Longrightarrow> list_all2 R (map fst (filter P (zip xs ys))) (map snd (filter P (zip xs ys)))"
  by (induction rule: list_all2_induct) auto

lemma retrieval_parsed:
  assumes "retrieval fetch received k ds ds'"
    and "\<And>names fds bs. fetch names = Inr (fds, bs) \<Longrightarrow> list_all2 R fds bs" and "list_all2 R (fst ds) (snd ds)"
  shows "list_all2 R (fst ds') (snd ds') \<and> (\<exists>fds bs. fst ds' = fst ds @ fds \<and> snd ds' = snd ds @ bs)"
  using assms(1,3)
proof (induction rule: retrieval.induct)
  case (request names received ds fds bs new k ds')
  have "list_all2 R (map fst new) (map snd new)"
    unfolding request.hyps(6) by (rule zip_filter_parsed[OF assms(2)[OF request.hyps(4)]])
  then show ?case using request.IH request.prems by (auto intro: list_all2_appendI)
qed auto

lemma retrieve_loop_empty [simp]: "retrieve_loop n fetch ds present [] = Inr ds"
  by (cases n) auto

section \<open>Service names\<close>

lemma filter_names_spec:
  "set (filter_names L prefixes processed services)
     = {s \<in> set services. lib_IsValid L s \<and> s \<notin> processed \<and> (\<forall>p \<in> set prefixes. \<not> HasPrefix s p)}
   \<and> distinct (filter_names L prefixes processed services)"
  by (induction services arbitrary: processed) (auto simp: Let_def list_ex_iff)

lemma sort_by_nil [simp]: "sort_by f [] = []"
  by (simp add: sort_by_def)

lemma insert_by_mset: "mset (insert_by f x ys) = add_mset x (mset ys)"
  by (induction ys) auto

lemma sort_by_mset: "mset (sort_by f xs) = mset xs"
  by (induction xs) (auto simp: sort_by_def insert_by_mset)

section \<open>Polls\<close>

lemma resolveWithMethod_error: "resolveWithMethod L sv mtd r = (Inl err, r') \<Longrightarrow> r' = r"
  by (auto simp: resolveWithMethod_def Let_def split: if_splits option.splits sum.splits prod.splits)

lemma resolveWithMethod_frame:
  "resolveWithMethod L sv mtd r = (res, r') \<Longrightarrow> res_methodPriority r' = res_methodPriority r
     \<and> res_opts r' = res_opts r \<and> res_target r' = res_target r"
  by (auto simp: resolveWithMethod_def Let_def split: if_splits option.splits sum.splits prod.splits)

lemma resolveWithMethod_again:
  assumes "resolveWithMethod L sv mtd r = (Inr state, r')"
  shows "resolveWithMethod L sv mtd (r'\<lparr>res_methodPriority := ms\<rparr>) = (Inr None, r'\<lparr>res_methodPriority := ms\<rparr>)"
  using assms by (auto simp: resolveWithMethod_def Let_def split: if_splits option.splits sum.splits prod.splits)

lemma resolve_loop_ok:
  assumes "resolve_loop L sv ms i r = (Inr state, r')"
  shows "\<exists>mtd j r1. mtd \<in> set ms \<and> resolveWithMethod L sv mtd r = (Inr state, r1)
    \<and> r' = r1\<lparr>res_methodPriority := (res_methodPriority r)[0 := mtd, j := res_methodPriority r ! 0]\<rparr>
    \<and> i \<le> j \<and> j < i + length ms \<and> ms ! (j - i) = mtd"
  using assms
proof (induction ms arbitrary: i)
  case (Cons m ms)
  obtain res r1 where m: "resolveWithMethod L sv m r = (res, r1)" by fastforce
  show ?case
  proof (cases res)
    case (Inl err)
    then have "r1 = r" using m resolveWithMethod_error by blast
    with Cons.prems m Inl have "resolve_loop L sv ms (Suc i) r = (Inr state, r')" by (auto split: if_splits)
    from Cons.IH[OF this] obtain mtd j r2 where "mtd \<in> set ms" "resolveWithMethod L sv mtd r = (Inr state, r2)"
      "r' = r2\<lparr>res_methodPriority := (res_methodPriority r)[0 := mtd, j := res_methodPriority r ! 0]\<rparr>"
      "Suc i \<le> j" "j < Suc i + length ms" "ms ! (j - Suc i) = mtd" by blast
    then show ?thesis by (intro exI[of _ mtd] exI[of _ j] exI[of _ r2]) (auto simp: nth_Cons')
  next
    case (Inr st)
    then show ?thesis using Cons.prems m resolveWithMethod_frame[OF m]
      by (intro exI[of _ m] exI[of _ i] exI[of _ r1]) auto
  qed
qed simp

lemma resolve_loop_error: "resolve_loop L sv ms i r = (Inl err, r') \<Longrightarrow> r' = r"
proof (induction ms arbitrary: i)
  case (Cons m ms)
  obtain res r1 where m: "resolveWithMethod L sv m r = (res, r1)" by fastforce
  then show ?case using Cons resolveWithMethod_error by (cases res) (fastforce split: if_splits)+
qed simp

section \<open>Properties\<close>

text \<open>
  C21. Dependency retrieval ends with a closed set: when it succeeds, every import of every file in the
  set is in the set, the files received by symbol and their bytes are all kept, in front, and each file is
  beside the bytes it was parsed from. It has made at most as many requests as the recursion limit says,
  each for exactly the imports, of the files received so far, that are missing at that point.
\<close>
theorem retrieveDependencies_closed:
  assumes "fileDescriptors L opts syms = Inr ds"
    and "retrieveDependencies limit (\<lambda>names. fileDescriptors L opts (get names)) ds = Inr ds'"
  shows "(\<forall>fd \<in> set (fst ds'). set (fd_deps fd) \<subseteq> fd_name ` set (fst ds'))
    \<and> (\<exists>fds bs. fst ds' = fst ds @ fds \<and> snd ds' = snd ds @ bs)
    \<and> list_all2 (parsed_from L) (fst ds') (snd ds')
    \<and> (\<exists>k \<le> nat limit. retrieval (\<lambda>names. fileDescriptors L opts (get names)) (set (fst ds)) k ds ds')"
proof -
  let ?fetch = "\<lambda>names. fileDescriptors L opts (get names)"
  have l: "retrieve_loop (nat limit) ?fetch ds
      (updatePresent (fst ds) {}) (growMissing (fst ds) (updatePresent (fst ds) {}) []) = Inr ds'"
    using assms(2) by (simp add: retrieveDependencies_def Let_def)
  obtain k where k: "k \<le> nat limit" "retrieval ?fetch (set (fst ds)) k ds ds'"
    using retrieve_loop_retrieval[OF l, of "set (fst ds)"] fileDescriptors_lengths growMissing_distinct[of "[]"]
    by (auto simp: updatePresent_set growMissing_set missing_imports_def)
  have parsed: "list_all2 (parsed_from L) fds bs" if "fileDescriptors L opts f = Inr (fds, bs)" for f fds bs
    unfolding parsed_from_def by (rule fileDescriptors_parsed[OF that])
  have "list_all2 (parsed_from L) (fst ds) (snd ds)" using parsed[of syms "fst ds" "snd ds"] assms(1) by simp
  then have "list_all2 (parsed_from L) (fst ds') (snd ds') \<and> (\<exists>fds bs. fst ds' = fst ds @ fds \<and> snd ds' = snd ds @ bs)"
    by (rule retrieval_parsed[OF k(2), rotated]) (rule parsed)
  moreover have "\<forall>fd \<in> set (fst ds'). set (fd_deps fd) \<subseteq> fd_name ` set (fst ds')"
    by (rule retrieval_closed[OF k(2)]) (auto dest: fileDescriptors_lengths)
  ultimately show ?thesis using k by blast
qed

definition ex_libs :: libs where
  "ex_libs = \<lparr>lib_unmarshal = (\<lambda>b. Inr \<lparr>fd_name = b, fd_deps = (if b = ''a'' then [''b''] else []), fd_services = []\<rparr>),
     lib_NewFiles = (\<lambda>_. Inr (\<lambda>_. None)), lib_IsValid = (\<lambda>_. True), lib_sha = (\<lambda>x. x)\<rparr>"

definition ex_opts :: "bool \<Rightarrow> ResolverOpts" where
  "ex_opts only = NewResolverBuilder \<lparr>PollInterval = 0, PollManually = False, ReqTimeout = 0, IgnorePrefixes = [],
     OnlyServices = only, RecursionLimit = 2\<rparr>"

theorem retrieveDependencies_closed_witness:
  "\<exists>ds'. retrieveDependencies 2 (\<lambda>names. fileDescriptors ex_libs (ex_opts False) (Inr names))
       ([\<lparr>fd_name = ''a'', fd_deps = [''b''], fd_services = []\<rparr>], [\<lparr>b_name = ''a'', b_proto = ''a''\<rparr>]) = Inr ds'
     \<and> (\<forall>fd \<in> set (fst ds'). set (fd_deps fd) \<subseteq> fd_name ` set (fst ds')) \<and> length (fst ds') = 2"
proof -
  let ?ds = "([\<lparr>fd_name = ''a'', fd_deps = [''b''], fd_services = []\<rparr>], [\<lparr>b_name = ''a'', b_proto = ''a''\<rparr>])"
  let ?ds' = "([\<lparr>fd_name = ''a'', fd_deps = [''b''], fd_services = []\<rparr>, \<lparr>fd_name = ''b'', fd_deps = [], fd_services = []\<rparr>],
      [\<lparr>b_name = ''a'', b_proto = ''a''\<rparr>, \<lparr>b_name = ''b'', b_proto = ''b''\<rparr>])"
  have s: "fileDescriptors ex_libs (ex_opts False) (Inr [''a'']) = Inr ?ds" by code_simp
  have r: "retrieveDependencies 2 (\<lambda>names. fileDescriptors ex_libs (ex_opts False) (Inr names)) ?ds = Inr ?ds'" by code_simp
  from retrieveDependencies_closed[OF s r] r show ?thesis by auto
qed

text \<open>
  A poll that finds nothing new changes nothing: after a successful poll, polling again while the
  server gives the same answers reports no event to the watcher and leaves the resolver as it is, with
  the method that worked tried first. A failed poll leaves the resolver as it was, so that the same
  change is reported by the next poll that succeeds.
\<close>
theorem resolve_idempotent:
  assumes "rs_resolve L sv r = (res, r')" and "res_methodPriority r \<noteq> []"
  shows "case res of
      Inl err \<Rightarrow> watch_iteration L sv r = (ReportError err, r') \<and> r' = r
    | Inr state \<Rightarrow> watch_iteration L sv r' = (NoEvent, r')
        \<and> mset (res_methodPriority r') = mset (res_methodPriority r)"
proof (cases res)
  case (Inl err)
  then show ?thesis using assms resolve_loop_error by (auto simp: watch_iteration_def rs_resolve_def)
next
  case (Inr state)
  let ?ms = "res_methodPriority r"
  obtain mtd j r1 where m: "resolveWithMethod L sv mtd r = (Inr state, r1)"
    "r' = r1\<lparr>res_methodPriority := ?ms[0 := mtd, j := ?ms ! 0]\<rparr>" "j < length ?ms" "?ms ! j = mtd"
    using resolve_loop_ok[of L sv ?ms 0 r state r'] assms(1) Inr by (auto simp: rs_resolve_def)
  have swap: "?ms[0 := mtd, j := ?ms ! 0] = ?ms[0 := ?ms ! j, j := ?ms ! 0]" using m(4) by simp
  have hd: "(?ms[0 := mtd, j := ?ms ! 0]) ! 0 = mtd" using m(3,4) assms(2) by (cases "j = 0") auto
  then obtain tl where tl: "?ms[0 := mtd, j := ?ms ! 0] = mtd # tl"
    using assms(2) by (cases "?ms[0 := mtd, j := ?ms ! 0]") auto
  have "resolveWithMethod L sv mtd r' = (Inr None, r')" unfolding m(2) by (rule resolveWithMethod_again[OF m(1)])
  then have "rs_resolve L sv r' = (Inr None, r')" unfolding rs_resolve_def by (simp add: m(2) tl)
  then have "watch_iteration L sv r' = (NoEvent, r')" by (simp add: watch_iteration_def)
  moreover have "mset (res_methodPriority r') = mset ?ms"
    unfolding m(2) using mset_swap[of j ?ms 0] m(3) assms(2) swap by (simp add: m(2))
  ultimately show ?thesis by (simp add: Inr)
qed

definition ex_server :: "string list \<Rightarrow> server" where
  "ex_server names = \<lparr>sv_conn = True, sv_connect = (\<lambda>m. if m = hd reflectionMethods then Some (ErrStatus Unimplemented []) else None),
     sv_list = (\<lambda>_. Inr names), sv_symbols = (\<lambda>_ ns. Inr []), sv_files = (\<lambda>_ ns. Inr [])\<rparr>"

theorem resolve_idempotent_witness:
  "\<exists>d r'. rs_resolve ex_libs (ex_server [''S'']) (rb_Build (ex_opts True) ''t'') = (Inr (Some d), r')
    \<and> watch_iteration ex_libs (ex_server [''S'']) r' = (NoEvent, r') \<and> map service_Name (Services d) = [''S'']"
proof -
  let ?r = "rb_Build (ex_opts True) ''t''"
  obtain res r' where e: "rs_resolve ex_libs (ex_server [''S'']) ?r = (res, r')" by fastforce
  moreover have "\<exists>d. fst (rs_resolve ex_libs (ex_server [''S'']) ?r) = Inr (Some d) \<and> map service_Name (Services d) = [''S'']"
    by (simp add: rs_resolve_def rb_Build_def reflectionMethods_def ex_server_def resolveWithMethod_def ex_opts_def
        NewResolverBuilder_def opts_withDefaults_def rs_listServiceNames_def ex_libs_def fileDescriptors_def
        retrieveDependencies_def updatePresent_def growMissing_def hashNamedProtoBundles_def sort_by_def
        hashServiceNames_def sortedServiceNames_def parseFileDescriptors_def ParseTarget_def HasPrefix_def Let_def)
  ultimately obtain d where d: "res = Inr (Some d)" "map service_Name (Services d) = [''S'']" by auto
  have "res_methodPriority ?r \<noteq> []" by (simp add: rb_Build_def reflectionMethods_def)
  from resolve_idempotent[OF e this] d e show ?thesis by simp
qed

text \<open>
  The service hash does not see where a name ends: two service lists whose sorted names concatenate
  to the same string have the same hash, whatever the hash function. With only services requested, a
  target that goes from the services a.B and c.D to the single service a.Bc.D is reported as unchanged.
\<close>
theorem hashServiceNames_ambiguous:
  assumes "OnlyServices (res_opts r)" and "sv_conn sv" and "sv_connect sv mtd = None"
    and "rs_listServiceNames L (res_opts r) (sv_list sv mtd) = Inr new"
    and "res_lastServicesHash r = hashServiceNames (lib_sha L) old" and "res_lastProtoHash r = lib_sha L []"
    and "concat (sortedServiceNames new) = concat (sortedServiceNames old)"
  shows "resolveWithMethod L sv mtd r = (Inr None, r)"
  using assms
  by (simp add: resolveWithMethod_def fileDescriptors_def retrieveDependencies_def updatePresent_def growMissing_def
      hashNamedProtoBundles_def hashServiceNames_def sort_by_nil Let_def)

theorem hashServiceNames_ambiguous_witness:
  "\<exists>d r'. rs_resolve ex_libs (ex_server [''a.B'', ''c.D'']) (rb_Build (ex_opts True) ''t'') = (Inr (Some d), r')
    \<and> resolveWithMethod ex_libs (ex_server [''a.Bc.D'']) (reflectionMethods ! 1) r' = (Inr None, r')"
proof -
  let ?r = "rb_Build (ex_opts True) ''t''"
  obtain res r' where e: "rs_resolve ex_libs (ex_server [''a.B'', ''c.D'']) ?r = (res, r')" by fastforce
  have v: "(\<exists>d. fst (rs_resolve ex_libs (ex_server [''a.B'', ''c.D'']) ?r) = Inr (Some d))
      \<and> OnlyServices (res_opts (snd (rs_resolve ex_libs (ex_server [''a.B'', ''c.D'']) ?r)))
      \<and> IgnorePrefixes (res_opts (snd (rs_resolve ex_libs (ex_server [''a.B'', ''c.D'']) ?r))) = [''grpc.'']
      \<and> res_lastServicesHash (snd (rs_resolve ex_libs (ex_server [''a.B'', ''c.D'']) ?r)) = hashServiceNames (lib_sha ex_libs) [''a.B'', ''c.D'']
      \<and> res_lastProtoHash (snd (rs_resolve ex_libs (ex_server [''a.B'', ''c.D'']) ?r)) = lib_sha ex_libs []"
    by (simp add: rs_resolve_def rb_Build_def reflectionMethods_def ex_server_def resolveWithMethod_def ex_opts_def
        NewResolverBuilder_def opts_withDefaults_def rs_listServiceNames_def ex_libs_def fileDescriptors_def
        retrieveDependencies_def updatePresent_def growMissing_def hashNamedProtoBundles_def sort_by_def
        hashServiceNames_def sortedServiceNames_def parseFileDescriptors_def HasPrefix_def Let_def)
  have l: "rs_listServiceNames ex_libs (res_opts r') (sv_list (ex_server [''a.Bc.D'']) m) = Inr [''a.Bc.D'']" for m
    using v e by (simp add: rs_listServiceNames_def ex_server_def ex_libs_def HasPrefix_def)
  have c: "concat (sortedServiceNames [''a.Bc.D'']) = concat (sortedServiceNames [''a.B'', ''c.D''])" by code_simp
  have s: "sv_conn (ex_server [''a.Bc.D''])" "sv_connect (ex_server [''a.Bc.D'']) (reflectionMethods ! 1) = None"
    by (simp_all add: ex_server_def reflectionMethods_def)
  from hashServiceNames_ambiguous[OF _ s l _ _ c] v e show ?thesis by auto
qed

text \<open>
  Repeated files are not deduplicated: every file the server sends is kept, because the set of
  processed names is never filled. So the set for a file that contains two services, returned once per
  symbol, holds the file twice.
\<close>
theorem fileDescriptors_keeps_duplicates:
  assumes "\<not> OnlyServices opts" and "fileDescriptors L opts (Inr bs) = Inr (fds, bundles)"
  shows "map (lib_unmarshal L) bs = map Inr fds \<and> map b_proto bundles = bs"
proof -
  have "parse_files L {} bs = Inr (fds, bundles)" using assms by (simp add: fileDescriptors_def)
  then show ?thesis by (induction bs arbitrary: fds bundles) (auto split: sum.splits prod.splits)
qed

theorem fileDescriptors_keeps_duplicates_witness:
  "\<exists>fds bundles. fileDescriptors ex_libs (ex_opts False) (Inr [''x'', ''x'']) = Inr (fds, bundles)
     \<and> map (lib_unmarshal ex_libs) [''x'', ''x''] = map Inr fds \<and> \<not> distinct (map fd_name fds)"
proof -
  let ?fd = "\<lparr>fd_name = ''x'', fd_deps = [], fd_services = []\<rparr>" and ?b = "\<lparr>b_name = ''x'', b_proto = ''x''\<rparr>"
  have o: "\<not> OnlyServices (ex_opts False)" by code_simp
  have f: "fileDescriptors ex_libs (ex_opts False) (Inr [''x'', ''x'']) = Inr ([?fd, ?fd], [?b, ?b])" by code_simp
  from fileDescriptors_keeps_duplicates[OF o f] f show ?thesis by auto
qed

end
