(* ===== verification/Resolver_Watch.thy ===== *)
theory Resolver_Watch
  imports Reflection_Resolver
begin

text \<open>
  The poller goroutine of a resolver (watch, ResolveNow, newResolveNow and Close of reflection/resolver.go)
  as a step relation over its program counter and the channels that it shares with its callers.

  Channels that newResolveNow makes are numbered, and so are the functions that it stores: \<open>rw_ch\<close> is
  the field resolveNow, \<open>rw_fn\<close> the function in notifyResolveNow. A function closes the channel that the
  field holds when it runs, once. \<open>rw_polled\<close> is a ghost: the calls of ResolveNow that began before the
  last poll began.
\<close>

section \<open>State\<close>

datatype rw_pc = Polling | Selecting | Making | Storing | Stopping | Stopped

datatype rw_call = NotCalled | Loaded nat | Returned

record watch_state =
  rw_pc :: rw_pc
  rw_res :: Resolver
  rw_ch :: nat
  rw_closed :: "nat set"
  rw_fn :: nat
  rw_ran :: "nat set"
  rw_calls :: "nat \<Rightarrow> rw_call"
  rw_polled :: "nat set"
  rw_doneClosed :: bool
  rw_closers :: nat
  rw_closesReturned :: nat
  rw_closePanics :: nat
  rw_doubleClose :: bool
  rw_events :: "watch_event list"

definition watch_init :: "Resolver \<Rightarrow> watch_state" where
  "watch_init r =
     \<lparr>rw_pc = Polling, rw_res = r, rw_ch = 0, rw_closed = {}, rw_fn = 0, rw_ran = {}, rw_calls = (\<lambda>_. NotCalled),
      rw_polled = {}, rw_doneClosed = False, rw_closers = 0, rw_closesReturned = 0, rw_closePanics = 0,
      rw_doubleClose = False, rw_events = []\<rparr>"

section \<open>The poller\<close>

definition begin_poll :: "watch_state \<Rightarrow> watch_state" where
  "begin_poll s = s\<lparr>rw_pc := Polling, rw_polled := {c. rw_calls s c \<noteq> NotCalled}\<rparr>"

text \<open>A poll ends and its result is reported.\<close>

definition watch_poll :: "libs \<Rightarrow> server \<Rightarrow> watch_state \<Rightarrow> watch_state option" where
  "watch_poll L sv s =
     (if rw_pc s = Polling
      then let (ev, r) = watch_iteration L sv (rw_res s)
           in Some (s\<lparr>rw_pc := Selecting, rw_res := r, rw_events := rw_events s @ (if ev = NoEvent then [] else [ev])\<rparr>)
      else None)"

definition watch_timer :: "watch_state \<Rightarrow> watch_state option" where
  "watch_timer s =
     (if rw_pc s = Selecting \<and> afterInterval (res_opts (rw_res s)) \<noteq> None then Some (begin_poll s) else None)"

definition watch_signal :: "watch_state \<Rightarrow> watch_state option" where
  "watch_signal s = (if rw_pc s = Selecting \<and> rw_ch s \<in> rw_closed s then Some (s\<lparr>rw_pc := Making\<rparr>) else None)"

text \<open>newResolveNow: a new channel, then the function that closes it.\<close>

definition newResolveNow_make :: "watch_state \<Rightarrow> watch_state option" where
  "newResolveNow_make s = (if rw_pc s = Making then Some (s\<lparr>rw_pc := Storing, rw_ch := Suc (rw_ch s)\<rparr>) else None)"

definition newResolveNow_store :: "watch_state \<Rightarrow> watch_state option" where
  "newResolveNow_store s = (if rw_pc s = Storing then Some (begin_poll (s\<lparr>rw_fn := rw_ch s\<rparr>)) else None)"

text \<open>The receive from done, which lets one Close return, and the closing of done.\<close>

definition watch_done :: "watch_state \<Rightarrow> watch_state option" where
  "watch_done s =
     (if rw_pc s = Selecting \<and> rw_closers s > 0
      then Some (s\<lparr>rw_pc := Stopping, rw_closers := rw_closers s - 1, rw_closesReturned := Suc (rw_closesReturned s)\<rparr>)
      else None)"

definition watch_return :: "watch_state \<Rightarrow> watch_state option" where
  "watch_return s = (if rw_pc s = Stopping then Some (s\<lparr>rw_pc := Stopped, rw_doneClosed := True\<rparr>) else None)"

section \<open>The callers\<close>

definition ResolveNow_load :: "nat \<Rightarrow> watch_state \<Rightarrow> watch_state option" where
  "ResolveNow_load c s =
     (if rw_calls s c = NotCalled then Some (s\<lparr>rw_calls := (rw_calls s)(c := Loaded (rw_fn s))\<rparr>) else None)"

definition ResolveNow_run :: "nat \<Rightarrow> watch_state \<Rightarrow> watch_state option" where
  "ResolveNow_run c s =
     (case rw_calls s c of
        Loaded k \<Rightarrow>
          let s = s\<lparr>rw_calls := (rw_calls s)(c := Returned)\<rparr>
          in Some (if k \<in> rw_ran s then s
                   else s\<lparr>rw_ran := insert k (rw_ran s), rw_doubleClose := (rw_doubleClose s \<or> rw_ch s \<in> rw_closed s),
                          rw_closed := insert (rw_ch s) (rw_closed s)\<rparr>)
      | _ \<Rightarrow> None)"

text \<open>A Close waits in its send to done, which panics once done is closed.\<close>

definition rs_Close_send :: "watch_state \<Rightarrow> watch_state" where
  "rs_Close_send s = s\<lparr>rw_closers := Suc (rw_closers s)\<rparr>"

definition rs_Close_panic :: "watch_state \<Rightarrow> watch_state option" where
  "rs_Close_panic s =
     (if rw_doneClosed s \<and> rw_closers s > 0
      then Some (s\<lparr>rw_closers := rw_closers s - 1, rw_closePanics := Suc (rw_closePanics s)\<rparr>) else None)"

section \<open>Steps\<close>

text \<open>What the poller does by itself, without its timer and without Close.\<close>

inductive poller_step :: "watch_state \<Rightarrow> watch_state \<Rightarrow> bool" where
  ps_poll: "watch_poll L sv s = Some s' \<Longrightarrow> poller_step s s'"
| ps_signal: "watch_signal s = Some s' \<Longrightarrow> poller_step s s'"
| ps_make: "newResolveNow_make s = Some s' \<Longrightarrow> poller_step s s'"
| ps_store: "newResolveNow_store s = Some s' \<Longrightarrow> poller_step s s'"

inductive watch_step :: "watch_state \<Rightarrow> watch_state \<Rightarrow> bool" where
  ws_poller: "poller_step s s' \<Longrightarrow> watch_step s s'"
| ws_timer: "watch_timer s = Some s' \<Longrightarrow> watch_step s s'"
| ws_done: "watch_done s = Some s' \<Longrightarrow> watch_step s s'"
| ws_return: "watch_return s = Some s' \<Longrightarrow> watch_step s s'"
| ws_load: "ResolveNow_load c s = Some s' \<Longrightarrow> watch_step s s'"
| ws_run: "ResolveNow_run c s = Some s' \<Longrightarrow> watch_step s s'"
| ws_close: "watch_step s (rs_Close_send s)"
| ws_panic: "rs_Close_panic s = Some s' \<Longrightarrow> watch_step s s'"

inductive watch_reachable :: "Resolver \<Rightarrow> watch_state \<Rightarrow> bool" for r where
  wr_init: "watch_reachable r (watch_init r)"
| wr_step: "watch_reachable r s \<Longrightarrow> watch_step s s' \<Longrightarrow> watch_reachable r s'"

inductive_cases poller_stepE: "poller_step s s'"
inductive_cases watch_stepE: "watch_step s s'"

lemmas watch_ops = watch_poll_def watch_timer_def watch_signal_def newResolveNow_make_def newResolveNow_store_def
  watch_done_def watch_return_def ResolveNow_load_def ResolveNow_run_def rs_Close_send_def rs_Close_panic_def begin_poll_def

section \<open>The invariant\<close>

text \<open>
  The functions before the stored one have all run; the stored one has run when its channel is closed, and
  before it is replaced. A call that no poll has followed holds the stored function.
\<close>

definition watch_inv :: "watch_state \<Rightarrow> bool" where
  "watch_inv s \<longleftrightarrow>
     rw_ch s = (if rw_pc s = Storing then Suc (rw_fn s) else rw_fn s)
   \<and> {..<rw_fn s} \<subseteq> rw_ran s \<and> rw_ran s \<subseteq> {..rw_fn s} \<and> rw_closed s = rw_ran s
   \<and> (rw_pc s \<in> {Making, Storing} \<longrightarrow> rw_fn s \<in> rw_ran s)
   \<and> (\<forall>c k. rw_calls s c = Loaded k \<longrightarrow> k \<le> rw_fn s \<and> (c \<in> rw_polled s \<or> rw_fn s = k))
   \<and> (\<forall>c. rw_calls s c = Returned \<longrightarrow> c \<in> rw_polled s \<or> rw_fn s \<in> rw_ran s)
   \<and> \<not> rw_doubleClose s"

lemma watch_inv_store:
  assumes "newResolveNow_store s = Some s'" and "watch_inv s"
  shows "watch_inv s'"
proof -
  have "rw_pc s = Storing" using assms(1) by (simp add: newResolveNow_store_def split: if_splits)
  moreover from this have "{..<Suc (rw_fn s)} \<subseteq> rw_ran s" using assms(2) by (auto simp: watch_inv_def less_Suc_eq)
  ultimately show ?thesis using assms by (auto simp: newResolveNow_store_def begin_poll_def watch_inv_def le_SucI)
qed

lemma watch_inv_poll: "watch_poll L sv s = Some s' \<Longrightarrow> watch_inv s \<Longrightarrow> watch_inv s'"
  by (clarsimp simp: watch_poll_def watch_inv_def Let_def split: if_splits prod.splits)

lemma watch_inv_signal: "watch_signal s = Some s' \<Longrightarrow> watch_inv s \<Longrightarrow> watch_inv s'"
  by (clarsimp simp: watch_signal_def watch_inv_def split: if_splits)

lemma watch_inv_make: "newResolveNow_make s = Some s' \<Longrightarrow> watch_inv s \<Longrightarrow> watch_inv s'"
  by (clarsimp simp: newResolveNow_make_def watch_inv_def split: if_splits)

lemma watch_inv_poller: "poller_step s s' \<Longrightarrow> watch_inv s \<Longrightarrow> watch_inv s'"
proof (erule poller_stepE)
  show "watch_poll L sv s = Some s' \<Longrightarrow> watch_inv s \<Longrightarrow> watch_inv s'" for L sv by (rule watch_inv_poll)
  show "watch_signal s = Some s' \<Longrightarrow> watch_inv s \<Longrightarrow> watch_inv s'" by (rule watch_inv_signal)
  show "newResolveNow_make s = Some s' \<Longrightarrow> watch_inv s \<Longrightarrow> watch_inv s'" by (rule watch_inv_make)
  show "newResolveNow_store s = Some s' \<Longrightarrow> watch_inv s \<Longrightarrow> watch_inv s'" by (rule watch_inv_store)
qed

lemma watch_inv_run:
  assumes "ResolveNow_run c s = Some s'" and "watch_inv s"
  shows "watch_inv s'"
proof -
  obtain k where k: "rw_calls s c = Loaded k" using assms(1) by (auto simp: ResolveNow_run_def split: rw_call.splits)
  show ?thesis
  proof (cases "k \<in> rw_ran s")
    case True
    then have s': "s' = s\<lparr>rw_calls := (rw_calls s)(c := Returned)\<rparr>" using assms(1) k by (simp add: ResolveNow_run_def Let_def)
    have "c \<in> rw_polled s \<or> rw_fn s \<in> rw_ran s" using assms(2) k True unfolding watch_inv_def by blast
    then show ?thesis using assms(2) unfolding s' by (simp add: watch_inv_def)
  next
    case False
    then have k': "k = rw_fn s" using assms(2) k unfolding watch_inv_def by force
    then have n: "rw_pc s \<notin> {Making, Storing}" using assms(2) False unfolding watch_inv_def by blast
    then have c: "rw_ch s = rw_fn s" using assms(2) unfolding watch_inv_def by simp
    have s': "s' = s\<lparr>rw_calls := (rw_calls s)(c := Returned), rw_ran := insert (rw_fn s) (rw_ran s),
        rw_doubleClose := rw_doubleClose s \<or> rw_fn s \<in> rw_closed s, rw_closed := insert (rw_fn s) (rw_closed s)\<rparr>"
      using assms(1) k False k' c by (simp add: ResolveNow_run_def Let_def)
    show ?thesis
      using assms(2) n c False unfolding s' k' by (simp add: watch_inv_def subset_insertI2)
  qed
qed

lemma watch_inv_load:
  assumes "ResolveNow_load c s = Some s'" and "watch_inv s"
  shows "watch_inv s'"
proof -
  have s': "s' = s\<lparr>rw_calls := (rw_calls s)(c := Loaded (rw_fn s))\<rparr>"
    using assms(1) by (simp add: ResolveNow_load_def split: if_splits)
  show ?thesis using assms(2) unfolding s' by (simp add: watch_inv_def)
qed

lemma watch_inv_timer: "watch_timer s = Some s' \<Longrightarrow> watch_inv s \<Longrightarrow> watch_inv s'"
  by (clarsimp simp: watch_timer_def begin_poll_def watch_inv_def split: if_splits)

lemma watch_inv_closing:
  "watch_done s = Some s' \<Longrightarrow> watch_inv s \<Longrightarrow> watch_inv s'"
  "watch_return s = Some s' \<Longrightarrow> watch_inv s \<Longrightarrow> watch_inv s'"
  "watch_inv s \<Longrightarrow> watch_inv (rs_Close_send s)"
  "rs_Close_panic s = Some s' \<Longrightarrow> watch_inv s \<Longrightarrow> watch_inv s'"
  by (clarsimp simp: watch_done_def watch_return_def rs_Close_send_def rs_Close_panic_def watch_inv_def split: if_splits)+

lemma watch_inv_step: "watch_step s s' \<Longrightarrow> watch_inv s \<Longrightarrow> watch_inv s'"
proof (erule watch_stepE)
  show "poller_step s s' \<Longrightarrow> watch_inv s \<Longrightarrow> watch_inv s'" by (rule watch_inv_poller)
  show "watch_timer s = Some s' \<Longrightarrow> watch_inv s \<Longrightarrow> watch_inv s'" by (rule watch_inv_timer)
  show "watch_done s = Some s' \<Longrightarrow> watch_inv s \<Longrightarrow> watch_inv s'" by (rule watch_inv_closing)
  show "watch_return s = Some s' \<Longrightarrow> watch_inv s \<Longrightarrow> watch_inv s'" by (rule watch_inv_closing)
  show "ResolveNow_load c s = Some s' \<Longrightarrow> watch_inv s \<Longrightarrow> watch_inv s'" for c by (rule watch_inv_load)
  show "ResolveNow_run c s = Some s' \<Longrightarrow> watch_inv s \<Longrightarrow> watch_inv s'" for c by (rule watch_inv_run)
  show "s' = rs_Close_send s \<Longrightarrow> watch_inv s \<Longrightarrow> watch_inv s'" by (simp add: watch_inv_closing)
  show "rs_Close_panic s = Some s' \<Longrightarrow> watch_inv s \<Longrightarrow> watch_inv s'" by (rule watch_inv_closing)
qed

lemma watch_reachable_inv: "watch_reachable r s \<Longrightarrow> watch_inv s"
proof (induction rule: watch_reachable.induct)
  case wr_init
  show ?case by (simp add: watch_inv_def watch_init_def)
next
  case (wr_step s s')
  then show ?case by (simp add: watch_inv_step)
qed

section \<open>No signal is lost\<close>

lemma poll_step: "rw_pc s = Polling \<Longrightarrow> \<exists>s'. poller_step s s' \<and> rw_pc s' = Selecting \<and> rw_ch s' = rw_ch s
    \<and> rw_closed s' = rw_closed s \<and> rw_calls s' = rw_calls s"
  using ps_poll[where s = s] by (fastforce simp: watch_poll_def split: prod.splits)

lemma storing_polls:
  assumes "rw_calls s c \<noteq> NotCalled" and "rw_pc s = Storing"
  shows "\<exists>s'. poller_step\<^sup>*\<^sup>* s s' \<and> c \<in> rw_polled s'"
proof -
  have "poller_step s (begin_poll (s\<lparr>rw_fn := rw_ch s\<rparr>))"
    using assms(2) by (intro ps_store) (simp add: newResolveNow_store_def)
  moreover have "c \<in> rw_polled (begin_poll (s\<lparr>rw_fn := rw_ch s\<rparr>))" using assms(1) by (simp add: begin_poll_def)
  ultimately show ?thesis by blast
qed

lemma polls_after: "poller_step s t \<Longrightarrow> \<exists>s'. poller_step\<^sup>*\<^sup>* t s' \<and> c \<in> rw_polled s' \<Longrightarrow> \<exists>s'. poller_step\<^sup>*\<^sup>* s s' \<and> c \<in> rw_polled s'"
  by (meson converse_rtranclp_into_rtranclp)

lemma making_polls:
  assumes "rw_calls s c \<noteq> NotCalled" and "rw_pc s = Making"
  shows "\<exists>s'. poller_step\<^sup>*\<^sup>* s s' \<and> c \<in> rw_polled s'"
proof (rule polls_after[OF ps_make])
  show "newResolveNow_make s = Some (s\<lparr>rw_pc := Storing, rw_ch := Suc (rw_ch s)\<rparr>)"
    using assms(2) by (simp add: newResolveNow_make_def)
qed (rule storing_polls, simp_all add: assms(1))

lemma signal_polls:
  assumes "rw_calls s c \<noteq> NotCalled" and "rw_pc s = Selecting" and "rw_ch s \<in> rw_closed s"
  shows "\<exists>s'. poller_step\<^sup>*\<^sup>* s s' \<and> c \<in> rw_polled s'"
proof (rule polls_after[OF ps_signal])
  show "watch_signal s = Some (s\<lparr>rw_pc := Making\<rparr>)" using assms(2,3) by (simp add: watch_signal_def)
qed (rule making_polls, simp_all add: assms(1))

lemma pending_call_polls:
  assumes "watch_inv s" and "rw_calls s c = Returned" and "rw_pc s \<notin> {Stopping, Stopped}" and "c \<notin> rw_polled s"
  shows "\<exists>s'. poller_step\<^sup>*\<^sup>* s s' \<and> c \<in> rw_polled s'"
proof (cases "rw_pc s")
  case Polling
  then have closed: "rw_ch s \<in> rw_closed s" using assms(1,2,4) by (auto simp: watch_inv_def)
  obtain t where t: "poller_step s t" "rw_pc t = Selecting" "rw_ch t \<in> rw_closed t" "rw_calls t c = Returned"
    using poll_step[OF Polling] closed assms(2) by auto
  show ?thesis by (rule polls_after[OF t(1) signal_polls[OF _ t(2,3)]]) (simp add: t(4))
next
  case Selecting
  then show ?thesis using assms by (intro signal_polls) (auto simp: watch_inv_def)
next
  case Making
  then show ?thesis using assms(2) by (intro making_polls) auto
next
  case Storing
  then show ?thesis using assms(2) by (intro storing_polls) auto
qed (use assms(3) in auto)

text \<open>
  C18. A ResolveNow is never lost, however its two halves interleave with the poller that renews the channel
  and the function: while the resolver is not closed, after a call has returned either a poll has begun
  since the call, or the poller gets to one by itself, without waiting for its timer.
\<close>
theorem ResolveNow_not_lost:
  assumes "watch_reachable r s" and "rw_calls s c = Returned" and "rw_pc s \<notin> {Stopping, Stopped}"
  shows "c \<in> rw_polled s \<or> (\<exists>s'. poller_step\<^sup>*\<^sup>* s s' \<and> c \<in> rw_polled s')"
  using pending_call_polls[OF watch_reachable_inv[OF assms(1)] assms(2,3)] by blast

text \<open>However many calls of ResolveNow there are, no channel is closed twice, which would panic.\<close>

theorem ResolveNow_no_panic: "watch_reachable r s \<Longrightarrow> \<not> rw_doubleClose s"
  using watch_reachable_inv by (auto simp: watch_inv_def)

lemma ex_signalled:
  assumes "rw_pc (watch_init r) = Polling"
  shows "\<exists>s. watch_reachable r s \<and> rw_calls s 0 = Returned \<and> rw_pc s = Polling \<and> 0 \<notin> rw_polled s"
proof -
  let ?s = "watch_init r"
  let ?s1 = "?s\<lparr>rw_calls := (rw_calls ?s)(0 := Loaded 0)\<rparr>"
  have "watch_step ?s ?s1" by (rule ws_load[where c = 0]) (simp add: ResolveNow_load_def watch_init_def)
  moreover have "watch_step ?s1 (the (ResolveNow_run 0 ?s1))"
    by (rule ws_run[where c = 0]) (simp add: ResolveNow_run_def Let_def)
  ultimately have "watch_reachable r (the (ResolveNow_run 0 ?s1))" by (blast intro: wr_init wr_step)
  moreover have "rw_calls (the (ResolveNow_run 0 ?s1)) 0 = Returned" "rw_pc (the (ResolveNow_run 0 ?s1)) = Polling"
    "0 \<notin> rw_polled (the (ResolveNow_run 0 ?s1))"
    by (simp_all add: ResolveNow_run_def watch_init_def Let_def)
  ultimately show ?thesis by blast
qed

theorem ResolveNow_not_lost_witness:
  "\<exists>s. rw_calls s 0 = Returned \<and> 0 \<notin> rw_polled s \<and> (\<exists>s'. poller_step\<^sup>*\<^sup>* s s' \<and> 0 \<in> rw_polled s')"
proof -
  obtain s where s: "watch_reachable (rb_Build o1 ''t'') s" "rw_calls s 0 = Returned" "rw_pc s = Polling" "0 \<notin> rw_polled s"
    using ex_signalled[of "rb_Build o1 ''t''"] by (auto simp: watch_init_def)
  from ResolveNow_not_lost[OF s(1,2)] s show ?thesis by auto
qed

section \<open>Close\<close>

definition close_inv :: "watch_state \<Rightarrow> bool" where
  "close_inv s \<longleftrightarrow> rw_closesReturned s = (if rw_pc s \<in> {Stopping, Stopped} then 1 else 0)
     \<and> (rw_doneClosed s \<longleftrightarrow> rw_pc s = Stopped)"

lemma close_inv_poller: "poller_step s s' \<Longrightarrow> close_inv s \<Longrightarrow> close_inv s'"
  by (elim poller_stepE) (auto simp: watch_ops close_inv_def Let_def split: if_splits prod.splits)

lemma poller_runs: "poller_step s s' \<Longrightarrow> rw_pc s \<notin> {Stopping, Stopped}"
  by (elim poller_stepE) (auto simp: watch_ops split: if_splits)

lemma close_inv_step: "watch_step s s' \<Longrightarrow> close_inv s \<Longrightarrow> close_inv s'"
proof (erule watch_stepE)
  show "poller_step s s' \<Longrightarrow> close_inv s \<Longrightarrow> close_inv s'" by (rule close_inv_poller)
qed (auto simp: watch_ops close_inv_def Let_def split: if_splits rw_call.splits)

lemma watch_reachable_close_inv: "watch_reachable r s \<Longrightarrow> close_inv s"
proof (induction rule: watch_reachable.induct)
  case wr_init
  show ?case by (simp add: close_inv_def watch_init_def)
next
  case (wr_step s s')
  then show ?case by (simp add: close_inv_step)
qed

lemma stopped_step:
  assumes "watch_step s s'" and "rw_pc s \<in> {Stopping, Stopped}"
  shows "rw_pc s' \<in> {Stopping, Stopped} \<and> rw_events s' = rw_events s"
  using assms(1)
proof (rule watch_stepE)
  assume "poller_step s s'"
  then show ?thesis using poller_runs assms(2) by blast
qed (use assms(2) in \<open>auto simp: watch_ops Let_def split: if_splits rw_call.splits\<close>)

lemma stopped_steps:
  assumes "watch_step\<^sup>*\<^sup>* s s'" and "rw_pc s \<in> {Stopping, Stopped}"
  shows "rw_pc s' \<in> {Stopping, Stopped} \<and> rw_events s' = rw_events s"
  using assms(1)
proof (induction rule: rtranclp_induct)
  case base
  show ?case using assms(2) by simp
next
  case (step y z)
  then show ?case using stopped_step[of y z] by simp
qed

lemma watch_reachable_steps: "watch_step\<^sup>*\<^sup>* s s' \<Longrightarrow> watch_reachable r s \<Longrightarrow> watch_reachable r s'"
  by (induction rule: rtranclp_induct) (auto intro: wr_step)

text \<open>
  C33. Close is final: once one Close has returned, the watcher gets no further report whatever happens, and
  no second Close ever returns (it panics once the poller has closed done).
\<close>
theorem Close_final:
  assumes "watch_reachable r s" and "rw_closesReturned s > 0" and "watch_step\<^sup>*\<^sup>* s s'"
  shows "rw_events s' = rw_events s \<and> rw_closesReturned s' = 1"
proof -
  have pc: "rw_pc s \<in> {Stopping, Stopped}"
    using watch_reachable_close_inv[OF assms(1)] assms(2) by (auto simp: close_inv_def split: if_splits)
  from stopped_steps[OF assms(3) pc] watch_reachable_close_inv[OF watch_reachable_steps[OF assms(3,1)]]
  show ?thesis by (auto simp: close_inv_def split: if_splits)
qed

lemma ex_closed:
  obtains s s' where "watch_reachable r s" and "rw_closesReturned s = 1" and "watch_return s = Some s'"
proof -
  fix L sv
  let ?s1 = "the (watch_poll L sv (watch_init r))"
  have p: "watch_poll L sv (watch_init r) = Some ?s1" and s1: "rw_pc ?s1 = Selecting" "rw_closesReturned ?s1 = 0"
    by (simp_all add: watch_poll_def watch_init_def split: prod.splits)
  let ?s2 = "rs_Close_send ?s1"
  let ?s3 = "the (watch_done ?s2)"
  have d: "watch_done ?s2 = Some ?s3" using s1 by (simp add: watch_done_def rs_Close_send_def)
  have "watch_reachable r ?s3"
    by (rule wr_step[OF wr_step[OF wr_step[OF wr_init ws_poller[OF ps_poll[OF p]]] ws_close] ws_done[OF d]])
  moreover have "rw_closesReturned ?s3 = 1" "rw_pc ?s3 = Stopping" using s1 by (simp_all add: watch_done_def rs_Close_send_def)
  ultimately show ?thesis using that by (auto simp: watch_return_def)
qed

theorem Close_final_witness:
  "\<exists>s s'. watch_return s = Some s' \<and> rw_events s' = rw_events s \<and> rw_closesReturned s' = 1"
proof -
  obtain s s' where s: "watch_reachable (rb_Build opts ''t'') s" "rw_closesReturned s = 1" "watch_return s = Some s'"
    by (rule ex_closed)
  have "watch_step\<^sup>*\<^sup>* s s'" using ws_return[OF s(3)] by (rule r_into_rtranclp[of watch_step])
  from Close_final[OF s(1) _ this] s show ?thesis by auto
qed

end
