(* ===== verification/Webbridge.thy ===== *)
theory Webbridge
  imports Md_Filter
begin

text \<open>
  What the HTTP and WebSocket bridges share (webbridge/webbridge.go, internal/httperr): how an error
  becomes an HTTP response, how transcoding errors get a status, and how metadata is taken from headers
  and from the query.

  The status package, the text of errors and the gateway's table of HTTP codes are parameters
  (\<open>web_lib\<close>). An http.ResponseWriter is the record \<open>response\<close> with the behaviour net/http documents: the
  header map is open until the first WriteHeader or Write, which sends it.
\<close>

section \<open>The response writer\<close>

type_synonym header = "string \<Rightarrow> string list"

record response =
  rw_header :: header
  rw_sent :: "(int \<times> header) option"
  rw_body :: string
  writtenStatus :: bool

definition new_response :: response where
  "new_response = \<lparr>rw_header = (\<lambda>_. []), rw_sent = None, rw_body = [], writtenStatus = False\<rparr>"

text \<open>The methods of the wrapped writer: only the first status counts, and Write sends 200 before it.\<close>

definition send_status :: "int \<Rightarrow> response \<Rightarrow> response" where
  "send_status c w = (if rw_sent w = None then w\<lparr>rw_sent := Some (c, rw_header w)\<rparr> else w)"

definition WriteHeader :: "int \<Rightarrow> response \<Rightarrow> response" where
  "WriteHeader c w = send_status c (w\<lparr>writtenStatus := True\<rparr>)"

text \<open>\<open>n\<close> is how many of the bytes reach the client; fewer than all of them is a write error.\<close>

definition Write_n :: "nat \<Rightarrow> string \<Rightarrow> response \<Rightarrow> response" where
  "Write_n n data w =
     (let w = send_status 200 (w\<lparr>writtenStatus := True\<rparr>) in w\<lparr>rw_body := rw_body w @ take n data\<rparr>)"

abbreviation Write :: "string \<Rightarrow> response \<Rightarrow> response" where
  "Write data w \<equiv> Write_n (length data) data w"

definition set_header :: "string \<Rightarrow> string list \<Rightarrow> response \<Rightarrow> response" where
  "set_header k vs w = w\<lparr>rw_header := (rw_header w)(k := vs)\<rparr>"

section \<open>Errors\<close>

record web_lib =
  lib_Convert :: "go_error \<Rightarrow> code \<times> string"
  lib_HTTPStatusFromCode :: "code \<Rightarrow> int"
  lib_Error :: "go_error \<Rightarrow> string"

record 'm resp_transcoder =
  rt_Transcode :: "'m \<Rightarrow> go_error + string"
  rt_ContentType :: "'m \<Rightarrow> string \<times> bool"
  rt_status :: "code \<times> string \<Rightarrow> 'm"

definition httpStatusCanceled :: int where
  "httpStatusCanceled = 499"
definition contentTypeHeader :: string where
  "contentTypeHeader = ''Content-Type''"
definition contentTypeOptionsHeader :: string where
  "contentTypeOptionsHeader = ''X-Content-Type-Options''"

text \<open>The interface check for HTTPStatus, which only *httperr.StatusError implements.\<close>

definition HTTPStatus :: "go_error \<Rightarrow> int option" where
  "HTTPStatus err = (case err of ErrHTTP c e \<Rightarrow> Some c | _ \<Rightarrow> None)"

definition errorStatus :: "web_lib \<Rightarrow> go_error \<Rightarrow> (code \<times> string) \<times> int" where
  "errorStatus L err =
     (let st = lib_Convert L err
      in (st, case HTTPStatus err of Some c \<Rightarrow> c | None \<Rightarrow> lib_HTTPStatusFromCode L (fst st)))"

text \<open>http.Error of net/http.\<close>

definition http_Error :: "string \<Rightarrow> int \<Rightarrow> response \<Rightarrow> response" where
  "http_Error msg c w =
     Write (msg @ [CHR 0x0A]) (WriteHeader c
       (set_header contentTypeOptionsHeader [''nosniff'']
         (set_header contentTypeHeader [''text/plain; charset=utf-8'']
           (set_header ''Content-Length'' [] w))))"

definition writeTextError :: "web_lib \<Rightarrow> go_error \<Rightarrow> response \<Rightarrow> response" where
  "writeTextError L err w = (let (st, respStatus) = errorStatus L err in http_Error (snd st) respStatus w)"

text \<open>
  transcodeError: when the status message itself cannot be transcoded, the text made for that case stays
  in a local buffer, and the data written is the (nil) data of the failed Transcode.
\<close>

definition transcodeError :: "web_lib \<Rightarrow> 'm resp_transcoder \<Rightarrow> go_error \<Rightarrow> response \<Rightarrow> response" where
  "transcodeError L t err w =
     (let (st, respStatus) = errorStatus L err;
          stProto = rt_status t st
      in case rt_Transcode t stProto of
           Inr respData \<Rightarrow>
             Write respData (WriteHeader respStatus
               (set_header contentTypeHeader [fst (rt_ContentType t stProto)] w))
         | Inl transcodeErr \<Rightarrow>
             Write [] (WriteHeader respStatus
               (set_header contentTypeOptionsHeader [''nosniff'']
                 (set_header contentTypeHeader [''text/plain; charset=utf-8''] w))))"

definition writeError :: "web_lib \<Rightarrow> bool \<Rightarrow> 'm resp_transcoder option \<Rightarrow> go_error \<Rightarrow> response \<Rightarrow> response" where
  "writeError L canceled t err w =
     (if writtenStatus w then w
      else if canceled then WriteHeader httpStatusCanceled w
      else case t of
             None \<Rightarrow> writeTextError L err w
           | Some t \<Rightarrow> transcodeError L t err w)"

text \<open>The type check for GRPCStatus: status errors themselves, not errors wrapping one.\<close>

definition has_GRPCStatus :: "go_error \<Rightarrow> bool" where
  "has_GRPCStatus err = (case err of ErrStatus c m \<Rightarrow> True | _ \<Rightarrow> False)"

definition wrapTranscodingError :: "web_lib \<Rightarrow> go_error option \<Rightarrow> code \<Rightarrow> go_error option" where
  "wrapTranscodingError L err defaultCode =
     (case err of
        None \<Rightarrow> None
      | Some e \<Rightarrow> if has_GRPCStatus e then Some e else Some (ErrStatus defaultCode (lib_Error L e)))"

definition requestTranscodingError :: "web_lib \<Rightarrow> go_error option \<Rightarrow> go_error option" where
  "requestTranscodingError L err = wrapTranscodingError L err InvalidArgument"

definition responseTranscodingError :: "web_lib \<Rightarrow> go_error option \<Rightarrow> go_error option" where
  "responseTranscodingError L err = wrapTranscodingError L err Internal"

section \<open>Metadata of a request\<close>

definition defaultMetadataParam :: string where
  "defaultMetadataParam = ''_metadata''"

definition valid_md_byte :: "char \<Rightarrow> bool" where
  "valid_md_byte ch =
     (let n = (of_char ch :: nat);
          letter = (97 \<le> n \<and> n \<le> 122) \<or> (65 \<le> n \<and> n \<le> 90);
          digit = 48 \<le> n \<and> n \<le> 57;
          other = ch = CHR ''_'' \<or> ch = CHR ''-'' \<or> ch = CHR ''.''
      in letter \<or> digit \<or> other)"

fun isValidMetadataKey :: "string \<Rightarrow> bool" where
  "isValidMetadataKey [] = True"
| "isValidMetadataKey (ch # k) = (if \<not> valid_md_byte ch then False else isValidMetadataKey k)"

fun isValidMetadataValue :: "string \<Rightarrow> bool" where
  "isValidMetadataValue [] = True"
| "isValidMetadataValue (ch # v) =
     (if (of_char ch :: nat) < 32 \<or> (of_char ch :: nat) > 126 then False else isValidMetadataValue v)"

text \<open>MD.Append of grpc, through its documented effect on the values of the key.\<close>

definition md_Append :: "'md md_ops \<Rightarrow> string \<Rightarrow> string list \<Rightarrow> 'md \<Rightarrow> 'md" where
  "md_Append M k vs m = (if vs = [] then m else md_Set M k (md_Get M m k @ vs) m)"

fun append_values :: "'md md_ops \<Rightarrow> string \<Rightarrow> string list \<Rightarrow> 'md option \<Rightarrow> 'md option" where
  "append_values M mdKey [] md = md"
| "append_values M mdKey (v # vals) md =
     (if \<not> isValidMetadataValue v then append_values M mdKey vals md
      else append_values M mdKey vals
             (Some (md_Append M mdKey [v] (case md of None \<Rightarrow> md_empty M | Some m \<Rightarrow> m))))"

text \<open>
  The query is the association list of url.Values in the order the range loop visits it; the results
  are the metadata (\<open>None\<close> for a nil MD) and the query that replaces RawQuery, if any was removed.
\<close>

type_synonym query = "(string \<times> string list) list"

definition md_param_match :: "string \<Rightarrow> string \<Rightarrow> bool" where
  "md_param_match param k = (HasPrefix k (param @ ''['') \<and> HasSuffix k '']'')"

definition md_param_key :: "string \<Rightarrow> string \<Rightarrow> string" where
  "md_param_key param k = take (length k - 1 - (length param + 1)) (drop (length param + 1) k)"

fun parse_md_loop :: "'md md_ops \<Rightarrow> string \<Rightarrow> query \<Rightarrow> query \<Rightarrow> query option \<Rightarrow> 'md option
    \<Rightarrow> query option \<times> 'md option" where
  "parse_md_loop M param original [] modified md = (modified, md)"
| "parse_md_loop M param original ((k, vals) # rest) modified md =
     (if \<not> md_param_match param k then parse_md_loop M param original rest modified md
      else let modified = Some (AList.delete k (case modified of None \<Rightarrow> original | Some m \<Rightarrow> m));
               mdKey = md_param_key param k
           in if \<not> isValidMetadataKey mdKey then parse_md_loop M param original rest modified md
              else parse_md_loop M param original rest modified (append_values M mdKey vals md))"

definition parseMetadataQuery :: "'md md_ops \<Rightarrow> string \<Rightarrow> query \<Rightarrow> query option \<times> 'md option" where
  "parseMetadataQuery M param original =
     (let param = (if param = [] then defaultMetadataParam else param)
      in parse_md_loop M param original original None None)"

fun headersToMD_loop :: "'md md_ops \<Rightarrow> query \<Rightarrow> 'md \<Rightarrow> 'md" where
  "headersToMD_loop M [] md = md"
| "headersToMD_loop M ((k, v) # headers) md = headersToMD_loop M headers (md_Set M k v md)"

definition headersToMD :: "'md md_ops \<Rightarrow> query \<Rightarrow> 'md" where
  "headersToMD M headers = headersToMD_loop M headers (md_empty M)"

section \<open>Properties of error responses\<close>

named_theorems rw_simps \<open>the response writer\<close>

lemma rw_defs [rw_simps]:
  "writtenStatus (WriteHeader c w)" "writtenStatus (Write_n n d w)"
  "writtenStatus (set_header k vs w) = writtenStatus w"
  "rw_sent (set_header k vs w) = rw_sent w"
  "rw_header (set_header k vs w) = (rw_header w)(k := vs)"
  "rw_body (set_header k vs w) = rw_body w"
  "rw_body (WriteHeader c w) = rw_body w"
  "rw_header (WriteHeader c w) = rw_header w"
  "rw_header (Write_n n d w) = rw_header w"
  "rw_body (Write_n n d w) = rw_body w @ take n d"
  "rw_sent (WriteHeader c w) = (if rw_sent w = None then Some (c, rw_header w) else rw_sent w)"
  "rw_sent (Write_n n d w) = (if rw_sent w = None then Some (200, rw_header w) else rw_sent w)"
  by (auto simp: WriteHeader_def Write_n_def send_status_def set_header_def Let_def)

lemmas writeError_defs = writeError_def writeTextError_def transcodeError_def http_Error_def

lemma writeTextError_response:
  assumes "errorStatus L err = (st, c)"
  shows "rw_sent (writeTextError L err w) = (if rw_sent w = None
      then Some (c, (rw_header w)(''Content-Length'' := [], contentTypeHeader := [''text/plain; charset=utf-8''],
                 contentTypeOptionsHeader := [''nosniff''])) else rw_sent w)
    \<and> rw_body (writeTextError L err w) = rw_body w @ snd st @ [CHR 0x0A]
    \<and> writtenStatus (writeTextError L err w)"
  by (simp add: writeTextError_def http_Error_def assms rw_simps)

lemma transcodeError_response:
  assumes "errorStatus L err = (st, c)"
  shows "rw_sent (transcodeError L t err w) = (if rw_sent w = None
      then Some (c, case rt_Transcode t (rt_status t st) of
             Inr d \<Rightarrow> (rw_header w)(contentTypeHeader := [fst (rt_ContentType t (rt_status t st))])
           | Inl e \<Rightarrow> (rw_header w)(contentTypeHeader := [''text/plain; charset=utf-8''],
                       contentTypeOptionsHeader := [''nosniff''])) else rw_sent w)
    \<and> rw_body (transcodeError L t err w) = rw_body w @ (case rt_Transcode t (rt_status t st) of Inr d \<Rightarrow> d | Inl e \<Rightarrow> [])
    \<and> writtenStatus (transcodeError L t err w)"
  by (auto simp: transcodeError_def assms rw_simps split: sum.splits)

lemma writeError_parts:
  assumes "rw_sent w = None" and "\<not> writtenStatus w" and "rw_body w = []"
    and "errorStatus L err = (st, c)" and w': "w' = writeError L canceled t err w"
  shows "map_option fst (rw_sent w') = Some (if canceled then 499 else c)"
    and "c = (case HTTPStatus err of Some n \<Rightarrow> n | None \<Rightarrow> lib_HTTPStatusFromCode L (fst (lib_Convert L err)))"
    and "rw_body w' = (if canceled then [] else case t of
           None \<Rightarrow> snd st @ [CHR 0x0A]
         | Some tc \<Rightarrow> (case rt_Transcode tc (rt_status tc st) of Inr d \<Rightarrow> d | Inl e \<Rightarrow> []))"
    and "writeError L canceled' t' err' w' = w'"
proof -
  have w'_cases: "w' = (if canceled then WriteHeader 499 w
      else case t of None \<Rightarrow> writeTextError L err w | Some tc \<Rightarrow> transcodeError L tc err w)"
    using assms(2) by (simp add: w' writeError_def httpStatusCanceled_def)
  have resp: "(\<exists>h. rw_sent w' = Some (if canceled then 499 else c, h))
    \<and> rw_body w' = (if canceled then [] else case t of
           None \<Rightarrow> snd st @ [CHR 0x0A]
         | Some tc \<Rightarrow> (case rt_Transcode tc (rt_status tc st) of Inr d \<Rightarrow> d | Inl e \<Rightarrow> []))
    \<and> writtenStatus w'"
  proof (cases t)
    case None
    then show ?thesis using writeTextError_response[OF assms(4), of w] assms(1,3) by (simp add: w'_cases rw_simps)
  next
    case (Some tc)
    then show ?thesis using transcodeError_response[OF assms(4), of tc w] assms(1,3) by (simp add: w'_cases rw_simps)
  qed
  show "map_option fst (rw_sent w') = Some (if canceled then 499 else c)" using resp by auto
  show "c = (case HTTPStatus err of Some n \<Rightarrow> n | None \<Rightarrow> lib_HTTPStatusFromCode L (fst (lib_Convert L err)))"
    using assms(4) by (simp add: errorStatus_def Let_def)
  show "rw_body w' = (if canceled then [] else case t of
           None \<Rightarrow> snd st @ [CHR 0x0A]
         | Some tc \<Rightarrow> (case rt_Transcode tc (rt_status tc st) of Inr d \<Rightarrow> d | Inl e \<Rightarrow> []))"
    using resp by blast
  show "writeError L canceled' t' err' w' = w'" using resp by (simp add: writeError_def)
qed

text \<open>
  C36. Error responses: on a response nothing of which has been written, writeError sends exactly one
  status, which is 499 for a request that was cancelled and otherwise the one the error itself demands or
  the one its gRPC code maps to; the body is then the status as the response transcoder encodes it, or the
  status message in a line when the request never got a transcoder. A second error changes nothing.
\<close>
theorem writeError_response:
  assumes "rw_sent w = None" and "\<not> writtenStatus w" and "rw_body w = []"
    and "errorStatus L err = (st, c)" and "w' = writeError L canceled t err w"
  shows "map_option fst (rw_sent w') = Some (if canceled then 499 else c)
    \<and> c = (case HTTPStatus err of Some n \<Rightarrow> n | None \<Rightarrow> lib_HTTPStatusFromCode L (fst (lib_Convert L err)))
    \<and> rw_body w' = (if canceled then [] else case t of
           None \<Rightarrow> snd st @ [CHR 0x0A]
         | Some tc \<Rightarrow> (case rt_Transcode tc (rt_status tc st) of Inr d \<Rightarrow> d | Inl e \<Rightarrow> []))
    \<and> writeError L canceled' t' err' w' = w'"
  using writeError_parts[OF assms] by (intro conjI)

definition ex_lib :: web_lib where
  "ex_lib = \<lparr>lib_Convert = (\<lambda>e. case e of ErrStatus c m \<Rightarrow> (c, m) | _ \<Rightarrow> (Unknown, ''error'')),
     lib_HTTPStatusFromCode = (\<lambda>c. if c = OK then 200 else 500), lib_Error = (\<lambda>e. ''error'')\<rparr>"

theorem writeError_response_witness:
  "rw_body (writeError ex_lib False (None :: unit resp_transcoder option) (ErrStatus Internal ''x'') new_response) = [CHR ''x'', CHR 0x0A]"
proof -
  have "rw_sent new_response = None" "\<not> writtenStatus new_response" "rw_body new_response = []"
    "errorStatus ex_lib (ErrStatus Internal ''x'') = ((Internal, ''x''), 500)"
    by (simp_all add: new_response_def errorStatus_def HTTPStatus_def ex_lib_def)
  from writeError_response[OF this refl, of False "None :: unit resp_transcoder option", THEN conjunct2, THEN conjunct2, THEN conjunct1]
  show ?thesis by simp
qed

text \<open>
  When the status of an error cannot be transcoded, the client gets the right status code and the
  headers of a plain text explanation, but never the explanation: the text is formatted into a buffer that
  is not written, so the body is empty and the error's message is lost.
\<close>
theorem transcodeError_loses_message:
  assumes "rt_Transcode t (rt_status t (fst (errorStatus L err))) = Inl e" and "rw_sent w = None"
  shows "rw_body (transcodeError L t err w) = rw_body w
    \<and> (\<exists>h. rw_sent (transcodeError L t err w) = Some (snd (errorStatus L err), h)
           \<and> h contentTypeHeader = [''text/plain; charset=utf-8''])"
proof (intro conjI)
  have e: "errorStatus L err = (fst (errorStatus L err), snd (errorStatus L err))" by simp
  show "rw_body (transcodeError L t err w) = rw_body w"
    using transcodeError_response[OF e, of t w] assms e by simp
  show "\<exists>h. rw_sent (transcodeError L t err w) = Some (snd (errorStatus L err), h)
           \<and> h contentTypeHeader = [''text/plain; charset=utf-8'']"
    using transcodeError_response[OF e, of t w] assms e
    by (simp add: contentTypeHeader_def contentTypeOptionsHeader_def)
qed

theorem transcodeError_loses_message_witness:
  "rw_body (transcodeError ex_lib \<lparr>rt_Transcode = (\<lambda>m. Inl (ErrMsg ''bad'')), rt_ContentType = (\<lambda>m. ([], False)), rt_status = (\<lambda>st. ())\<rparr>
      (ErrStatus NotFound ''no such thing'') new_response) = []"
  using transcodeError_loses_message[of "\<lparr>rt_Transcode = (\<lambda>m. Inl (ErrMsg ''bad'')), rt_ContentType = (\<lambda>m. ([], False)), rt_status = (\<lambda>st. ())\<rparr>"
      ex_lib "ErrStatus NotFound ''no such thing''" "ErrMsg ''bad''" new_response]
  by (simp add: new_response_def)

lemma wrapTranscodingError_status:
  "wrapTranscodingError L err c = None \<longleftrightarrow> err = None"
  "wrapTranscodingError L err c = Some e \<Longrightarrow> has_GRPCStatus e"
  by (auto simp: wrapTranscodingError_def has_GRPCStatus_def split: option.splits if_splits)

section \<open>Properties of the metadata of a request\<close>

fun md_of_matches :: "string \<Rightarrow> string \<Rightarrow> query \<Rightarrow> string list" where
  "md_of_matches param K [] = []"
| "md_of_matches param K ((k, vals) # q) =
     (if md_param_match param k \<and> isValidMetadataKey (md_param_key param k)
         \<and> to_lower (md_param_key param k) = to_lower K
      then filter isValidMetadataValue vals else []) @ md_of_matches param K q"

abbreviation md_opt_Get :: "'md md_ops \<Rightarrow> 'md option \<Rightarrow> string \<Rightarrow> string list" where
  "md_opt_Get M md K \<equiv> (case md of None \<Rightarrow> [] | Some m \<Rightarrow> md_Get M m K)"

lemma md_Append_Get:
  assumes "md_laws M"
  shows "md_Get M (md_Append M k vs m) K = md_Get M m K @ (if to_lower K = to_lower k then vs else [])"
  using md_lawsD(3)[OF assms, of K k m] by (auto simp: md_Append_def md_lawsD(2)[OF assms])

lemma append_values_Get:
  assumes "md_laws M"
  shows "md_opt_Get M (append_values M k vals md) K =
    md_opt_Get M md K @ (if to_lower K = to_lower k then filter isValidMetadataValue vals else [])"
  by (induction vals arbitrary: md)
     (auto simp: md_Append_Get[OF assms] md_lawsD(1)[OF assms] split: option.splits)

lemma parse_md_loop_Get:
  assumes "md_laws M"
  shows "md_opt_Get M (snd (parse_md_loop M param original q modified md)) K
       = md_opt_Get M md K @ md_of_matches param K q"
proof (induction q arbitrary: modified md)
  case (Cons x q)
  obtain k vals where "x = (k, vals)" by fastforce
  then show ?case by (auto simp: Cons.IH append_values_Get[OF assms] Let_def)
qed simp

lemma AList_delete_filter: "AList.delete k q = filter (\<lambda>(k', v). k' \<noteq> k) q"
  by (auto simp: AList.delete_eq case_prod_unfold intro: filter_cong)

lemma parse_md_loop_query:
  "fst (parse_md_loop M param original q modified md) =
    (if \<exists>(k, v) \<in> set q. md_param_match param k
     then Some (filter (\<lambda>(k, v). \<not> (md_param_match param k \<and> k \<in> fst ` set q))
                 (case modified of None \<Rightarrow> original | Some m \<Rightarrow> m))
     else modified)"
proof (induction q arbitrary: modified md)
  case (Cons x q)
  obtain k vals where x: "x = (k, vals)" by fastforce
  show ?case
  proof (cases "md_param_match param k")
    case False
    have "filter (\<lambda>(k', v). \<not> (md_param_match param k' \<and> k' \<in> fst ` set q)) xs
        = filter (\<lambda>(k', v). \<not> (md_param_match param k' \<and> k' \<in> fst ` set (x # q))) xs" for xs :: query
      by (rule filter_cong) (use False x in auto)
    then show ?thesis using False by (simp add: x Cons.IH)
  next
    case True
    have d: "filter (\<lambda>(k', v). \<not> (md_param_match param k' \<and> k' \<in> fst ` set q)) (AList.delete k xs)
        = filter (\<lambda>(k', v). \<not> (md_param_match param k' \<and> k' \<in> fst ` set (x # q))) xs" for xs :: query
      unfolding AList_delete_filter filter_filter by (rule filter_cong) (use True x in auto)
    have e: "AList.delete k xs = filter (\<lambda>(k', v). \<not> (md_param_match param k' \<and> k' \<in> fst ` set (x # q))) xs"
      if "\<not> (\<exists>(k, v) \<in> set q. md_param_match param k)" for xs :: query
      unfolding d[symmetric] by (rule sym, rule filter_True) (use that in auto)
    show ?thesis using True d e by (simp add: x Cons.IH Let_def)
  qed
qed simp

lemma parseMetadataQuery_parts:
  assumes "md_laws M" and "param \<noteq> []"
  shows "fst (parseMetadataQuery M param q) =
      (if \<exists>(k, v) \<in> set q. md_param_match param k
       then Some (filter (\<lambda>(k, v). \<not> md_param_match param k) q) else None)"
    and "md_opt_Get M (snd (parseMetadataQuery M param q)) K = md_of_matches param K q"
proof -
  have "filter (\<lambda>(k, v). \<not> (md_param_match param k \<and> k \<in> fst ` set q)) q = filter (\<lambda>(k, v). \<not> md_param_match param k) q"
    by (rule filter_cong) force+
  then show "fst (parseMetadataQuery M param q) =
      (if \<exists>(k, v) \<in> set q. md_param_match param k
       then Some (filter (\<lambda>(k, v). \<not> md_param_match param k) q) else None)"
    using assms(2) by (simp add: parseMetadataQuery_def parse_md_loop_query)
  show "md_opt_Get M (snd (parseMetadataQuery M param q)) K = md_of_matches param K q"
    using assms(2) by (simp add: parseMetadataQuery_def parse_md_loop_Get[OF assms(1)])
qed

text \<open>
  Metadata in the query: parseMetadataQuery takes exactly the parameters written param[key] out of
  the query, leaving the rest as it was and not rewriting the query when there is none. The metadata has,
  for every key, the valid values of all the parameters that name it, whatever their case, in the order
  visited; parameters with an invalid key or value add nothing to it, yet are removed too.
\<close>
theorem parseMetadataQuery_exact:
  assumes "md_laws M" and "param \<noteq> []"
  shows "fst (parseMetadataQuery M param q) =
      (if \<exists>(k, v) \<in> set q. md_param_match param k
       then Some (filter (\<lambda>(k, v). \<not> md_param_match param k) q) else None)
    \<and> (\<forall>K. md_opt_Get M (snd (parseMetadataQuery M param q)) K = md_of_matches param K q)"
  using parseMetadataQuery_parts[OF assms] by blast

theorem parseMetadataQuery_exact_witness:
  "fst (parseMetadataQuery map_md ''_metadata'' [(''_metadata[A]'', [''1'']), (''x'', [''2''])]) = Some [(''x'', [''2''])]
   \<and> md_opt_Get map_md (snd (parseMetadataQuery map_md ''_metadata'' [(''_metadata[A]'', [''1'']), (''x'', [''2''])])) ''a'' = [''1'']"
proof -
  let ?p = "''_metadata''" and ?q = "[(''_metadata[A]'', [''1'']), (''x'', [''2''])]"
  have m: "md_param_match ?p ''_metadata[A]''" "\<not> md_param_match ?p ''x''"
    "md_param_key ?p ''_metadata[A]'' = ''A''" "to_lower ''A'' = to_lower ''a''"
    "isValidMetadataKey ''A''" "isValidMetadataValue ''1''"
    by code_simp+
  show ?thesis
    using parseMetadataQuery_exact[OF map_md_laws, where param = ?p and q = ?q] m
    by simp
qed

lemma headersToMD_loop_Get:
  assumes "md_laws M"
  shows "md_Get M (headersToMD_loop M hs md) K =
    (case find (\<lambda>(k, v). to_lower k = to_lower K \<and> v \<noteq> []) (rev hs) of
       Some (k, v) \<Rightarrow> v | None \<Rightarrow> md_Get M md K)"
proof (induction hs arbitrary: md)
  case (Cons h hs)
  obtain k v where h: "h = (k, v)" by fastforce
  have f: "find P (xs @ [x]) = (case find P xs of None \<Rightarrow> if P x then Some x else None | Some y \<Rightarrow> Some y)" for P xs x
    by (induction xs) auto
  show ?case by (auto simp: h Cons.IH f md_lawsD(2)[OF assms] split: option.splits)
qed simp

text \<open>
  The metadata of a request has the values of each of its headers, under names compared without case:
  no header of the request is lost and none is made up.
\<close>
theorem headersToMD_exact:
  assumes "md_laws M" and "distinct (map (to_lower \<circ> fst) hs)" and "(k, v) \<in> set hs"
  shows "md_Get M (headersToMD M hs) k = v"
proof -
  let ?P = "\<lambda>(k', v'). to_lower k' = to_lower k \<and> v' \<noteq> []"
  have uniq: "(k', v') = (k, v)" if "(k', v') \<in> set hs" "to_lower k' = to_lower k" for k' v'
  proof -
    have "inj_on (to_lower \<circ> fst) (set hs)" using assms(2) by (simp add: distinct_map)
    from inj_onD[OF this _ that(1) assms(3)] that(2) show ?thesis by simp
  qed
  show ?thesis
  proof (cases "find ?P (rev hs)")
    case None
    then have "v = []" using assms(3) by (auto simp: find_None_iff)
    then show ?thesis using None by (simp add: headersToMD_def headersToMD_loop_Get[OF assms(1)] md_lawsD(1)[OF assms(1)])
  next
    case (Some x)
    then obtain k' v' where x: "x = (k', v')" "(k', v') \<in> set hs" "to_lower k' = to_lower k"
      by (cases x) (auto simp: find_Some_iff in_set_conv_nth rev_nth; metis Suc_leI diff_less length_greater_0_conv less_Suc_eq_0_disj list.size(3) not_less_zero zero_less_Suc)
    with uniq[OF x(2,3)] Some show ?thesis
      by (simp add: headersToMD_def headersToMD_loop_Get[OF assms(1)])
  qed
qed

theorem headersToMD_exact_witness:
  "md_Get map_md (headersToMD map_md [(''A'', [''1'']), (''B'', [''2''])]) ''A'' = [''1'']"
proof -
  have "distinct (map (to_lower \<circ> fst) [(''A'', [''1'']), (''B'', [''2'']) :: string \<times> string list])" by code_simp
  from headersToMD_exact[OF map_md_laws this, of "''A''" "[''1'']"] show ?thesis by simp
qed

end
