(* ===== verification/Http_Bridge.thy ===== *)
theory Http_Bridge
  imports Webbridge Client_Pool Routing
begin

text \<open>
  The bridge from transcoded HTTP requests (webbridge/http.go): the httpStream that the forwarder reads
  the request from and writes the response to, and ServeHTTP around it.

  The transcoders are parameters. The body of send is cut at its wait for the request (\<open>hs_send_check\<close>
  and \<open>hs_send\<close>), since withCtx runs it in a goroutine that a finished context leaves behind; the step
  relation at the end has these goroutines.
\<close>

section \<open>Header names\<close>

text \<open>http.CanonicalHeaderKey: names with a byte that is not a token byte are left as they are.\<close>

definition token_byte :: "char \<Rightarrow> bool" where
  "token_byte c =
     (let n = (of_char c :: nat)
      in (48 \<le> n \<and> n \<le> 57) \<or> (65 \<le> n \<and> n \<le> 90) \<or> (97 \<le> n \<and> n \<le> 122)
         \<or> c \<in> set [CHR ''!'', CHR ''#'', CHR ''$'', CHR ''%'', CHR ''&'', CHR 0x27, CHR ''*'', CHR ''+'', CHR ''-'',
                    CHR ''.'', CHR ''^'', CHR ''_'', CHR 0x60, CHR ''|'', CHR ''~''])"

definition ascii_upper :: "char \<Rightarrow> char" where
  "ascii_upper c = (if 97 \<le> (of_char c :: nat) \<and> (of_char c :: nat) \<le> 122 then char_of ((of_char c :: nat) - 32) else c)"

fun canon_from :: "bool \<Rightarrow> string \<Rightarrow> string" where
  "canon_from upper [] = []"
| "canon_from upper (c # s) = (if upper then ascii_upper c else ascii_lower c) # canon_from (c = CHR ''-'') s"

definition CanonicalHeaderKey :: "string \<Rightarrow> string" where
  "CanonicalHeaderKey k = (if k \<noteq> [] \<and> list_all token_byte k then canon_from True k else k)"

definition TrailerPrefix :: string where
  "TrailerPrefix = ''Trailer:''"

text \<open>A metadata.MD that the code ranges over is an association list in the order of the range loop.\<close>

definition append_header :: "string \<Rightarrow> string list \<Rightarrow> response \<Rightarrow> response" where
  "append_header k v w = set_header k (rw_header w k @ v) w"

fun appendHeaders :: "query \<Rightarrow> response \<Rightarrow> response" where
  "appendHeaders [] w = w"
| "appendHeaders ((k, v) # md) w = appendHeaders md (append_header (CanonicalHeaderKey k) v w)"

fun appendTrailers :: "query \<Rightarrow> response \<Rightarrow> response" where
  "appendTrailers [] w = w"
| "appendTrailers ((k, v) # md) w = appendTrailers md (append_header (CanonicalHeaderKey (TrailerPrefix @ k)) v w)"

section \<open>httpStream\<close>

text \<open>
  A transcoding.TranscodedStream writes each message to the response itself. Flush of net/http sends the
  status when nothing has been written, past the wrapper.
\<close>

type_synonym 'm tc_stream = "'m \<Rightarrow> response \<Rightarrow> response \<times> go_error option"

record 'm http_env =
  he_lib :: web_lib
  he_resptc :: "'m resp_transcoder"
  he_respstream :: "'m tc_stream option"

record http_stream =
  hs_w :: response
  hs_sendActive :: bool
  hs_recvActive :: bool
  hs_read :: bool
  hs_readCh :: bool
  hs_sent :: bool

definition new_http_stream :: "response \<Rightarrow> http_stream" where
  "new_http_stream w = \<lparr>hs_w = w, hs_sendActive = False, hs_recvActive = False, hs_read = False, hs_readCh = False, hs_sent = False\<rparr>"

text \<open>\<open>None\<close> is the panic of the methods for concurrent use.\<close>

definition setSendActive :: "http_stream \<Rightarrow> http_stream option" where
  "setSendActive s = (if hs_sendActive s then None else Some (s\<lparr>hs_sendActive := True\<rparr>))"

definition setRecvActive :: "http_stream \<Rightarrow> http_stream option" where
  "setRecvActive s = (if hs_recvActive s then None else Some (s\<lparr>hs_recvActive := True\<rparr>))"

text \<open>The check before the wait: the error for a second message, \<open>None\<close> to go on.\<close>

definition hs_send_check :: "'m http_env \<Rightarrow> http_stream \<Rightarrow> go_error option" where
  "hs_send_check E s =
     (if hs_sent s \<and> he_respstream E = None
      then Some (ErrStatus Internal ''grpcbridge: tried sending second response on unary stream'') else None)"

text \<open>
  The rest of send; the outer \<open>None\<close> is the wait on readCh. \<open>wr\<close> is how Write goes: \<open>None\<close> for success,
  or the number of bytes written before it fails.
\<close>

definition hs_send :: "'m http_env \<Rightarrow> nat option \<Rightarrow> 'm \<Rightarrow> http_stream \<Rightarrow> (go_error option \<times> http_stream) option" where
  "hs_send E wr msg s =
     (if \<not> hs_readCh s then None
      else
        let w = (if \<not> hs_sent s
                 then set_header contentTypeHeader [fst (rt_ContentType (he_resptc E) msg)] (hs_w s) else hs_w s);
            s = s\<lparr>hs_w := w, hs_sent := True\<rparr>
        in case he_respstream E of
             Some stream \<Rightarrow>
               (case stream msg w of
                  (w, Some err) \<Rightarrow> Some (responseTranscodingError (he_lib E) (Some err), s\<lparr>hs_w := w\<rparr>)
                | (w, None) \<Rightarrow> Some (None, s\<lparr>hs_w := send_status 200 w\<rparr>))
           | None \<Rightarrow>
               (case rt_Transcode (he_resptc E) msg of
                  Inl err \<Rightarrow> Some (responseTranscodingError (he_lib E) (Some err), s)
                | Inr b \<Rightarrow>
                    (case wr of
                       None \<Rightarrow> Some (None, s\<lparr>hs_w := Write b w\<rparr>)
                     | Some n \<Rightarrow> Some (Some (ErrStatus Unavailable ''failed to write response body''), s\<lparr>hs_w := Write_n n b w\<rparr>))))"

text \<open>\<open>body\<close> is what io.ReadAll gives, \<open>reqtc\<close> the request transcoder applied to it.\<close>

definition hs_recv :: "web_lib \<Rightarrow> (string \<Rightarrow> go_error + 'm) \<Rightarrow> go_error + string \<Rightarrow> http_stream
    \<Rightarrow> (go_error + 'm) \<times> http_stream" where
  "hs_recv L reqtc body s =
     (if hs_read s then (Inl ErrEOF, s)
      else case body of
             Inl err \<Rightarrow> (Inl (ErrStatus Unavailable ''failed to read request body''), s)
           | Inr b \<Rightarrow>
               (case reqtc b of
                  Inl err \<Rightarrow>
                    (case requestTranscodingError L (Some err) of
                       Some e \<Rightarrow> (Inl e, s\<lparr>hs_read := True, hs_readCh := True\<rparr>)
                     | None \<Rightarrow> (Inl err, s\<lparr>hs_read := True, hs_readCh := True\<rparr>))
                | Inr msg \<Rightarrow> (Inr msg, s\<lparr>hs_read := True, hs_readCh := True\<rparr>)))"

definition hs_SetHeader :: "query \<Rightarrow> http_stream \<Rightarrow> http_stream option" where
  "hs_SetHeader md s =
     (case setSendActive s of
        None \<Rightarrow> None
      | Some s' \<Rightarrow> if hs_sent s then Some s else Some (s\<lparr>hs_w := appendHeaders md (hs_w s)\<rparr>))"

definition hs_SetTrailer :: "query \<Rightarrow> http_stream \<Rightarrow> http_stream option" where
  "hs_SetTrailer md s =
     (case setSendActive s of
        None \<Rightarrow> None
      | Some s' \<Rightarrow>
          if hs_sent s then Some (s\<lparr>hs_w := appendTrailers md (hs_w s)\<rparr>)
          else Some (s\<lparr>hs_w := appendHeaders md (hs_w s)\<rparr>))"

section \<open>ServeHTTP\<close>

text \<open>
  \<open>route\<close> is the result of RouteHTTP, \<open>bind\<close> that of Bind for the route: the response transcoder, with its
  streaming form when it has one. \<open>canFlush\<close> tells whether the server's writer is a Flusher, and \<open>forward\<close> is the
  forwarder running on the stream. The result is the response when the handler returns.
\<close>

definition routeTranscodedRequest :: "web_lib \<Rightarrow> bool \<Rightarrow> go_error + HTTPRoute
    \<Rightarrow> (HTTPRoute \<Rightarrow> go_error + ('m resp_transcoder \<times> 'm tc_stream option))
    \<Rightarrow> response \<Rightarrow> response + (HTTPRoute \<times> 'm resp_transcoder \<times> 'm tc_stream option)" where
  "routeTranscodedRequest L canceled route bind w =
     (case route of
        Inl err \<Rightarrow> Inl (writeError L canceled (None :: 'm resp_transcoder option) err w)
      | Inr r \<Rightarrow>
          (case bind r of
             Inl err \<Rightarrow> Inl (writeError L canceled (None :: 'm resp_transcoder option) err w)
           | Inr (resptc, streamtc) \<Rightarrow> Inr (r, resptc, streamtc)))"

definition http_ServeHTTP :: "web_lib \<Rightarrow> bool \<Rightarrow> go_error + HTTPRoute
    \<Rightarrow> (HTTPRoute \<Rightarrow> go_error + ('m resp_transcoder \<times> 'm tc_stream option)) \<Rightarrow> bool
    \<Rightarrow> ('m http_env \<Rightarrow> http_stream \<Rightarrow> http_stream \<times> go_error option) \<Rightarrow> response \<Rightarrow> response" where
  "http_ServeHTTP L canceled route bind canFlush forward w =
     (case routeTranscodedRequest L canceled route bind w of
        Inl w' \<Rightarrow> w'
      | Inr (r, resptc, streamtc) \<Rightarrow>
          if ClientStreaming (hr_Method r)
          then writeError L canceled (Some resptc) (ErrStatus Unimplemented ''client streaming through HTTP not supported'') w
          else if ServerStreaming (hr_Method r) \<and> streamtc = None
          then writeError L canceled (Some resptc) (ErrStatus InvalidArgument ''encoding does not support streaming'') w
          else if ServerStreaming (hr_Method r) \<and> \<not> canFlush
          then writeError L canceled (Some resptc) (ErrStatus Internal ''server does not support streaming'') w
          else
            let E = \<lparr>he_lib = L, he_resptc = resptc,
                     he_respstream = (if ServerStreaming (hr_Method r) then streamtc else None)\<rparr>
            in case forward E (new_http_stream w) of
                 (s, None) \<Rightarrow> hs_w s
               | (s, Some err) \<Rightarrow> writeError L canceled (Some resptc) err (hs_w s))"

section \<open>The stream with its goroutines\<close>

text \<open>
  Send and Recv begin, their bodies run in goroutines, and they return either with the result of the
  goroutine or because the context is done. \<open>hy_sends\<close> are the running bodies of send with the message,
  and whether they have passed the check; \<open>hy_recvs\<close> counts those of recv; \<open>hy_done\<close> is the end of
  the handler, after Forward, with the error response when Forward has failed.
\<close>

record 'm http_sys =
  hy_s :: http_stream
  hy_ctx :: bool
  hy_sends :: "(bool \<times> 'm) list"
  hy_recvs :: nat
  hy_done :: bool

definition hy_init :: "response \<Rightarrow> 'm http_sys" where
  "hy_init w = \<lparr>hy_s = new_http_stream w, hy_ctx = False, hy_sends = [], hy_recvs = 0, hy_done = False\<rparr>"

inductive hy_step :: "'m http_env \<Rightarrow> (string \<Rightarrow> go_error + 'm) \<Rightarrow> 'm http_sys \<Rightarrow> 'm http_sys \<Rightarrow> bool" for E reqtc where
  hy_Send: "\<not> hy_done y \<Longrightarrow> setSendActive (hy_s y) = Some s \<Longrightarrow>
     hy_step E reqtc y (y\<lparr>hy_s := s, hy_sends := hy_sends y @ [(False, msg)]\<rparr>)"
| hy_check_ok: "hy_sends y = pre @ (False, msg) # post \<Longrightarrow> hs_send_check E (hy_s y) = None \<Longrightarrow>
     hy_step E reqtc y (y\<lparr>hy_sends := pre @ (True, msg) # post\<rparr>)"
| hy_check_fail: "hy_sends y = pre @ (False, msg) # post \<Longrightarrow> hs_send_check E (hy_s y) = Some e \<Longrightarrow>
     hy_step E reqtc y (y\<lparr>hy_sends := pre @ post\<rparr>)"
| hy_write: "hy_sends y = pre @ (True, msg) # post \<Longrightarrow> hs_send E wr msg (hy_s y) = Some (e, s) \<Longrightarrow>
     hy_step E reqtc y (y\<lparr>hy_s := s, hy_sends := pre @ post\<rparr>)"
| hy_Send_returns: "hs_sendActive (hy_s y) \<Longrightarrow> hy_sends y = [] \<or> hy_ctx y \<Longrightarrow>
     hy_step E reqtc y (y\<lparr>hy_s := (hy_s y)\<lparr>hs_sendActive := False\<rparr>\<rparr>)"
| hy_Recv: "\<not> hy_done y \<Longrightarrow> setRecvActive (hy_s y) = Some s \<Longrightarrow>
     hy_step E reqtc y (y\<lparr>hy_s := s, hy_recvs := Suc (hy_recvs y)\<rparr>)"
| hy_read_body: "hy_recvs y = Suc n \<Longrightarrow> hs_recv (he_lib E) reqtc body (hy_s y) = (r, s) \<Longrightarrow>
     hy_step E reqtc y (y\<lparr>hy_s := s, hy_recvs := n\<rparr>)"
| hy_Recv_returns: "hs_recvActive (hy_s y) \<Longrightarrow> hy_recvs y = 0 \<or> hy_ctx y \<Longrightarrow>
     hy_step E reqtc y (y\<lparr>hy_s := (hy_s y)\<lparr>hs_recvActive := False\<rparr>\<rparr>)"
| hy_SetHeader: "\<not> hy_done y \<Longrightarrow> hs_SetHeader md (hy_s y) = Some s \<Longrightarrow> hy_step E reqtc y (y\<lparr>hy_s := s\<rparr>)"
| hy_SetTrailer: "\<not> hy_done y \<Longrightarrow> hs_SetTrailer md (hy_s y) = Some s \<Longrightarrow> hy_step E reqtc y (y\<lparr>hy_s := s\<rparr>)"
| hy_ctx_done: "hy_step E reqtc y (y\<lparr>hy_ctx := True\<rparr>)"
| hy_return: "\<not> hy_done y \<Longrightarrow> \<not> hs_sendActive (hy_s y) \<Longrightarrow> \<not> hs_recvActive (hy_s y) \<Longrightarrow> hy_step E reqtc y (y\<lparr>hy_done := True\<rparr>)"
| hy_return_error: "\<not> hy_done y \<Longrightarrow> \<not> hs_sendActive (hy_s y) \<Longrightarrow> \<not> hs_recvActive (hy_s y) \<Longrightarrow>
     hy_step E reqtc y (y\<lparr>hy_s := (hy_s y)\<lparr>hs_w := writeError (he_lib E) canceled (Some (he_resptc E)) err (hs_w (hy_s y))\<rparr>, hy_done := True\<rparr>)"

inductive hy_reachable :: "'m http_env \<Rightarrow> (string \<Rightarrow> go_error + 'm) \<Rightarrow> response \<Rightarrow> 'm http_sys \<Rightarrow> bool" for E reqtc w where
  hy_start: "hy_reachable E reqtc w (hy_init w)"
| hy_next: "hy_reachable E reqtc w y \<Longrightarrow> hy_step E reqtc y y' \<Longrightarrow> hy_reachable E reqtc w y'"

section \<open>Lemmas\<close>

inductive_cases hy_stepE: "hy_step E reqtc y y'"

lemma append_header_rw [rw_simps]:
  "rw_sent (append_header k v w) = rw_sent w" "rw_body (append_header k v w) = rw_body w"
  "writtenStatus (append_header k v w) = writtenStatus w"
  by (simp_all add: append_header_def rw_simps)

lemma appendHeaders_rw [rw_simps]:
  "rw_sent (appendHeaders md w) = rw_sent w" "rw_body (appendHeaders md w) = rw_body w"
  "writtenStatus (appendHeaders md w) = writtenStatus w"
  by (induction md w rule: appendHeaders.induct) (simp_all add: rw_simps)

lemma appendTrailers_rw [rw_simps]:
  "rw_sent (appendTrailers md w) = rw_sent w" "rw_body (appendTrailers md w) = rw_body w"
  "writtenStatus (appendTrailers md w) = writtenStatus w"
  by (induction md w rule: appendTrailers.induct) (simp_all add: rw_simps)

lemma hs_SetHeader_effect:
  assumes "hs_SetHeader md s = Some s'"
  shows "rw_sent (hs_w s') = rw_sent (hs_w s) \<and> rw_body (hs_w s') = rw_body (hs_w s)
    \<and> hs_read s' = hs_read s \<and> hs_readCh s' = hs_readCh s \<and> hs_sent s' = hs_sent s
    \<and> hs_sendActive s' = hs_sendActive s \<and> hs_recvActive s' = hs_recvActive s"
  using assms by (auto simp: hs_SetHeader_def rw_simps split: option.splits if_splits)

lemma hs_SetTrailer_effect:
  assumes "hs_SetTrailer md s = Some s'"
  shows "rw_sent (hs_w s') = rw_sent (hs_w s) \<and> rw_body (hs_w s') = rw_body (hs_w s)
    \<and> hs_read s' = hs_read s \<and> hs_readCh s' = hs_readCh s \<and> hs_sent s' = hs_sent s
    \<and> hs_sendActive s' = hs_sendActive s \<and> hs_recvActive s' = hs_recvActive s"
  using assms by (auto simp: hs_SetTrailer_def rw_simps split: option.splits if_splits)

lemma hs_recv_effect:
  assumes "hs_recv L reqtc body s = (r, s')"
  shows "hs_w s' = hs_w s \<and> hs_sent s' = hs_sent s \<and> hs_sendActive s' = hs_sendActive s
    \<and> (hs_readCh s \<longrightarrow> hs_readCh s') \<and> (hs_read s = hs_readCh s \<longrightarrow> hs_read s' = hs_readCh s')"
  using assms by (auto simp: hs_recv_def split: if_splits sum.splits option.splits)

lemma hs_send_effect:
  assumes "hs_send E wr msg s = Some (e, s')"
  shows "hs_readCh s \<and> hs_readCh s' \<and> hs_read s' = hs_read s \<and> hs_sent s' \<and> hs_sendActive s' = hs_sendActive s"
  using assms by (auto simp: hs_send_def Let_def split: if_splits sum.splits option.splits prod.splits)

lemma setActive_effect:
  "setSendActive s = Some s' \<longleftrightarrow> \<not> hs_sendActive s \<and> s' = s\<lparr>hs_sendActive := True\<rparr>"
  "setRecvActive s = Some s' \<longleftrightarrow> \<not> hs_recvActive s \<and> s' = s\<lparr>hs_recvActive := True\<rparr>"
  by (auto simp: setSendActive_def setRecvActive_def)

section \<open>The response waits for the request\<close>

definition unstarted :: "response \<Rightarrow> bool" where
  "unstarted w \<longleftrightarrow> rw_sent w = None \<and> rw_body w = []"

text \<open>The response of a handler that has returned with an error and has written nothing else.\<close>

definition error_response :: "'m http_env \<Rightarrow> response \<Rightarrow> bool" where
  "error_response E w \<longleftrightarrow> (\<exists>canceled err w0. unstarted w0 \<and> w = writeError (he_lib E) canceled (Some (he_resptc E)) err w0)"

definition waits :: "'m http_env \<Rightarrow> 'm http_sys \<Rightarrow> bool" where
  "waits E y \<longleftrightarrow> hs_read (hy_s y) = hs_readCh (hy_s y)
   \<and> (hs_readCh (hy_s y) \<or> unstarted (hs_w (hy_s y)) \<or> hy_done y \<and> error_response E (hs_w (hy_s y)))"

lemma hy_step_waits:
  assumes "hy_step E reqtc y y'" and "waits E y"
  shows "waits E y'"
  using assms(1)
proof (cases rule: hy_step.cases)
  case (hy_write pre msg post wr e s)
  then show ?thesis using assms(2) hs_send_effect by (force simp: waits_def)
next
  case (hy_read_body n body r s)
  then show ?thesis using assms(2) hs_recv_effect[OF hy_read_body(3)] by (auto simp: waits_def)
next
  case (hy_SetHeader md s)
  then show ?thesis using assms(2) hs_SetHeader_effect[OF hy_SetHeader(3)] by (auto simp: waits_def unstarted_def)
next
  case (hy_SetTrailer md s)
  then show ?thesis using assms(2) hs_SetTrailer_effect[OF hy_SetTrailer(3)] by (auto simp: waits_def unstarted_def)
next
  case (hy_return_error canceled err)
  then show ?thesis using assms(2) by (auto simp: waits_def error_response_def)
qed (use assms(2) in \<open>auto simp: waits_def setActive_effect\<close>)

text \<open>
  C19. From the call of Forward on, the response never starts before the request has been read to its end,
  whatever the interleaving of the calls, of the goroutines that contexts leave behind and of the end of the
  handler: with HTTP/1.1 the server may otherwise drop the rest of the request. The one exception is a
  Forward that has failed with the request unread: then the handler has answered with exactly the response
  of writeError for an error, and no message of the server is in it. (Errors of the routing and of Bind are answered before
  there is a stream, and are not part of this.)
\<close>
theorem http_response_after_request:
  assumes "hy_reachable E reqtc w y" and "rw_sent w = None" and "rw_body w = []"
    and "rw_sent (hs_w (hy_s y)) \<noteq> None \<or> rw_body (hs_w (hy_s y)) \<noteq> []"
  shows "hs_read (hy_s y)
    \<or> hy_done y \<and> (\<exists>canceled err w0. rw_sent w0 = None \<and> rw_body w0 = []
         \<and> hs_w (hy_s y) = writeError (he_lib E) canceled (Some (he_resptc E)) err w0)"
proof -
  have "waits E y"
    using assms(1)
  proof (induction rule: hy_reachable.induct)
    case hy_start
    then show ?case using assms(2,3) by (simp add: waits_def unstarted_def hy_init_def new_http_stream_def)
  next
    case (hy_next y y')
    then show ?case using hy_step_waits by blast
  qed
  with assms(4) show ?thesis by (auto simp: waits_def unstarted_def error_response_def)
qed

section \<open>Unary calls\<close>

definition unary_response :: "'m http_env \<Rightarrow> http_stream \<Rightarrow> bool" where
  "unary_response E s \<longleftrightarrow>
     (if hs_sent s then
        \<exists>msg. (case rt_Transcode (he_resptc E) msg of
                 Inl e \<Rightarrow> rw_body (hs_w s) = [] \<and> rw_sent (hs_w s) = None
               | Inr b \<Rightarrow> (\<exists>n. rw_body (hs_w s) = take n b)
                   \<and> (\<exists>h. rw_sent (hs_w s) = Some (200, h)
                        \<and> h contentTypeHeader = [fst (rt_ContentType (he_resptc E) msg)]))
      else rw_body (hs_w s) = [] \<and> rw_sent (hs_w s) = None)"

definition unary_inv :: "'m http_env \<Rightarrow> 'm http_sys \<Rightarrow> bool" where
  "unary_inv E y \<longleftrightarrow> unary_response E (hy_s y)
     \<and> length (hy_sends y) \<le> 1 \<and> (hy_sends y \<noteq> [] \<longrightarrow> hs_sendActive (hy_s y))
     \<and> (hs_sent (hy_s y) \<longrightarrow> (\<forall>(b, msg) \<in> set (hy_sends y). \<not> b))"

lemma hs_send_unary:
  assumes "hs_send E wr msg s = Some (e, s')" and "he_respstream E = None" and "\<not> hs_sent s" and "unary_response E s"
  shows "unary_response E s'"
proof -
  have "rw_body (hs_w s) = []" "rw_sent (hs_w s) = None" using assms(3,4) by (simp_all add: unary_response_def)
  moreover have "hs_sent s'" using hs_send_effect[OF assms(1)] by simp
  ultimately show ?thesis
    using assms(1,2,3)
    by (cases "rt_Transcode (he_resptc E) msg"; cases wr)
       (auto simp: unary_response_def hs_send_def Let_def rw_simps split: if_splits intro!: exI[of _ msg] exI[where P = "\<lambda>n. b = take n b" for b, OF sym[OF take_all[OF order_refl]]])
qed

lemma unary_response_cong:
  assumes "hs_sent s' = hs_sent s" "rw_body (hs_w s') = rw_body (hs_w s)" "rw_sent (hs_w s') = rw_sent (hs_w s)"
  shows "unary_response E s' = unary_response E s"
  unfolding unary_response_def assms ..

lemma unary_response_active [simp]:
  "unary_response E (s\<lparr>hs_sendActive := b\<rparr>) = unary_response E s"
  "unary_response E (s\<lparr>hs_recvActive := b\<rparr>) = unary_response E s"
  by (simp_all add: unary_response_def cong: sum.case_cong)

lemma hy_step_unary:
  assumes "hy_step E reqtc y y'" and "he_respstream E = None" and "unary_inv E y" and "\<not> hy_ctx y'" and "\<not> hy_done y'"
  shows "unary_inv E y'"
  using assms(1)
proof (cases rule: hy_step.cases)
  case (hy_Send s msg)
  then have "hy_sends y = []" using assms(3) by (auto simp: unary_inv_def setActive_effect)
  then show ?thesis using hy_Send assms(3)
    by (auto simp: unary_inv_def setActive_effect)
next
  case (hy_check_ok pre msg post)
  then show ?thesis using assms(2,3) by (auto simp: unary_inv_def hs_send_check_def split: if_splits)
next
  case (hy_check_fail pre msg post e)
  then show ?thesis using assms(3) by (auto simp: unary_inv_def)
next
  case (hy_write pre msg post wr e s)
  have "\<not> hs_sent (hy_s y)" using assms(3) hy_write(2) by (auto simp: unary_inv_def)
  then have "unary_response E s" using hs_send_unary[OF hy_write(3) assms(2)] assms(3) by (simp add: unary_inv_def)
  moreover have "pre @ post = []" using assms(3) hy_write(2) by (auto simp: unary_inv_def)
  ultimately show ?thesis using hy_write(1) by (simp add: unary_inv_def)
next
  case hy_Send_returns
  then have "hy_sends y = []" using assms(4) by auto
  then show ?thesis using hy_Send_returns assms(3) by (auto simp: unary_inv_def)
next
  case (hy_Recv s)
  then show ?thesis using assms(3) by (auto simp: unary_inv_def setActive_effect)
next
  case (hy_read_body n body r s)
  then show ?thesis using assms(3) hs_recv_effect[OF hy_read_body(3)] unary_response_cong[of s "hy_s y" E]
    by (auto simp: unary_inv_def)
next
  case hy_Recv_returns
  then show ?thesis using assms(3) by (auto simp: unary_inv_def)
next
  case (hy_SetHeader md s)
  then show ?thesis using assms(3) hs_SetHeader_effect[OF hy_SetHeader(3)] unary_response_cong[of s "hy_s y" E]
    by (auto simp: unary_inv_def)
next
  case (hy_SetTrailer md s)
  then show ?thesis using assms(3) hs_SetTrailer_effect[OF hy_SetTrailer(3)] unary_response_cong[of s "hy_s y" E]
    by (auto simp: unary_inv_def)
qed (use assms(3,4,5) in \<open>auto simp: unary_inv_def\<close>)

lemma hy_ctx_mono: "hy_step E reqtc y y' \<Longrightarrow> hy_ctx y \<Longrightarrow> hy_ctx y'"
  and hy_done_mono: "hy_step E reqtc y y' \<Longrightarrow> hy_done y \<Longrightarrow> hy_done y'"
  by (erule hy_stepE; auto)+

text \<open>
  A unary call gets one response: as long as its context is not done and the handler has not returned, what has been sent is nothing, or
  status 200 with the content type of one message and at most that message's bytes; a second Send never
  adds to it, and neither do headers and trailers set afterwards.
\<close>
theorem http_unary_single_response:
  assumes "hy_reachable E reqtc w y" and "rw_sent w = None" and "rw_body w = []"
    and "he_respstream E = None" and "\<not> hy_ctx y" and "\<not> hy_done y"
  shows "unary_response E (hy_s y)"
proof -
  have "unary_inv E y"
    using assms(1,5,6)
  proof (induction rule: hy_reachable.induct)
    case hy_start
    then show ?case using assms(2,3) by (simp add: unary_inv_def unary_response_def hy_init_def new_http_stream_def)
  next
    case (hy_next y y')
    then have "\<not> hy_ctx y" "\<not> hy_done y" using hy_ctx_mono hy_done_mono by blast+
    then show ?case using hy_step_unary[OF hy_next.hyps(2) assms(4)] hy_next by blast
  qed
  then show ?thesis by (simp add: unary_inv_def)
qed

section \<open>A concrete call\<close>

definition ex_tc :: "string resp_transcoder" where
  "ex_tc = \<lparr>rt_Transcode = Inr, rt_ContentType = (\<lambda>_. (''text/plain'', False)), rt_status = snd\<rparr>"

definition ex_env :: "string http_env" where
  "ex_env = \<lparr>he_lib = ex_lib, he_resptc = ex_tc, he_respstream = None\<rparr>"

definition ex_reqtc :: "string \<Rightarrow> go_error + string" where
  "ex_reqtc b = Inr b"

text \<open>The state after the request has been read, and the one after a Send of a message began.\<close>

definition ex_read :: "string http_sys" where
  "ex_read = \<lparr>hy_s = \<lparr>hs_w = new_response, hs_sendActive = False, hs_recvActive = False, hs_read = True, hs_readCh = True, hs_sent = False\<rparr>,
     hy_ctx = False, hy_sends = [], hy_recvs = 0, hy_done = False\<rparr>"

lemma ex_read_reachable: "hy_reachable E ex_reqtc new_response ex_read"
proof -
  let ?s0 = "new_http_stream new_response"
  let ?y0 = "hy_init new_response :: string http_sys"
  have "hy_reachable E ex_reqtc new_response ?y0" by (rule hy_start)
  moreover have "hy_step E ex_reqtc ?y0 (?y0\<lparr>hy_s := ?s0\<lparr>hs_recvActive := True\<rparr>, hy_recvs := Suc (hy_recvs ?y0)\<rparr>)"
    by (rule hy_step.hy_Recv) (simp_all add: hy_init_def setActive_effect new_http_stream_def)
  ultimately have 1: "hy_reachable E ex_reqtc new_response (?y0\<lparr>hy_s := ?s0\<lparr>hs_recvActive := True\<rparr>, hy_recvs := 1\<rparr>)"
    by (simp add: hy_init_def hy_next)
  let ?y2 = "?y0\<lparr>hy_s := ?s0\<lparr>hs_recvActive := True, hs_read := True, hs_readCh := True\<rparr>, hy_recvs := 0\<rparr>"
  have "hy_step E ex_reqtc (?y0\<lparr>hy_s := ?s0\<lparr>hs_recvActive := True\<rparr>, hy_recvs := 1\<rparr>)
     ((?y0\<lparr>hy_s := ?s0\<lparr>hs_recvActive := True\<rparr>, hy_recvs := 1\<rparr>)
        \<lparr>hy_s := ?s0\<lparr>hs_recvActive := True, hs_read := True, hs_readCh := True\<rparr>, hy_recvs := 0\<rparr>)"
    by (rule hy_step.hy_read_body[where body = "Inr []" and r = "Inr []"])
       (simp_all add: hs_recv_def ex_reqtc_def new_http_stream_def)
  with 1 have 2: "hy_reachable E ex_reqtc new_response ?y2" by (simp add: hy_next)
  have "hy_step E ex_reqtc ?y2 (?y2\<lparr>hy_s := (hy_s ?y2)\<lparr>hs_recvActive := False\<rparr>\<rparr>)"
    by (rule hy_step.hy_Recv_returns) simp_all
  with 2 have "hy_reachable E ex_reqtc new_response (?y2\<lparr>hy_s := (hy_s ?y2)\<lparr>hs_recvActive := False\<rparr>\<rparr>)" by (rule hy_next)
  then show ?thesis by (simp add: ex_read_def hy_init_def new_http_stream_def)
qed

text \<open>Send up to the write of its goroutine.\<close>

definition ex_sending :: "string \<Rightarrow> string http_sys" where
  "ex_sending msg = ex_read\<lparr>hy_s := (hy_s ex_read)\<lparr>hs_sendActive := True\<rparr>, hy_sends := [(True, msg)]\<rparr>"

lemma ex_sending_reachable: "hy_reachable E ex_reqtc new_response (ex_sending msg)"
proof -
  let ?y = "ex_read\<lparr>hy_s := (hy_s ex_read)\<lparr>hs_sendActive := True\<rparr>, hy_sends := hy_sends ex_read @ [(False, msg)]\<rparr>"
  have "hy_step E ex_reqtc ex_read ?y"
    by (rule hy_step.hy_Send) (simp_all add: ex_read_def setActive_effect)
  with ex_read_reachable have 1: "hy_reachable E ex_reqtc new_response ?y" by (rule hy_next)
  have "hy_step E ex_reqtc ?y (?y\<lparr>hy_sends := [] @ (True, msg) # []\<rparr>)"
    by (rule hy_step.hy_check_ok[where pre = "[]"]) (simp_all add: ex_read_def hs_send_check_def)
  with 1 have "hy_reachable E ex_reqtc new_response (?y\<lparr>hy_sends := [] @ (True, msg) # []\<rparr>)" by (rule hy_next)
  then show ?thesis by (simp add: ex_sending_def)
qed

definition ex_sent :: "string \<Rightarrow> string http_sys" where
  "ex_sent msg = (ex_sending msg)\<lparr>hy_s := (hy_s (ex_sending msg))\<lparr>hs_sent := True,
      hs_w := Write msg (set_header contentTypeHeader [''text/plain''] new_response)\<rparr>, hy_sends := []\<rparr>"

lemma ex_write_step:
  assumes "hy_sends y = [(True, msg)]" and "hs_readCh (hy_s y)" and "\<not> hs_sent (hy_s y)" and "hs_w (hy_s y) = new_response"
  shows "hy_step ex_env ex_reqtc y (y\<lparr>hy_s := (hy_s y)\<lparr>hs_sent := True,
      hs_w := Write msg (set_header contentTypeHeader [''text/plain''] new_response)\<rparr>, hy_sends := []\<rparr>)"
  using hy_step.hy_write[of y "[]" msg "[]" ex_env None None "(hy_s y)\<lparr>hs_sent := True,
      hs_w := Write msg (set_header contentTypeHeader [''text/plain''] new_response)\<rparr>" ex_reqtc] assms
  by (simp add: hs_send_def ex_env_def ex_tc_def)

lemma ex_sent_reachable: "hy_reachable ex_env ex_reqtc new_response (ex_sent msg)"
proof -
  have "hy_step ex_env ex_reqtc (ex_sending msg) (ex_sent msg)"
    unfolding ex_sent_def by (rule ex_write_step) (simp_all add: ex_sending_def ex_read_def)
  with ex_sending_reachable show ?thesis by (rule hy_next)
qed

theorem http_response_after_request_witness:
  "hs_read (hy_s (ex_sent ''m'')) \<and> rw_body (hs_w (hy_s (ex_sent ''m''))) = ''m''"
proof -
  have b: "rw_body (hs_w (hy_s (ex_sent ''m''))) = ''m''" "\<not> hy_done (ex_sent ''m'')"
    by (simp_all add: ex_sent_def rw_simps new_response_def ex_sending_def ex_read_def)
  then show ?thesis
    using http_response_after_request[OF ex_sent_reachable, of "''m''"] by (simp add: new_response_def)
qed

theorem http_unary_single_response_witness:
  "unary_response ex_env (hy_s (ex_sent ''m''))"
  by (rule http_unary_single_response[OF ex_sent_reachable])
     (simp_all add: new_response_def ex_env_def ex_sent_def ex_sending_def ex_read_def)

text \<open>
  When a context ends during Send, withCtx leaves the goroutine behind and the handler can return
  while that goroutine has yet to write: the response is then written to after ServeHTTP has returned,
  which net/http forbids. Nothing in httpStream waits for the goroutine.
\<close>
theorem http_write_after_return:
  "\<exists>y y'. hy_reachable ex_env ex_reqtc new_response y \<and> hy_done y \<and> hy_step ex_env ex_reqtc y y'
     \<and> rw_body (hs_w (hy_s y)) = [] \<and> rw_body (hs_w (hy_s y')) = ''m''"
proof -
  let ?y1 = "(ex_sending ''m'')\<lparr>hy_ctx := True\<rparr>"
  let ?y2 = "?y1\<lparr>hy_s := (hy_s ?y1)\<lparr>hs_sendActive := False\<rparr>\<rparr>"
  let ?y3 = "?y2\<lparr>hy_done := True\<rparr>"
  have "hy_reachable ex_env ex_reqtc new_response ?y1"
    using ex_sending_reachable hy_step.hy_ctx_done by (rule hy_next)
  moreover have "hy_step ex_env ex_reqtc ?y1 ?y2"
    by (rule hy_step.hy_Send_returns) (simp_all add: ex_sending_def)
  ultimately have "hy_reachable ex_env ex_reqtc new_response ?y2" by (rule hy_next)
  moreover have "hy_step ex_env ex_reqtc ?y2 ?y3"
    by (rule hy_step.hy_return) (simp_all add: ex_sending_def ex_read_def)
  ultimately have "hy_reachable ex_env ex_reqtc new_response ?y3" by (rule hy_next)
  moreover have "hy_step ex_env ex_reqtc ?y3 (?y3\<lparr>hy_s := (hy_s ?y3)\<lparr>hs_sent := True,
      hs_w := Write ''m'' (set_header contentTypeHeader [''text/plain''] new_response)\<rparr>, hy_sends := []\<rparr>)"
    by (rule ex_write_step) (simp_all add: ex_sending_def ex_read_def)
  moreover have "hy_done ?y3" "rw_body (hs_w (hy_s ?y3)) = []"
    by (simp_all add: ex_sending_def ex_read_def new_response_def)
  ultimately show ?thesis
    by (intro exI conjI) (assumption | simp add: new_response_def rw_simps)+
qed

section \<open>The handler\<close>

lemma http_ServeHTTP_parts:
  assumes "rw_sent w = None" and "\<not> writtenStatus w" and "rw_body w = []"
  shows "route = Inl err \<Longrightarrow> map_option fst (rw_sent (http_ServeHTTP L False route bind canFlush forward w))
           = Some (snd (errorStatus L err))"
    and "route = Inr r \<Longrightarrow> bind r = Inr (tc, st) \<Longrightarrow> ClientStreaming (hr_Method r) \<Longrightarrow>
           map_option fst (rw_sent (http_ServeHTTP L False route bind canFlush forward w))
           = Some (lib_HTTPStatusFromCode L (fst (lib_Convert L (ErrStatus Unimplemented ''client streaming through HTTP not supported''))))"
    and "route = Inr r \<Longrightarrow> bind r = Inr (tc, st) \<Longrightarrow> \<not> ClientStreaming (hr_Method r) \<Longrightarrow> \<not> ServerStreaming (hr_Method r) \<Longrightarrow>
           forward \<lparr>he_lib = L, he_resptc = tc, he_respstream = None\<rparr> (new_http_stream w) = (s, Some err) \<Longrightarrow>
           (writtenStatus (hs_w s) \<longrightarrow> http_ServeHTTP L False route bind canFlush forward w = hs_w s)
           \<and> (\<not> writtenStatus (hs_w s) \<and> rw_sent (hs_w s) = None \<and> rw_body (hs_w s) = [] \<longrightarrow>
                map_option fst (rw_sent (http_ServeHTTP L False route bind canFlush forward w)) = Some (snd (errorStatus L err)))"
proof -
  have st: "map_option fst (rw_sent (writeError L False t e v)) = Some (snd (errorStatus L e))"
    if "rw_sent v = None" "\<not> writtenStatus v" "rw_body v = []" for t :: "'a resp_transcoder option" and e v
    using writeError_parts(1)[OF that, of L e "fst (errorStatus L e)" "snd (errorStatus L e)" _ False t] by simp
  show "route = Inl err \<Longrightarrow> map_option fst (rw_sent (http_ServeHTTP L False route bind canFlush forward w))
           = Some (snd (errorStatus L err))"
    using st[OF assms] by (simp add: http_ServeHTTP_def routeTranscodedRequest_def)
  show "route = Inr r \<Longrightarrow> bind r = Inr (tc, st) \<Longrightarrow> ClientStreaming (hr_Method r) \<Longrightarrow>
           map_option fst (rw_sent (http_ServeHTTP L False route bind canFlush forward w))
           = Some (lib_HTTPStatusFromCode L (fst (lib_Convert L (ErrStatus Unimplemented ''client streaming through HTTP not supported''))))"
    using st[OF assms, of "Some tc" "ErrStatus Unimplemented ''client streaming through HTTP not supported''"]
    by (simp add: http_ServeHTTP_def routeTranscodedRequest_def errorStatus_def HTTPStatus_def Let_def)
  show "route = Inr r \<Longrightarrow> bind r = Inr (tc, st) \<Longrightarrow> \<not> ClientStreaming (hr_Method r) \<Longrightarrow> \<not> ServerStreaming (hr_Method r) \<Longrightarrow>
           forward \<lparr>he_lib = L, he_resptc = tc, he_respstream = None\<rparr> (new_http_stream w) = (s, Some err) \<Longrightarrow>
           (writtenStatus (hs_w s) \<longrightarrow> http_ServeHTTP L False route bind canFlush forward w = hs_w s)
           \<and> (\<not> writtenStatus (hs_w s) \<and> rw_sent (hs_w s) = None \<and> rw_body (hs_w s) = [] \<longrightarrow>
                map_option fst (rw_sent (http_ServeHTTP L False route bind canFlush forward w)) = Some (snd (errorStatus L err)))"
    using st[of "hs_w s" "Some tc" err] by (simp add: http_ServeHTTP_def routeTranscodedRequest_def writeError_def)
qed

text \<open>
  What the client sees of an error: if the call cannot be routed or bound, if it streams requests, or if
  forwarding fails before anything has been written, the response is that of the error; once a part of the
  response has been written, an error of the forwarder leaves it as it is.
\<close>
theorem http_ServeHTTP_errors:
  assumes "rw_sent w = None" and "\<not> writtenStatus w" and "rw_body w = []"
  shows "(\<forall>err. route = Inl err \<longrightarrow>
        map_option fst (rw_sent (http_ServeHTTP L False route bind canFlush forward w)) = Some (snd (errorStatus L err)))
    \<and> (\<forall>r tc st. route = Inr r \<and> bind r = Inr (tc, st) \<and> ClientStreaming (hr_Method r) \<longrightarrow>
        map_option fst (rw_sent (http_ServeHTTP L False route bind canFlush forward w))
          = Some (lib_HTTPStatusFromCode L (fst (lib_Convert L (ErrStatus Unimplemented ''client streaming through HTTP not supported'')))))
    \<and> (\<forall>r tc st s err. route = Inr r \<and> bind r = Inr (tc, st) \<and> \<not> ClientStreaming (hr_Method r) \<and> \<not> ServerStreaming (hr_Method r)
         \<and> forward \<lparr>he_lib = L, he_resptc = tc, he_respstream = None\<rparr> (new_http_stream w) = (s, Some err) \<longrightarrow>
           (writtenStatus (hs_w s) \<longrightarrow> http_ServeHTTP L False route bind canFlush forward w = hs_w s)
           \<and> (\<not> writtenStatus (hs_w s) \<and> rw_sent (hs_w s) = None \<and> rw_body (hs_w s) = [] \<longrightarrow>
                map_option fst (rw_sent (http_ServeHTTP L False route bind canFlush forward w)) = Some (snd (errorStatus L err))))"
proof (intro conjI allI impI, goal_cases)
  case (1 err)
  then show ?case by (rule http_ServeHTTP_parts(1)[OF assms])
next
  case (2 r tc st)
  then show ?case by (elim conjE) (rule http_ServeHTTP_parts(2)[OF assms])
next
  case (3 r tc st s err)
  then show ?case
    using http_ServeHTTP_parts(3)[OF assms, where route = route and r = r and bind = bind and tc = tc and st = st
      and forward = forward and L = L and s = s and err = err and canFlush = canFlush] by fast
next
  case (4 r tc st s err)
  then show ?case
    using http_ServeHTTP_parts(3)[OF assms, where route = route and r = r and bind = bind and tc = tc and st = st
      and forward = forward and L = L and s = s and err = err and canFlush = canFlush] by fast
qed

theorem http_ServeHTTP_errors_witness:
  "map_option fst (rw_sent (http_ServeHTTP ex_lib False (Inl (ErrStatus NotFound ''x'')) (\<lambda>r. Inr (ex_tc, None)) True
      (\<lambda>E s. (s, None)) new_response)) = Some 500"
proof -
  have "rw_sent new_response = None" "\<not> writtenStatus new_response" "rw_body new_response = []"
    by (simp_all add: new_response_def)
  from http_ServeHTTP_errors[where route = "Inl (ErrStatus NotFound ''x'')" and L = ex_lib
      and bind = "\<lambda>r. Inr (ex_tc, None)" and canFlush = True and forward = "\<lambda>E s. (s, None)", OF this, THEN conjunct1] show ?thesis
    by (simp add: errorStatus_def HTTPStatus_def ex_lib_def)
qed

end
