(* ===== verification/Grpc_Web.thy ===== *)
theory Grpc_Web
  imports Http_Bridge
begin

text \<open>
  The gRPC-Web bridges (webbridge/grpcweb.go): length-prefixed frames, the stream of an HTTP request,
  the stream of a WebSocket with its message handler, and the two handlers around them.

  Protobuf encoding, the parser of MIME headers, the router and the forwarder are parameters. A
  metadata.MD that the code ranges over is an association list whose order is that of the range loop;
  its Set, as grpc documents it, replaces the values of the lower-case key.
\<close>

section \<open>Frames\<close>

text \<open>binary.BigEndian.PutUint32 and Uint32; the conversion of a length to uint32 wraps.\<close>

definition uint32 :: "nat \<Rightarrow> nat" where
  "uint32 n = n mod 2 ^ 32"

definition PutUint32 :: "nat \<Rightarrow> string" where
  "PutUint32 v = [char_of (v div 16777216 mod 256), char_of (v div 65536 mod 256), char_of (v div 256 mod 256), char_of (v mod 256)]"

definition Uint32 :: "string \<Rightarrow> nat" where
  "Uint32 b = of_char (b ! 0) * 16777216 + of_char (b ! 1) * 65536 + of_char (b ! 2) * 256 + of_char (b ! 3)"

definition lpmMessage :: "('m \<Rightarrow> go_error + string) \<Rightarrow> 'm \<Rightarrow> go_error + string" where
  "lpmMessage marshal msg =
     (case marshal msg of
        Inl err \<Rightarrow> Inl err
      | Inr data \<Rightarrow> Inr ([CHR 0x00] @ PutUint32 (uint32 (length data)) @ data))"

definition header_line :: "string \<Rightarrow> string \<Rightarrow> string" where
  "header_line k v = k @ '': '' @ v @ [CHR 0x0D, CHR 0x0A]"

fun header_lines :: "query \<Rightarrow> string" where
  "header_lines [] = []"
| "header_lines ((k, vs) # md) = concat (map (header_line k) vs) @ header_lines md"

definition lpmTrailer :: "query \<Rightarrow> string" where
  "lpmTrailer md =
     (let buf = header_lines md in [CHR 0x80] @ PutUint32 (uint32 (length buf)) @ buf)"

section \<open>The trailer with the status\<close>

definition code_num :: "code \<Rightarrow> nat" where
  "code_num c = (case c of
     OK \<Rightarrow> 0 | Canceled \<Rightarrow> 1 | Unknown \<Rightarrow> 2 | InvalidArgument \<Rightarrow> 3 | DeadlineExceeded \<Rightarrow> 4 | NotFound \<Rightarrow> 5
   | AlreadyExists \<Rightarrow> 6 | PermissionDenied \<Rightarrow> 7 | ResourceExhausted \<Rightarrow> 8 | FailedPrecondition \<Rightarrow> 9 | Aborted \<Rightarrow> 10
   | OutOfRange \<Rightarrow> 11 | Unimplemented \<Rightarrow> 12 | Internal \<Rightarrow> 13 | Unavailable \<Rightarrow> 14 | DataLoss \<Rightarrow> 15 | Unauthenticated \<Rightarrow> 16)"

definition dec_digit :: "nat \<Rightarrow> char" where
  "dec_digit n = char_of (48 + n)"

fun Itoa :: "nat \<Rightarrow> string" where
  "Itoa n = (if n < 10 then [dec_digit n] else Itoa (n div 10) @ [dec_digit (n mod 10)])"

declare Itoa.simps [simp del]

text \<open>url.PathEscape: the bytes kept in a path segment, and a percent escape for any other.\<close>

definition path_byte :: "char \<Rightarrow> bool" where
  "path_byte c =
     (let n = (of_char c :: nat)
      in (97 \<le> n \<and> n \<le> 122) \<or> (65 \<le> n \<and> n \<le> 90) \<or> (48 \<le> n \<and> n \<le> 57)
         \<or> c \<in> set ''-_.~$&+=:@'')"

definition upperhex :: "nat \<Rightarrow> char" where
  "upperhex n = (if n < 10 then char_of (48 + n) else char_of (55 + n))"

fun PathEscape :: "string \<Rightarrow> string" where
  "PathEscape [] = []"
| "PathEscape (c # s) =
     (if path_byte c then c # PathEscape s
      else CHR ''%'' # upperhex (of_char c div 16) # upperhex (of_char c mod 16) # PathEscape s)"

definition mdl_Set :: "string \<Rightarrow> string list \<Rightarrow> query \<Rightarrow> query" where
  "mdl_Set k vs md = (if vs = [] then md else AList.update (to_lower k) vs md)"

definition trailerWithStatus :: "query \<Rightarrow> code \<times> string \<Rightarrow> query" where
  "trailerWithStatus md st =
     mdl_Set ''grpc-message'' [PathEscape (snd st)] (mdl_Set ''grpc-status'' [Itoa (code_num (fst st))] md)"

section \<open>The stream of an HTTP request\<close>

text \<open>A request body: the bytes left and the error after them, io.EOF for a complete body.\<close>

record http_body =
  bd_data :: string
  bd_end :: go_error

text \<open>io.ReadFull\<close>

definition ReadFull :: "nat \<Rightarrow> http_body \<Rightarrow> (go_error + string) \<times> http_body" where
  "ReadFull n b =
     (if n \<le> length (bd_data b) then (Inr (take n (bd_data b)), b\<lparr>bd_data := drop n (bd_data b)\<rparr>)
      else (Inl (if bd_data b \<noteq> [] \<and> bd_end b = ErrEOF then ErrUnexpectedEOF else bd_end b), b\<lparr>bd_data := []\<rparr>))"

record gRPCWebStream =
  gs_w :: response
  gs_body :: http_body
  gs_trailer :: query

definition gs_send :: "('m \<Rightarrow> go_error + string) \<Rightarrow> nat option \<Rightarrow> 'm \<Rightarrow> gRPCWebStream \<Rightarrow> go_error option \<times> gRPCWebStream" where
  "gs_send marshal wr msg s =
     (case lpmMessage marshal msg of
        Inl err \<Rightarrow> (Some err, s)
      | Inr data \<Rightarrow>
          (case wr of
             None \<Rightarrow> (None, s\<lparr>gs_w := Write data (gs_w s)\<rparr>)
           | Some n \<Rightarrow> (Some (ErrStatus Unavailable ''failed to write length-prefixed message''), s\<lparr>gs_w := Write_n n data (gs_w s)\<rparr>)))"

text \<open>\<open>msg\<close> is the empty message that recv is given to fill.\<close>

definition gs_recv :: "(string \<Rightarrow> go_error + 'm) \<Rightarrow> 'm \<Rightarrow> gRPCWebStream \<Rightarrow> (go_error + 'm) \<times> gRPCWebStream" where
  "gs_recv unmarshal msg s =
     (case ReadFull 5 (gs_body s) of
        (Inl err, b) \<Rightarrow>
          if is_EOF err then (Inl ErrEOF, s\<lparr>gs_body := b\<rparr>)
          else (Inl (ErrStatus Unavailable ''failed to read length-prefixed message header''), s\<lparr>gs_body := b\<rparr>)
      | (Inr header, b) \<Rightarrow>
          let len = Uint32 (take 4 (drop 1 header))
          in if len < 1 then (Inr msg, s\<lparr>gs_body := b\<rparr>)
             else (case ReadFull (min len (2 ^ 22)) b of
                     (Inl err, b) \<Rightarrow> (Inl (ErrStatus Unavailable ''failed to read length-prefixed message body''), s\<lparr>gs_body := b\<rparr>)
                   | (Inr data, b) \<Rightarrow> (unmarshal data, s\<lparr>gs_body := b\<rparr>)))"

definition gs_SetHeader :: "query \<Rightarrow> gRPCWebStream \<Rightarrow> gRPCWebStream" where
  "gs_SetHeader md s = s\<lparr>gs_w := appendHeaders md (gs_w s)\<rparr>"

definition gs_SetTrailer :: "query \<Rightarrow> gRPCWebStream \<Rightarrow> gRPCWebStream" where
  "gs_SetTrailer md s = s\<lparr>gs_trailer := md\<rparr>"

definition writeTrailerWithStatus :: "query \<Rightarrow> code \<times> string \<Rightarrow> response \<Rightarrow> response" where
  "writeTrailerWithStatus md st w = Write (lpmTrailer (trailerWithStatus md st)) w"

text \<open>status.Convert of an error that may be nil.\<close>

definition Convert :: "web_lib \<Rightarrow> go_error option \<Rightarrow> code \<times> string" where
  "Convert L err = (case err of None \<Rightarrow> (OK, []) | Some e \<Rightarrow> lib_Convert L e)"

definition gweb_ServeHTTP :: "web_lib \<Rightarrow> go_error + GRPCRoute
    \<Rightarrow> (GRPCRoute \<Rightarrow> gRPCWebStream \<Rightarrow> gRPCWebStream \<times> go_error option) \<Rightarrow> http_body \<Rightarrow> response \<Rightarrow> response" where
  "gweb_ServeHTTP L route forward body w =
     (let w = set_header ''Content-Type'' [''application/grpc-web+proto''] w
      in case route of
           Inl err \<Rightarrow> writeTrailerWithStatus [] (Convert L (Some err)) w
         | Inr r \<Rightarrow>
             (case forward r \<lparr>gs_w = w, gs_body = body, gs_trailer = []\<rparr> of
                (incoming, err) \<Rightarrow> writeTrailerWithStatus (gs_trailer incoming) (Convert L err) (gs_w incoming)))"

section \<open>The stream of a WebSocket\<close>

datatype ws_frame = WSBinary string | WSText string | WSClose nat string

record gwsReadEvent =
  ev_data :: string
  ev_err :: "go_error option"

record gRPCWebSocketStream =
  wg_receivedMD :: bool
  wg_sentMD :: bool
  wg_header :: query
  wg_trailer :: query
  wg_closed :: bool
  wg_out :: "ws_frame list"

definition new_wg_stream :: gRPCWebSocketStream where
  "new_wg_stream = \<lparr>wg_receivedMD = False, wg_sentMD = False, wg_header = [], wg_trailer = [], wg_closed = False, wg_out = []\<rparr>"

text \<open>What the select of Recv gets: an event, the closed channel, or the end of the context.\<close>

datatype ws_wait = WEvent gwsReadEvent | WClosed | WCtx go_error

definition wg_Recv :: "(string \<Rightarrow> go_error + 'm) \<Rightarrow> ws_wait \<Rightarrow> go_error + 'm" where
  "wg_Recv unmarshal wt =
     (case wt of
        WClosed \<Rightarrow> Inl ErrEOF
      | WCtx e \<Rightarrow> Inl (ContextError e)
      | WEvent event \<Rightarrow> (case ev_err event of Some err \<Rightarrow> Inl err | None \<Rightarrow> unmarshal (ev_data event)))"

text \<open>The booleans tell whether the two calls of WriteMessage succeed.\<close>

definition wg_send :: "('m \<Rightarrow> go_error + string) \<Rightarrow> bool \<Rightarrow> bool \<Rightarrow> 'm \<Rightarrow> gRPCWebSocketStream
    \<Rightarrow> go_error option \<times> gRPCWebSocketStream" where
  "wg_send marshal mdOk msgOk msg s =
     (let first = \<not> wg_sentMD s;
          s = (if first then s\<lparr>wg_sentMD := True\<rparr> else s)
      in if first \<and> \<not> mdOk then (Some (ErrStatus Unavailable ''failed to send metadata''), s)
         else
           let s = (if first then s\<lparr>wg_out := wg_out s @ [WSBinary (lpmTrailer (wg_header s))]\<rparr> else s)
           in case lpmMessage marshal msg of
                Inl err \<Rightarrow> (Some err, s)
              | Inr data \<Rightarrow>
                  if \<not> msgOk then (Some (ErrStatus Unavailable ''failed to send message''), s)
                  else (None, s\<lparr>wg_out := wg_out s @ [WSBinary data]\<rparr>))"

definition wg_SetHeader :: "query \<Rightarrow> gRPCWebSocketStream \<Rightarrow> gRPCWebSocketStream" where
  "wg_SetHeader md s = s\<lparr>wg_header := md\<rparr>"

definition wg_SetTrailer :: "query \<Rightarrow> gRPCWebSocketStream \<Rightarrow> gRPCWebSocketStream" where
  "wg_SetTrailer md s = s\<lparr>wg_trailer := md\<rparr>"

definition wg_sendTrailer :: "code \<times> string \<Rightarrow> gRPCWebSocketStream \<Rightarrow> gRPCWebSocketStream" where
  "wg_sendTrailer st s =
     s\<lparr>wg_out := wg_out s @ [WSBinary (lpmTrailer (trailerWithStatus (wg_trailer s) st)), WSClose 1000 []]\<rparr>"

text \<open>
  The handler of incoming messages. What it puts on the channels is its result: the metadata for
  metadataCh, the event for the events channel, and whether that channel is closed.
\<close>

record wg_effect =
  ef_md :: "query option"
  ef_event :: "gwsReadEvent option"
  ef_close :: bool

abbreviation no_effect :: wg_effect where
  "no_effect \<equiv> \<lparr>ef_md = None, ef_event = None, ef_close = False\<rparr>"

definition wg_readMD :: "(string \<Rightarrow> query option) \<Rightarrow> string \<Rightarrow> gRPCWebSocketStream \<Rightarrow> wg_effect \<times> gRPCWebSocketStream" where
  "wg_readMD readMIME data s =
     (case readMIME (data @ [CHR 0x0D, CHR 0x0A]) of
        None \<Rightarrow> (no_effect, wg_sendTrailer (InvalidArgument, ''expected metadata as valid HTTP/1.1 header'') s)
      | Some mimeHeader \<Rightarrow> (no_effect\<lparr>ef_md := Some mimeHeader\<rparr>, s\<lparr>wg_receivedMD := True\<rparr>))"

definition wg_OnMessage :: "(string \<Rightarrow> query option) \<Rightarrow> string \<Rightarrow> gRPCWebSocketStream \<Rightarrow> wg_effect \<times> gRPCWebSocketStream" where
  "wg_OnMessage readMIME data s =
     (if wg_closed s then (no_effect, s)
      else if \<not> wg_receivedMD s then wg_readMD readMIME data s
      else
        let event = \<lparr>ev_data = [], ev_err = None\<rparr>;
            s = (if length data > 0 then s\<lparr>wg_closed := (data ! 0 = CHR 0x01)\<rparr> else s);
            event = (if length data > 0 then event
                     else event\<lparr>ev_err := Some (ErrStatus InvalidArgument ''expected flow control byte'')\<rparr>);
            sent = (if length data > 6 then Some (event\<lparr>ev_data := drop 6 data\<rparr>) else None);
            event = (if \<not> length data > 6 \<and> ev_err event = None \<and> length data \<noteq> 1
                     then event\<lparr>ev_err := Some (ErrStatus InvalidArgument ''expected length-prefixed message header'')\<rparr> else event)
        in (\<lparr>ef_md = None, ef_event = sent, ef_close = wg_closed s\<rparr>, s))"

text \<open>A sequence of incoming messages: the events put on the channel, in order, and whether it was closed.\<close>

fun wg_run :: "(string \<Rightarrow> query option) \<Rightarrow> string list \<Rightarrow> gRPCWebSocketStream
    \<Rightarrow> gwsReadEvent list \<times> bool \<times> gRPCWebSocketStream" where
  "wg_run readMIME [] s = ([], False, s)"
| "wg_run readMIME (d # ds) s =
     (case wg_OnMessage readMIME d s of
        (ef, s1) \<Rightarrow>
          (case wg_run readMIME ds s1 of
             (evs, cl, s2) \<Rightarrow> ((case ef_event ef of Some ev \<Rightarrow> [ev] | None \<Rightarrow> []) @ evs, ef_close ef \<or> cl, s2)))"

text \<open>
  ServeHTTP: \<open>upgrade\<close> is the error of Upgrade, if any. After it, \<open>md\<close> is what comes first, the metadata or
  the end of the read loop (\<open>None\<close>), and the stream is the one after that message. The result is the HTTP
  response when the request is not upgraded, or the stream at the end.
\<close>

definition wg_ServeHTTP :: "web_lib \<Rightarrow> bool \<Rightarrow> go_error option \<Rightarrow> query option \<Rightarrow> go_error + GRPCRoute
    \<Rightarrow> (GRPCRoute \<Rightarrow> query \<Rightarrow> gRPCWebSocketStream \<Rightarrow> gRPCWebSocketStream \<times> go_error option)
    \<Rightarrow> response \<Rightarrow> gRPCWebSocketStream \<Rightarrow> response + gRPCWebSocketStream" where
  "wg_ServeHTTP L canceled upgrade md route forward w s =
     (case upgrade of
        Some err \<Rightarrow> Inl (writeError L canceled (None :: unit resp_transcoder option) (ErrStatus Internal (lib_Error L err)) w)
      | None \<Rightarrow>
          (case md of
             None \<Rightarrow> Inr s
           | Some md \<Rightarrow>
               (case route of
                  Inl err \<Rightarrow> Inr (wg_sendTrailer (Convert L (Some err)) s)
                | Inr r \<Rightarrow> (case forward r md s of (s, err) \<Rightarrow> Inr (wg_sendTrailer (Convert L err) s)))))"

section \<open>Construction\<close>

text \<open>
  Options with nil for what is not set. WithComponent of a nil Logger is a nil dereference, here \<open>None\<close>.
\<close>

record ('l, 'f) web_opts =
  wo_Logger :: "'l option"
  wo_Forwarder :: "'f option"

definition web_withDefaults :: "'l \<Rightarrow> 'f \<Rightarrow> ('l, 'f) web_opts \<Rightarrow> ('l, 'f) web_opts" where
  "web_withDefaults discard proxyForwarder q =
     (let q = (if wo_Logger q = None then q\<lparr>wo_Logger := Some discard\<rparr> else q)
      in if wo_Forwarder q = None then q\<lparr>wo_Forwarder := Some proxyForwarder\<rparr> else q)"

definition WithComponent :: "('l \<Rightarrow> string \<Rightarrow> 'l) \<Rightarrow> 'l option \<Rightarrow> 'l option" where
  "WithComponent wc l = map_option (\<lambda>l. wc l ''grpcbridge.web'') l"

text \<open>A bridge as the logger and the forwarder it uses.\<close>

definition NewGRPCWebBridge :: "'l \<Rightarrow> 'f \<Rightarrow> ('l \<Rightarrow> string \<Rightarrow> 'l) \<Rightarrow> ('l, 'f) web_opts \<Rightarrow> ('l \<times> 'f option) option" where
  "NewGRPCWebBridge discard proxyForwarder wc opts =
     (let opts = web_withDefaults discard proxyForwarder opts
      in map_option (\<lambda>l. (l, wo_Forwarder opts)) (WithComponent wc (wo_Logger opts)))"

definition NewGRPCWebSocketBridge :: "'l \<Rightarrow> 'f \<Rightarrow> ('l \<Rightarrow> string \<Rightarrow> 'l) \<Rightarrow> ('l, 'f) web_opts \<Rightarrow> ('l \<times> 'f option) option" where
  "NewGRPCWebSocketBridge discard proxyForwarder wc opts =
     (let logger = WithComponent wc (wo_Logger opts);
          opts = web_withDefaults discard proxyForwarder opts
      in map_option (\<lambda>l. (l, wo_Forwarder opts)) logger)"

section \<open>Lemmas on frames\<close>

lemma PutUint32_length [simp]: "length (PutUint32 v) = 4"
  by (simp add: PutUint32_def)

lemma Uint32_PutUint32:
  assumes "v < 2 ^ 32"
  shows "Uint32 (PutUint32 v) = v"
proof -
  define a where "a = v div 256"
  define b where "b = a div 256"
  define c where "c = b div 256"
  have q: "v div 65536 = b" "v div 16777216 = c" "v div 256 = a"
    by (simp_all add: a_def b_def c_def div_mult2_eq[symmetric])
  have "v = a * 256 + v mod 256" "a = b * 256 + a mod 256" "b = c * 256 + b mod 256"
    by (simp_all add: a_def b_def c_def)
  moreover have "c < 256" using assms q(2) by (simp add: div_less_iff_less_mult flip: q(2))
  ultimately show ?thesis unfolding Uint32_def PutUint32_def q by simp
qed

lemma ReadFull_append:
  "bd_data b = a @ r \<Longrightarrow> ReadFull (length a) b = (Inr a, b\<lparr>bd_data := r\<rparr>)"
  by (simp add: ReadFull_def)

definition frame :: "char \<Rightarrow> string \<Rightarrow> string" where
  "frame flag data = [flag] @ PutUint32 (uint32 (length data)) @ data"

lemma lpm_frames:
  "lpmMessage marshal msg = map_sum id (frame CHR 0x00) (marshal msg)"
  "lpmTrailer md = frame CHR 0x80 (header_lines md)"
  by (simp_all add: lpmMessage_def lpmTrailer_def frame_def Let_def split: sum.split)

lemma read_header:
  assumes "bd_data b = frame flag data @ r" and "length data < 2 ^ 32"
  shows "ReadFull 5 b = (Inr (flag # PutUint32 (length data)), b\<lparr>bd_data := data @ r\<rparr>)"
    and "Uint32 (take 4 (drop 1 (flag # PutUint32 (length data)))) = length data"
  using ReadFull_append[of b "flag # PutUint32 (length data)" "data @ r"] assms Uint32_PutUint32[of "length data"]
  by (simp_all add: frame_def uint32_def)

lemma gs_recv_frame:
  assumes "bd_data (gs_body s) = frame flag data @ r" and "length data \<le> 2 ^ 22"
  shows "gs_recv unmarshal msg s =
    (if data = [] then Inr msg else unmarshal data, s\<lparr>gs_body := (gs_body s)\<lparr>bd_data := r\<rparr>\<rparr>)"
proof -
  have l: "length data < 2 ^ 32" using assms(2) by simp
  have "ReadFull (length data) ((gs_body s)\<lparr>bd_data := data @ r\<rparr>) = (Inr data, (gs_body s)\<lparr>bd_data := r\<rparr>)"
    using ReadFull_append[of "(gs_body s)\<lparr>bd_data := data @ r\<rparr>" data r] by simp
  then show ?thesis
    using read_header[OF assms(1) l] assms(2) by (auto simp: gs_recv_def Let_def min_absorb1)
qed

section \<open>Properties of the HTTP stream\<close>

text \<open>Receiving until an error, at most \<open>n\<close> messages.\<close>

fun gs_recv_list :: "(string \<Rightarrow> go_error + 'm) \<Rightarrow> 'm \<Rightarrow> nat \<Rightarrow> gRPCWebStream \<Rightarrow> 'm list \<times> go_error option" where
  "gs_recv_list unmarshal msg 0 s = ([], None)"
| "gs_recv_list unmarshal msg (Suc n) s =
     (case gs_recv unmarshal msg s of
        (Inl e, s') \<Rightarrow> ([], Some e)
      | (Inr m, s') \<Rightarrow> (case gs_recv_list unmarshal msg n s' of (ms, e) \<Rightarrow> (m # ms, e)))"

definition codec_ok :: "('m \<Rightarrow> string) \<Rightarrow> (string \<Rightarrow> go_error + 'm) \<Rightarrow> 'm \<Rightarrow> 'm \<Rightarrow> bool" where
  "codec_ok enc unmarshal msg m \<longleftrightarrow>
     length (enc m) \<le> 2 ^ 22 \<and> unmarshal (enc m) = Inr m \<and> (enc m = [] \<longrightarrow> m = msg)"

text \<open>
  What a client frames is what the forwarder receives: a request body holding length-prefixed messages
  of at most 4 MB gives exactly those messages, each once and in order, the empty message included, and
  then io.EOF.
\<close>
theorem gweb_recv_roundtrip:
  assumes "\<forall>m \<in> set ms. codec_ok enc unmarshal msg m"
    and "gs_body s = \<lparr>bd_data = concat (map (\<lambda>m. frame CHR 0x00 (enc m)) ms), bd_end = ErrEOF\<rparr>"
    and "n > length ms"
  shows "gs_recv_list unmarshal msg n s = (ms, Some ErrEOF)"
  using assms
proof (induction ms arbitrary: s n)
  case Nil
  then show ?case by (cases n) (simp_all add: gs_recv_def ReadFull_def)
next
  case (Cons m ms)
  obtain k where n: "n = Suc k" "k > length ms" using Cons.prems(3) by (cases n) auto
  let ?s = "s\<lparr>gs_body := (gs_body s)\<lparr>bd_data := concat (map (\<lambda>m. frame CHR 0x00 (enc m)) ms)\<rparr>\<rparr>"
  have "gs_recv unmarshal msg s = (Inr m, ?s)"
    using gs_recv_frame[of s "CHR 0x00" "enc m" "concat (map (\<lambda>m. frame CHR 0x00 (enc m)) ms)" unmarshal msg] Cons.prems(1,2)
    by (simp add: codec_ok_def)
  moreover have "gs_recv_list unmarshal msg k ?s = (ms, Some ErrEOF)"
    by (rule Cons.IH) (use Cons.prems n in auto)
  ultimately show ?case by (simp add: n)
qed

theorem gweb_recv_roundtrip_witness:
  "gs_recv_list Inr [] 3 \<lparr>gs_w = new_response, gs_body = \<lparr>bd_data = frame CHR 0x00 ''ab'' @ frame CHR 0x00 [], bd_end = ErrEOF\<rparr>, gs_trailer = []\<rparr>
     = ([''ab'', []], Some ErrEOF)"
  using gweb_recv_roundtrip[of "[''ab'', []]" "\<lambda>m. m" Inr "[]"
      "\<lparr>gs_w = new_response, gs_body = \<lparr>bd_data = frame CHR 0x00 ''ab'' @ frame CHR 0x00 [], bd_end = ErrEOF\<rparr>, gs_trailer = []\<rparr>" 3]
  by (simp add: codec_ok_def)

text \<open>
  A message longer than 4 MB is not refused: recv reads its first 4 MB and decodes them as the whole
  message, and the rest of it stays in the body, where the next recv takes it for a frame header.
\<close>
theorem gweb_recv_truncates:
  assumes "bd_data (gs_body s) = frame flag data @ r" and "2 ^ 22 < length data" and "length data < 2 ^ 32"
  shows "gs_recv unmarshal msg s =
    (unmarshal (take (2 ^ 22) data), s\<lparr>gs_body := (gs_body s)\<lparr>bd_data := drop (2 ^ 22) data @ r\<rparr>\<rparr>)"
proof -
  have "ReadFull (2 ^ 22) ((gs_body s)\<lparr>bd_data := data @ r\<rparr>)
      = (Inr (take (2 ^ 22) data), (gs_body s)\<lparr>bd_data := drop (2 ^ 22) data @ r\<rparr>)"
    using ReadFull_append[of "(gs_body s)\<lparr>bd_data := data @ r\<rparr>" "take (2 ^ 22) data" "drop (2 ^ 22) data @ r"] assms(2)
    by (simp add: append_assoc[symmetric] del: append_assoc)
  moreover have "data \<noteq> []" using assms(2) by auto
  ultimately show ?thesis
    using read_header[OF assms(1,3)] assms(2) by (simp add: gs_recv_def Let_def min_absorb2)
qed

theorem gweb_recv_truncates_witness:
  "\<exists>data r. length data = 2 ^ 22 + 1
     \<and> fst (gs_recv Inr [] \<lparr>gs_w = new_response, gs_body = \<lparr>bd_data = frame CHR 0x00 data, bd_end = ErrEOF\<rparr>, gs_trailer = []\<rparr>) = Inr r
     \<and> r = take (2 ^ 22) data"
proof -
  obtain d :: string where d: "length d = 2 ^ 22 + 1" by (metis length_replicate)
  let ?s = "\<lparr>gs_w = new_response, gs_body = \<lparr>bd_data = frame CHR 0x00 d, bd_end = ErrEOF\<rparr>, gs_trailer = []\<rparr>"
  have "bd_data (gs_body ?s) = frame CHR 0x00 d @ []" by simp
  from gweb_recv_truncates[OF this, of Inr "[]"] d show ?thesis by (intro exI[of _ d] exI[of _ "take (2 ^ 22) d"]) simp
qed

text \<open>A gRPC-Web client's reader of frames: flag and payload of each, \<open>None\<close> for a body that does not end with a frame.\<close>

function client_frames :: "string \<Rightarrow> (char \<times> string) list option" where
  "client_frames s =
     (if s = [] then Some []
      else if length s < 5 then None
      else let len = Uint32 (take 4 (drop 1 s))
           in if length s < 5 + len then None
              else map_option ((#) (s ! 0, take len (drop 5 s))) (client_frames (drop (5 + len) s)))"
  by pat_completeness auto
termination by (relation "measure length") auto

declare client_frames.simps [simp del]

lemma client_frames_frame:
  assumes "length data < 2 ^ 32"
  shows "client_frames (frame flag data @ r) = map_option ((#) (flag, data)) (client_frames r)"
proof -
  have "drop (5 + length data) (flag # PutUint32 (length data) @ data @ r) = r"
    by (simp add: add.commute[of 5] flip: drop_drop)
  then show ?thesis
    using Uint32_PutUint32[OF assms] assms
    by (subst client_frames.simps) (simp add: frame_def uint32_def Let_def)
qed

lemma client_frames_concat:
  assumes "\<forall>d \<in> set ds. length d < 2 ^ 32"
  shows "client_frames (concat (map (frame flag) ds) @ r) = map_option ((@) (map (Pair flag) ds)) (client_frames r)"
  using assms
proof (induction ds)
  case (Cons d ds)
  then show ?case by (cases "client_frames r") (simp_all add: client_frames_frame)
qed (cases "client_frames r", simp_all)

text \<open>The lines of the trailer always have the status, which nothing set before can hide.\<close>

lemma trailerWithStatus_values:
  "map_of (trailerWithStatus md st) ''grpc-status'' = Some [Itoa (code_num (fst st))]"
  "map_of (trailerWithStatus md st) ''grpc-message'' = Some [PathEscape (snd st)]"
  "k \<noteq> ''grpc-status'' \<Longrightarrow> k \<noteq> ''grpc-message'' \<Longrightarrow> map_of (trailerWithStatus md st) k = map_of md k"
proof -
  have l: "to_lower ''grpc-status'' = ''grpc-status''" "to_lower ''grpc-message'' = ''grpc-message''" by code_simp+
  show "map_of (trailerWithStatus md st) ''grpc-status'' = Some [Itoa (code_num (fst st))]"
    "map_of (trailerWithStatus md st) ''grpc-message'' = Some [PathEscape (snd st)]"
    "k \<noteq> ''grpc-status'' \<Longrightarrow> k \<noteq> ''grpc-message'' \<Longrightarrow> map_of (trailerWithStatus md st) k = map_of md k"
    by (simp_all add: trailerWithStatus_def mdl_Set_def l AList.update_conv')
qed

text \<open>Sends that all succeed append one frame each.\<close>

fun gs_sends :: "('m \<Rightarrow> go_error + string) \<Rightarrow> 'm list \<Rightarrow> gRPCWebStream \<Rightarrow> gRPCWebStream" where
  "gs_sends marshal [] s = s"
| "gs_sends marshal (m # ms) s = gs_sends marshal ms (snd (gs_send marshal None m s))"

lemma gs_sends_body:
  assumes "\<forall>m \<in> set ms. marshal m = Inr (enc m)"
  shows "rw_body (gs_w (gs_sends marshal ms s)) = rw_body (gs_w s) @ concat (map (frame CHR 0x00) (map enc ms))
    \<and> gs_trailer (gs_sends marshal ms s) = gs_trailer s"
  using assms by (induction ms arbitrary: s) (simp_all add: gs_send_def lpm_frames rw_simps)

text \<open>
  A gRPC-Web response can always be decoded: whatever the router and the forwarder answer, the body is
  the frames of the messages sent, in order, and then exactly one trailer frame, whose grpc-status is the
  code of the result, 0 for success, and whose grpc-message is its escaped message, whatever trailers the
  server set under these names.
\<close>
theorem gweb_response_decodes:
  assumes "\<forall>m \<in> set ms. marshal m = Inr (enc m) \<and> length (enc m) < 2 ^ 32"
    and "\<forall>r s. forward r s = (gs_SetTrailer tr (gs_sends marshal ms s), err)"
    and "md = trailerWithStatus (case route of Inl e \<Rightarrow> [] | Inr r \<Rightarrow> tr) (case route of Inl e \<Rightarrow> lib_Convert L e | Inr r \<Rightarrow> Convert L err)"
    and "length (header_lines md) < 2 ^ 32" and "rw_body w = []"
  shows "client_frames (rw_body (gweb_ServeHTTP L route forward body w))
      = Some ((case route of Inl e \<Rightarrow> [] | Inr r \<Rightarrow> map (\<lambda>m. (CHR 0x00, enc m)) ms) @ [(CHR 0x80, header_lines md)])
    \<and> map_of md ''grpc-status'' = Some [Itoa (code_num (fst (case route of Inl e \<Rightarrow> lib_Convert L e | Inr r \<Rightarrow> Convert L err)))]"
proof -
  have last: "client_frames (frame CHR 0x80 (header_lines md)) = Some [(CHR 0x80, header_lines md)]"
    using client_frames_frame[OF assms(4), of "CHR 0x80" "[]"] by (simp add: client_frames.simps[of "[]"])
  have ds: "\<forall>d \<in> set (map enc ms). length d < 2 ^ 32" using assms(1) by auto
  have "client_frames (rw_body (gweb_ServeHTTP L route forward body w))
      = Some ((case route of Inl e \<Rightarrow> [] | Inr r \<Rightarrow> map (\<lambda>m. (CHR 0x00, enc m)) ms) @ [(CHR 0x80, header_lines md)])"
  proof (cases route)
    case (Inl e)
    then show ?thesis using assms(3,5) last
      by (simp add: gweb_ServeHTTP_def writeTrailerWithStatus_def rw_simps lpm_frames Convert_def)
  next
    case (Inr r)
    then have "rw_body (gweb_ServeHTTP L route forward body w)
        = concat (map (frame CHR 0x00) (map enc ms)) @ frame CHR 0x80 (header_lines md)"
      using assms gs_sends_body[of ms marshal enc]
      by (simp add: gweb_ServeHTTP_def writeTrailerWithStatus_def rw_simps lpm_frames gs_SetTrailer_def)
    then show ?thesis using client_frames_concat[OF ds, of "CHR 0x00"] last Inr by simp
  qed
  then show ?thesis using trailerWithStatus_values(1) assms(3) by metis
qed

theorem gweb_response_decodes_witness:
  "\<exists>md. client_frames (rw_body (gweb_ServeHTTP ex_lib (Inl (ErrStatus NotFound ''x'')) (\<lambda>r s. (gs_SetTrailer [] (gs_sends Inr [] s), None))
      \<lparr>bd_data = [], bd_end = ErrEOF\<rparr> new_response)) = Some [(CHR 0x80, header_lines md)] \<and> map_of md ''grpc-status'' = Some [''5'']"
proof -
  let ?md = "trailerWithStatus [] (NotFound, ''x'')" and ?route = "Inl (ErrStatus NotFound ''x'') :: go_error + GRPCRoute"
  have c: "lib_Convert ex_lib (ErrStatus NotFound ''x'') = (NotFound, ''x'')" by (simp add: ex_lib_def)
  have ms: "\<forall>m \<in> set ([] :: string list). Inr m = (Inr m :: go_error + string) \<and> length m < 2 ^ 32" by simp
  have fw: "\<forall>r :: GRPCRoute. \<forall>s. (gs_SetTrailer [] (gs_sends Inr ([] :: string list) s), None :: go_error option)
      = (gs_SetTrailer [] (gs_sends Inr [] s), None)" by simp
  have md: "?md = trailerWithStatus (case ?route of Inl e \<Rightarrow> [] | Inr r \<Rightarrow> [])
      (case ?route of Inl e \<Rightarrow> lib_Convert ex_lib e | Inr r \<Rightarrow> Convert ex_lib None)" by (simp only: sum.case c)
  have "length (header_lines ?md) = 33" by code_simp
  then have len: "length (header_lines ?md) < 2 ^ 32" by simp
  have body: "rw_body new_response = []" by (simp only: new_response_def response.simps)
  have status: "Itoa (code_num NotFound) = ''5''" by code_simp
  from gweb_response_decodes[OF ms fw md len body, of "\<lparr>bd_data = [], bd_end = ErrEOF\<rparr>"]
  show ?thesis unfolding sum.case c fst_conv status append_Nil by blast
qed

section \<open>Properties of the WebSocket stream\<close>

definition open_stream :: "gRPCWebSocketStream \<Rightarrow> bool" where
  "open_stream s \<longleftrightarrow> wg_receivedMD s \<and> \<not> wg_closed s"

lemma wg_OnMessage_closed: "wg_closed s \<Longrightarrow> wg_OnMessage readMIME d s = (no_effect, s)"
  by (simp add: wg_OnMessage_def)

lemma wg_OnMessage_open:
  assumes "open_stream s"
  shows "wg_OnMessage readMIME d s =
    (\<lparr>ef_md = None, ef_event = (if length d > 6 then Some \<lparr>ev_data = drop 6 d, ev_err = None\<rparr> else None),
      ef_close = (d \<noteq> [] \<and> d ! 0 = CHR 0x01)\<rparr>, s\<lparr>wg_closed := (d \<noteq> [] \<and> d ! 0 = CHR 0x01)\<rparr>)"
  using assms by (auto simp: wg_OnMessage_def open_stream_def Let_def)

lemma wg_run_closed: "wg_closed s \<Longrightarrow> wg_run readMIME ds s = ([], False, s)"
  by (induction ds) (simp_all add: wg_OnMessage_closed)

text \<open>A message of the grpc-websockets protocol: the flow control byte, then a frame, if any.\<close>

abbreviation ws_message :: "string \<Rightarrow> string" where
  "ws_message d \<equiv> CHR 0x00 # frame CHR 0x00 d"

lemma ws_message_parts:
  "ws_message d ! 0 = CHR 0x00" "length (ws_message d) = 6 + length d" "drop 6 (ws_message d) = d"
  by (simp_all add: frame_def)

lemma wg_run_messages:
  assumes "open_stream s"
  shows "wg_run readMIME (map ws_message ds @ rest) s =
    (case wg_run readMIME rest s of (evs, cl, s') \<Rightarrow>
       (map (\<lambda>d. \<lparr>ev_data = d, ev_err = None\<rparr>) (filter (\<lambda>d. d \<noteq> []) ds) @ evs, cl, s'))"
proof (induction ds)
  case (Cons d ds)
  have e: "s\<lparr>wg_closed := False\<rparr> = s" using assms by (simp add: open_stream_def)
  have step: "wg_OnMessage readMIME (ws_message d) s =
      (\<lparr>ef_md = None, ef_event = (if d \<noteq> [] then Some \<lparr>ev_data = d, ev_err = None\<rparr> else None), ef_close = False\<rparr>, s)"
    unfolding wg_OnMessage_open[OF assms] ws_message_parts by (simp add: e)
  show ?case by (cases "wg_run readMIME rest s") (simp add: step Cons.IH)
qed simp

text \<open>
  Messages over a WebSocket: after the metadata, messages of at least one byte reach the forwarder's
  Recv unchanged and in order, the closing message ends the channel, and nothing sent after it has any
  effect.
\<close>
theorem wg_delivers_messages:
  assumes "open_stream s" and "[] \<notin> set ds"
  shows "wg_run readMIME (map ws_message ds @ [CHR 0x01] # later) s =
    (map (\<lambda>d. \<lparr>ev_data = d, ev_err = None\<rparr>) ds, True, s\<lparr>wg_closed := True\<rparr>)"
proof -
  have "filter (\<lambda>d. d \<noteq> []) ds = ds" using assms(2) by (auto simp: filter_id_conv)
  moreover have "wg_run readMIME ([CHR 0x01] # later) s = ([], True, s\<lparr>wg_closed := True\<rparr>)"
    by (simp add: wg_OnMessage_open[OF assms(1)] wg_run_closed)
  ultimately show ?thesis by (simp add: wg_run_messages[OF assms(1)])
qed

theorem wg_delivers_messages_witness:
  "\<exists>s. wg_run (\<lambda>_. None) (map ws_message [''a''] @ [CHR 0x01] # [''b'']) s = ([\<lparr>ev_data = ''a'', ev_err = None\<rparr>], True, s\<lparr>wg_closed := True\<rparr>)"
proof -
  have "open_stream (new_wg_stream\<lparr>wg_receivedMD := True\<rparr>)" "[] \<notin> set [''a'']"
    by (simp_all add: open_stream_def new_wg_stream_def)
  from wg_delivers_messages[OF this, of "\<lambda>_. None" "[''b'']"] show ?thesis by (intro exI) simp
qed

text \<open>
  The empty message is lost: a message whose protobuf encoding is empty (google.protobuf.Empty, or a
  request with default fields only) arrives as a frame of six bytes, which OnMessage takes for a malformed
  one; and the errors it makes for malformed messages are never put on the channel. A unary call with such
  a request ends with io.EOF instead of reaching the server, while over HTTP the same frame is accepted.
\<close>
theorem wg_loses_empty_message:
  assumes "open_stream s"
  shows "wg_run readMIME [ws_message [], [CHR 0x01]] s = ([], True, s\<lparr>wg_closed := True\<rparr>)
    \<and> (\<forall>d ef s'. wg_OnMessage readMIME d s = (ef, s') \<longrightarrow> (\<forall>ev. ef_event ef = Some ev \<longrightarrow> ev_err ev = None))
    \<and> fst (gs_recv unmarshal msg \<lparr>gs_w = w, gs_body = \<lparr>bd_data = frame CHR 0x00 [], bd_end = ErrEOF\<rparr>, gs_trailer = []\<rparr>) = Inr msg"
proof (intro conjI allI impI)
  show "wg_run readMIME [ws_message [], [CHR 0x01]] s = ([], True, s\<lparr>wg_closed := True\<rparr>)"
    using wg_run_messages[OF assms, of readMIME "[[]]" "[[CHR 0x01]]"] by (simp add: wg_OnMessage_open[OF assms])
next
  fix d ef s' ev
  assume "wg_OnMessage readMIME d s = (ef, s')" and "ef_event ef = Some ev"
  then show "ev_err ev = None" by (auto simp: wg_OnMessage_open[OF assms] split: if_splits)
next
  show "fst (gs_recv unmarshal msg \<lparr>gs_w = w, gs_body = \<lparr>bd_data = frame CHR 0x00 [], bd_end = ErrEOF\<rparr>, gs_trailer = []\<rparr>) = Inr msg"
    by (subst gs_recv_frame[of _ "CHR 0x00" "[]" "[]"]) simp_all
qed

theorem wg_loses_empty_message_witness:
  "\<exists>s. open_stream s \<and> wg_run (\<lambda>_. None) [ws_message [], [CHR 0x01]] s = ([], True, s\<lparr>wg_closed := True\<rparr>)"
proof -
  have o: "open_stream (new_wg_stream\<lparr>wg_receivedMD := True\<rparr>)" by (simp add: open_stream_def new_wg_stream_def)
  show ?thesis using wg_loses_empty_message[OF o, THEN conjunct1] o by blast
qed

text \<open>The effects of a sequence of messages.\<close>

fun wg_effects :: "(string \<Rightarrow> query option) \<Rightarrow> string list \<Rightarrow> gRPCWebSocketStream \<Rightarrow> wg_effect list" where
  "wg_effects readMIME [] s = []"
| "wg_effects readMIME (d # ds) s = (case wg_OnMessage readMIME d s of (ef, s') \<Rightarrow> ef # wg_effects readMIME ds s')"

lemma wg_effects_closed: "wg_closed s \<Longrightarrow> wg_effects readMIME ds s = replicate (length ds) no_effect"
  by (induction ds) (simp_all add: wg_OnMessage_closed)

lemma wg_OnMessage_close:
  assumes "wg_OnMessage readMIME d s = (ef, s')" and "ef_close ef"
  shows "wg_closed s'"
proof (cases "open_stream s")
  case True
  with assms show ?thesis by (auto simp: wg_OnMessage_open)
next
  case False
  with assms show ?thesis
    by (auto simp: wg_OnMessage_def wg_readMD_def open_stream_def split: if_splits option.splits)
qed

text \<open>
  The handler cannot panic on its channel: whatever messages a client sends, in whatever order, the
  events channel is closed at most once and no event is put on it afterwards.
\<close>
theorem wg_channel_closed_once:
  assumes "wg_effects readMIME ds s = pre @ ef # post" and "ef_close ef"
  shows "\<forall>e \<in> set post. e = no_effect"
  using assms(1)
proof (induction ds arbitrary: s pre)
  case (Cons d ds)
  obtain e s' where d: "wg_OnMessage readMIME d s = (e, s')" by fastforce
  show ?case
  proof (cases pre)
    case Nil
    then have "wg_closed s'" "post = wg_effects readMIME ds s'"
      using Cons.prems d wg_OnMessage_close[OF d] assms(2) by auto
    then show ?thesis by (simp add: wg_effects_closed)
  next
    case (Cons p pre')
    with Cons.prems d show ?thesis using Cons.IH[of s' pre'] by simp
  qed
qed simp

theorem wg_channel_closed_once_witness:
  "\<exists>s ef. ef_close ef \<and> wg_effects (\<lambda>_. None) [[CHR 0x01], [CHR 0x01]] s = [] @ ef # [no_effect] \<and> (\<forall>e \<in> set [no_effect]. e = no_effect)"
proof -
  let ?s = "new_wg_stream\<lparr>wg_receivedMD := True\<rparr>" and ?ef = "\<lparr>ef_md = None, ef_event = None, ef_close = True\<rparr>"
  have "open_stream ?s" by (simp add: open_stream_def new_wg_stream_def)
  then have e: "wg_effects (\<lambda>_. None) [[CHR 0x01], [CHR 0x01]] ?s = [] @ ?ef # [no_effect]"
    by (simp add: wg_OnMessage_open wg_OnMessage_closed)
  have c: "ef_close ?ef" by simp
  show ?thesis using wg_channel_closed_once[OF e c] e c by blast
qed

text \<open>Sends over the WebSocket that all succeed.\<close>

fun wg_sends :: "('m \<Rightarrow> go_error + string) \<Rightarrow> 'm list \<Rightarrow> gRPCWebSocketStream \<Rightarrow> gRPCWebSocketStream" where
  "wg_sends marshal [] s = s"
| "wg_sends marshal (m # ms) s = wg_sends marshal ms (snd (wg_send marshal True True m s))"

lemma wg_sends_out:
  assumes "\<forall>m \<in> set ms. marshal m = Inr (enc m)"
  shows "wg_out (wg_sends marshal ms s) = wg_out s
      @ (if ms \<noteq> [] \<and> \<not> wg_sentMD s then [WSBinary (lpmTrailer (wg_header s))] else [])
      @ map (\<lambda>m. WSBinary (frame CHR 0x00 (enc m))) ms
    \<and> wg_trailer (wg_sends marshal ms s) = wg_trailer s"
  using assms by (induction ms arbitrary: s) (auto simp: wg_send_def lpm_frames Let_def)

text \<open>
  The response over a WebSocket: the header is sent once, before the first message, then the messages
  in order, then the trailer with the status, and the socket is closed normally. Without any message
  the header is not sent at all.
\<close>
theorem wg_response_order:
  assumes "\<forall>m \<in> set ms. marshal m = Inr (enc m)"
    and "forward = (\<lambda>r md s. (wg_SetTrailer tr (wg_sends marshal ms (wg_SetHeader h s)), err))"
    and "\<not> wg_sentMD s" and "wg_out s = []"
  shows "map_sum id wg_out (wg_ServeHTTP L canceled None (Some md) (Inr r) forward w s) =
      Inr ((if ms \<noteq> [] then [WSBinary (lpmTrailer h)] else []) @ map (\<lambda>m. WSBinary (frame CHR 0x00 (enc m))) ms
      @ [WSBinary (lpmTrailer (trailerWithStatus tr (Convert L err))), WSClose 1000 []])"
  using wg_sends_out[OF assms(1), of "wg_SetHeader h s"] assms(2-4)
  by (simp add: wg_ServeHTTP_def wg_sendTrailer_def wg_SetTrailer_def wg_SetHeader_def)

theorem wg_response_order_witness:
  "map_sum id wg_out (wg_ServeHTTP ex_lib False None (Some []) (Inr r)
       (\<lambda>r md s. (wg_SetTrailer [] (wg_sends Inr [''a''] (wg_SetHeader [] s)), None)) new_response new_wg_stream)
    = Inr [WSBinary (lpmTrailer []), WSBinary (frame CHR 0x00 ''a''), WSBinary (lpmTrailer (trailerWithStatus [] (OK, []))), WSClose 1000 []]"
proof -
  have "\<forall>m \<in> set [''a'']. (Inr m :: go_error + string) = Inr m" "\<not> wg_sentMD new_wg_stream" "wg_out new_wg_stream = []"
    by (simp_all add: new_wg_stream_def)
  from wg_response_order[OF this(1) refl this(2,3), where L = ex_lib and canceled = False and md = "[]" and r = r
      and w = new_response and tr = "[]" and h = "[]" and err = None]
  show ?thesis by (simp add: Convert_def)
qed

text \<open>
  The documented default of the options fails for one of the two bridges: without a Logger, whose logs
  are meant to be discarded, NewGRPCWebBridge uses the discarding logger, but NewGRPCWebSocketBridge reads
  the nil Logger before the defaults are filled in and panics. With a Logger both succeed.
\<close>
theorem NewGRPCWebSocketBridge_nil_logger:
  "NewGRPCWebSocketBridge discard pf wc \<lparr>wo_Logger = None, wo_Forwarder = f\<rparr> = None
   \<and> NewGRPCWebBridge discard pf wc \<lparr>wo_Logger = None, wo_Forwarder = f\<rparr> \<noteq> None
   \<and> NewGRPCWebSocketBridge discard pf wc \<lparr>wo_Logger = Some l, wo_Forwarder = f\<rparr>
       = NewGRPCWebBridge discard pf wc \<lparr>wo_Logger = Some l, wo_Forwarder = f\<rparr>"
  by (simp add: NewGRPCWebSocketBridge_def NewGRPCWebBridge_def WithComponent_def web_withDefaults_def Let_def)

end
