(* ===== verification/Ws_Bridge.thy ===== *)
theory Ws_Bridge
  imports Grpc_Web
begin

text \<open>
  The bridge from WebSockets to transcoded calls (webbridge/websocket.go): its message handler, the
  stream the forwarder uses, the close code of a result, and ServeHTTP.

  Events travel over an unbuffered channel that only the message handler writes to and closes; what the
  handler does to it is the result of \<open>gws_OnMessage\<close>. The transcoders, the upgrade and the forwarder are
  parameters.
\<close>

section \<open>State\<close>

record gws_config =
  gc_ClientStreaming :: bool
  gc_RequestBodyPath :: string
  gc_reqBinary :: bool

record gwsStream =
  gw_sendActive :: bool
  gw_recvActive :: bool
  gw_alreadyRead :: bool
  gw_out :: "ws_frame list"

definition new_gwsStream :: gwsStream where
  "new_gwsStream = \<lparr>gw_sendActive = False, gw_recvActive = False, gw_alreadyRead = False, gw_out = []\<rparr>"

definition errExpectedText :: go_error where
  "errExpectedText = ErrStatus InvalidArgument ''received binary message instead of text''"
definition errExpectedBinary :: go_error where
  "errExpectedBinary = ErrStatus InvalidArgument ''received text message instead of binary''"

section \<open>The stream\<close>

text \<open>The panics for concurrent use, as for the HTTP stream.\<close>

definition gw_Send_begin :: "gwsStream \<Rightarrow> gwsStream option" where
  "gw_Send_begin s = (if gw_sendActive s then None else Some (s\<lparr>gw_sendActive := True\<rparr>))"

definition gw_Send_end :: "gwsStream \<Rightarrow> gwsStream" where
  "gw_Send_end s = s\<lparr>gw_sendActive := False\<rparr>"

definition gw_Recv_begin :: "gwsStream \<Rightarrow> gwsStream option" where
  "gw_Recv_begin s = (if gw_recvActive s then None else Some (s\<lparr>gw_recvActive := True\<rparr>))"

definition gw_send :: "web_lib \<Rightarrow> 'm resp_transcoder \<Rightarrow> bool \<Rightarrow> 'm \<Rightarrow> gwsStream \<Rightarrow> go_error option \<times> gwsStream" where
  "gw_send L resptc writeOk msg s =
     (case rt_Transcode resptc msg of
        Inl err \<Rightarrow> (responseTranscodingError L (Some err), s)
      | Inr b \<Rightarrow>
          let fr = (if snd (rt_ContentType resptc msg) then WSBinary b else WSText b)
          in if \<not> writeOk then (Some (ErrStatus Internal ''failed to write response message''), s)
             else (None, s\<lparr>gw_out := gw_out s @ [fr]\<rparr>))"

definition gw_wants_message :: "gws_config \<Rightarrow> bool" where
  "gw_wants_message cf = (gc_ClientStreaming cf \<or> gc_RequestBodyPath cf \<noteq> [])"

text \<open>Recv after it has begun; \<open>wt\<close> is what its select gets, when it waits at all.\<close>

definition gw_recv :: "web_lib \<Rightarrow> gws_config \<Rightarrow> (string \<Rightarrow> go_error + 'm) \<Rightarrow> ws_wait \<Rightarrow> go_error + 'm" where
  "gw_recv L cf reqtc wt =
     (let transcode = (\<lambda>data. case reqtc data of
            Inr msg \<Rightarrow> Inr msg
          | Inl err \<Rightarrow> (case requestTranscodingError L (Some err) of Some e \<Rightarrow> Inl e | None \<Rightarrow> Inl err))
      in if gw_wants_message cf then
           (case wt of
              WClosed \<Rightarrow> Inl ErrEOF
            | WCtx e \<Rightarrow> Inl (ContextError e)
            | WEvent event \<Rightarrow> (case ev_err event of Some err \<Rightarrow> Inl err | None \<Rightarrow> transcode (ev_data event)))
         else transcode [])"

definition gw_Recv_end :: "gwsStream \<Rightarrow> gwsStream" where
  "gw_Recv_end s = s\<lparr>gw_recvActive := False\<rparr>"

text \<open>A WebSocket carries neither headers nor trailers.\<close>

definition gw_SetHeader :: "query \<Rightarrow> gwsStream \<Rightarrow> gwsStream" where
  "gw_SetHeader md s = s"
definition gw_SetTrailer :: "query \<Rightarrow> gwsStream \<Rightarrow> gwsStream" where
  "gw_SetTrailer md s = s"

section \<open>The message handler\<close>

definition gws_OnMessage :: "gws_config \<Rightarrow> bool \<Rightarrow> string \<Rightarrow> gwsStream \<Rightarrow> (gwsReadEvent option \<times> bool) \<times> gwsStream" where
  "gws_OnMessage cf messageBinary data s =
     (let swapped = \<not> gc_ClientStreaming cf \<and> gc_RequestBodyPath cf \<noteq> [] \<and> \<not> gw_alreadyRead s;
          s = (if swapped then s\<lparr>gw_alreadyRead := True\<rparr> else s)
      in if \<not> (gc_ClientStreaming cf \<or> swapped) then ((None, False), s)
         else
           let expectBinary = gc_reqBinary cf;
               event = (if messageBinary \<noteq> expectBinary then
                          (if expectBinary then \<lparr>ev_data = [], ev_err = Some errExpectedBinary\<rparr>
                           else \<lparr>ev_data = [], ev_err = Some errExpectedText\<rparr>)
                        else \<lparr>ev_data = data, ev_err = None\<rparr>)
           in ((Some event, \<not> gc_ClientStreaming cf), s))"

fun gws_run :: "gws_config \<Rightarrow> (bool \<times> string) list \<Rightarrow> gwsStream \<Rightarrow> (gwsReadEvent option \<times> bool) list \<times> gwsStream" where
  "gws_run cf [] s = ([], s)"
| "gws_run cf ((b, d) # ms) s =
     (case gws_OnMessage cf b d s of (ef, s') \<Rightarrow> (case gws_run cf ms s' of (efs, s'') \<Rightarrow> (ef # efs, s'')))"

section \<open>Closing\<close>

text \<open>errors.Is along the chain of wrapped errors.\<close>

fun err_Is :: "go_error \<Rightarrow> go_error \<Rightarrow> bool" where
  "err_Is (ErrHTTP c e) t = (ErrHTTP c e = t \<or> err_Is e t)"
| "err_Is (ErrWrap m e) t = (ErrWrap m e = t \<or> err_Is e t)"
| "err_Is e t = (e = t)"

definition code_String :: "code \<Rightarrow> string" where
  "code_String c = (case c of
     OK \<Rightarrow> ''OK'' | Canceled \<Rightarrow> ''Canceled'' | Unknown \<Rightarrow> ''Unknown'' | InvalidArgument \<Rightarrow> ''InvalidArgument''
   | DeadlineExceeded \<Rightarrow> ''DeadlineExceeded'' | NotFound \<Rightarrow> ''NotFound'' | AlreadyExists \<Rightarrow> ''AlreadyExists''
   | PermissionDenied \<Rightarrow> ''PermissionDenied'' | ResourceExhausted \<Rightarrow> ''ResourceExhausted''
   | FailedPrecondition \<Rightarrow> ''FailedPrecondition'' | Aborted \<Rightarrow> ''Aborted'' | OutOfRange \<Rightarrow> ''OutOfRange''
   | Unimplemented \<Rightarrow> ''Unimplemented'' | Internal \<Rightarrow> ''Internal'' | Unavailable \<Rightarrow> ''Unavailable''
   | DataLoss \<Rightarrow> ''DataLoss'' | Unauthenticated \<Rightarrow> ''Unauthenticated'')"

text \<open>\<open>fromError\<close> is status.FromError, \<open>None\<close> when it is not ok.\<close>

definition websocketError :: "web_lib \<Rightarrow> (go_error \<Rightarrow> (code \<times> string) option) \<Rightarrow> go_error option \<Rightarrow> nat \<times> string" where
  "websocketError L fromError err =
     (case err of
        None \<Rightarrow> (1000, [])
      | Some e \<Rightarrow>
          let code = (if err_Is e errExpectedBinary \<or> err_Is e errExpectedText then 1003 else 1001);
              reason = (case fromError e of
                          Some st \<Rightarrow> ''code '' @ code_String (fst st) @ '': '' @ snd st
                        | None \<Rightarrow> lib_Error L e)
          in (code, reason))"

section \<open>ServeHTTP\<close>

text \<open>
  \<open>upgrade\<close> is the error of Upgrade, if any; \<open>forward\<close> runs the call with the joined metadata of the query
  and of the headers. The result is the HTTP response when the request is not upgraded, or the frames sent.
\<close>

definition ws_ServeHTTP :: "web_lib \<Rightarrow> (go_error \<Rightarrow> (code \<times> string) option) \<Rightarrow> 'md md_ops \<Rightarrow> ('md \<Rightarrow> 'md \<Rightarrow> 'md) \<Rightarrow> string
    \<Rightarrow> query \<Rightarrow> query \<Rightarrow> bool \<Rightarrow> (query option \<Rightarrow> go_error + HTTPRoute)
    \<Rightarrow> (HTTPRoute \<Rightarrow> go_error + ('m resp_transcoder \<times> 'm tc_stream option)) \<Rightarrow> go_error option
    \<Rightarrow> (HTTPRoute \<Rightarrow> 'm resp_transcoder \<Rightarrow> 'md \<Rightarrow> gwsStream \<Rightarrow> gwsStream \<times> go_error option)
    \<Rightarrow> response \<Rightarrow> response + ws_frame list" where
  "ws_ServeHTTP L fromError M join param urlQuery headers canceled route bind upgrade forward w =
     (let (rawQuery, md) = parseMetadataQuery M param urlQuery
      in case routeTranscodedRequest L canceled (route rawQuery) bind w of
           Inl w' \<Rightarrow> Inl w'
         | Inr (r, resptc, streamtc) \<Rightarrow>
             (case upgrade of
                Some err \<Rightarrow> Inl (writeError L canceled (Some resptc) (ErrStatus Internal (lib_Error L err)) w)
              | None \<Rightarrow>
                  let md = join (case md of None \<Rightarrow> md_empty M | Some m \<Rightarrow> m) (headersToMD M headers)
                  in (case forward r resptc md new_gwsStream of
                        (stream, err) \<Rightarrow>
                          (case websocketError L fromError err of
                             (code, reason) \<Rightarrow> Inr (gw_out stream @ [WSClose code reason])))))"

section \<open>Properties\<close>

lemma gws_OnMessage_ignored:
  assumes "\<not> gc_ClientStreaming cf" and "gc_RequestBodyPath cf = [] \<or> gw_alreadyRead s"
  shows "gws_OnMessage cf b d s = ((None, False), s)"
  using assms by (auto simp: gws_OnMessage_def Let_def)

lemma gws_run_ignored:
  assumes "\<not> gc_ClientStreaming cf" and "gc_RequestBodyPath cf = [] \<or> gw_alreadyRead s"
  shows "gws_run cf ms s = (replicate (length ms) (None, False), s)"
  by (induction ms) (auto simp: gws_OnMessage_ignored[OF assms])

definition gws_event :: "gws_config \<Rightarrow> bool \<times> string \<Rightarrow> gwsReadEvent" where
  "gws_event cf m =
     (if fst m = gc_reqBinary cf then \<lparr>ev_data = snd m, ev_err = None\<rparr>
      else \<lparr>ev_data = [], ev_err = Some (if gc_reqBinary cf then errExpectedBinary else errExpectedText)\<rparr>)"

text \<open>
  What the messages of a client become: for a call that streams requests every message is one event,
  in order, and the channel is never closed; for another call with a request body the first message is the
  only event and the channel is closed after it, so that no later message can block or panic; for a call
  without a body no message counts. A message of the wrong kind is an error event and not data.
\<close>
theorem gws_events_exact:
  assumes "\<not> gw_alreadyRead s"
  shows "fst (gws_run cf ms s) =
    (if gc_ClientStreaming cf then map (\<lambda>m. (Some (gws_event cf m), False)) ms
     else if gc_RequestBodyPath cf = [] then replicate (length ms) (None, False)
     else case ms of [] \<Rightarrow> [] | m # later \<Rightarrow> (Some (gws_event cf m), True) # replicate (length later) (None, False))"
proof (cases "gc_ClientStreaming cf")
  case True
  then have "gws_OnMessage cf b d s = ((Some (gws_event cf (b, d)), False), s)" for b d
    by (auto simp: gws_OnMessage_def gws_event_def Let_def)
  then have "gws_run cf ms s = (map (\<lambda>m. (Some (gws_event cf m), False)) ms, s)"
    by (induction ms) auto
  with True show ?thesis by simp
next
  case False
  show ?thesis
  proof (cases "gc_RequestBodyPath cf = [] \<or> ms = []")
    case True
    then show ?thesis using False gws_run_ignored[OF False, of s ms] by auto
  next
    case body: False
    then obtain b d later where ms: "ms = (b, d) # later" by (cases ms) auto
    have "gws_OnMessage cf b d s = ((Some (gws_event cf (b, d)), True), s\<lparr>gw_alreadyRead := True\<rparr>)"
      using False body assms by (auto simp: gws_OnMessage_def gws_event_def Let_def)
    then show ?thesis using False body by (simp add: ms gws_run_ignored)
  qed
qed

theorem gws_events_exact_witness:
  "fst (gws_run \<lparr>gc_ClientStreaming = False, gc_RequestBodyPath = ''*'', gc_reqBinary = False\<rparr> [(False, ''a''), (False, ''b'')] new_gwsStream)
     = [(Some \<lparr>ev_data = ''a'', ev_err = None\<rparr>, True), (None, False)]"
  using gws_events_exact[of new_gwsStream "\<lparr>gc_ClientStreaming = False, gc_RequestBodyPath = ''*'', gc_reqBinary = False\<rparr>" "[(False, ''a''), (False, ''b'')]"]
  by (simp add: new_gwsStream_def gws_event_def)

text \<open>
  A message of the wrong kind ends the call with the right close code: Recv gives the error of its
  event, and a handler whose forwarder returns it, wrapped or not, closes the socket with 1003; any other
  error is closed with 1001 and success with 1000.
\<close>
theorem gws_close_codes:
  assumes "gw_wants_message cf"
  shows "fst m \<noteq> gc_reqBinary cf \<Longrightarrow>
      \<exists>e. gw_recv L cf reqtc (WEvent (gws_event cf m)) = Inl e
        \<and> fst (websocketError L fromError (Some e)) = 1003
        \<and> fst (websocketError L fromError (Some (ErrWrap msg e))) = 1003
        \<and> fst (websocketError L fromError (Some (ErrHTTP c e))) = 1003
        \<and> fst (websocketError L fromError None) = 1000
        \<and> (\<forall>n txt. n \<noteq> InvalidArgument \<longrightarrow> fst (websocketError L fromError (Some (ErrStatus n txt))) = 1001)"
  using assms by (auto simp: gw_recv_def gws_event_def websocketError_def Let_def errExpectedBinary_def errExpectedText_def)

theorem gws_close_codes_witness:
  "\<exists>e. gw_recv ex_lib \<lparr>gc_ClientStreaming = True, gc_RequestBodyPath = [], gc_reqBinary = False\<rparr> ex_reqtc
       (WEvent (gws_event \<lparr>gc_ClientStreaming = True, gc_RequestBodyPath = [], gc_reqBinary = False\<rparr> (True, ''x''))) = Inl e
     \<and> fst (websocketError ex_lib (\<lambda>_. None) (Some e)) = 1003"
proof -
  let ?cf = "\<lparr>gc_ClientStreaming = True, gc_RequestBodyPath = [], gc_reqBinary = False\<rparr>"
  have w: "gw_wants_message ?cf" "fst (True, ''x'') \<noteq> gc_reqBinary ?cf" by (simp_all add: gw_wants_message_def)
  show ?thesis using gws_close_codes[OF w, of ex_lib ex_reqtc "\<lambda>_. None"] by blast
qed

end
