(* ===== verification/Web_Bridge.thy ===== *)
theory Web_Bridge
  imports Ws_Bridge
begin

text \<open>
  The entry points of the root package: the options and the choice of a bridge for a request (bridge.go),
  the gRPC proxy (proxy.go) and the default forwarder (forwarder.go).

  Loggers, transcoders and forwarders are values of parameter types; an option is the function it applies.
\<close>

section \<open>Options\<close>

record ('l, 'f) options =
  op_logger :: 'l
  op_forwarder :: "'f option"

record ('m) transcoder_opts =
  to_Marshalers :: "'m list option"
  to_DefaultMarshaler :: "'m option"

record ('l, 'f, 'm) bridgeOptions =
  bo_common :: "('l, 'f) options"
  bo_transcoderOpts :: "'m transcoder_opts"

definition defaultOptions :: "'l \<Rightarrow> ('l, 'f) options" where
  "defaultOptions discard = \<lparr>op_logger = discard, op_forwarder = None\<rparr>"

definition defaultBridgeOptions :: "'l \<Rightarrow> ('l, 'f, 'm) bridgeOptions" where
  "defaultBridgeOptions discard =
     \<lparr>bo_common = defaultOptions discard, bo_transcoderOpts = \<lparr>to_Marshalers = None, to_DefaultMarshaler = None\<rparr>\<rparr>"

text \<open>Common options apply to bridges, proxies, routers and forwarders alike.\<close>

definition WithLogger :: "'l \<Rightarrow> ('l, 'f) options \<Rightarrow> ('l, 'f) options" where
  "WithLogger logger q = q\<lparr>op_logger := logger\<rparr>"

definition WithForwarder :: "'f \<Rightarrow> ('l, 'f) options \<Rightarrow> ('l, 'f) options" where
  "WithForwarder forwarder q = q\<lparr>op_forwarder := Some forwarder\<rparr>"

definition applyBridge :: "(('l, 'f) options \<Rightarrow> ('l, 'f) options) \<Rightarrow> ('l, 'f, 'm) bridgeOptions \<Rightarrow> ('l, 'f, 'm) bridgeOptions" where
  "applyBridge f q = q\<lparr>bo_common := f (bo_common q)\<rparr>"

definition WithMarshalers :: "'m list \<Rightarrow> ('l, 'f, 'm) bridgeOptions \<Rightarrow> ('l, 'f, 'm) bridgeOptions" where
  "WithMarshalers ms q = q\<lparr>bo_transcoderOpts := (bo_transcoderOpts q)\<lparr>to_Marshalers := Some ms\<rparr>\<rparr>"

definition WithDefaultMarshaler :: "'m \<Rightarrow> ('l, 'f, 'm) bridgeOptions \<Rightarrow> ('l, 'f, 'm) bridgeOptions" where
  "WithDefaultMarshaler m q = q\<lparr>bo_transcoderOpts := (bo_transcoderOpts q)\<lparr>to_DefaultMarshaler := Some m\<rparr>\<rparr>"

section \<open>NewWebBridge\<close>

text \<open>Each bridge by the options it is made with.\<close>

record ('l, 'f, 'm) WebBridge =
  transcodedHTTPBridge :: "'l \<times> 'm transcoder_opts \<times> 'f option"
  transcodedWebSocketBridge :: "'l \<times> 'm transcoder_opts \<times> 'f option"
  gRPCWebHTTPBridge :: "'l \<times> 'f option"
  gRPCWebSocketBridge :: "'l \<times> 'f option"

definition NewWebBridge :: "'l \<Rightarrow> 'f \<Rightarrow> (('l, 'f, 'm) bridgeOptions \<Rightarrow> ('l, 'f, 'm) bridgeOptions) list \<Rightarrow> ('l, 'f, 'm) WebBridge" where
  "NewWebBridge discard newForwarder opts =
     (let opts = fold (\<lambda>opt q. opt q) opts (defaultBridgeOptions discard);
          opts = (if op_forwarder (bo_common opts) = None
                  then opts\<lparr>bo_common := (bo_common opts)\<lparr>op_forwarder := Some newForwarder\<rparr>\<rparr> else opts);
          logger = op_logger (bo_common opts); forwarder = op_forwarder (bo_common opts)
      in \<lparr>transcodedHTTPBridge = (logger, bo_transcoderOpts opts, forwarder),
          transcodedWebSocketBridge = (logger, bo_transcoderOpts opts, forwarder),
          gRPCWebHTTPBridge = (logger, forwarder), gRPCWebSocketBridge = (logger, forwarder)\<rparr>)"

section \<open>The transcoding bridges\<close>

text \<open>The options and the constructors of webbridge/http.go and webbridge/websocket.go; absent options are nil.\<close>

record ('l, 't, 'f) transcoded_opts =
  tb_Logger :: "'l option"
  tb_Transcoder :: "'t option"
  tb_Forwarder :: "'f option"

record ('l, 't, 'f) ws_opts = "('l, 't, 'f) transcoded_opts" +
  tb_MetadataParam :: string

definition default_to :: "'a \<Rightarrow> 'a option \<Rightarrow> 'a option" where
  "default_to d v = (if v = None then Some d else v)"

definition http_withDefaults :: "'l \<Rightarrow> 't \<Rightarrow> 'f \<Rightarrow> ('l, 't, 'f) transcoded_opts \<Rightarrow> ('l, 't, 'f) transcoded_opts" where
  "http_withDefaults discard transcoder proxyForwarder q =
     q\<lparr>tb_Logger := default_to discard (tb_Logger q), tb_Transcoder := default_to transcoder (tb_Transcoder q),
       tb_Forwarder := default_to proxyForwarder (tb_Forwarder q)\<rparr>"

definition ws_withDefaults :: "'l \<Rightarrow> 't \<Rightarrow> 'f \<Rightarrow> ('l, 't, 'f) ws_opts \<Rightarrow> ('l, 't, 'f) ws_opts" where
  "ws_withDefaults discard transcoder proxyForwarder q =
     q\<lparr>tb_Logger := default_to discard (tb_Logger q), tb_Transcoder := default_to transcoder (tb_Transcoder q),
       tb_Forwarder := default_to proxyForwarder (tb_Forwarder q),
       tb_MetadataParam := (if tb_MetadataParam q = [] then defaultMetadataParam else tb_MetadataParam q)\<rparr>"

text \<open>The bridges as their loggers, transcoders and forwarders; \<open>None\<close> is the call of WithComponent on a nil logger.\<close>

definition NewTranscodedHTTPBridge ::
    "'l \<Rightarrow> 't \<Rightarrow> 'f \<Rightarrow> ('l \<Rightarrow> string \<Rightarrow> 'l) \<Rightarrow> ('l, 't, 'f) transcoded_opts \<Rightarrow> ('l \<times> 't option \<times> 'f option) option" where
  "NewTranscodedHTTPBridge discard transcoder proxyForwarder wc opts =
     (let opts = http_withDefaults discard transcoder proxyForwarder opts
      in case tb_Logger opts of
           None \<Rightarrow> None
         | Some l \<Rightarrow> Some (wc l ''grpcbridge.web'', tb_Transcoder opts, tb_Forwarder opts))"

definition NewTranscodedWebSocketBridge ::
    "'l \<Rightarrow> 't \<Rightarrow> 'f \<Rightarrow> ('l \<Rightarrow> string \<Rightarrow> 'l) \<Rightarrow> ('l, 't, 'f) ws_opts \<Rightarrow> ('l \<times> 't option \<times> 'f option \<times> string) option" where
  "NewTranscodedWebSocketBridge discard transcoder proxyForwarder wc opts =
     (let opts = ws_withDefaults discard transcoder proxyForwarder opts
      in case tb_Logger opts of
           None \<Rightarrow> None
         | Some l \<Rightarrow> Some (wc l ''grpcbridge.web'', tb_Transcoder opts, tb_Forwarder opts, tb_MetadataParam opts))"

text \<open>Unlike the gRPC-WebSocket bridge, neither of the two can be made without a logger, a transcoder or a forwarder.\<close>

lemma transcoded_bridges_complete:
  "\<exists>l t f. NewTranscodedHTTPBridge discard tc pf wc opts = Some (l, Some t, Some f)"
  "\<exists>l t f param. NewTranscodedWebSocketBridge discard tc pf wc wopts = Some (l, Some t, Some f, param) \<and> param \<noteq> []"
  by (cases "tb_Logger opts"; cases "tb_Transcoder opts"; cases "tb_Forwarder opts";
      simp add: NewTranscodedHTTPBridge_def http_withDefaults_def default_to_def)
    (cases "tb_Logger wopts"; cases "tb_Transcoder wopts"; cases "tb_Forwarder wopts";
      simp add: NewTranscodedWebSocketBridge_def ws_withDefaults_def default_to_def defaultMetadataParam_def)

section \<open>The choice of a bridge\<close>

datatype web_target = GRPCWebSocket | TranscodedWebSocket | GRPCWebHTTP | TranscodedHTTP

text \<open>Header.Get: the first value of a header, or the empty string.\<close>

definition header_Get :: "header \<Rightarrow> string \<Rightarrow> string" where
  "header_Get h k = (case h k of [] \<Rightarrow> [] | v # vs \<Rightarrow> v)"

definition wb_ServeHTTP :: "header \<Rightarrow> web_target" where
  "wb_ServeHTTP h =
     (if EqualFold (header_Get h ''Connection'') ''upgrade'' \<and> EqualFold (header_Get h ''Upgrade'') ''websocket''
      then (if ''grpc-websockets'' \<in> set (h ''Sec-Websocket-Protocol'') then GRPCWebSocket else TranscodedWebSocket)
      else if HasPrefix (header_Get h ''Content-Type'') ''application/grpc-web'' then GRPCWebHTTP
      else TranscodedHTTP)"

section \<open>The proxy and the forwarder\<close>

definition proxy_StreamHandler :: "go_error + ('c \<times> GRPCRoute) \<Rightarrow> ('c \<Rightarrow> GRPCRoute \<Rightarrow> go_error option) \<Rightarrow> go_error option" where
  "proxy_StreamHandler route forward =
     (case route of Inl err \<Rightarrow> Some err | Inr (conn, r) \<Rightarrow> forward conn r)"

record ('l, 'f) proxy =
  px_logger :: 'l
  px_forwarder :: "'f option"

definition NewGRPCProxy :: "'l \<Rightarrow> ('l \<Rightarrow> string \<Rightarrow> 'l) \<Rightarrow> 'f \<Rightarrow> (('l, 'f) options \<Rightarrow> ('l, 'f) options) list \<Rightarrow> ('l, 'f) proxy" where
  "NewGRPCProxy discard wc newForwarder opts =
     (let q = fold (\<lambda>opt q. opt q) opts (defaultOptions discard);
          q = (if op_forwarder q = None then q\<lparr>op_forwarder := Some newForwarder\<rparr> else q)
      in \<lparr>px_logger = wc (op_logger q) ''grpcbridge.proxy'', px_forwarder = op_forwarder q\<rparr>)"

text \<open>The default forwarder filters with the options collected, which no option of the package changes.\<close>

record ('l, 'f) forwarderOptions =
  fo_common :: "('l, 'f) options"
  fo_mdFilterOpts :: ProxyMDFilterOpts

definition NewForwarder :: "'l \<Rightarrow> (('l, 'f) forwarderOptions \<Rightarrow> ('l, 'f) forwarderOptions) list \<Rightarrow> ProxyMDFilterOpts" where
  "NewForwarder discard opts =
     fo_mdFilterOpts (fold (\<lambda>opt q. opt q) opts
       \<lparr>fo_common = defaultOptions discard,
        fo_mdFilterOpts = \<lparr>AllowRequestMD = [], PrefixRequestMD = [], AllowResponseMD = [], PrefixResponseMD = [],
          AllowTrailerMD = [], PrefixTrailerMD = []\<rparr>\<rparr>)"

section \<open>Properties\<close>

lemma lower_upgrade: "EqualFold s ''upgrade'' \<longleftrightarrow> to_lower s = ''upgrade''" "EqualFold s ''websocket'' \<longleftrightarrow> to_lower s = ''websocket''"
proof -
  have "to_lower ''upgrade'' = ''upgrade''" "to_lower ''websocket'' = ''websocket''" by code_simp+
  then show "EqualFold s ''upgrade'' \<longleftrightarrow> to_lower s = ''upgrade''" "EqualFold s ''websocket'' \<longleftrightarrow> to_lower s = ''websocket''"
    by (simp_all add: EqualFold_iff)
qed

text \<open>
  Which bridge serves a request depends only on four headers, is defined for every request, and does
  not change with the case of Connection and Upgrade.
\<close>
theorem wb_ServeHTTP_headers:
  assumes "to_lower (header_Get h ''Connection'') = to_lower (header_Get h' ''Connection'')"
    and "to_lower (header_Get h ''Upgrade'') = to_lower (header_Get h' ''Upgrade'')"
    and "set (h ''Sec-Websocket-Protocol'') = set (h' ''Sec-Websocket-Protocol'')"
    and "header_Get h ''Content-Type'' = header_Get h' ''Content-Type''"
  shows "wb_ServeHTTP h = wb_ServeHTTP h'"
  using assms by (simp add: wb_ServeHTTP_def lower_upgrade)

theorem wb_ServeHTTP_headers_witness:
  "wb_ServeHTTP ((\<lambda>_. [])(''Connection'' := [''Upgrade''], ''Upgrade'' := [''WebSocket'']))
     = wb_ServeHTTP ((\<lambda>_. [])(''Connection'' := [''upgrade''], ''Upgrade'' := [''websocket'']))"
proof -
  have "to_lower ''Upgrade'' = to_lower ''upgrade''" "to_lower ''WebSocket'' = to_lower ''websocket''" by code_simp+
  then show ?thesis by (intro wb_ServeHTTP_headers) (simp_all add: header_Get_def)
qed

text \<open>
  RFC 6455 asks for a Connection header that includes the token Upgrade; the bridge compares the whole
  first value instead. A handshake with Connection: keep-alive, Upgrade, as some browsers send it, goes to
  the plain HTTP bridges, whatever else it says, and so does one whose token is in a second header line.
\<close>
theorem wb_ServeHTTP_connection_list:
  assumes "h ''Connection'' = [''keep-alive, Upgrade''] \<or> h ''Connection'' = [''keep-alive'', ''Upgrade'']"
  shows "wb_ServeHTTP h \<in> {GRPCWebHTTP, TranscodedHTTP}"
proof -
  have "to_lower ''keep-alive, Upgrade'' \<noteq> ''upgrade''" "to_lower ''keep-alive'' \<noteq> ''upgrade''" by code_simp+
  with assms show ?thesis by (auto simp: wb_ServeHTTP_def lower_upgrade header_Get_def)
qed

theorem wb_ServeHTTP_connection_list_witness:
  "wb_ServeHTTP ((\<lambda>_. [])(''Connection'' := [''keep-alive, Upgrade''], ''Upgrade'' := [''websocket''])) = TranscodedHTTP"
  using wb_ServeHTTP_connection_list[of "(\<lambda>_. [])(''Connection'' := [''keep-alive, Upgrade''], ''Upgrade'' := [''websocket''])"]
  by (simp add: wb_ServeHTTP_def header_Get_def HasPrefix_def split: if_splits)

text \<open>
  All four bridges share one forwarder: the one of the last WithForwarder option, or a new default one.
\<close>
theorem NewWebBridge_forwarder:
  assumes "\<forall>g \<in> set post. \<forall>q. op_forwarder (bo_common (g q)) = op_forwarder (bo_common q)"
  shows "snd (snd (transcodedHTTPBridge (NewWebBridge discard nf (pre @ applyBridge (WithForwarder f) # post)))) = Some f
    \<and> gRPCWebHTTPBridge (NewWebBridge discard nf opts) = gRPCWebSocketBridge (NewWebBridge discard nf opts)
    \<and> transcodedHTTPBridge (NewWebBridge discard nf opts) = transcodedWebSocketBridge (NewWebBridge discard nf opts)
    \<and> snd (snd (transcodedHTTPBridge (NewWebBridge discard nf opts))) = snd (gRPCWebHTTPBridge (NewWebBridge discard nf opts))
    \<and> snd (gRPCWebHTTPBridge (NewWebBridge discard nf opts)) \<noteq> None"
proof -
  have post: "op_forwarder (bo_common (fold (\<lambda>opt q. opt q) post q)) = op_forwarder (bo_common q)" for q
    using assms by (induction post arbitrary: q) auto
  show ?thesis by (simp add: NewWebBridge_def Let_def post applyBridge_def WithForwarder_def)
qed

theorem NewWebBridge_forwarder_witness:
  "snd (snd (transcodedHTTPBridge (NewWebBridge () 1 ([] @ applyBridge (WithForwarder (2 :: nat)) # [applyBridge (WithLogger ()), WithMarshalers [()]])))) = Some 2"
  by (rule NewWebBridge_forwarder[THEN conjunct1]) (simp add: applyBridge_def WithLogger_def WithMarshalers_def)

end
