(* ===== verification/Router_Options.thy ===== *)
theory Router_Options
  imports Web_Bridge Reflection_Router Reflection_Resolver
begin

text \<open>
  The options of a ReflectionRouter (reflection.go) and what NewReflectionRouter makes of them: the dial
  function of the client pool, the options of the resolver builder and the logger of the components. Dial
  options, loggers and the connection constructor of grpc are values of parameter types.
\<close>

section \<open>Options\<close>

record ('d, 'conn) AdaptedClientPoolOpts =
  NewClientFunc :: "(string \<Rightarrow> 'd list \<Rightarrow> go_error + 'conn) option"
  DefaultOpts :: "'d list"

text \<open>withDefaults of the pool's options, given grpc.NewClient.\<close>

definition pool_opts_withDefaults ::
    "(string \<Rightarrow> 'd list \<Rightarrow> go_error + 'conn) \<Rightarrow> ('d, 'conn) AdaptedClientPoolOpts \<Rightarrow> ('d, 'conn) AdaptedClientPoolOpts" where
  "pool_opts_withDefaults newClient q =
     (case NewClientFunc q of None \<Rightarrow> q\<lparr>NewClientFunc := Some newClient\<rparr> | Some f \<Rightarrow> q)"

text \<open>The dialling of New, with the options of the call; a nil function, which the defaults exclude, panics.\<close>

definition pool_dial :: "('d, 'conn) AdaptedClientPoolOpts \<Rightarrow> 'd list \<Rightarrow> string \<Rightarrow> (go_error + 'conn) option" where
  "pool_dial q opts dialTarget =
     (case NewClientFunc q of None \<Rightarrow> None | Some f \<Rightarrow> Some (f dialTarget (DefaultOpts q @ opts)))"

record ('l, 'f, 'd, 'conn) routerOptions =
  ro_common :: "('l, 'f) options"
  ro_clientPoolOpts :: "('d, 'conn) AdaptedClientPoolOpts"
  ro_resolverOpts :: ResolverOpts

definition defaultRouterOptions :: "'l \<Rightarrow> ('l, 'f, 'd, 'conn) routerOptions" where
  "defaultRouterOptions discard =
     \<lparr>ro_common = defaultOptions discard, ro_clientPoolOpts = \<lparr>NewClientFunc = None, DefaultOpts = []\<rparr>,
      ro_resolverOpts = \<lparr>PollInterval = 0, PollManually = False, ReqTimeout = 0, IgnorePrefixes = [],
        OnlyServices = False, RecursionLimit = 0\<rparr>\<rparr>"

definition applyRouter ::
    "(('l, 'f) options \<Rightarrow> ('l, 'f) options) \<Rightarrow> ('l, 'f, 'd, 'conn) routerOptions \<Rightarrow> ('l, 'f, 'd, 'conn) routerOptions" where
  "applyRouter f q = q\<lparr>ro_common := f (ro_common q)\<rparr>"

definition WithDialOpts :: "'d list \<Rightarrow> ('l, 'f, 'd, 'conn) routerOptions \<Rightarrow> ('l, 'f, 'd, 'conn) routerOptions" where
  "WithDialOpts opts q =
     q\<lparr>ro_clientPoolOpts := (ro_clientPoolOpts q)\<lparr>DefaultOpts := DefaultOpts (ro_clientPoolOpts q) @ opts\<rparr>\<rparr>"

definition WithConnFunc ::
    "(string \<Rightarrow> 'd list \<Rightarrow> go_error + 'conn) option \<Rightarrow> ('l, 'f, 'd, 'conn) routerOptions \<Rightarrow> ('l, 'f, 'd, 'conn) routerOptions" where
  "WithConnFunc f q = q\<lparr>ro_clientPoolOpts := (ro_clientPoolOpts q)\<lparr>NewClientFunc := f\<rparr>\<rparr>"

definition WithReflectionPollInterval :: "int \<Rightarrow> ('l, 'f, 'd, 'conn) routerOptions \<Rightarrow> ('l, 'f, 'd, 'conn) routerOptions" where
  "WithReflectionPollInterval interval q = q\<lparr>ro_resolverOpts := (ro_resolverOpts q)\<lparr>PollInterval := interval\<rparr>\<rparr>"

definition WithDisabledReflectionPolling :: "('l, 'f, 'd, 'conn) routerOptions \<Rightarrow> ('l, 'f, 'd, 'conn) routerOptions" where
  "WithDisabledReflectionPolling q = q\<lparr>ro_resolverOpts := (ro_resolverOpts q)\<lparr>PollManually := True\<rparr>\<rparr>"

section \<open>NewReflectionRouter\<close>

record ('l, 'd, 'conn, 'p) configured_router =
  cr_poolOpts :: "('d, 'conn) AdaptedClientPoolOpts"
  cr_resolverOpts :: ResolverOpts
  cr_logger :: 'l
  cr_router :: "('conn, 'p) ReflectionRouter"

definition NewReflectionRouter_opts ::
    "(string \<Rightarrow> 'd list \<Rightarrow> go_error + 'conn) \<Rightarrow> 'l \<Rightarrow> (('l, 'f, 'd, 'conn) routerOptions \<Rightarrow> ('l, 'f, 'd, 'conn) routerOptions) list
      \<Rightarrow> ('l, 'd, 'conn, 'p) configured_router" where
  "NewReflectionRouter_opts newClient discard opts =
     (let options = fold (\<lambda>opt q. opt q) opts (defaultRouterOptions discard)
      in \<lparr>cr_poolOpts = pool_opts_withDefaults newClient (ro_clientPoolOpts options),
          cr_resolverOpts = NewResolverBuilder (ro_resolverOpts options),
          cr_logger = op_logger (ro_common options), cr_router = NewReflectionRouter\<rparr>)"

text \<open>The dial function that Add passes its target to; Add has no options of its own for the pool.\<close>

definition router_dial :: "('l, 'd, 'conn, 'p) configured_router \<Rightarrow> string \<Rightarrow> go_error + 'conn" where
  "router_dial c target =
     (case pool_dial (cr_poolOpts c) [] target of None \<Rightarrow> Inl (ErrMsg ''nil NewClientFunc'') | Some res \<Rightarrow> res)"

section \<open>What the options amount to\<close>

definition is_dial_opt :: "(('l, 'f, 'd, 'conn) routerOptions \<Rightarrow> ('l, 'f, 'd, 'conn) routerOptions) \<Rightarrow> 'd list \<Rightarrow> bool" where
  "is_dial_opt opt ds \<longleftrightarrow>
     (\<forall>q. DefaultOpts (ro_clientPoolOpts (opt q)) = DefaultOpts (ro_clientPoolOpts q) @ ds)"

lemma is_dial_opts:
  "is_dial_opt (WithDialOpts ds) ds" "is_dial_opt (applyRouter f) []" "is_dial_opt (WithConnFunc g) []"
  "is_dial_opt (WithReflectionPollInterval i) []" "is_dial_opt WithDisabledReflectionPolling []"
  by (simp_all add: is_dial_opt_def WithDialOpts_def applyRouter_def WithConnFunc_def WithReflectionPollInterval_def
      WithDisabledReflectionPolling_def)

lemma fold_dial_opts:
  "list_all2 is_dial_opt opts dss \<Longrightarrow>
   DefaultOpts (ro_clientPoolOpts (fold (\<lambda>opt q. opt q) opts q)) = DefaultOpts (ro_clientPoolOpts q) @ concat dss"
  by (induction arbitrary: q rule: list_all2_induct) (auto simp: is_dial_opt_def)

text \<open>
  Options may come in any mixture: every connection of the router is dialled with the dial options of all
  WithDialOpts, in their order, by the constructor given or else by grpc.NewClient; a nil function is never called.
\<close>

theorem dial_opts_chain:
  assumes "list_all2 is_dial_opt opts dss"
  shows "\<exists>f. router_dial (NewReflectionRouter_opts newClient discard opts :: ('l, 'd, 'conn, 'p) configured_router) target = f target (concat dss)
    \<and> (f = newClient \<or> NewClientFunc (ro_clientPoolOpts (fold (\<lambda>opt q. opt q) opts (defaultRouterOptions discard))) = Some f)"
  using fold_dial_opts[OF assms, of "defaultRouterOptions discard"]
  by (auto simp: router_dial_def NewReflectionRouter_opts_def pool_dial_def pool_opts_withDefaults_def Let_def
      defaultRouterOptions_def split: option.splits)

text \<open>Whatever the options, the poll interval is at least a second and the request timeout at least a millisecond.\<close>

theorem router_poll_bounds:
  "PollInterval (cr_resolverOpts (NewReflectionRouter_opts newClient discard opts)) \<ge> 1000000000
   \<and> ReqTimeout (cr_resolverOpts (NewReflectionRouter_opts newClient discard opts)) \<ge> 1000000"
  by (simp add: NewReflectionRouter_opts_def NewResolverBuilder_def opts_withDefaults_def Let_def)

end
