(* ===== verification/Startup.thy ===== *)
theory Startup
  imports Router_Options Config
begin

text \<open>
  The start of the grpcbridge command (mainImpl of cmd/grpcbridge/main.go): the configuration that Load
  finds, the router with the services added to it, the proxy and the bridge. The environment, the
  command line, grpc.NewClient and the TCP listener are parameters; serving and the shutdown on a
  signal, after which mainImpl returns nil, are left to the libraries.
\<close>

section \<open>mainImpl\<close>

record ('l, 'f, 'd, 'conn) main_env =
  me_getenv :: "string \<Rightarrow> string option"
  me_stat :: "string \<Rightarrow> bool"
  me_decode :: "string \<Rightarrow> go_error + cfg_bridge"
  me_flags :: "go_error + string list"
  me_newClient :: "string \<Rightarrow> 'd list \<Rightarrow> go_error + 'conn"
  me_insecure :: 'd
  me_listen :: "go_error option"
  me_discard :: 'l
  me_logger :: "Level \<Rightarrow> 'l"
  me_component :: "'l \<Rightarrow> string \<Rightarrow> 'l"
  me_newForwarder :: 'f

record ('l, 'f, 'conn, 'p, 'm) servers =
  sv_router :: "('conn, 'p) ReflectionRouter"
  sv_proxy :: "('l, 'f) proxy"
  sv_bridge :: "('l, 'f, 'm) WebBridge"

datatype 'r outcome = Exited "go_error option" | Serving 'r

text \<open>errors.As for the type FlagError: the error or one that it wraps.\<close>

fun as_FlagError :: "go_error \<Rightarrow> bool" where
  "as_FlagError (ErrWrap w e) \<longleftrightarrow> w = ''FlagError'' \<or> as_FlagError e"
| "as_FlagError (ErrHTTP c e) \<longleftrightarrow> as_FlagError e"
| "as_FlagError _ \<longleftrightarrow> False"

text \<open>The loop that adds the services: it stops at the first error.\<close>

fun add_services :: "(string \<Rightarrow> go_error + 'conn) \<Rightarrow> cfg_bridge \<Rightarrow> ('conn, 'p) ReflectionRouter
    \<Rightarrow> go_error option \<times> ('conn, 'p) ReflectionRouter" where
  "add_services dial [] r = (None, r)"
| "add_services dial (cfg # cfgs) r =
     (case rr_Add dial (cfg_Name cfg) (cfg_Target cfg) 0 r of
        (Inl err, r) \<Rightarrow> (Some err, r)
      | (Inr added, r) \<Rightarrow> add_services dial cfgs r)"

definition main_router :: "('l, 'f, 'd, 'conn) main_env \<Rightarrow> ('l, 'd, 'conn, 'p) configured_router" where
  "main_router E =
     NewReflectionRouter_opts (me_newClient E) (me_discard E)
       [applyRouter (WithLogger (me_logger E (LogLevel (me_getenv E)))), WithDialOpts [me_insecure E],
        WithReflectionPollInterval 30000000000 :: ('l, 'f, 'd, 'conn) routerOptions \<Rightarrow> _]"

definition mainImpl :: "('l, 'f, 'd, 'conn) main_env \<Rightarrow> ('l, 'f, 'conn, 'p, 'm) servers outcome" where
  "mainImpl E =
     (let logger = me_logger E (LogLevel (me_getenv E))
      in case Load (me_getenv E) (me_stat E) (me_decode E) (me_flags E) of
           Inl err \<Rightarrow> Exited (if as_FlagError err then None else Some err)
         | Inr cfg \<Rightarrow>
             let c = (main_router E :: ('l, 'd, 'conn, 'p) configured_router)
             in (case add_services (router_dial c) cfg (cr_router c) of
                   (Some err, router) \<Rightarrow> Exited (Some err)
                 | (None, router) \<Rightarrow>
                     (case me_listen E of
                        Some err \<Rightarrow> Exited (Some err)
                      | None \<Rightarrow> Serving
                          \<lparr>sv_router = router,
                           sv_proxy = NewGRPCProxy (me_discard E) (me_component E) (me_newForwarder E) [WithLogger logger],
                           sv_bridge = NewWebBridge (me_discard E) (me_newForwarder E) [applyBridge (WithLogger logger)]\<rparr>)))"

section \<open>Adding the services\<close>

lemma main_dial: "router_dial (main_router E) target = me_newClient E target [me_insecure E]"
  by (simp add: main_router_def router_dial_def NewReflectionRouter_opts_def pool_dial_def pool_opts_withDefaults_def
      defaultRouterOptions_def applyRouter_def WithDialOpts_def WithReflectionPollInterval_def)

lemma main_router_new: "cr_router (main_router E) = NewReflectionRouter"
  by (simp add: main_router_def NewReflectionRouter_opts_def Let_def)

lemma rr_Add_fails:
  assumes "rr_targets r (cfg_Name s) \<noteq> None \<or> (\<exists>err. dial (cfg_Target s) = Inl err)"
  shows "\<exists>err r'. rr_Add dial (cfg_Name s) (cfg_Target s) 0 r = (Inl err, r')"
  using assms
  by (auto simp: rr_Add_def pool_New_def pool_New_finish_def split: prod.splits sum.splits)

lemma rr_Add_succeeds:
  assumes "rr_inv rt r" and "rr_targets r n = None" and "dom (pool_conns (rr_connpool r)) = dom (rr_targets r)" and "dial t = Inr c"
  shows "\<exists>r'. rr_Add dial n t 0 r = (Inr True, r') \<and> dom (rr_targets r') = insert n (dom (rr_targets r))
    \<and> dom (pool_conns (rr_connpool r')) = dom (rr_targets r')"
proof -
  have "pool_conns (rr_connpool r) n = None" using assms(2,3) by (metis domIff)
  then show ?thesis
    using rr_Add_cases[OF assms(1,2), of dial t] assms(2-4)
    by (simp add: pool_New_def pool_New_reserve_def pool_New_finish_def Let_def)
qed

text \<open>When all services can be added, and what the router then holds.\<close>

definition addable :: "(string \<Rightarrow> go_error + 'conn) \<Rightarrow> cfg_bridge \<Rightarrow> bool" where
  "addable dial cfgs \<longleftrightarrow> distinct (map cfg_Name cfgs) \<and> (\<forall>s \<in> set cfgs. \<exists>c. dial (cfg_Target s) = Inr c)"

lemma add_services_iff:
  assumes "rr_reachable rt r" and "dom (pool_conns (rr_connpool r)) = dom (rr_targets r)"
    and "add_services dial cfgs r = (res, r')"
  shows "(res = None \<longleftrightarrow> addable dial cfgs \<and> dom (rr_targets r) \<inter> cfg_Name ` set cfgs = {})
    \<and> (res = None \<longrightarrow> rr_reachable rt r' \<and> dom (rr_targets r') = dom (rr_targets r) \<union> cfg_Name ` set cfgs)"
  using assms
proof (induction cfgs arbitrary: r)
  case Nil
  then show ?case by (simp add: addable_def)
next
  case (Cons s cfgs)
  show ?case
  proof (cases "rr_targets r (cfg_Name s) \<noteq> None \<or> (\<exists>err. dial (cfg_Target s) = Inl err)")
    case True
    obtain err r1 where "rr_Add dial (cfg_Name s) (cfg_Target s) 0 r = (Inl err, r1)" using rr_Add_fails[of r s dial] True by blast
    then have "res \<noteq> None" using Cons.prems(3) by auto
    then show ?thesis using True by (auto simp: addable_def)
  next
    case False
    then obtain c where c: "dial (cfg_Target s) = Inr c" by (cases "dial (cfg_Target s)") auto
    obtain r1 where r1: "rr_Add dial (cfg_Name s) (cfg_Target s) 0 r = (Inr True, r1)"
      "dom (rr_targets r1) = insert (cfg_Name s) (dom (rr_targets r))" "dom (pool_conns (rr_connpool r1)) = dom (rr_targets r1)"
      using rr_Add_succeeds[where dial = dial and t = "cfg_Target s" and n = "cfg_Name s" and r = r, OF rr_reachable_inv[OF Cons.prems(1)] _ Cons.prems(2) c]
        False by blast
    have "add_services dial cfgs r1 = (res, r')" using Cons.prems(3) r1(1) by simp
    from Cons.IH[OF rr_add[OF Cons.prems(1) r1(1)] r1(3) this] show ?thesis
      using False c r1(2) by (auto simp: addable_def)
  qed
qed

lemma add_services_new:
  assumes "add_services dial cfgs NewReflectionRouter = (res, r')"
  shows "res = None \<longleftrightarrow> addable dial cfgs"
    and "res = None \<Longrightarrow> rr_reachable rt r' \<and> dom (rr_targets r') = cfg_Name ` set cfgs"
proof -
  have d: "dom (pool_conns (rr_connpool NewReflectionRouter)) = dom (rr_targets NewReflectionRouter)" "dom (rr_targets NewReflectionRouter) = {}"
    by (simp_all add: NewReflectionRouter_def NewAdaptedClientPool_def)
  show "res = None \<longleftrightarrow> addable dial cfgs" "res = None \<Longrightarrow> rr_reachable rt r' \<and> dom (rr_targets r') = cfg_Name ` set cfgs"
    using add_services_iff[OF rr_new d(1) assms, of rt] unfolding d(2) by simp_all
qed

section \<open>Properties\<close>

lemma mainImpl_Load:
  "Load (me_getenv E) (me_stat E) (me_decode E) (me_flags E) = Inr cfg \<Longrightarrow> me_listen E = None \<Longrightarrow>
   mainImpl E = (case add_services (\<lambda>t. me_newClient E t [me_insecure E]) cfg NewReflectionRouter of
     (Some err, r) \<Rightarrow> Exited (Some err)
   | (None, r) \<Rightarrow> Serving \<lparr>sv_router = r,
       sv_proxy = NewGRPCProxy (me_discard E) (me_component E) (me_newForwarder E) [WithLogger (me_logger E (LogLevel (me_getenv E)))],
       sv_bridge = NewWebBridge (me_discard E) (me_newForwarder E) [applyBridge (WithLogger (me_logger E (LogLevel (me_getenv E))))]\<rparr>)"
  unfolding mainImpl_def Let_def
  by (simp add: main_dial[abs_def] main_router_new split: prod.split option.split)

text \<open>
  C34. The command starts exactly the services of its configuration: with a configuration that loads and a free
  port it serves if the names of the services are distinct and a client can be made for each of their targets, with
  a router that satisfies its invariant and has exactly the services as targets; otherwise it exits with an error.
\<close>
theorem mainImpl_serves:
  fixes E :: "('l, 'f, 'd, 'conn) main_env" and rt :: "'p gw_runtime"
  assumes "Load (me_getenv E) (me_stat E) (me_decode E) (me_flags E) = Inr cfg" and "me_listen E = None"
  shows "case (mainImpl E :: ('l, 'f, 'conn, 'p, 'm) servers outcome) of
      Serving sv \<Rightarrow> addable (\<lambda>t. me_newClient E t [me_insecure E]) cfg
        \<and> rr_inv rt (sv_router sv) \<and> dom (rr_targets (sv_router sv)) = cfg_Name ` set cfg
    | Exited e \<Rightarrow> \<not> addable (\<lambda>t. me_newClient E t [me_insecure E]) cfg \<and> e \<noteq> None"
proof -
  obtain res and r :: "('conn, 'p) ReflectionRouter" where a: "add_services (\<lambda>t. me_newClient E t [me_insecure E]) cfg NewReflectionRouter = (res, r)" by fastforce
  show ?thesis
    unfolding mainImpl_Load[OF assms] a prod.case
    using add_services_new(1)[OF a] add_services_new(2)[OF a, of rt] rr_reachable_inv[of rt r] by (auto split: option.splits)
qed

text \<open>
  An error of the command line, be it a flag that does not exist or a configuration file that cannot be
  found, ends the command with status 0, as if it had served.
\<close>

theorem mainImpl_flag_error:
  assumes "me_flags E = Inr [f]" and "\<not> me_stat E f"
  shows "mainImpl E = Exited None"
  using assms by (simp add: mainImpl_def Load_def FlagError_def)

definition ex_main :: "(Level, unit, unit, unit) main_env" where
  "ex_main = \<lparr>me_getenv = (\<lambda>_. None), me_stat = (\<lambda>f. f = ''config.hcl''),
     me_decode = (\<lambda>_. Inr [\<lparr>cfg_Name = ''a'', cfg_Target = ''x''\<rparr>, \<lparr>cfg_Name = ''b'', cfg_Target = ''x''\<rparr>]),
     me_flags = Inr [], me_newClient = (\<lambda>_ _. Inr ()), me_insecure = (), me_listen = None, me_discard = LevelError,
     me_logger = (\<lambda>l. l), me_component = (\<lambda>l _. l), me_newForwarder = ()\<rparr>"

abbreviation "ex_services \<equiv> [\<lparr>cfg_Name = ''a'', cfg_Target = ''x''\<rparr>, \<lparr>cfg_Name = ''b'', cfg_Target = ''x''\<rparr>]"

theorem mainImpl_serves_witness:
  "\<exists>sv. mainImpl ex_main = (Serving sv :: (Level, unit, unit, unit, unit) servers outcome) \<and> dom (rr_targets (sv_router sv)) = {''a'', ''b''}"
proof -
  have l: "Load (me_getenv ex_main) (me_stat ex_main) (me_decode ex_main) (me_flags ex_main) = Inr ex_services"
    by (simp add: ex_main_def Load_def discoverPath_def ReadHCL_def)
  have n: "me_listen ex_main = None" by (simp add: ex_main_def)
  have "addable (\<lambda>t. me_newClient ex_main t [me_insecure ex_main]) ex_services"
    by (simp add: addable_def ex_main_def)
  with mainImpl_serves[OF l n, where rt = "rt :: unit gw_runtime" and 'm = unit] show ?thesis
    by (cases "mainImpl ex_main :: (Level, unit, unit, unit, unit) servers outcome") (simp_all split: outcome.splits)
qed

end
