(* ===== verification/Forwarded_Http.thy ===== *)
theory Forwarded_Http
  imports Forwarder_Props Http_Bridge
begin

text \<open>
  The forwarder on the stream of the HTTP bridge: the calls that Forward makes on its incoming stream are those
  of httpStream (webbridge/http.go), the results of its calls on the server's stream are left to the
  environment. The bridge refuses methods with a client stream, so the request is read by Forward itself and
  only the server-to-client goroutine uses the stream afterwards: each call is one step. The context of the call may
  end at any point; a Recv or Send that it interrupts returns its error and leaves the goroutine of its body running.
\<close>

section \<open>Send and Recv of httpStream\<close>

text \<open>The outer \<open>None\<close> is a panic for concurrent use, or the wait for the request.\<close>

definition hs_Send :: "'m http_env \<Rightarrow> nat option \<Rightarrow> 'm \<Rightarrow> http_stream \<Rightarrow> (go_error option \<times> http_stream) option" where
  "hs_Send E wr msg s =
     (case setSendActive s of
        None \<Rightarrow> None
      | Some s \<Rightarrow>
          (case hs_send_check E s of
             Some err \<Rightarrow> Some (Some err, s\<lparr>hs_sendActive := False\<rparr>)
           | None \<Rightarrow> map_option (\<lambda>(err, s). (err, s\<lparr>hs_sendActive := False\<rparr>)) (hs_send E wr msg s)))"

definition hs_Recv :: "web_lib \<Rightarrow> (string \<Rightarrow> go_error + 'm) \<Rightarrow> go_error + string \<Rightarrow> http_stream
    \<Rightarrow> ((go_error + 'm) \<times> http_stream) option" where
  "hs_Recv L reqtc body s =
     (case setRecvActive s of
        None \<Rightarrow> None
      | Some s \<Rightarrow> let (r, s) = hs_recv L reqtc body s in Some (r, s\<lparr>hs_recvActive := False\<rparr>))"

section \<open>The return of Forward\<close>

text \<open>Forward waits for its goroutines, so it has returned when its loop has and they are at their ends.\<close>

definition goroutines_exited :: "('m, 'md) fw_state \<Rightarrow> bool" where
  "goroutines_exited f \<longleftrightarrow>
     (case fw_i2o f of I2O_NotStarted \<Rightarrow> True | I2O_Sent p \<Rightarrow> True | I2O_Taken \<Rightarrow> True | _ \<Rightarrow> False)
   \<and> (case fw_o2i f of O2I_NotStarted \<Rightarrow> True | O2I_Sent p \<Rightarrow> True | O2I_Taken \<Rightarrow> True | _ \<Rightarrow> False)"

definition Forward_returned :: "('m, 'md) fw_state \<Rightarrow> go_error option \<Rightarrow> bool" where
  "Forward_returned f e \<longleftrightarrow> fw_main f = M_Returned e \<and> goroutines_exited f"

section \<open>The composed system\<close>

text \<open>
  \<open>hc_sending\<close> is the message of a body of send that an ended context has left running, \<open>hc_receiving\<close> tells
  of one of recv.
\<close>

record 'm http_call =
  hc_fw :: "('m, query) fw_state"
  hc_hs :: http_stream
  hc_sending :: "'m option"
  hc_receiving :: bool

definition hc_init :: "('m, query) fw_config \<Rightarrow> response \<Rightarrow> 'm http_call" where
  "hc_init cf w = \<lparr>hc_fw = fw_init cf, hc_hs = new_http_stream w, hc_sending = None, hc_receiving = False\<rparr>"

text \<open>The metadata calls among the calls of a step.\<close>

fun hc_md :: "('m, query) fw_event list \<Rightarrow> http_stream \<Rightarrow> http_stream option" where
  "hc_md [] s = Some s"
| "hc_md (SetHeader md # es) s = Option.bind (hs_SetHeader md s) (hc_md es)"
| "hc_md (SetTrailer md # es) s = Option.bind (hs_SetTrailer md s) (hc_md es)"
| "hc_md (e # es) s = hc_md es s"

definition new_calls :: "('m, query) fw_state \<Rightarrow> ('m, query) fw_state \<Rightarrow> ('m, query) fw_event list" where
  "new_calls f f' = drop (length (fw_trace f)) (fw_trace f')"

definition outgoing_answer :: "('m, query) fw_config \<Rightarrow> go_error + 'm \<Rightarrow> ('m, query) fw_state \<Rightarrow> ('m, query) fw_state option" where
  "outgoing_answer cf r f = (case fw_o2i f of O2I_Recv b \<Rightarrow> o2i_recv cf r f | _ \<Rightarrow> ou_recv cf r f)"

definition incoming_sent :: "go_error option \<Rightarrow> ('m, query) fw_state \<Rightarrow> ('m \<times> ('m, query) fw_state) option" where
  "incoming_sent res f =
     (case fw_o2i f of
        O2I_Send m \<Rightarrow> map_option (Pair m) (o2i_send res f)
      | OU_Send m \<Rightarrow> map_option (Pair m) (ou_send res f)
      | _ \<Rightarrow> None)"

inductive hc_step ::
    "web_lib \<Rightarrow> (string \<Rightarrow> go_error + 'm) \<Rightarrow> go_error + string \<Rightarrow> 'm http_env \<Rightarrow> ('m, query) fw_config
      \<Rightarrow> 'm http_call \<Rightarrow> 'm http_call \<Rightarrow> bool" for L reqtc body E cf where
  hc_request: "hs_Recv L reqtc body (hc_hs c) = Some (r, h) \<Longrightarrow> mu_recv r (hc_fw c) = Some f \<Longrightarrow>
     hc_step L reqtc body E cf c (c\<lparr>hc_fw := f, hc_hs := h\<rparr>)"
| hc_open: "mu_stream e (hc_fw c) = Some f \<Longrightarrow> hc_step L reqtc body E cf c (c\<lparr>hc_fw := f\<rparr>)"
| hc_post: "mu_send cf e (hc_fw c) = Some f \<Longrightarrow> hc_step L reqtc body E cf c (c\<lparr>hc_fw := f\<rparr>)"
| hc_answer: "outgoing_answer cf r (hc_fw c) = Some f \<Longrightarrow> hc_md (new_calls (hc_fw c) f) (hc_hs c) = Some h \<Longrightarrow>
     hc_step L reqtc body E cf c (c\<lparr>hc_fw := f, hc_hs := h\<rparr>)"
| hc_reply: "incoming_sent res (hc_fw c) = Some (m, f) \<Longrightarrow> hs_Send E wr m (hc_hs c) = Some (res, h) \<Longrightarrow>
     hc_step L reqtc body E cf c (c\<lparr>hc_fw := f, hc_hs := h\<rparr>)"
| hc_take: "m_o2i (hc_fw c) = Some f \<Longrightarrow> hc_step L reqtc body E cf c (c\<lparr>hc_fw := f\<rparr>)"
| hc_ctx_end: "fw_ctx (hc_fw c) = None \<Longrightarrow> hc_step L reqtc body E cf c (c\<lparr>hc_fw := (hc_fw c)\<lparr>fw_ctx := Some e\<rparr>\<rparr>)"
| hc_ctx_done: "m_ctx_done (hc_fw c) = Some f \<Longrightarrow> hc_step L reqtc body E cf c (c\<lparr>hc_fw := f\<rparr>)"
| hc_request_interrupted: "fw_ctx (hc_fw c) = Some e \<Longrightarrow> setRecvActive (hc_hs c) \<noteq> None \<Longrightarrow>
     mu_recv (Inl (ContextError e)) (hc_fw c) = Some f \<Longrightarrow>
     hc_step L reqtc body E cf c (c\<lparr>hc_fw := f, hc_receiving := True\<rparr>)"
| hc_reply_interrupted: "fw_ctx (hc_fw c) = Some e \<Longrightarrow> setSendActive (hc_hs c) \<noteq> None \<Longrightarrow>
     incoming_sent (Some (ContextError e)) (hc_fw c) = Some (m, f) \<Longrightarrow>
     hc_step L reqtc body E cf c (c\<lparr>hc_fw := f, hc_sending := Some m\<rparr>)"
| hc_late_recv: "hc_receiving c \<Longrightarrow> hs_recv L reqtc body (hc_hs c) = (r, h) \<Longrightarrow>
     hc_step L reqtc body E cf c (c\<lparr>hc_hs := h, hc_receiving := False\<rparr>)"
| hc_late_refused: "hc_sending c = Some m \<Longrightarrow> hs_send_check E (hc_hs c) = Some err \<Longrightarrow>
     hc_step L reqtc body E cf c (c\<lparr>hc_sending := None\<rparr>)"
| hc_late_send: "hc_sending c = Some m \<Longrightarrow> hs_send_check E (hc_hs c) = None \<Longrightarrow> hs_send E wr m (hc_hs c) = Some (res, h) \<Longrightarrow>
     hc_step L reqtc body E cf c (c\<lparr>hc_hs := h, hc_sending := None\<rparr>)"

inductive hc_reachable ::
    "web_lib \<Rightarrow> (string \<Rightarrow> go_error + 'm) \<Rightarrow> go_error + string \<Rightarrow> 'm http_env \<Rightarrow> ('m, query) fw_config \<Rightarrow> response
      \<Rightarrow> 'm http_call \<Rightarrow> bool" for L reqtc body E cf w where
  hc_start: "hc_reachable L reqtc body E cf w (hc_init cf w)"
| hc_next: "hc_reachable L reqtc body E cf w c \<Longrightarrow> hc_step L reqtc body E cf c c' \<Longrightarrow> hc_reachable L reqtc body E cf w c'"

inductive_cases hc_stepE: "hc_step L reqtc body E cf c c'"

text \<open>Every composed run is a run of the forwarder.\<close>

lemma incoming_sent_step: "incoming_sent res f = Some (m, f') \<Longrightarrow> fw_step cf f f'"
  by (auto simp: incoming_sent_def intro: fw_o2i_send fw_ou_send split: o2i_pc.splits)

lemma outgoing_answer_step: "outgoing_answer cf r f = Some f' \<Longrightarrow> fw_step cf f f'"
  by (auto simp: outgoing_answer_def intro: fw_o2i_recv fw_ou_recv split: o2i_pc.splits)

lemma hc_step_fw: "hc_step L reqtc body E cf c c' \<Longrightarrow> hc_fw c' = hc_fw c \<or> fw_step cf (hc_fw c) (hc_fw c')"
  by (erule hc_stepE)
    (auto intro: fw_mu_recv fw_mu_stream fw_mu_send fw_m_o2i fw_m_ctx fw_ctx_end incoming_sent_step outgoing_answer_step)

lemma hc_reachable_fw: "hc_reachable L reqtc body E cf w c \<Longrightarrow> fw_reachable cf (hc_fw c)"
proof (induction rule: hc_reachable.induct)
  case hc_start
  then show ?case by (simp add: hc_init_def fw_start)
next
  case (hc_next c c')
  then show ?case using hc_step_fw[OF hc_next.hyps(2)] fw_next by auto
qed

lemmas hc_fw_inv = fw_reachable_inv[OF hc_reachable_fw]

section \<open>What has been sent\<close>

fun sent_msgs :: "('m, 'md) fw_event list \<Rightarrow> 'm list" where
  "sent_msgs [] = []"
| "sent_msgs (SendIn m b # es) = (if b then m # sent_msgs es else sent_msgs es)"
| "sent_msgs (e # es) = sent_msgs es"

fun clean :: "('m, 'md) fw_event list \<Rightarrow> bool" where
  "clean [] = True"
| "clean (SendIn m b # es) = (b \<and> clean es)"
| "clean (e # es) = clean es"

fun received_msgs :: "('m, 'md) fw_event list \<Rightarrow> 'm list" where
  "received_msgs [] = []"
| "received_msgs (RecvOut m # es) = m # received_msgs es"
| "received_msgs (e # es) = received_msgs es"

lemma sent_msgs_append [simp]: "sent_msgs (a @ b) = sent_msgs a @ sent_msgs b"
  by (induction a rule: sent_msgs.induct) auto

lemma clean_append [simp]: "clean (a @ b) \<longleftrightarrow> clean a \<and> clean b"
  by (induction a rule: clean.induct) auto

lemma received_msgs_append [simp]: "received_msgs (a @ b) = received_msgs a @ received_msgs b"
  by (induction a rule: received_msgs.induct) auto

lemma msgs_of_srv: "sent_msgs (srv tr) = sent_msgs tr" "received_msgs (srv tr) = received_msgs tr" "clean (srv tr) = clean tr"
proof -
  have "sent_msgs (srv tr) = sent_msgs tr \<and> received_msgs (srv tr) = received_msgs tr \<and> clean (srv tr) = clean tr"
  proof (induction tr)
    case (Cons e tr)
    then show ?case by (cases e) auto
  qed simp
  then show "sent_msgs (srv tr) = sent_msgs tr" "received_msgs (srv tr) = received_msgs tr" "clean (srv tr) = clean tr" by auto
qed

lemma msgs_of_rest [simp]:
  "sent_msgs (concat (map (\<lambda>m. [RecvOut m, SendIn m True]) ms)) = ms"
  "received_msgs (concat (map (\<lambda>m. [RecvOut m, SendIn m True]) ms)) = ms"
  "clean (concat (map (\<lambda>m. [RecvOut m, SendIn m True]) ms))"
  by (induction ms) auto

lemma msgs_of_down [simp]: "sent_msgs (down cf ms) = ms" "received_msgs (down cf ms) = ms" "clean (down cf ms)"
  by (cases ms; simp)+

lemma msgs_of_hdr [simp]: "sent_msgs (hdr cf ms) = []" "received_msgs (hdr cf ms) = []" "clean (hdr cf ms)"
  by (simp_all add: hdr_def)

section \<open>The response\<close>

text \<open>
  \<open>enc\<close> is what a message contributes to the body: the transcoded message of a unary call, what the
  transcoding stream writes for it otherwise.
\<close>

definition encodes :: "'m http_env \<Rightarrow> ('m \<Rightarrow> string) \<Rightarrow> bool" where
  "encodes E enc \<longleftrightarrow>
     (case he_respstream E of
        None \<Rightarrow> (\<forall>m b. rt_Transcode (he_resptc E) m = Inr b \<longrightarrow> enc m = b)
      | Some st \<Rightarrow> (\<forall>m w w'. st m w = (w', None) \<longrightarrow> w' = (if enc m = [] then w else Write (enc m) w)))"

definition accepted :: "'m http_env \<Rightarrow> 'm \<Rightarrow> bool" where
  "accepted E m \<longleftrightarrow>
     (case he_respstream E of
        None \<Rightarrow> \<exists>b. rt_Transcode (he_resptc E) m = Inr b
      | Some st \<Rightarrow> \<exists>w w'. st m w = (w', None))"

definition responded :: "'m http_env \<Rightarrow> ('m \<Rightarrow> string) \<Rightarrow> 'm list \<Rightarrow> http_stream \<Rightarrow> bool" where
  "responded E enc ms s \<longleftrightarrow>
     list_all (accepted E) ms \<and> rw_body (hs_w s) = concat (map enc ms) \<and> (hs_sent s \<longleftrightarrow> ms \<noteq> [])
   \<and> (if ms = [] then rw_sent (hs_w s) = None
      else \<exists>h. rw_sent (hs_w s) = Some (200, h) \<and> h contentTypeHeader = [fst (rt_ContentType (he_resptc E) (hd ms))])"

definition idle :: "http_stream \<Rightarrow> bool" where
  "idle s \<longleftrightarrow> \<not> hs_sendActive s \<and> \<not> hs_recvActive s"

lemma hs_Send_accepted: "hs_Send E wr m s = Some (None, s') \<Longrightarrow> accepted E m"
  by (auto simp: hs_Send_def hs_send_def accepted_def Let_def responseTranscodingError_def wrapTranscodingError_def
      split: option.splits if_splits sum.splits prod.splits)

lemma hs_Send_responds:
  assumes "hs_Send E wr m s = Some (None, s')" and "encodes E enc" and "responded E enc ms s"
  shows "responded E enc (ms @ [m]) s'"
proof -
  have a: "accepted E m" using assms(1) by (rule hs_Send_accepted)
  show ?thesis
  proof (cases "he_respstream E")
    case None
    then have "\<not> hs_sent s" using assms(1)
      by (auto simp: hs_Send_def hs_send_check_def setSendActive_def split: option.splits if_splits)
    then show ?thesis
      using assms None a
      by (auto simp: hs_Send_def hs_send_check_def hs_send_def setSendActive_def responded_def encodes_def Let_def
          Write_n_def send_status_def set_header_def wrapTranscodingError_def responseTranscodingError_def
          split: option.splits if_splits sum.splits)
  next
    case (Some st)
    have st: "st m w = (w', None) \<Longrightarrow> w' = (if enc m = [] then w else Write (enc m) w)" for w w'
      using assms(2) Some by (simp add: encodes_def)
    show ?thesis
      using assms(1,3) Some a
      by (auto simp: hs_Send_def hs_send_check_def hs_send_def setSendActive_def responded_def Let_def
          Write_n_def send_status_def set_header_def wrapTranscodingError_def responseTranscodingError_def
          split: option.splits if_splits prod.splits dest!: st)
  qed
qed

lemma hs_send_recvActive: "hs_send E wr m s = Some (e, s') \<Longrightarrow> hs_recvActive s' = hs_recvActive s"
  by (auto simp: hs_send_def Let_def split: if_splits sum.splits option.splits prod.splits)

lemma hs_Send_idle: "hs_Send E wr m s = Some (e, s') \<Longrightarrow> idle s \<Longrightarrow> idle s' \<and> hs_readCh s' = hs_readCh s"
  by (auto simp: hs_Send_def idle_def setSendActive_def hs_send_def Let_def split: option.splits if_splits sum.splits prod.splits)

lemma hs_md_responded:
  "hs_SetHeader md s = Some s' \<Longrightarrow> responded E enc ms s \<Longrightarrow> responded E enc ms s'"
  "hs_SetTrailer md s = Some s' \<Longrightarrow> responded E enc ms s \<Longrightarrow> responded E enc ms s'"
  using hs_SetHeader_effect[of md s s'] hs_SetTrailer_effect[of md s s'] by (auto simp: responded_def)

lemma hs_md_idle:
  "idle s \<Longrightarrow> \<exists>s'. hs_SetHeader md s = Some s' \<and> idle s' \<and> hs_readCh s' = hs_readCh s"
  "idle s \<Longrightarrow> \<exists>s'. hs_SetTrailer md s = Some s' \<and> idle s' \<and> hs_readCh s' = hs_readCh s"
  by (auto simp: hs_SetHeader_def hs_SetTrailer_def idle_def setSendActive_def)

lemma hc_md_effect:
  assumes "idle s"
  shows "\<exists>s'. hc_md es s = Some s' \<and> idle s' \<and> hs_readCh s' = hs_readCh s \<and> (responded E enc ms s \<longrightarrow> responded E enc ms s')"
  using assms
proof (induction es s rule: hc_md.induct)
  case (2 md es s)
  obtain s' where "hs_SetHeader md s = Some s'" "idle s'" "hs_readCh s' = hs_readCh s" using hs_md_idle(1)[OF 2(2)] by blast
  then show ?case using 2(1)[of s'] hs_md_responded(1)[of md s s' E enc ms] by auto
next
  case (3 md es s)
  obtain s' where "hs_SetTrailer md s = Some s'" "idle s'" "hs_readCh s' = hs_readCh s" using hs_md_idle(2)[OF 3(2)] by blast
  then show ?case using 3(1)[of s'] hs_md_responded(2)[of md s s' E enc ms] by auto
qed auto

section \<open>The invariant of a composed call\<close>

text \<open>
  A call waits for its request, or has read it, or Forward has returned because the request was refused or its Recv
  was interrupted by the end of the context. In all but the second case nothing was done at the server.
\<close>

definition not_started :: "('m, query) fw_config \<Rightarrow> 'm main_pc \<Rightarrow> 'm http_call \<Rightarrow> bool" where
  "not_started cf r c \<longleftrightarrow> (\<exists>x. hc_fw c = (fw_init cf)\<lparr>fw_ctx := x, fw_main := r\<rparr>) \<and> hc_sending c = None"

definition request_waiting :: "('m, query) fw_config \<Rightarrow> response \<Rightarrow> 'm http_call \<Rightarrow> bool" where
  "request_waiting cf w c \<longleftrightarrow> not_started cf MU_Recv c \<and> hc_hs c = new_http_stream w \<and> \<not> hc_receiving c"

definition unary_recv_error :: "go_error \<Rightarrow> go_error" where
  "unary_recv_error e = (if is_EOF e then ErrStatus Unavailable ''grpcbridge: unexpected EOF from client for unary request'' else e)"

definition request_refused ::
    "web_lib \<Rightarrow> (string \<Rightarrow> go_error + 'm) \<Rightarrow> go_error + string \<Rightarrow> ('m, query) fw_config \<Rightarrow> response \<Rightarrow> 'm http_call \<Rightarrow> bool" where
  "request_refused L reqtc body cf w c \<longleftrightarrow>
     (\<exists>e. hs_recv L reqtc body (new_http_stream w) = (Inl e, hc_hs c) \<and> not_started cf (M_Returned (Some (unary_recv_error e))) c)
   \<and> \<not> hc_receiving c"

definition request_interrupted :: "('m, query) fw_config \<Rightarrow> response \<Rightarrow> 'm http_call \<Rightarrow> bool" where
  "request_interrupted cf w c \<longleftrightarrow>
     (\<exists>x. fw_ctx (hc_fw c) = Some x \<and> not_started cf (M_Returned (Some (ContextError x))) c) \<and> hs_w (hc_hs c) = w"

definition request_read ::
    "web_lib \<Rightarrow> (string \<Rightarrow> go_error + 'm) \<Rightarrow> go_error + string \<Rightarrow> response \<Rightarrow> 'm http_call \<Rightarrow> bool" where
  "request_read L reqtc body w c \<longleftrightarrow>
     (\<exists>m s es. hs_recv L reqtc body (new_http_stream w) = (Inr m, s) \<and> cli (fw_trace (hc_fw c)) = RecvIn m # es)
   \<and> hs_readCh (hc_hs c) \<and> \<not> hc_receiving c \<and> fw_main (hc_fw c) \<noteq> MU_Recv"

definition hc_inv ::
    "web_lib \<Rightarrow> (string \<Rightarrow> go_error + 'm) \<Rightarrow> go_error + string \<Rightarrow> 'm http_env \<Rightarrow> ('m \<Rightarrow> string) \<Rightarrow> ('m, query) fw_config
      \<Rightarrow> response \<Rightarrow> 'm http_call \<Rightarrow> bool" where
  "hc_inv L reqtc body E enc cf w c \<longleftrightarrow>
     idle (hc_hs c)
   \<and> (clean (fw_trace (hc_fw c)) \<longrightarrow> hc_sending c = None \<and> responded E enc (sent_msgs (fw_trace (hc_fw c))) (hc_hs c))
   \<and> (request_waiting cf w c \<or> request_refused L reqtc body cf w c \<or> request_interrupted cf w c \<or> request_read L reqtc body w c)"

lemma hs_Recv_new:
  "hs_Recv L reqtc body (new_http_stream w) = Some (r, s) \<longleftrightarrow> hs_recv L reqtc body (new_http_stream w) = (r, s)"
  by (cases body; cases "reqtc (projr body)")
    (auto simp: hs_Recv_def hs_recv_def new_http_stream_def setRecvActive_def split: option.splits)

lemma new_stream_ok: "rw_sent w = None \<Longrightarrow> rw_body w = [] \<Longrightarrow> idle (new_http_stream w) \<and> responded E enc [] (new_http_stream w)"
  by (simp add: idle_def new_http_stream_def responded_def)

text \<open>The steps after the request: what they emit and where they leave Forward.\<close>

lemma later_step_calls:
  "mu_stream e f = Some f' \<Longrightarrow> fw_main f' \<noteq> MU_Recv \<and> fw_trace f' = fw_trace f @ [OpenOut (e = None)]"
  "mu_send cf e f = Some f' \<Longrightarrow> fw_main f' \<noteq> MU_Recv \<and> (\<exists>es. fw_trace f' = fw_trace f @ es \<and> clean es \<and> sent_msgs es = [])"
  "m_o2i f = Some f' \<Longrightarrow> fw_main f' \<noteq> MU_Recv \<and> fw_trace f' = fw_trace f @ [CloseOut]"
  "m_ctx_done f = Some f' \<Longrightarrow> fw_main f' \<noteq> MU_Recv \<and> fw_trace f' = fw_trace f @ [CloseOut]"
  by (auto simp: mu_stream_def mu_send_def m_o2i_def m_ctx_done_def split: main_pc.splits o2i_pc.splits option.splits if_splits)

lemma outgoing_answer_calls:
  assumes "outgoing_answer cf r f = Some f'"
  shows "fw_main f' = fw_main f \<and> (\<exists>es. fw_trace f' = fw_trace f @ es \<and> clean es \<and> sent_msgs es = [] \<and> cli es = [])"
  using assms
  by (auto simp: outgoing_answer_def o2i_recv_def ou_recv_def ou_finish_def Let_def split: o2i_pc.splits sum.splits if_splits)

lemma incoming_sent_calls:
  assumes "incoming_sent res f = Some (m, f')"
  shows "fw_main f' = fw_main f \<and> fw_trace f' = fw_trace f @ [SendIn m (res = None)]"
  using assms by (auto simp: incoming_sent_def o2i_send_def ou_send_def split: o2i_pc.splits option.splits)

text \<open>A call that has not started, or has returned without starting, only reads its request.\<close>

lemma not_started_steps:
  assumes "not_started cf r c"
  shows "mu_stream e (hc_fw c) = Some f \<Longrightarrow> \<exists>m. r = MU_Stream m" "mu_send cf' e (hc_fw c) = Some f \<Longrightarrow> \<exists>m. r = MU_Send m"
    "m_o2i (hc_fw c) = Some f \<Longrightarrow> r = M_Select" "m_ctx_done (hc_fw c) = Some f \<Longrightarrow> r = M_Select"
    "outgoing_answer cf' a (hc_fw c) = None" "incoming_sent res (hc_fw c) = None" "mu_recv v (hc_fw c) = Some f \<Longrightarrow> r = MU_Recv"
    "fw_main (hc_fw c) = r" "fw_trace (hc_fw c) = []" "hc_sending c = None"
  using assms
  by (auto simp: not_started_def fw_init_def mu_stream_def mu_send_def m_o2i_def m_ctx_done_def outgoing_answer_def ou_recv_def
      incoming_sent_def mu_recv_def split: main_pc.splits)

lemma not_started_ctx: "not_started cf r c \<Longrightarrow> not_started cf r (c\<lparr>hc_fw := (hc_fw c)\<lparr>fw_ctx := x\<rparr>\<rparr>)"
  by (auto simp: not_started_def fw_init_def)

lemma hs_recv_stream:
  "hs_recv L reqtc body s = (r, s') \<Longrightarrow> responded E enc ms s \<Longrightarrow> responded E enc ms s'"
  "hs_recv L reqtc body s = (r, s') \<Longrightarrow> idle s \<Longrightarrow> idle s'"
  "hs_recv L reqtc body s = (Inr m, s') \<Longrightarrow> hs_readCh s'"
  "hs_recv L reqtc body s = (r, s') \<Longrightarrow> hs_w s' = hs_w s"
  by (auto simp: hs_recv_def responded_def idle_def split: if_splits sum.splits option.splits)

lemma hc_waiting_step:
  assumes c: "request_waiting cf w c" and w: "rw_sent w = None" "rw_body w = []" and st: "hc_step L reqtc body E cf c c'"
  shows "hc_inv L reqtc body E enc cf w c'"
proof -
  have n: "not_started cf MU_Recv c" and h: "hc_hs c = new_http_stream w" "\<not> hc_receiving c" using c by (auto simp: request_waiting_def)
  note ns = not_started_steps[OF n]
  obtain x where f: "hc_fw c = (fw_init cf)\<lparr>fw_ctx := x, fw_main := MU_Recv\<rparr>" using n by (auto simp: not_started_def)
  note ok = new_stream_ok[OF w, of E enc]
  show ?thesis
    using st
  proof (rule hc_stepE)
    fix r s f' assume s: "c' = c\<lparr>hc_fw := f', hc_hs := s\<rparr>" "hs_Recv L reqtc body (hc_hs c) = Some (r, s)" "mu_recv r (hc_fw c) = Some f'"
    have r: "hs_recv L reqtc body (new_http_stream w) = (r, s)" using s(2) h by (simp add: hs_Recv_new)
    have k: "idle s" "responded E enc [] s" using hs_recv_stream(1,2)[OF r] ok by blast+
    show ?thesis
    proof (cases r)
      case (Inl e)
      have f': "f' = (fw_init cf)\<lparr>fw_ctx := x, fw_main := M_Returned (Some (unary_recv_error e))\<rparr>"
        using s(3) Inl by (simp add: f mu_recv_def unary_recv_error_def)
      have "not_started cf (M_Returned (Some (unary_recv_error e))) c'" unfolding s(1) not_started_def f' using ns(10) by auto
      then have "request_refused L reqtc body cf w c'" using r Inl h(2) s(1) by (auto simp: request_refused_def)
      moreover have "fw_trace f' = []" by (simp add: f' fw_init_def)
      ultimately show ?thesis using k ns(10) s(1) by (simp add: hc_inv_def)
    next
      case (Inr m)
      then have f': "fw_trace f' = [RecvIn m]" "fw_main f' = MU_Stream m" using s(3) by (auto simp: f mu_recv_def fw_init_def)
      have "hs_readCh s" using hs_recv_stream(3) r Inr by metis
      then have "request_read L reqtc body w c'" using r Inr h(2) s(1) f' by (auto simp: request_read_def)
      then show ?thesis using k ns(10) s(1) f' by (simp add: hc_inv_def)
    qed
  next
    fix e assume s: "c' = c\<lparr>hc_fw := (hc_fw c)\<lparr>fw_ctx := Some e\<rparr>\<rparr>"
    have "request_waiting cf w c'" using not_started_ctx[OF n] h by (simp add: request_waiting_def s)
    then show ?thesis using ok h ns(9,10) by (simp add: hc_inv_def s)
  next
    fix e f' assume s: "c' = c\<lparr>hc_fw := f', hc_receiving := True\<rparr>" "fw_ctx (hc_fw c) = Some e" "mu_recv (Inl (ContextError e)) (hc_fw c) = Some f'"
    have "\<not> is_EOF (ContextError e)" by (simp add: ContextError_def split: go_error.split)
    then have f': "f' = (fw_init cf)\<lparr>fw_ctx := Some e, fw_main := M_Returned (Some (ContextError e))\<rparr>"
      using s(2,3) by (simp add: f mu_recv_def)
    have "not_started cf (M_Returned (Some (ContextError e))) c'" unfolding s(1) not_started_def f' using ns(10) by auto
    then have "request_interrupted cf w c'" using s(1) h by (auto simp: request_interrupted_def f' new_http_stream_def)
    moreover have "fw_trace f' = []" by (simp add: f' fw_init_def)
    ultimately show ?thesis using ok h ns(10) s(1) by (simp add: hc_inv_def)
  qed (use h in \<open>auto simp: ns(5,6,8-) dest: ns(1-4)\<close>)
qed

lemma hc_over_step:
  assumes n: "not_started cf (M_Returned r) c" and i: "idle (hc_hs c)" "responded E enc [] (hc_hs c)" and st: "hc_step L reqtc body E cf c c'"
  shows "idle (hc_hs c') \<and> responded E enc [] (hc_hs c') \<and> not_started cf (M_Returned r) c' \<and> hs_w (hc_hs c') = hs_w (hc_hs c)
    \<and> (fw_ctx (hc_fw c) \<noteq> None \<longrightarrow> fw_ctx (hc_fw c') = fw_ctx (hc_fw c))
    \<and> (\<not> hc_receiving c \<longrightarrow> hc_hs c' = hc_hs c \<and> \<not> hc_receiving c')"
proof -
  note ns = not_started_steps[OF n]
  show ?thesis
    using st
  proof (rule hc_stepE)
    fix v h assume s: "c' = c\<lparr>hc_hs := h, hc_receiving := False\<rparr>" "hc_receiving c" "hs_recv L reqtc body (hc_hs c) = (v, h)"
    then show ?thesis using hs_recv_stream(1,2,4)[OF s(3)] i n by (simp add: not_started_def)
  next
    fix e assume "c' = c\<lparr>hc_fw := (hc_fw c)\<lparr>fw_ctx := Some e\<rparr>\<rparr>" "fw_ctx (hc_fw c) = None"
    then show ?thesis using not_started_ctx[OF n] i by simp
  qed (use i in \<open>auto simp: ns(5,6,8-) dest: ns(1-4,7)\<close>)
qed

text \<open>A step after the request was read keeps it read.\<close>

lemma request_read_mono:
  assumes "request_read L reqtc body w c" and "fw_trace (hc_fw c') = fw_trace (hc_fw c) @ es" and "hs_readCh (hc_hs c') = hs_readCh (hc_hs c)"
    and "hc_receiving c' = hc_receiving c" and "fw_main (hc_fw c') \<noteq> MU_Recv"
  shows "request_read L reqtc body w c'"
  using assms by (auto simp: request_read_def)

lemma hc_read_step:
  assumes read: "request_read L reqtc body w c" and i: "idle (hc_hs c)"
    and resp: "clean (fw_trace (hc_fw c)) \<longrightarrow> hc_sending c = None \<and> responded E enc (sent_msgs (fw_trace (hc_fw c))) (hc_hs c)"
    and enc: "encodes E enc" and st: "hc_step L reqtc body E cf c c'"
  shows "hc_inv L reqtc body E enc cf w c'"
proof -
  have nm: "fw_main (hc_fw c) \<noteq> MU_Recv" and nr: "\<not> hc_receiving c" using read by (auto simp: request_read_def)
  note mono = request_read_mono[OF read, of c']
  have quiet: "hc_inv L reqtc body E enc cf w c'"
    if "fw_trace (hc_fw c') = fw_trace (hc_fw c) @ es" "clean es" "sent_msgs es = []" "hc_hs c' = hc_hs c" "hc_sending c' = hc_sending c"
      "hc_receiving c' = hc_receiving c" "fw_main (hc_fw c') \<noteq> MU_Recv" for es
    using mono[OF that(1) _ that(6,7)] that i resp by (simp add: hc_inv_def)
  show ?thesis
    using st
  proof (rule hc_stepE)
    fix r s f assume "mu_recv r (hc_fw c) = Some f"
    then show ?thesis using nm by (auto simp: mu_recv_def split: main_pc.splits)
  next
    fix e f assume s: "c' = c\<lparr>hc_fw := f\<rparr>" "mu_stream e (hc_fw c) = Some f"
    then show ?thesis using later_step_calls(1)[OF s(2)] by (intro quiet[of "[OpenOut (e = None)]"]) simp_all
  next
    fix e f assume s: "c' = c\<lparr>hc_fw := f\<rparr>" "mu_send cf e (hc_fw c) = Some f"
    obtain es where "fw_main f \<noteq> MU_Recv" "fw_trace f = fw_trace (hc_fw c) @ es" "clean es" "sent_msgs es = []"
      using later_step_calls(2)[OF s(2)] by blast
    then show ?thesis using s(1) by (intro quiet[of es]) simp_all
  next
    fix f assume s: "c' = c\<lparr>hc_fw := f\<rparr>" "m_o2i (hc_fw c) = Some f"
    then show ?thesis using later_step_calls(3)[OF s(2)] by (intro quiet[of "[CloseOut]"]) simp_all
  next
    fix f assume s: "c' = c\<lparr>hc_fw := f\<rparr>" "m_ctx_done (hc_fw c) = Some f"
    then show ?thesis using later_step_calls(4)[OF s(2)] by (intro quiet[of "[CloseOut]"]) simp_all
  next
    fix e assume s: "c' = c\<lparr>hc_fw := (hc_fw c)\<lparr>fw_ctx := Some e\<rparr>\<rparr>"
    then show ?thesis using nm by (intro quiet[of "[]"]) simp_all
  next
    fix r f h assume s: "c' = c\<lparr>hc_fw := f, hc_hs := h\<rparr>" "outgoing_answer cf r (hc_fw c) = Some f"
      "hc_md (new_calls (hc_fw c) f) (hc_hs c) = Some h"
    obtain es where es: "fw_main f = fw_main (hc_fw c)" "fw_trace f = fw_trace (hc_fw c) @ es" "clean es" "sent_msgs es = []" "cli es = []"
      using outgoing_answer_calls[OF s(2)] by blast
    have h: "idle h" "hs_readCh h = hs_readCh (hc_hs c)" "responded E enc ms (hc_hs c) \<Longrightarrow> responded E enc ms h" for ms
      using hc_md_effect[of "hc_hs c" "new_calls (hc_fw c) f" E enc ms] s(3) i by auto
    have "request_read L reqtc body w c'" using mono es h(2) nm s(1) by simp
    then show ?thesis using es h(1,3) resp s(1) by (simp add: hc_inv_def)
  next
    fix res m f wr h assume s: "c' = c\<lparr>hc_fw := f, hc_hs := h\<rparr>" "incoming_sent res (hc_fw c) = Some (m, f)"
      "hs_Send E wr m (hc_hs c) = Some (res, h)"
    note es = incoming_sent_calls[OF s(2)]
    have h: "idle h" "hs_readCh h = hs_readCh (hc_hs c)" using hs_Send_idle[OF s(3) i] by auto
    have "request_read L reqtc body w c'" using mono[of "[SendIn m (res = None)]"] es h(2) nm s(1) by simp
    moreover have "responded E enc (sent_msgs (fw_trace (hc_fw c)) @ [m]) h" if "res = None" "clean (fw_trace (hc_fw c))"
      using hs_Send_responds[of E wr m "hc_hs c" h, OF _ enc] s(3) resp that by auto
    ultimately show ?thesis using h(1) es s(1) resp by (auto simp: hc_inv_def)
  next
    fix e m f assume s: "c' = c\<lparr>hc_fw := f, hc_sending := Some m\<rparr>" "incoming_sent (Some (ContextError e)) (hc_fw c) = Some (m, f)"
    have t: "fw_trace f = fw_trace (hc_fw c) @ [SendIn m False]" "fw_main f = fw_main (hc_fw c)" using incoming_sent_calls[OF s(2)] by simp_all
    have "request_read L reqtc body w c'" using mono[of "[SendIn m False]"] t nm s(1) by simp
    then show ?thesis using i t s(1) by (simp add: hc_inv_def)
  next
    fix m wr res h assume s: "c' = c\<lparr>hc_hs := h, hc_sending := None\<rparr>" "hc_sending c = Some m" "hs_send E wr m (hc_hs c) = Some (res, h)"
    have h: "hs_readCh h = hs_readCh (hc_hs c)" "idle h" using hs_send_effect[OF s(3)] hs_send_recvActive[OF s(3)] i by (auto simp: idle_def)
    have "request_read L reqtc body w c'" using mono[of "[]"] h(1) nm s(1) by simp
    moreover have "\<not> clean (fw_trace (hc_fw c))" using resp s(2) by auto
    ultimately show ?thesis using h s(1) by (simp add: hc_inv_def)
  next
    fix m err assume s: "c' = c\<lparr>hc_sending := None\<rparr>" "hc_sending c = Some m"
    have "request_read L reqtc body w c'" using mono[of "[]"] nm s(1) by simp
    moreover have "\<not> clean (fw_trace (hc_fw c))" using resp s(2) by auto
    ultimately show ?thesis using i s(1) by (simp add: hc_inv_def)
  qed (use nm nr in \<open>auto simp: mu_recv_def split: main_pc.splits\<close>)
qed

lemma hc_inv_step:
  assumes inv: "hc_inv L reqtc body E enc cf w c" and enc: "encodes E enc" and w: "rw_sent w = None" "rw_body w = []"
    and st: "hc_step L reqtc body E cf c c'"
  shows "hc_inv L reqtc body E enc cf w c'"
proof -
  have i: "idle (hc_hs c)"
    "clean (fw_trace (hc_fw c)) \<longrightarrow> hc_sending c = None \<and> responded E enc (sent_msgs (fw_trace (hc_fw c))) (hc_hs c)"
    using inv by (simp_all add: hc_inv_def)
  have over: "hc_inv L reqtc body E enc cf w c'"
    if n: "not_started cf (M_Returned r) c"
      and keeps: "not_started cf (M_Returned r) c' \<Longrightarrow> hs_w (hc_hs c') = hs_w (hc_hs c) \<Longrightarrow>
        (fw_ctx (hc_fw c) \<noteq> None \<longrightarrow> fw_ctx (hc_fw c') = fw_ctx (hc_fw c)) \<Longrightarrow>
        (\<not> hc_receiving c \<longrightarrow> hc_hs c' = hc_hs c \<and> \<not> hc_receiving c') \<Longrightarrow>
        request_refused L reqtc body cf w c' \<or> request_interrupted cf w c'" for r
  proof -
    have "responded E enc [] (hc_hs c)" using i(2) not_started_steps(9)[OF n] by simp
    from hc_over_step[OF n i(1) this st] show ?thesis
      using keeps not_started_steps(9,10)[of cf "M_Returned r" c'] by (auto simp: hc_inv_def)
  qed
  consider "request_waiting cf w c" | "request_refused L reqtc body cf w c" | "request_interrupted cf w c" | "request_read L reqtc body w c"
    using inv by (auto simp: hc_inv_def)
  then show ?thesis
  proof cases
    case 1
    then show ?thesis by (rule hc_waiting_step[OF _ w st])
  next
    case 2
    then obtain e where e: "hs_recv L reqtc body (new_http_stream w) = (Inl e, hc_hs c)" "\<not> hc_receiving c"
      "not_started cf (M_Returned (Some (unary_recv_error e))) c" by (auto simp: request_refused_def)
    then show ?thesis by (intro over[OF e(3)]) (auto simp: request_refused_def)
  next
    case 3
    then obtain x where x: "fw_ctx (hc_fw c) = Some x" "not_started cf (M_Returned (Some (ContextError x))) c" "hs_w (hc_hs c) = w"
      by (auto simp: request_interrupted_def)
    then show ?thesis by (intro over[OF x(2)]) (auto simp: request_interrupted_def)
  next
    case 4
    then show ?thesis by (rule hc_read_step[OF _ i enc st])
  qed
qed

lemma hc_reachable_inv:
  assumes "hc_reachable L reqtc body E cf w c" and "\<not> ClientStreaming (fw_Method cf)" and "encodes E enc"
    and "rw_sent w = None" and "rw_body w = []"
  shows "hc_inv L reqtc body E enc cf w c"
  using assms(1)
proof (induction rule: hc_reachable.induct)
  case hc_start
  have "request_waiting cf w (hc_init cf w)" using assms(2) by (auto simp: request_waiting_def not_started_def hc_init_def fw_init_def)
  moreover have "idle (hc_hs (hc_init cf w)) \<and> responded E enc (sent_msgs (fw_trace (hc_fw (hc_init cf w)))) (hc_hs (hc_init cf w))"
    using new_stream_ok[OF assms(4,5), of E enc] by (simp add: hc_init_def fw_init_def)
  moreover have "hc_sending (hc_init cf w) = None" by (simp add: hc_init_def)
  ultimately show ?case unfolding hc_inv_def by blast
next
  case (hc_next c c')
  then show ?case using hc_inv_step[OF _ assms(3,4,5)] by blast
qed

section \<open>What a call has sent to the server\<close>

definition posted :: "('m, query) fw_state \<Rightarrow> bool" where
  "posted f \<longleftrightarrow> (fw_o2i f \<noteq> O2I_NotStarted \<longrightarrow> (\<exists>m b. cli (fw_trace f) = [RecvIn m, SendOut m b, CloseSend]))"

lemma posted_same: "posted f \<Longrightarrow> fw_o2i f \<noteq> O2I_NotStarted \<or> fw_o2i f' = fw_o2i f \<Longrightarrow> cli (fw_trace f') = cli (fw_trace f) \<Longrightarrow> posted f'"
  by (auto simp: posted_def)

lemma posted_step:
  assumes posted: "posted (hc_fw c)" and fw: "fw_inv cf (hc_fw c)" and cs: "\<not> ClientStreaming (fw_Method cf)"
    and st: "hc_step L reqtc body E cf c c'"
  shows "posted (hc_fw c')"
proof -
  have recv: "posted f" if s: "mu_recv r (hc_fw c) = Some f" for r f
  proof -
    have "fw_o2i (hc_fw c) = O2I_NotStarted" using fw s by (auto simp: fw_inv_def main_ok_def mu_recv_def split: main_pc.splits)
    then show ?thesis using s by (auto simp: posted_def mu_recv_def split: main_pc.splits sum.splits)
  qed
  have sent: "posted f" if s: "incoming_sent res (hc_fw c) = Some (m, f)" for res m f
  proof -
    have "fw_o2i (hc_fw c) \<noteq> O2I_NotStarted" using s by (auto simp: incoming_sent_def)
    then show ?thesis using incoming_sent_calls[OF s] by (intro posted_same[OF posted]) auto
  qed
  show ?thesis
    using st
  proof (rule hc_stepE)
    fix e f assume s: "c' = c\<lparr>hc_fw := f\<rparr>" "mu_stream e (hc_fw c) = Some f"
    then have "fw_o2i f = fw_o2i (hc_fw c)" by (auto simp: mu_stream_def split: main_pc.splits option.splits)
    then show ?thesis using s(1) later_step_calls(1)[OF s(2)] by (intro posted_same[OF posted]) auto
  next
    fix e f assume s: "c' = c\<lparr>hc_fw := f\<rparr>" "mu_send cf e (hc_fw c) = Some f"
    then obtain m where m: "fw_main (hc_fw c) = MU_Send m" by (auto simp: mu_send_def split: main_pc.splits)
    then have "cli (fw_trace (hc_fw c)) = [RecvIn m]" "fw_o2i (hc_fw c) = O2I_NotStarted"
      using fw cs by (auto simp: fw_inv_def cli_ok_def main_ok_def)
    then show ?thesis using s m by (auto simp: posted_def mu_send_def split: option.splits if_splits)
  next
    fix f assume s: "c' = c\<lparr>hc_fw := f\<rparr>" "m_o2i (hc_fw c) = Some f"
    then have "fw_o2i (hc_fw c) \<noteq> O2I_NotStarted" by (auto simp: m_o2i_def split: main_pc.splits)
    then show ?thesis using s(1) later_step_calls(3)[OF s(2)] by (intro posted_same[OF posted]) auto
  next
    fix f assume s: "c' = c\<lparr>hc_fw := f\<rparr>" "m_ctx_done (hc_fw c) = Some f"
    then have "fw_o2i f = fw_o2i (hc_fw c)" by (auto simp: m_ctx_done_def split: main_pc.splits option.splits)
    then show ?thesis using s(1) later_step_calls(4)[OF s(2)] by (intro posted_same[OF posted]) auto
  next
    fix r f h assume s: "c' = c\<lparr>hc_fw := f, hc_hs := h\<rparr>" "outgoing_answer cf r (hc_fw c) = Some f"
    then have "fw_o2i (hc_fw c) \<noteq> O2I_NotStarted" by (auto simp: outgoing_answer_def ou_recv_def)
    then show ?thesis using s(1) outgoing_answer_calls[OF s(2)] by (intro posted_same[OF posted]) auto
  qed (use recv sent posted in \<open>auto simp: posted_def\<close>)
qed

lemma hc_reachable_posted:
  assumes "hc_reachable L reqtc body E cf w c" and "\<not> ClientStreaming (fw_Method cf)"
  shows "posted (hc_fw c)"
  using assms(1)
proof (induction rule: hc_reachable.induct)
  case hc_start
  then show ?case by (simp add: posted_def hc_init_def fw_init_def)
next
  case (hc_next c c')
  then show ?case using posted_step[OF _ hc_fw_inv[OF hc_next.hyps(1)] assms(2)] by blast
qed

section \<open>Calls that return\<close>

text \<open>The messages a client is owed: all of a server stream, the first one of a unary answer.\<close>

definition owed :: "('m, query) fw_config \<Rightarrow> ('m, query) fw_event list \<Rightarrow> 'm list" where
  "owed cf tr = (if ServerStreaming (fw_Method cf) then received_msgs tr else take 1 (received_msgs tr))"

lemma nil_clean:
  assumes "fw_reachable cf f" and "fw_main f = M_Returned None"
  shows "clean (fw_trace f) \<and> sent_msgs (fw_trace f) = owed cf (fw_trace f)
    \<and> (\<not> ServerStreaming (fw_Method cf) \<longrightarrow> owed cf (fw_trace f) \<noteq> [])"
proof (cases "ServerStreaming (fw_Method cf)")
  case True
  obtain ms e where "srv (fw_trace f) = down cf ms @ [EndOut e] @ hdr cf ms @ [trl cf]"
    using Forward_nil_shape(1)[OF assms True] by blast
  then have "clean (srv (fw_trace f)) \<and> sent_msgs (srv (fw_trace f)) = received_msgs (srv (fw_trace f))" by simp
  then show ?thesis using True by (simp add: owed_def msgs_of_srv)
next
  case False
  obtain m st where t: "srv (fw_trace f) = [RecvOut m] @ st @ [SendIn m True]"
    "(\<exists>e. is_EOF e \<and> st = [EndOut e, hd1 cf, trl cf]) \<or> (\<exists>m2. st = [RecvOut m2, hd1 cf])"
    using Forward_nil_shape(2)[OF assms False] by blast
  then have "clean (srv (fw_trace f)) \<and> sent_msgs (srv (fw_trace f)) = take 1 (received_msgs (srv (fw_trace f)))
    \<and> received_msgs (srv (fw_trace f)) \<noteq> []" by auto
  then show ?thesis using False by (simp add: owed_def msgs_of_srv)
qed

lemma hc_request_of_posted:
  assumes "hc_reachable L reqtc body E cf w c" and "\<not> ClientStreaming (fw_Method cf)" and "encodes E enc"
    and "rw_sent w = None" and "rw_body w = []" and "fw_o2i (hc_fw c) \<noteq> O2I_NotStarted"
  shows "\<exists>b m k. body = Inr b \<and> reqtc b = Inr m \<and> cli (fw_trace (hc_fw c)) = [RecvIn m, SendOut m k, CloseSend] \<and> \<not> hc_receiving c"
proof -
  obtain m' k where p: "cli (fw_trace (hc_fw c)) = [RecvIn m', SendOut m' k, CloseSend]"
    using hc_reachable_posted[OF assms(1,2)] assms(6) by (auto simp: posted_def)
  have "\<not> not_started cf r c" for r using p not_started_steps(9)[of cf r c] by auto
  then have "request_read L reqtc body w c"
    using hc_reachable_inv[OF assms(1-5)] by (auto simp: hc_inv_def request_waiting_def request_refused_def request_interrupted_def)
  then obtain m s es where r: "hs_recv L reqtc body (new_http_stream w) = (Inr m, s)" "cli (fw_trace (hc_fw c)) = RecvIn m # es" "\<not> hc_receiving c"
    by (auto simp: request_read_def)
  have "\<exists>b. body = Inr b \<and> reqtc b = Inr m" using r(1) by (auto simp: hs_recv_def new_http_stream_def split: sum.splits option.splits)
  then show ?thesis using r(2,3) p by auto
qed

lemma hc_success:
  assumes "hc_reachable L reqtc body E cf w c" and "\<not> ClientStreaming (fw_Method cf)" and "encodes E enc"
    and "rw_sent w = None" and "rw_body w = []" and "fw_main (hc_fw c) = M_Returned None"
  shows "\<exists>b m k. body = Inr b \<and> reqtc b = Inr m \<and> cli (fw_trace (hc_fw c)) = [RecvIn m, SendOut m k, CloseSend]
    \<and> responded E enc (owed cf (fw_trace (hc_fw c))) (hc_hs c)
    \<and> (\<not> ServerStreaming (fw_Method cf) \<longrightarrow> owed cf (fw_trace (hc_fw c)) \<noteq> [])
    \<and> hc_sending c = None \<and> \<not> hc_receiving c"
proof -
  have o: "fw_o2i (hc_fw c) \<noteq> O2I_NotStarted" using hc_fw_inv[OF assms(1)] assms(6) by (auto simp: fw_inv_def main_ok_def)
  show ?thesis
    using hc_request_of_posted[OF assms(1-5) o] nil_clean[OF hc_reachable_fw[OF assms(1)] assms(6)]
      hc_reachable_inv[OF assms(1-5)] by (auto simp: hc_inv_def)
qed


text \<open>
  A request that cannot be read or transcoded: Forward returns its error, or that of the context when this ended
  first, and has not opened a stream.
\<close>

lemma hc_refused:
  assumes "hc_reachable L reqtc body E cf w c" and "\<not> ClientStreaming (fw_Method cf)" and "encodes E enc"
    and "rw_sent w = None" and "rw_body w = []" and "hs_recv L reqtc body (new_http_stream w) = (Inl e, s)"
    and "fw_main (hc_fw c) = M_Returned r" and "\<not> is_EOF e"
  shows "fw_trace (hc_fw c) = [] \<and> r \<noteq> None \<and> (fw_ctx (hc_fw c) = None \<longrightarrow> r = Some e \<and> hc_hs c = s)"
proof -
  have "request_waiting cf w c \<or> request_refused L reqtc body cf w c \<or> request_interrupted cf w c"
    using hc_reachable_inv[OF assms(1-5)] assms(6) by (auto simp: hc_inv_def request_read_def)
  then show ?thesis
    using assms(6-8) not_started_steps(8,9)[of cf _ c]
    by (auto simp: request_waiting_def request_refused_def request_interrupted_def unary_recv_error_def)
qed

section \<open>A concrete call\<close>

text \<open>The steps as functions, to run a call with given answers of the server.\<close>

datatype 'm hc_move = Request | Open "go_error option" | Post "go_error option" | Answer "go_error + 'm" | Reply "nat option" | Take

fun hc_do ::
    "web_lib \<Rightarrow> (string \<Rightarrow> go_error + 'm) \<Rightarrow> go_error + string \<Rightarrow> 'm http_env \<Rightarrow> ('m, query) fw_config
      \<Rightarrow> 'm hc_move \<Rightarrow> 'm http_call \<Rightarrow> 'm http_call option" where
  "hc_do L reqtc body E cf Request c =
     Option.bind (hs_Recv L reqtc body (hc_hs c)) (\<lambda>(r, h). map_option (\<lambda>f. c\<lparr>hc_fw := f, hc_hs := h\<rparr>) (mu_recv r (hc_fw c)))"
| "hc_do L reqtc body E cf (Open e) c = map_option (\<lambda>f. c\<lparr>hc_fw := f\<rparr>) (mu_stream e (hc_fw c))"
| "hc_do L reqtc body E cf (Post e) c = map_option (\<lambda>f. c\<lparr>hc_fw := f\<rparr>) (mu_send cf e (hc_fw c))"
| "hc_do L reqtc body E cf (Answer r) c =
     Option.bind (outgoing_answer cf r (hc_fw c)) (\<lambda>f.
       map_option (\<lambda>h. c\<lparr>hc_fw := f, hc_hs := h\<rparr>) (hc_md (new_calls (hc_fw c) f) (hc_hs c)))"
| "hc_do L reqtc body E cf (Reply wr) c =
     (case fw_o2i (hc_fw c) of
        O2I_Send m \<Rightarrow> Option.bind (hs_Send E wr m (hc_hs c)) (\<lambda>(res, h). map_option (\<lambda>(m, f). c\<lparr>hc_fw := f, hc_hs := h\<rparr>) (incoming_sent res (hc_fw c)))
      | OU_Send m \<Rightarrow> Option.bind (hs_Send E wr m (hc_hs c)) (\<lambda>(res, h). map_option (\<lambda>(m, f). c\<lparr>hc_fw := f, hc_hs := h\<rparr>) (incoming_sent res (hc_fw c)))
      | _ \<Rightarrow> None)"
| "hc_do L reqtc body E cf Take c = map_option (\<lambda>f. c\<lparr>hc_fw := f\<rparr>) (m_o2i (hc_fw c))"

fun hc_run ::
    "web_lib \<Rightarrow> (string \<Rightarrow> go_error + 'm) \<Rightarrow> go_error + string \<Rightarrow> 'm http_env \<Rightarrow> ('m, query) fw_config
      \<Rightarrow> 'm hc_move list \<Rightarrow> 'm http_call \<Rightarrow> 'm http_call option" where
  "hc_run L reqtc body E cf [] c = Some c"
| "hc_run L reqtc body E cf (x # xs) c = Option.bind (hc_do L reqtc body E cf x c) (hc_run L reqtc body E cf xs)"

lemma hc_do_step:
  assumes "hc_do L reqtc body E cf x c = Some c'"
  shows "hc_step L reqtc body E cf c c'"
proof (cases x)
  case (Reply wr)
  have "\<exists>m res h f. hs_Send E wr m (hc_hs c) = Some (res, h) \<and> incoming_sent res (hc_fw c) = Some (m, f) \<and> c' = c\<lparr>hc_fw := f, hc_hs := h\<rparr>"
    using assms Reply by (auto simp: bind_eq_Some_conv incoming_sent_def split: o2i_pc.splits)
  then show ?thesis by (auto intro: hc_reply)
qed (use assms in \<open>auto simp: bind_eq_Some_conv intro: hc_request hc_open hc_post hc_answer hc_take\<close>)

lemma hc_run_reachable:
  "hc_run L reqtc body E cf xs c = Some c' \<Longrightarrow> hc_reachable L reqtc body E cf w c \<Longrightarrow> hc_reachable L reqtc body E cf w c'"
proof (induction xs arbitrary: c)
  case (Cons x xs)
  then obtain d where "hc_do L reqtc body E cf x c = Some d" "hc_run L reqtc body E cf xs d = Some c'"
    by (auto simp: bind_eq_Some_conv)
  then show ?case using Cons.IH hc_next[OF Cons.prems(2) hc_do_step] by blast
qed simp

definition ex_unary :: "(string, query) fw_config" where
  "ex_unary = \<lparr>fw_Method = (DummyMethod ''S'' ''M'')\<lparr>ClientStreaming := False, ServerStreaming := False\<rparr>,
     fw_header = [(''k'', [''v''])], fw_trailer = [], fw_FilterResponse = (\<lambda>x. x), fw_FilterTrailer = (\<lambda>x. x)\<rparr>"

definition ex_moves :: "string hc_move list" where
  "ex_moves = [Request, Open None, Post None, Answer (Inr ''pong''), Answer (Inl ErrEOF), Reply None, Take]"

lemma ex_moves_return:
  "\<exists>c. hc_run ex_lib ex_reqtc (Inr ''ping'') ex_env ex_unary ex_moves (hc_init ex_unary new_response) = Some c
     \<and> fw_main (hc_fw c) = M_Returned None \<and> received_msgs (fw_trace (hc_fw c)) = [''pong'']"
proof -
  have "case hc_run ex_lib ex_reqtc (Inr ''ping'') ex_env ex_unary ex_moves (hc_init ex_unary new_response) of
     None \<Rightarrow> False | Some c \<Rightarrow> fw_main (hc_fw c) = M_Returned None \<and> received_msgs (fw_trace (hc_fw c)) = [''pong'']"
    by code_simp
  then show ?thesis by (auto split: option.splits)
qed


end
