(* ===== verification/Transcoded_Call.thy ===== *)
theory Transcoded_Call
  imports Forwarded_Http Grpc_Web Json_Props
begin

text \<open>
  The transcoder inside the HTTP bridge: the parameters that webbridge/http.go was modelled with (the bound
  transcoders, the result of Bind) filled in with the standard transcoder of transcoding/http.go, and whole
  calls from the routed request to the response, with the forwarder of the theory Forwarded_Http between them.
\<close>

section \<open>The bound transcoders as the bridge uses them\<close>

text \<open>The status message of google.rpc, without details.\<close>

definition status_msg :: "code \<times> string \<Rightarrow> 'x pmsg" where
  "status_msg st =
     PMsg ''google.rpc.Status'' [(''code'', VInt32 (word_of_int (int (code_num (fst st))))), (''message'', VString (snd st))]"

definition request_ContentType :: "('r, 'x) requestTranscoder \<Rightarrow> string \<times> bool" where
  "request_ContentType t = mr_ContentType (rq_marshaler t)"

definition response_ContentType :: "('r, 'x) responseTranscoder \<Rightarrow> 'x pmsg \<Rightarrow> string \<times> bool" where
  "response_ContentType t m = mr_ContentType (rp_marshaler t)"

definition bound_response :: "schema \<Rightarrow> ('r, 'x) responseTranscoder \<Rightarrow> 'x pmsg resp_transcoder" where
  "bound_response S t =
     \<lparr>rt_Transcode = (\<lambda>m. case response_Transcode S t m of (b, None) \<Rightarrow> Inr b | (b, Some err) \<Rightarrow> Inl err),
      rt_ContentType = response_ContentType t,
      rt_status = status_msg\<rparr>"

text \<open>Stream of the response transcoder over the response; \<open>wr\<close> gives the outcome of its writes.\<close>

definition bound_stream :: "schema \<Rightarrow> (string \<Rightarrow> go_error option) \<Rightarrow> ('r, 'x) responseTranscoder \<Rightarrow> 'x pmsg tc_stream option" where
  "bound_stream S wr t =
     (case rp_streamer t of
        None \<Rightarrow> None
      | Some st \<Rightarrow> Some (\<lambda>m w. case responseStream_Transcode S t st wr m of
                          (b, err) \<Rightarrow> (if b = [] then w else Write b w, err)))"

text \<open>The HTTPRequest that routeTranscodedRequest passes to Bind.\<close>

definition request_of_route ::
    "'r \<Rightarrow> (string \<Rightarrow> string list) \<Rightarrow> (string \<times> string list) list \<Rightarrow> HTTPRoute \<Rightarrow> 'r HTTPRequest" where
  "request_of_route res header query r =
     \<lparr>tr_Resolver = res, tr_Method = hr_Method r, tr_Binding = hr_Binding r, tr_Header = header,
      tr_Query = query, tr_PathParams = hr_PathParams r\<rparr>"

record ('r, 'x) call_env =
  ce_lib :: web_lib
  ce_api :: "'x std_api"
  ce_schema :: schema
  ce_query :: "'x query_parser"
  ce_mime :: "string \<Rightarrow> string option"
  ce_transcoder :: "('r, 'x) StandardTranscoder"
  ce_resolver :: 'r

definition bind_route ::
    "('r, 'x) call_env \<Rightarrow> (string \<Rightarrow> string list) \<Rightarrow> (string \<times> string list) list \<Rightarrow> HTTPRoute
      \<Rightarrow> go_error + (('r, 'x) requestTranscoder \<times> ('r, 'x) responseTranscoder)" where
  "bind_route C header query r =
     Bind (ce_mime C) (ce_transcoder C) (request_of_route (ce_resolver C) header query r)"

section \<open>A call\<close>

definition input_msg :: "Method \<Rightarrow> 'x pmsg" where
  "input_msg mtd = empty_msg (case Input mtd of DynamicMessage t \<Rightarrow> t | EmptyMessage \<Rightarrow> ''google.protobuf.Empty'')"

definition bound_request ::
    "('r, 'x) call_env \<Rightarrow> HTTPRoute \<Rightarrow> ('r, 'x) requestTranscoder \<Rightarrow> string \<Rightarrow> go_error + 'x pmsg" where
  "bound_request C r rq b = request_Transcode (ce_api C) (ce_schema C) (ce_query C) rq b (input_msg (hr_Method r))"

text \<open>The environment of the stream, as ServeHTTP sets it up for the route.\<close>

definition bound_env :: "('r, 'x) call_env \<Rightarrow> HTTPRoute \<Rightarrow> ('r, 'x) responseTranscoder \<Rightarrow> 'x pmsg http_env" where
  "bound_env C r rp =
     \<lparr>he_lib = ce_lib C, he_resptc = bound_response (ce_schema C) rp,
      he_respstream = (if ServerStreaming (hr_Method r) then bound_stream (ce_schema C) (\<lambda>_. None) rp else None)\<rparr>"

text \<open>
  The run of the forwarder that ServeHTTP waits for: bound to the route, it has reached \<open>c\<close> and returned
  \<open>e\<close>, its goroutine included. What the server answers, and when, and whether the context ends, is open.
\<close>

definition completed ::
    "('r, 'x) call_env \<Rightarrow> (string \<Rightarrow> string list) \<Rightarrow> (string \<times> string list) list \<Rightarrow> HTTPRoute \<Rightarrow> ('r, 'x) requestTranscoder
      \<Rightarrow> ('r, 'x) responseTranscoder \<Rightarrow> go_error + string \<Rightarrow> ('x pmsg, query) fw_config \<Rightarrow> 'x pmsg http_call \<Rightarrow> go_error option \<Rightarrow> bool" where
  "completed C header query r rq rp body cf c e \<longleftrightarrow>
     bind_route C header query r = Inr (rq, rp) \<and> \<not> ClientStreaming (hr_Method r) \<and> fw_Method cf = hr_Method r
   \<and> (ServerStreaming (hr_Method r) \<longrightarrow> rp_streamer rp \<noteq> None)
   \<and> hc_reachable (ce_lib C) (bound_request C r rq) body (bound_env C r rp) cf new_response c
   \<and> Forward_returned (hc_fw c) e"

text \<open>The response when the handler returns, given the run, for a client that has not gone away.\<close>

definition call_response ::
    "('r, 'x) call_env \<Rightarrow> (string \<Rightarrow> string list) \<Rightarrow> (string \<times> string list) list \<Rightarrow> HTTPRoute \<Rightarrow> 'x pmsg http_call \<Rightarrow> go_error option
      \<Rightarrow> response" where
  "call_response C header query r c e =
     http_ServeHTTP (ce_lib C) False (Inr r)
       (\<lambda>r. map_sum id (\<lambda>(rq, rp). (bound_response (ce_schema C) rp, bound_stream (ce_schema C) (\<lambda>_. None) rp)) (bind_route C header query r))
       True (\<lambda>E s. (hc_hs c, e)) new_response"

lemma call_response_eq:
  assumes "completed C header query r rq rp body cf c e"
  shows "call_response C header query r c e =
     (case e of None \<Rightarrow> hs_w (hc_hs c)
      | Some err \<Rightarrow> writeError (ce_lib C) False (Some (bound_response (ce_schema C) rp)) err (hs_w (hc_hs c)))"
  using assms
  by (auto simp: completed_def call_response_def http_ServeHTTP_def routeTranscodedRequest_def bound_stream_def Let_def split: option.split)

text \<open>What a message contributes to the body.\<close>

definition bound_enc :: "('r, 'x) call_env \<Rightarrow> HTTPRoute \<Rightarrow> ('r, 'x) responseTranscoder \<Rightarrow> 'x pmsg \<Rightarrow> string" where
  "bound_enc C r rp m =
     (case (ServerStreaming (hr_Method r), rp_streamer rp) of
        (True, Some st) \<Rightarrow> fst (responseStream_Transcode (ce_schema C) rp st (\<lambda>_. None) m)
      | _ \<Rightarrow> fst (response_Transcode (ce_schema C) rp m))"

lemma bound_encodes: "(ServerStreaming (hr_Method r) \<longrightarrow> rp_streamer rp \<noteq> None) \<Longrightarrow> encodes (bound_env C r rp) (bound_enc C r rp)"
  by (auto simp: encodes_def bound_env_def bound_enc_def bound_stream_def bound_response_def
      split: option.splits prod.splits)

lemma bound_accepted:
  "accepted (bound_env C r rp) m \<longleftrightarrow>
     (case (ServerStreaming (hr_Method r), rp_streamer rp) of
        (True, Some st) \<Rightarrow> snd (responseStream_Transcode (ce_schema C) rp st (\<lambda>_. None) m) = None
      | _ \<Rightarrow> snd (response_Transcode (ce_schema C) rp m) = None)"
  by (cases "response_Transcode (ce_schema C) rp m"; cases "responseStream_Transcode (ce_schema C) rp (the (rp_streamer rp)) (\<lambda>_. None) m")
    (auto simp: accepted_def bound_env_def bound_stream_def bound_response_def split: option.splits)

section \<open>The message that the server gets\<close>

definition answered :: "response \<Rightarrow> int \<Rightarrow> string \<Rightarrow> string \<Rightarrow> bool" where
  "answered w c ct b \<longleftrightarrow> rw_body w = b \<and> (\<exists>h. rw_sent w = Some (c, h) \<and> h contentTypeHeader = [ct])"

text \<open>
  The message has the value of the path parameter in every field that one names: in a singular scalar field of the
  message itself, outside oneofs (a proto3 optional is in one), that no other path parameter leads to.
\<close>

definition carries_path_params :: "('r, 'x) call_env \<Rightarrow> HTTPRoute \<Rightarrow> 'x pmsg \<Rightarrow> bool" where
  "carries_path_params C r m \<longleftrightarrow>
     (\<forall>fd s. plain_scalar (ce_schema C) (pm_type m) fd \<and> only_aim (ce_schema C) (pm_type m) (hr_PathParams r) fd
        \<and> (fd_name fd, s) \<in> set (hr_PathParams r)
        \<longrightarrow> (\<exists>v. parseField (ce_api C) (fd_kind fd) s = Inr v \<and> pm_lookup m (fd_name fd) = Some v))"

lemma bind_route_request: "bind_route C header query r = Inr (rq, rp) \<Longrightarrow> tr_PathParams (rq_req rq) = hr_PathParams r"
  by (auto simp: bind_route_def Bind_def Let_def newRequestTranscoder_def request_of_route_def
      split: sum.splits option.splits if_splits)

lemma request_carries:
  assumes "bind_route C header query r = Inr (rq, rp)" and t: "bound_request C r rq b = Inr m"
    and "query_populator (ce_schema C) (ce_query C)" and "typed_marshaler (rq_marshaler rq)"
  shows "carries_path_params C r m"
proof -
  note t = t[unfolded bound_request_def]
  have ty: "pm_type m = pm_type (input_msg (hr_Method r) :: 'b pmsg)"
    using request_Transcode_type[OF assms(3,4) t] .
  show ?thesis
    unfolding carries_path_params_def ty
    using path_parameter_set[OF assms(3,4) _ _ _ t] bind_route_request[OF assms(1)] by simp
qed

lemma response_fields: "rw_sent new_response = None" "rw_body new_response = []" "\<not> writtenStatus new_response"
  by (simp_all add: new_response_def)

lemma completed_success:
  assumes "completed C header query r rq rp body cf c None"
  shows "\<exists>b m k. body = Inr b \<and> bound_request C r rq b = Inr m \<and> cli (fw_trace (hc_fw c)) = [RecvIn m, SendOut m k, CloseSend]
    \<and> responded (bound_env C r rp) (bound_enc C r rp) (owed cf (fw_trace (hc_fw c))) (hc_hs c)
    \<and> (\<not> ServerStreaming (hr_Method r) \<longrightarrow> owed cf (fw_trace (hc_fw c)) \<noteq> [])"
  using assms hc_success[of "ce_lib C" "bound_request C r rq" body "bound_env C r rp" cf new_response c "bound_enc C r rp"]
  by (auto simp: completed_def Forward_returned_def bound_encodes new_response_def)


text \<open>
  C8. A server-streaming call, end to end: when the forwarder returns nil, the body of the response is what the messages
  of the server's stream transcode to, all of them and in order. When they are sent as server-sent events, and each of
  them transcodes to a single line (no line feed or carriage return, no space in front, as with JSON without
  indentation), reading the body as an event stream, whatever its content type says, gives back exactly them.
\<close>
theorem stream_call_end_to_end:
  assumes "completed C header query r rq rp body cf c None" and "ServerStreaming (hr_Method r)"
  shows "rw_body (call_response C header query r c None) = concat (map (bound_enc C r rp) (received_msgs (fw_trace (hc_fw c))))
    \<and> (rp_isSSE rp \<and> list_all (\<lambda>m. one_line (fst (response_Transcode (ce_schema C) rp m))) (received_msgs (fw_trace (hc_fw c)))
        \<longrightarrow> sse_client (rw_body (call_response C header query r c None))
        = map (\<lambda>m. fst (response_Transcode (ce_schema C) rp m)) (received_msgs (fw_trace (hc_fw c))))"
proof -
  let ?ms = "received_msgs (fw_trace (hc_fw c))"
  obtain st where st: "rp_streamer rp = Some st" using assms(1,2) by (auto simp: completed_def)
  have "owed cf (fw_trace (hc_fw c)) = ?ms" using assms(1,2) by (simp add: completed_def owed_def)
  then have resp: "responded (bound_env C r rp) (bound_enc C r rp) ?ms (hc_hs c)" using completed_success[OF assms(1)] by auto
  have b: "rw_body (call_response C header query r c None) = concat (map (bound_enc C r rp) ?ms)"
    using resp by (simp add: call_response_eq[OF assms(1)] responded_def)
  moreover have "sse_client (concat (map (bound_enc C r rp) ?ms)) = map (\<lambda>m. fst (response_Transcode (ce_schema C) rp m)) ?ms"
    if sse: "rp_isSSE rp" and one: "list_all (\<lambda>m. one_line (fst (response_Transcode (ce_schema C) rp m))) ?ms"
  proof -
    have "bound_enc C r rp m = sse_frame (fst (response_Transcode (ce_schema C) rp m))" if "m \<in> set ?ms" for m
      using resp that sse st assms(2)
      by (auto simp: responded_def list_all_iff bound_accepted bound_enc_def responseStream_Transcode_def sse_Transcode_def
          split: prod.splits option.splits)
    then have m: "map (bound_enc C r rp) ?ms = map sse_frame (map (\<lambda>m. fst (response_Transcode (ce_schema C) rp m)) ?ms)" by simp
    show ?thesis unfolding m by (rule sse_client_frames) (use one in \<open>simp add: list_all_iff\<close>)
  qed
  ultimately show ?thesis by simp
qed

section \<open>A request that is refused\<close>

text \<open>What status.Convert documents for status errors.\<close>

definition converts_statuses :: "web_lib \<Rightarrow> bool" where
  "converts_statuses L \<longleftrightarrow> (\<forall>c s. lib_Convert L (ErrStatus c s) = (c, s))"

lemma refused_response:
  assumes "rt_Transcode tc (rt_status tc (c, msg)) = Inr out" and "converts_statuses L"
    and "rw_sent w = None" and "rw_body w = []" and "\<not> writtenStatus w"
  shows "answered (writeError L False (Some tc) (ErrStatus c msg) w) (lib_HTTPStatusFromCode L c)
    (fst (rt_ContentType tc (rt_status tc (c, msg)))) out"
  using assms
  by (simp add: writeError_def transcodeError_def errorStatus_def HTTPStatus_def converts_statuses_def Let_def Write_n_def
      WriteHeader_def send_status_def set_header_def answered_def)

lemma request_Transcode_error:
  "body_path_missing S (rq_req t) (pm_type m) \<Longrightarrow> \<exists>msg. request_Transcode A S pq t b m = Inl (ErrStatus Internal msg)"
  "request_Transcode A S pq t b m = Inl e \<Longrightarrow> \<not> body_path_missing S (rq_req t) (pm_type m) \<Longrightarrow> \<exists>msg. e = ErrStatus InvalidArgument msg"
  by (auto simp: request_Transcode_def request_error_missing dest: request_error)

lemma refused_code:
  fixes C :: "('r, 'x) call_env"
  assumes "bound_request C r rq b = Inl err"
  shows "\<exists>msg. err = ErrStatus (if body_path_missing (ce_schema C) (rq_req rq) (pm_type (input_msg (hr_Method r) :: 'x pmsg))
      then Internal else InvalidArgument) msg"
  using assms request_Transcode_error[where S = "ce_schema C" and t = rq and m = "input_msg (hr_Method r)"
      and A = "ce_api C" and pq = "ce_query C" and b = b]
  by (auto simp: bound_request_def)

text \<open>
  C35. A request that cannot be transcoded (a body that does not parse, a path or query parameter of the
  wrong type) never reaches the server: in every run that returns, Forward has failed, no stream to the server was
  opened, nor any call made on one. Unless the context of the call has ended, the client gets the HTTP status of the
  code InvalidArgument (Internal, when the binding's body path is not in the message), and as its body that
  status, transcoded by the response transcoder that was bound to the request, provided that this can transcode
  every status and that status.Convert gives back the status of a status error.
\<close>
theorem unary_call_refused:
  fixes C :: "('r, 'x) call_env"
  assumes "completed C header query r rq rp (Inr b) cf c e" and "bound_request C r rq b = Inl err"
    and "converts_statuses (ce_lib C)"
    and "\<forall>c msg. snd (response_Transcode (ce_schema C) rp (status_msg (c, msg))) = None"
  shows "fw_trace (hc_fw c) = [] \<and> e \<noteq> None \<and> (fw_ctx (hc_fw c) = None \<longrightarrow> (\<exists>msg.
     let code = (if body_path_missing (ce_schema C) (rq_req rq) (pm_type (input_msg (hr_Method r) :: 'x pmsg)) then Internal else InvalidArgument)
     in answered (call_response C header query r c e) (lib_HTTPStatusFromCode (ce_lib C) code)
       (fst (mr_ContentType (rp_marshaler rp))) (fst (response_Transcode (ce_schema C) rp (status_msg (code, msg))))))"
proof -
  let ?code = "if body_path_missing (ce_schema C) (rq_req rq) (pm_type (input_msg (hr_Method r) :: 'x pmsg)) then Internal else InvalidArgument"
  obtain msg where err: "err = ErrStatus ?code msg" using refused_code[OF assms(2)] by blast
  let ?s = "(new_http_stream new_response)\<lparr>hs_read := True, hs_readCh := True\<rparr>"
  have recv: "hs_recv (ce_lib C) (bound_request C r rq) (Inr b) (new_http_stream new_response) = (Inl err, ?s)"
    using assms(2) by (simp add: err hs_recv_def new_http_stream_def requestTranscodingError_def wrapTranscodingError_def has_GRPCStatus_def)
  have run: "hc_reachable (ce_lib C) (bound_request C r rq) (Inr b) (bound_env C r rp) cf new_response c"
    "\<not> ClientStreaming (fw_Method cf)" "encodes (bound_env C r rp) (bound_enc C r rp)" "fw_main (hc_fw c) = M_Returned e"
    using assms(1) by (auto simp: completed_def Forward_returned_def bound_encodes)
  have ret: "fw_trace (hc_fw c) = []" "e \<noteq> None" "fw_ctx (hc_fw c) = None \<Longrightarrow> e = Some err \<and> hc_hs c = ?s"
    using hc_refused[OF run(1-3) _ _ recv run(4)] by (simp_all add: response_fields err)
  obtain out where out: "response_Transcode (ce_schema C) rp (status_msg (?code, msg)) = (out, None)"
    using assms(4) by (metis prod.collapse)
  have "answered (call_response C header query r c e) (lib_HTTPStatusFromCode (ce_lib C) ?code) (fst (mr_ContentType (rp_marshaler rp))) out"
    if n: "fw_ctx (hc_fw c) = None"
    using refused_response[where tc = "bound_response (ce_schema C) rp" and c = ?code and msg = msg and out = out and w = "hs_w ?s", OF _ assms(3)] out
      ret(3)[OF n]
    unfolding call_response_eq[OF assms(1)] err
    by (simp add: bound_response_def response_ContentType_def new_http_stream_def response_fields)
  then show ?thesis using out ret(1,2) by (auto simp: Let_def intro!: exI[of _ msg])
qed

section \<open>Concrete calls\<close>

definition ex_route :: "string \<Rightarrow> HTTPRoute" where
  "ex_route s = \<lparr>hr_Target = \<lparr>target_Name = ''T'', Services = []\<rparr>, hr_Service = \<lparr>service_Name = ''S'', Methods = []\<rparr>,
     hr_Method = \<lparr>RPCName = ''/S/M'', Input = DynamicMessage ''Tree'', Output = DynamicMessage ''Tree'',
        ClientStreaming = False, ServerStreaming = False, Bindings = []\<rparr>,
     hr_Binding = \<lparr>HTTPMethod = ''GET'', Pattern = ''/x/{id}'', RequestBodyPath = [], ResponseBodyPath = []\<rparr>,
     hr_PathParams = [(''id'', s)]\<rparr>"

definition ex_call :: "(unit, bool) call_env" where
  "ex_call = \<lparr>ce_lib = ex_lib, ce_api = none_api, ce_schema = tree_schema, ce_query = gq_parser, ce_mime = Some,
     ce_transcoder = NewStandardTranscoder ex_mk ex_opts, ce_resolver = ()\<rparr>"

lemma ex_call_query: "query_populator (ce_schema ex_call) (ce_query ex_call)"
  unfolding ex_call_def call_env.simps by (rule gq.query_populator_axioms)

abbreviation "ex_bound s \<equiv> request_of_route () (\<lambda>_. [''application/json'']) [] (ex_route s)"

lemma ex_call_bind:
  "bind_route ex_call (\<lambda>_. [''application/json'']) [] (ex_route s)
     = Inr (newRequestTranscoder (ex_bound s) ex_mk, newResponseTranscoder (ex_bound s) ex_mk False)"
  by (simp add: bind_route_def ex_call_def Bind_def pickRequestMarshaler_def pickResponseMarshaler_def NewStandardTranscoder_def
      withDefaults_def ex_opts_def request_of_route_def ex_mk_def ex_route_def)

lemma ex_response: "response_Transcode S (newResponseTranscoder (ex_bound s) ex_mk False) m = (''{}'', None)"
  by (simp add: response_Transcode_def response_transcodeFunc_def traverseFieldPath_def newResponseTranscoder_def request_of_route_def ex_route_def ex_mk_def)

definition ex_config :: "HTTPRoute \<Rightarrow> (bool pmsg, query) fw_config" where
  "ex_config r = \<lparr>fw_Method = hr_Method r, fw_header = [(''k'', [''v''])], fw_trailer = [], fw_FilterResponse = (\<lambda>x. x), fw_FilterTrailer = (\<lambda>x. x)\<rparr>"

abbreviation "ex_rq s \<equiv> newRequestTranscoder (ex_bound s) ex_mk"
abbreviation "ex_rp s \<equiv> newResponseTranscoder (ex_bound s) ex_mk False"
abbreviation "ex_seven \<equiv> PMsg ''Tree'' [(''id'', VInt32 7 :: bool pval)]"

lemma ex_request: "bound_request ex_call (ex_route ''7'') (ex_rq ''7'') [] = Inr ex_seven"
  by code_simp

text \<open>A run with given answers, on the stream of a bound call.\<close>

definition ex_run ::
    "HTTPRoute \<Rightarrow> (unit, bool) requestTranscoder \<Rightarrow> (unit, bool) responseTranscoder \<Rightarrow> bool pmsg hc_move list \<Rightarrow> bool pmsg http_call option" where
  "ex_run r rq rp moves =
     hc_run (ce_lib ex_call) (bound_request ex_call r rq) (Inr []) (bound_env ex_call r rp) (ex_config r) moves
       (hc_init (ex_config r) new_response)"

definition ran_to :: "go_error option \<Rightarrow> bool pmsg list \<Rightarrow> bool pmsg http_call \<Rightarrow> bool" where
  "ran_to e ms c \<longleftrightarrow> Forward_returned (hc_fw c) e \<and> received_msgs (fw_trace (hc_fw c)) = ms \<and> fw_ctx (hc_fw c) = None"

lemma ex_run_completed:
  assumes "case ex_run r rq rp moves of None \<Rightarrow> False | Some c \<Rightarrow> ran_to e ms c"
    and "bind_route C header query r = Inr (rq, rp)" and "ce_lib C = ce_lib ex_call"
    and "bound_request C r rq = bound_request ex_call r rq" and "bound_env C r rp = bound_env ex_call r rp"
    and "\<not> ClientStreaming (hr_Method r)" and "ServerStreaming (hr_Method r) \<longrightarrow> rp_streamer rp \<noteq> None"
  obtains c where "completed C header query r rq rp (Inr []) (ex_config r) c e" "received_msgs (fw_trace (hc_fw c)) = ms" "fw_ctx (hc_fw c) = None"
proof -
  obtain c where c: "ex_run r rq rp moves = Some c" "Forward_returned (hc_fw c) e" "received_msgs (fw_trace (hc_fw c)) = ms" "fw_ctx (hc_fw c) = None"
    using assms(1) by (auto simp: ran_to_def split: option.splits)
  have "hc_reachable (ce_lib C) (bound_request C r rq) (Inr []) (bound_env C r rp) (ex_config r) new_response c"
    unfolding assms(3-5) using c(1)[unfolded ex_run_def] by (rule hc_run_reachable) (rule hc_start)
  then show ?thesis using that[OF _ c(3,4)] c(2) assms(2,6,7) by (simp add: completed_def ex_config_def)
qed

lemma ex_run_returns:
  "case ex_run (ex_route ''7'') (ex_rq ''7'') (ex_rp ''7'')
      [Request, Open None, Post None, Answer (Inr ex_seven), Answer (Inl ErrEOF), Reply None, Take] of
      None \<Rightarrow> False | Some c \<Rightarrow> ran_to None [ex_seven] c"
  by code_simp

lemma ex_marshalers:
  "mr_ContentType (rp_marshaler (ex_rp s)) = (''application/json'', False)" "typed_marshaler (rq_marshaler (ex_rq s))"
  "\<not> ClientStreaming (hr_Method (ex_route s))" "\<not> ServerStreaming (hr_Method (ex_route s))"
  by (simp_all add: newRequestTranscoder_def newResponseTranscoder_def ex_mk_typed ex_route_def) (simp add: ex_mk_def)


lemma ex_bad_request: "\<exists>e. bound_request ex_call (ex_route ''x'') (ex_rq ''x'') [] = Inl e"
proof -
  have "isl (bound_request ex_call (ex_route ''x'') (ex_rq ''x'') [])" by code_simp
  then show ?thesis by (simp add: isl_def)
qed

lemma ex_run_refused:
  "\<exists>e. case ex_run (ex_route ''x'') (ex_rq ''x'') (ex_rp ''x'') [Request] of
      None \<Rightarrow> False | Some c \<Rightarrow> ran_to e [] c"
proof -
  have "case ex_run (ex_route ''x'') (ex_rq ''x'') (ex_rp ''x'') [Request] of None \<Rightarrow> False
      | Some c \<Rightarrow> (case fw_main (hc_fw c) of M_Returned e \<Rightarrow> ran_to e [] c | _ \<Rightarrow> False)"
    by code_simp
  then show ?thesis by (auto split: option.splits main_pc.splits)
qed

theorem unary_call_refused_witness:
  "\<exists>c e. completed ex_call (\<lambda>_. [''application/json'']) [] (ex_route ''x'') (ex_rq ''x'') (ex_rp ''x'') (Inr [])
       (ex_config (ex_route ''x'')) c e
     \<and> fw_trace (hc_fw c) = [] \<and> answered (call_response ex_call (\<lambda>_. [''application/json'']) [] (ex_route ''x'') c e)
          (lib_HTTPStatusFromCode (ce_lib ex_call) InvalidArgument) ''application/json'' ''{}''"
proof -
  obtain e err where e: "case ex_run (ex_route ''x'') (ex_rq ''x'') (ex_rp ''x'') [Request] of
      None \<Rightarrow> False | Some c \<Rightarrow> ran_to e [] c"
    "bound_request ex_call (ex_route ''x'') (ex_rq ''x'') [] = Inl err"
    using ex_run_refused ex_bad_request by blast
  obtain c where c: "completed ex_call (\<lambda>_. [''application/json'']) [] (ex_route ''x'') (ex_rq ''x'') (ex_rp ''x'') (Inr [])
      (ex_config (ex_route ''x'')) c e" "fw_ctx (hc_fw c) = None"
    by (rule ex_run_completed[OF e(1) ex_call_bind]) (simp_all add: ex_marshalers)
  have s: "converts_statuses (ce_lib ex_call)" by (simp add: converts_statuses_def ex_call_def ex_lib_def)
  have b: "\<not> body_path_missing (ce_schema ex_call) (rq_req (ex_rq ''x'')) t" for t
    by (simp add: body_path_missing_def newRequestTranscoder_def request_of_route_def ex_route_def)
  from unary_call_refused[OF c(1) e(2) s] c(2) have "fw_trace (hc_fw c) = []"
    "answered (call_response ex_call (\<lambda>_. [''application/json'']) [] (ex_route ''x'') c e)
          (lib_HTTPStatusFromCode (ce_lib ex_call) InvalidArgument) ''application/json'' ''{}''"
    unfolding ex_response by (simp_all add: b ex_marshalers)
  then show ?thesis using c(1) by blast
qed

text \<open>A server stream of two messages as server-sent events.\<close>

definition ex_stream_route :: HTTPRoute where
  "ex_stream_route = ex_route ''7'' \<lparr>hr_Method := (hr_Method (ex_route ''7''))\<lparr>ServerStreaming := True\<rparr>\<rparr>"

definition ex_stream_mk :: "(unit, bool) Marshaler" where
  "ex_stream_mk = ex_mk\<lparr>mr_stream := Some \<lparr>st_Encode = (\<lambda>_ wr _ _. (''{}'', wr ''{}'')), st_Decode = (\<lambda>_ b m _. (b, Inr m))\<rparr>\<rparr>"

definition ex_stream_call :: "(unit, bool) call_env" where
  "ex_stream_call = ex_call\<lparr>ce_transcoder := NewStandardTranscoder ex_stream_mk ex_opts\<rparr>"

abbreviation "ex_accept \<equiv> \<lambda>h. if h = ''Accept'' then [''text/event-stream''] else [''application/json'']"
abbreviation "ex_stream_rq \<equiv> newRequestTranscoder (request_of_route () ex_accept [] ex_stream_route) ex_stream_mk"
abbreviation "ex_stream_rp \<equiv> newResponseTranscoder (request_of_route () ex_accept [] ex_stream_route) ex_stream_mk True"

lemma ex_stream_bind: "bind_route ex_stream_call ex_accept [] ex_stream_route = Inr (ex_stream_rq, ex_stream_rp)"
  by (simp add: bind_route_def ex_stream_call_def ex_call_def Bind_def pickRequestMarshaler_def pickResponseMarshaler_def
      NewStandardTranscoder_def withDefaults_def ex_opts_def request_of_route_def ex_stream_mk_def ex_mk_def ex_stream_route_def ex_route_def)

lemma ex_stream_returns:
  "case ex_run ex_stream_route ex_stream_rq ex_stream_rp
      [Request, Open None, Post None, Answer (Inr ex_seven), Reply None, Answer (Inr ex_seven), Reply None, Answer (Inl ErrEOF), Take] of
      None \<Rightarrow> False | Some c \<Rightarrow> ran_to None [ex_seven, ex_seven] c"
  by code_simp

lemma ex_stream_response: "response_Transcode S ex_stream_rp m = (''{}'', None)"
  by (simp add: response_Transcode_def response_transcodeFunc_def traverseFieldPath_def newResponseTranscoder_def request_of_route_def
      ex_stream_route_def ex_route_def ex_stream_mk_def ex_mk_def)

theorem stream_call_end_to_end_witness:
  "\<exists>c. completed ex_stream_call ex_accept [] ex_stream_route ex_stream_rq ex_stream_rp (Inr []) (ex_config ex_stream_route) c None
     \<and> sse_client (rw_body (call_response ex_stream_call ex_accept [] ex_stream_route c None)) = [''{}'', ''{}'']"
proof -
  have m: "\<not> ClientStreaming (hr_Method ex_stream_route)" "ServerStreaming (hr_Method ex_stream_route)"
    "rp_streamer ex_stream_rp \<noteq> None" "rp_isSSE ex_stream_rp"
    by (simp_all add: ex_stream_route_def ex_route_def newResponseTranscoder_def ex_stream_mk_def)
  obtain c where c: "completed ex_stream_call ex_accept [] ex_stream_route ex_stream_rq ex_stream_rp (Inr []) (ex_config ex_stream_route) c None"
    "received_msgs (fw_trace (hc_fw c)) = [ex_seven, ex_seven]"
    by (rule ex_run_completed[OF ex_stream_returns ex_stream_bind])
      (simp_all add: m ex_stream_call_def bound_request_def bound_env_def fun_eq_iff)
  from stream_call_end_to_end[OF c(1) m(2)] c m(4) show ?thesis
    by (auto simp: ex_stream_response one_line_def strip_space_def)
qed

section \<open>Server-sent events\<close>

text \<open>
  The content type of a stream of server-sent events is that of the marshaler: a client that asked for
  text/event-stream gets application/json, which an EventSource refuses.
\<close>

theorem sse_served_as_json:
  assumes "rp = newResponseTranscoder req (json_marshaler LJ opts S dflt) True" and "hs_readCh s" and "\<not> hs_sent s"
    and "he_resptc E = bound_response S rp" and "he_respstream E = bound_stream S (\<lambda>_. None) rp"
    and "response_Transcode S rp m = (b, None)" and "rw_sent (hs_w s) = None"
  shows "\<exists>s' h. hs_send E None m s = Some (None, s') \<and> rw_sent (hs_w s') = Some (200, h)
     \<and> h contentTypeHeader = [''application/json''] \<and> rw_body (hs_w s') = rw_body (hs_w s) @ sse_frame b"
  using assms
  by (simp add: hs_send_def bound_stream_def bound_response_def newResponseTranscoder_def json_marshaler_def responseStream_Transcode_def
      sse_Transcode_def response_ContentType_def ContentType_json_def sse_frame_def Write_n_def send_status_def set_header_def Let_def)

end
