(* ===== verification/Removal.thy ===== *)
theory Removal
  imports Reflection_Router Resolver_Watch Resolver_Props
begin

text \<open>
  The end of a target's life: Remove of the ReflectionRouter (reflection.go) against the target's resolver
  goroutine (reflection/resolver.go), which is in the middle of anything, and against whatever happens to the other
  targets: updates at any time, Add and Remove when the mutex is free. Remove holds the router's mutex, but the goroutine does not take it: it calls UpdateDesc of the aggregate
  watcher, which calls the watchers of the two routers in turn, and each of these loads its closed flag before
  it changes the routing table under the table's own lock (routing/pattern_router.go, routing/service_router.go).
  The goroutine itself is that of the theory Resolver_Watch.
\<close>

section \<open>State\<close>

datatype update_pc = PatternCheck | PatternApply | ServiceCheck | ServiceApply

text \<open>Where the goroutine is inside a poll, and with which answers of the server it polls.\<close>

datatype report_pc = NotReporting | Reporting libs server Target update_pc | Reported libs server

datatype remove_pc = R_Start | R_PatternFlagged | R_PatternClosed | R_ServiceFlagged | R_ServiceClosed | R_Waiting
  | R_ResolverClosed | R_Returned

text \<open>
  \<open>rm_ts\<close> is the target's state, with the watchers as they are now; \<open>rm_late\<close> is a ghost: an update had
  passed the check of a closed flag when Remove set it.
\<close>

fun reporting_at :: "update_pc \<Rightarrow> report_pc \<Rightarrow> bool" where
  "reporting_at pc (Reporting L sv desc pc') = (pc' = pc)"
| "reporting_at pc _ = False"

record ('conn, 'p) removal =
  rm_rr :: "('conn, 'p) ReflectionRouter"
  rm_ts :: targetState
  rm_ws :: watch_state
  rm_report :: report_pc
  rm_pc :: remove_pc
  rm_late :: bool

definition rm_start :: "('conn, 'p) ReflectionRouter \<Rightarrow> targetState \<Rightarrow> Resolver \<Rightarrow> ('conn, 'p) removal" where
  "rm_start r ts res =
     \<lparr>rm_rr = r, rm_ts = ts, rm_ws = watch_init res, rm_report = NotReporting, rm_pc = R_Start, rm_late = False\<rparr>"

section \<open>The goroutine\<close>

text \<open>resolve has returned, and watch calls UpdateDesc with a new description; ReportError does nothing.\<close>

definition rm_resolve :: "libs \<Rightarrow> server \<Rightarrow> ('conn, 'p) removal \<Rightarrow> ('conn, 'p) removal option" where
  "rm_resolve L sv s =
     (case (rm_report s, rw_pc (rm_ws s)) of
        (NotReporting, Polling) \<Rightarrow>
          Some (s\<lparr>rm_report := (case fst (watch_iteration L sv (rw_res (rm_ws s))) of
                                UpdateDesc desc \<Rightarrow> Reporting L sv desc PatternCheck
                              | _ \<Rightarrow> Reported L sv)\<rparr>)
      | _ \<Rightarrow> None)"

text \<open>UpdateDesc of the two watchers, in the halves that Remove can come between; \<open>None\<close> is also a panic.\<close>

fun rm_UpdateDesc ::
    "'p gw_runtime \<Rightarrow> libs \<Rightarrow> server \<Rightarrow> Target \<Rightarrow> update_pc \<Rightarrow> ('conn, 'p) removal \<Rightarrow> ('conn, 'p) removal option" where
  "rm_UpdateDesc rt L sv desc PatternCheck s =
     (let prw = ts_patternWatcher (rm_ts s)
      in Some (s\<lparr>rm_report := Reporting L sv desc
           (if prw_closed prw \<or> target_Name desc \<noteq> prw_target prw then ServiceCheck else PatternApply)\<rparr>))"
| "rm_UpdateDesc rt L sv desc PatternApply s =
     (let pr = rr_patternRouter (rm_rr s)
      in case mt_addTarget desc (buildPatternRoutes rt desc) (pr_routes pr) of
           None \<Rightarrow> None
         | Some mt \<Rightarrow> Some (s\<lparr>rm_rr := (rm_rr s)\<lparr>rr_patternRouter := pr\<lparr>pr_routes := mt\<rparr>\<rparr>, rm_report := Reporting L sv desc ServiceCheck\<rparr>))"
| "rm_UpdateDesc rt L sv desc ServiceCheck s =
     (let srw = ts_serviceWatcher (rm_ts s)
      in Some (s\<lparr>rm_report :=
           (if srw_closed srw \<or> target_Name desc \<noteq> srw_target srw then Reported L sv else Reporting L sv desc ServiceApply)\<rparr>))"
| "rm_UpdateDesc rt L sv desc ServiceApply s =
     Some (s\<lparr>rm_rr := (rm_rr s)\<lparr>rr_serviceRouter := sr_updateRoutes desc (rr_serviceRouter (rm_rr s))\<rparr>, rm_report := Reported L sv\<rparr>)"

text \<open>The goroutine goes on inside its poll.\<close>

definition rm_poll :: "'p gw_runtime \<Rightarrow> ('conn, 'p) removal \<Rightarrow> ('conn, 'p) removal option" where
  "rm_poll rt s =
     (case rm_report s of
        NotReporting \<Rightarrow> None
      | Reporting L sv desc pc \<Rightarrow> rm_UpdateDesc rt L sv desc pc s
      | Reported L sv \<Rightarrow> map_option (\<lambda>ws. s\<lparr>rm_ws := ws, rm_report := NotReporting\<rparr>) (watch_poll L sv (rm_ws s)))"

text \<open>What it does between polls, and the callers of ResolveNow.\<close>

inductive between_polls :: "watch_state \<Rightarrow> watch_state \<Rightarrow> bool" where
  "watch_timer w = Some w' \<Longrightarrow> between_polls w w'"
| "watch_signal w = Some w' \<Longrightarrow> between_polls w w'"
| "newResolveNow_make w = Some w' \<Longrightarrow> between_polls w w'"
| "newResolveNow_store w = Some w' \<Longrightarrow> between_polls w w'"
| "watch_done w = Some w' \<Longrightarrow> between_polls w w'"
| "watch_return w = Some w' \<Longrightarrow> between_polls w w'"
| "ResolveNow_load c w = Some w' \<Longrightarrow> between_polls w w'"
| "ResolveNow_run c w = Some w' \<Longrightarrow> between_polls w w'"

inductive_cases between_pollsE: "between_polls w w'"

section \<open>Remove\<close>

text \<open>
  The watchers, then the resolver (whose Close waits for the goroutine), then the client. Each watcher's Close sets its
  flag and then removes the routes. \<open>None\<close> is a panic, or the wait.
\<close>

definition rm_Remove :: "('conn, 'p) removal \<Rightarrow> ('conn, 'p) removal option" where
  "rm_Remove s =
     (let r = rm_rr s; ts = rm_ts s; prw = ts_patternWatcher ts; srw = ts_serviceWatcher ts in
      case rm_pc s of
        R_Start \<Rightarrow>
          (if prw_closed prw then None
           else Some (s\<lparr>rm_ts := ts\<lparr>ts_patternWatcher := prw\<lparr>prw_closed := True\<rparr>\<rparr>, rm_pc := R_PatternFlagged,
                  rm_late := (rm_late s \<or> reporting_at PatternApply (rm_report s))\<rparr>))
      | R_PatternFlagged \<Rightarrow>
          (case mt_removeTarget (prw_target prw) (pr_routes (rr_patternRouter r)) of
             None \<Rightarrow> None
           | Some mt \<Rightarrow> Some (s\<lparr>rm_rr := r\<lparr>rr_patternRouter := (rr_patternRouter r)\<lparr>pr_routes := mt,
                  pr_watcherSet := snd (syncset_Remove (prw_target prw) (pr_watcherSet (rr_patternRouter r)))\<rparr>\<rparr>,
                  rm_pc := R_PatternClosed\<rparr>))
      | R_PatternClosed \<Rightarrow>
          (if srw_closed srw then None
           else Some (s\<lparr>rm_ts := ts\<lparr>ts_serviceWatcher := srw\<lparr>srw_closed := True\<rparr>\<rparr>, rm_pc := R_ServiceFlagged,
                  rm_late := (rm_late s \<or> reporting_at ServiceApply (rm_report s))\<rparr>))
      | R_ServiceFlagged \<Rightarrow>
          (let sr = sr_removeTarget (srw_target srw) (rr_serviceRouter r)
           in Some (s\<lparr>rm_rr := r\<lparr>rr_serviceRouter := sr\<lparr>sr_watcherSet := snd (syncset_Remove (srw_target srw) (sr_watcherSet sr))\<rparr>\<rparr>,
                  rm_pc := R_ServiceClosed\<rparr>))
      | R_ServiceClosed \<Rightarrow> Some (s\<lparr>rm_ws := rs_Close_send (rm_ws s), rm_pc := R_Waiting\<rparr>)
      | R_Waiting \<Rightarrow> if rw_closesReturned (rm_ws s) > 0 then Some (s\<lparr>rm_pc := R_ResolverClosed\<rparr>) else None
      | R_ResolverClosed \<Rightarrow>
          (case ctl_Close (ts_poolController ts) (rr_connpool r) of
             None \<Rightarrow> None
           | Some p \<Rightarrow> Some (s\<lparr>rm_rr := r\<lparr>rr_connpool := p, rr_targets := (rr_targets r)(prw_target prw := None)\<rparr>, rm_pc := R_Returned\<rparr>))
      | R_Returned \<Rightarrow> None)"

text \<open>Without interference its steps make up the Remove of the theory Reflection_Router.\<close>

fun rm_removes :: "nat \<Rightarrow> ('conn, 'p) removal \<Rightarrow> ('conn, 'p) removal option" where
  "rm_removes 0 s = Some s"
| "rm_removes (Suc n) s = Option.bind (rm_Remove s) (rm_removes n)"

lemma rm_Remove_sequential:
  assumes "rr_targets (rm_rr s) name = Some (rm_ts s)" and "rm_pc s = R_Start" and "rw_closesReturned (rm_ws s) > 0"
    and "prw_target (ts_patternWatcher (rm_ts s)) = name"
  shows "map_option (\<lambda>s'. (True, rm_rr s')) (rm_removes 7 s) = rr_Remove name (rm_rr s)"
  using assms
  by (auto simp: numeral_eq_Suc rm_Remove_def rr_Remove_def aw_Close_def prw_Close_def srw_Close_def rs_Close_send_def Let_def split: option.splits)

section \<open>Steps\<close>

text \<open>
  What happens to the other targets. Their updates take no lock of the ReflectionRouter: the table of one router is
  updated at any time, for any description of another target, whether it is still there or gone. Their Add and Remove take
  the mutex, which is \<open>free\<close> before Remove has begun and after it has returned.
\<close>

inductive other_targets :: "'p gw_runtime \<Rightarrow> string \<Rightarrow> bool \<Rightarrow> ('conn, 'p) ReflectionRouter \<Rightarrow> ('conn, 'p) ReflectionRouter \<Rightarrow> bool"
  for rt name free r where
  other_pattern: "target_Name desc \<noteq> name \<Longrightarrow>
     mt_addTarget desc (buildPatternRoutes rt desc) (pr_routes (rr_patternRouter r)) = Some mt \<Longrightarrow>
     other_targets rt name free r (r\<lparr>rr_patternRouter := (rr_patternRouter r)\<lparr>pr_routes := mt\<rparr>\<rparr>)"
| other_service: "target_Name desc \<noteq> name \<Longrightarrow>
     other_targets rt name free r (r\<lparr>rr_serviceRouter := sr_updateRoutes desc (rr_serviceRouter r)\<rparr>)"
| other_Add: "free \<Longrightarrow> t \<noteq> name \<Longrightarrow> rr_Add dial t target nopts r = (res, r') \<Longrightarrow> other_targets rt name free r r'"
| other_Remove: "free \<Longrightarrow> t \<noteq> name \<Longrightarrow> rr_Remove t r = Some (b, r') \<Longrightarrow> other_targets rt name free r r'"

definition mutex_free :: "remove_pc \<Rightarrow> bool" where
  "mutex_free pc = (pc \<in> {R_Start, R_Returned})"

inductive rm_step :: "'p gw_runtime \<Rightarrow> string \<Rightarrow> ('conn, 'p) removal \<Rightarrow> ('conn, 'p) removal \<Rightarrow> bool" for rt name where
  rms_resolve: "rm_resolve L sv s = Some s' \<Longrightarrow> rm_step rt name s s'"
| rms_poll: "rm_poll rt s = Some s' \<Longrightarrow> rm_step rt name s s'"
| rms_between: "between_polls (rm_ws s) w \<Longrightarrow> rm_step rt name s (s\<lparr>rm_ws := w\<rparr>)"
| rms_remove: "rm_Remove s = Some s' \<Longrightarrow> rm_step rt name s s'"
| rms_other: "other_targets rt name (mutex_free (rm_pc s)) (rm_rr s) r \<Longrightarrow> rm_step rt name s (s\<lparr>rm_rr := r\<rparr>)"

inductive rm_reachable :: "'p gw_runtime \<Rightarrow> ResolverOpts \<Rightarrow> string \<Rightarrow> ('conn, 'p) removal \<Rightarrow> bool" for rt opts name where
  rmr_start: "rr_reachable rt r \<Longrightarrow> rr_targets r name = Some ts \<Longrightarrow> rm_reachable rt opts name (rm_start r ts (rb_Build opts name))"
| rmr_step: "rm_reachable rt opts name s \<Longrightarrow> rm_step rt name s s' \<Longrightarrow> rm_reachable rt opts name s'"

inductive_cases rm_stepE: "rm_step rt name s s'"

section \<open>The goroutine is that of the resolver\<close>

lemma between_polls_watch: "between_polls w w' \<Longrightarrow> watch_step w w'"
  by (elim between_pollsE) (auto intro: ws_timer ws_done ws_return ws_load ws_run ws_poller poller_step.intros)

lemma rm_step_watch:
  assumes "rm_step rt name s s'"
  shows "rm_ws s' = rm_ws s \<or> watch_step (rm_ws s) (rm_ws s')"
  using assms
proof (rule rm_stepE)
  assume "rm_poll rt s = Some s'"
  then show ?thesis
  proof (cases "rm_report s")
    case (Reporting L sv d pc)
    then show ?thesis using \<open>rm_poll rt s = Some s'\<close>
      by (cases pc) (auto simp: rm_poll_def Let_def split: option.splits)
  qed (auto simp: rm_poll_def dest: ws_poller[OF ps_poll])
next
  assume "rm_Remove s = Some s'"
  then show ?thesis
    using ws_close[of "rm_ws s"] by (auto simp: rm_Remove_def Let_def split: remove_pc.splits option.splits if_splits)
qed (auto simp: rm_resolve_def between_polls_watch split: report_pc.splits rw_pc.splits)

lemma rm_reachable_watch: "rm_reachable rt opts name s \<Longrightarrow> watch_reachable (rb_Build opts name) (rm_ws s)"
proof (induction rule: rm_reachable.induct)
  case (rmr_start r ts)
  then show ?case by (simp add: rm_start_def wr_init)
next
  case (rmr_step s s')
  then show ?case using rm_step_watch[OF rmr_step.hyps(2)] wr_step by auto
qed

section \<open>The invariant\<close>

abbreviation "rm_pw s \<equiv> ts_patternWatcher (rm_ts s)"
abbreviation "rm_sw s \<equiv> ts_serviceWatcher (rm_ts s)"
abbreviation "rm_pr s \<equiv> rr_patternRouter (rm_rr s)"
abbreviation "rm_sr s \<equiv> rr_serviceRouter (rm_rr s)"

definition targets_ok :: "('conn, 'p) ReflectionRouter \<Rightarrow> bool" where
  "targets_ok r \<longleftrightarrow> (\<forall>t ts. rr_targets r t = Some ts \<longrightarrow>
     prw_target (ts_patternWatcher ts) = t \<and> srw_target (ts_serviceWatcher ts) = t
     \<and> pool_Get (rr_connpool r) t = Some (Some (ts_poolController ts)))"

lemma targets_ok_upd [simp]:
  "targets_ok (r\<lparr>rr_patternRouter := pr\<rparr>) = targets_ok r" "targets_ok (r\<lparr>rr_serviceRouter := sr\<rparr>) = targets_ok r"
  by (auto simp: targets_ok_def)

lemma targets_ok_remove:
  "targets_ok r \<Longrightarrow> \<forall>t'. t' \<noteq> t \<longrightarrow> pool_Get p t' = pool_Get (rr_connpool r) t' \<Longrightarrow>
     targets_ok (r\<lparr>rr_connpool := p, rr_targets := (rr_targets r)(t := None)\<rparr>)"
  by (auto simp: targets_ok_def)

text \<open>The state of the tables, which the other targets keep.\<close>

definition tables_ok :: "string \<Rightarrow> ('conn, 'p) removal \<Rightarrow> bool" where
  "tables_ok name s \<longleftrightarrow> pr_inv (rm_pr s) \<and> sr_inv (rm_sr s) \<and> targets_ok (rm_rr s)
   \<and> (rm_late s \<or> rm_pc s \<in> {R_Start, R_PatternFlagged} \<or> pr_view (rm_pr s) name = (\<lambda>_. []))
   \<and> (rm_late s \<or> rm_pc s \<in> {R_Start, R_PatternFlagged, R_PatternClosed, R_ServiceFlagged} \<or> sr_view (rm_sr s) name = {})"

text \<open>The flags, and what the goroutine has seen of them.\<close>

fun report_ok :: "string \<Rightarrow> bool \<Rightarrow> bool \<Rightarrow> report_pc \<Rightarrow> bool" where
  "report_ok name p q (Reporting L sv d PatternApply) = (target_Name d = name \<and> p)"
| "report_ok name p q (Reporting L sv d ServiceApply) = (target_Name d = name \<and> q)"
| "report_ok name p q _ = True"

lemma report_ok_flag:
  "report_ok name p q rep \<Longrightarrow> report_ok name (reporting_at PatternApply rep) q rep"
  "report_ok name p q rep \<Longrightarrow> report_ok name p (reporting_at ServiceApply rep) rep"
  by (cases rule: report_ok.cases[of "(name, p, q, rep)"]; simp)+

lemma report_ok_mono: "report_ok name p q rep \<Longrightarrow> (p \<Longrightarrow> p') \<Longrightarrow> (q \<Longrightarrow> q') \<Longrightarrow> report_ok name p' q' rep"
  by (cases rule: report_ok.cases[of "(name, p, q, rep)"]) auto

definition flags_ok :: "string \<Rightarrow> ('conn, 'p) removal \<Rightarrow> bool" where
  "flags_ok name s \<longleftrightarrow>
     prw_target (rm_pw s) = name \<and> (prw_closed (rm_pw s) \<longleftrightarrow> rm_pc s \<noteq> R_Start)
   \<and> srw_target (rm_sw s) = name \<and> (srw_closed (rm_sw s) \<longleftrightarrow> rm_pc s \<notin> {R_Start, R_PatternFlagged, R_PatternClosed})
   \<and> report_ok name (rm_pc s = R_Start \<or> rm_late s) (rm_pc s \<in> {R_Start, R_PatternFlagged, R_PatternClosed} \<or> rm_late s) (rm_report s)"

definition polls_ok :: "('conn, 'p) removal \<Rightarrow> bool" where
  "polls_ok s \<longleftrightarrow> (rm_report s \<noteq> NotReporting \<longrightarrow> rw_pc (rm_ws s) = Polling)
   \<and> (rm_pc s \<in> {R_ResolverClosed, R_Returned} \<longrightarrow> rw_closesReturned (rm_ws s) > 0)"

text \<open>The client of the target, until Remove closes it.\<close>

definition client_ok :: "string \<Rightarrow> ('conn, 'p) removal \<Rightarrow> bool" where
  "client_ok name s \<longleftrightarrow> pool_inv {} (rr_connpool (rm_rr s))
   \<and> (if rm_pc s = R_Returned then pool_conns (rr_connpool (rm_rr s)) name = None
      else pool_Get (rr_connpool (rm_rr s)) name = Some (Some (ts_poolController (rm_ts s))))"

definition rm_inv :: "string \<Rightarrow> ('conn, 'p) removal \<Rightarrow> bool" where
  "rm_inv name s \<longleftrightarrow> tables_ok name s \<and> flags_ok name s \<and> polls_ok s \<and> client_ok name s"

lemma rm_frames [simp]:
  "tables_ok name (s\<lparr>rm_report := x\<rparr>) = tables_ok name s" "tables_ok name (s\<lparr>rm_ws := w\<rparr>) = tables_ok name s"
  "flags_ok name (s\<lparr>rm_ws := w\<rparr>) = flags_ok name s" "flags_ok name (s\<lparr>rm_rr := r\<rparr>) = flags_ok name s"
  "polls_ok (s\<lparr>rm_rr := r\<rparr>) = polls_ok s" "polls_ok (s\<lparr>rm_ts := ts\<rparr>) = polls_ok s"
  "client_ok name (s\<lparr>rm_report := x\<rparr>) = client_ok name s" "client_ok name (s\<lparr>rm_ws := w\<rparr>) = client_ok name s"
  "rr_connpool r = rr_connpool (rm_rr s) \<Longrightarrow> client_ok name (s\<lparr>rm_rr := r\<rparr>) = client_ok name s"
  by (simp_all add: tables_ok_def flags_ok_def polls_ok_def client_ok_def)

lemma rm_inv_report:
  assumes "rm_inv name s" and "rw_pc (rm_ws s) = Polling"
    and "report_ok name (\<not> prw_closed (rm_pw s) \<or> rm_late s) (\<not> srw_closed (rm_sw s) \<or> rm_late s) rep"
  shows "rm_inv name (s\<lparr>rm_report := rep\<rparr>)"
  using assms by (simp add: rm_inv_def flags_ok_def polls_ok_def)

lemma rm_inv_rr:
  assumes "rm_inv name s" and "tables_ok name (s\<lparr>rm_rr := r\<rparr>)" and "rr_connpool r = rr_connpool (rm_rr s)"
  shows "rm_inv name (s\<lparr>rm_rr := r\<rparr>)"
  using assms by (simp add: rm_inv_def)

lemma rm_inv_targets: "rm_inv name s \<Longrightarrow> prw_target (rm_pw s) = name \<and> srw_target (rm_sw s) = name"
  by (simp add: rm_inv_def flags_ok_def)

text \<open>What the other targets leave as it is.\<close>

definition router_ok :: "('conn, 'p) ReflectionRouter \<Rightarrow> bool" where
  "router_ok r \<longleftrightarrow> pr_inv (rr_patternRouter r) \<and> sr_inv (rr_serviceRouter r) \<and> targets_ok r \<and> pool_inv {} (rr_connpool r)"

definition same_for :: "string \<Rightarrow> ('conn, 'p) ReflectionRouter \<Rightarrow> ('conn, 'p) ReflectionRouter \<Rightarrow> bool" where
  "same_for name r r' \<longleftrightarrow> pr_view (rr_patternRouter r') name = pr_view (rr_patternRouter r) name
   \<and> sr_view (rr_serviceRouter r') name = sr_view (rr_serviceRouter r) name
   \<and> (\<forall>c. pool_Get (rr_connpool r) name = Some (Some c) \<longrightarrow> pool_Get (rr_connpool r') name = Some (Some c))
   \<and> (pool_conns (rr_connpool r) name = None \<longrightarrow> pool_conns (rr_connpool r') name = None)"

lemma other_Add_ok:
  assumes ok: "router_ok r" and t: "t \<noteq> name" and add: "rr_Add dial t target nopts r = (res, r')"
  shows "router_ok r' \<and> same_for name r r'"
proof (cases "rr_targets r t \<noteq> None \<or> nopts > 0")
  case True
  then show ?thesis using ok add by (auto simp: rr_Add_def same_for_def split: if_splits)
next
  case False
  then have free: "rr_targets r t = None" by simp
  obtain pres p where n: "pool_New dial t target (rr_connpool r) = (pres, p)" by fastforce
  have i: "pool_inv {} (rr_connpool r)" using ok by (simp add: router_ok_def)
  note g = pool_New_Get[OF i n]
  have conns: "pool_conns p name = pool_conns (rr_connpool r) name"
    using n t by (auto simp: pool_New_def pool_New_reserve_def pool_New_finish_def Let_def split: option.splits sum.splits)
  have get: "pool_Get (rr_connpool r) t' = Some (Some c) \<Longrightarrow> t' \<noteq> t \<Longrightarrow> pool_Get p t' = Some (Some c)" for t' c
    using g(2,4) by (cases pres) auto
  have ok': "router_ok (r\<lparr>rr_connpool := p\<rparr>)"
  proof -
    have "rr_targets r t' = Some ts \<Longrightarrow> pool_Get p t' = Some (Some (ts_poolController ts))" for t' ts
      using ok get[of t'] free by (cases "t' = t") (auto simp: router_ok_def targets_ok_def)
    then show ?thesis using ok g(1) by (simp add: router_ok_def targets_ok_def)
  qed
  have same: "same_for name r (r\<lparr>rr_connpool := p\<rparr>)" using get t conns by (auto simp: same_for_def)
  show ?thesis
  proof (cases pres)
    case (Inl err)
    then show ?thesis using add False n ok' same by (simp add: rr_Add_def)
  next
    case (Inr c)
    have "pool_Get p t = Some (Some c)" using g(3) Inr by simp
    then show ?thesis
      using add False n ok' same Inr
      by (auto simp: rr_Add_def pr_Watch_def sr_Watch_def router_ok_def targets_ok_def same_for_def pr_inv_def pr_view_def sr_inv_def sr_view_def
          Let_def split: if_splits prod.splits)
  qed
qed

lemma other_Remove_ok:
  assumes ok: "router_ok r" and t: "t \<noteq> name" and rem: "rr_Remove t r = Some (b, r')"
  shows "router_ok r' \<and> same_for name r r'"
proof (cases "rr_targets r t")
  case None
  then show ?thesis using ok rem by (auto simp: rr_Remove_def same_for_def)
next
  case (Some ts)
  have i: "pr_inv (rr_patternRouter r)" "sr_inv (rr_serviceRouter r)" "targets_ok r" "pool_inv {} (rr_connpool r)"
    using ok by (simp_all add: router_ok_def)
  have n: "prw_target (ts_patternWatcher ts) = t" "srw_target (ts_serviceWatcher ts) = t"
    "pool_Get (rr_connpool r) t = Some (Some (ts_poolController ts))" using i(3) Some by (auto simp: targets_ok_def)
  obtain p where p: "ctl_Close (ts_poolController ts) (rr_connpool r) = Some p" "pool_inv {} p"
    "\<forall>t'. t' \<noteq> t \<longrightarrow> pool_Get p t' = pool_Get (rr_connpool r) t'" using ctl_Close_Get[OF i(4) n(3)] by blast
  have conns: "pool_conns (rr_connpool r) name = None \<longrightarrow> pool_conns p name = None"
    using p(1) by (auto simp: ctl_Close_def split: option.splits if_splits)
  obtain pw pr sw sr where c: "prw_Close (ts_patternWatcher ts) (rr_patternRouter r) = Some (pw, pr)"
    "srw_Close (ts_serviceWatcher ts) (rr_serviceRouter r) = Some (sw, sr)"
    and r': "r' = r\<lparr>rr_patternRouter := pr, rr_serviceRouter := sr\<rparr>\<lparr>rr_connpool := p, rr_targets := (rr_targets r)(t := None)\<rparr>"
    using rem Some p(1) by (auto simp: rr_Remove_def aw_Close_def split: option.splits)
  note pc = prw.close_removes[OF i(1) c(1), unfolded n] and sc = srw.close_removes[OF i(2) c(2), unfolded n]
  have "targets_ok r'"
    using targets_ok_remove[of "r\<lparr>rr_patternRouter := pr, rr_serviceRouter := sr\<rparr>" t p] i(3) p(3) unfolding r' by simp
  then show ?thesis using pc sc p conns t unfolding r' by (simp add: router_ok_def same_for_def)
qed

lemma other_targets_ok:
  assumes "other_targets rt name free r r'" and "router_ok r"
  shows "router_ok r' \<and> same_for name r r'"
  using assms(1)
proof (cases rule: other_targets.cases)
  case (other_pattern desc mt)
  let ?w = "\<lparr>prw_target = target_Name desc, prw_closed = False\<rparr>"
  have i: "pr_inv (rr_patternRouter r)" using assms(2) by (simp add: router_ok_def)
  have "prw_update rt ?w desc (rr_patternRouter r) = (rr_patternRouter r)\<lparr>pr_routes := mt\<rparr>"
    using other_pattern(3) by (simp add: prw_update_def prw_UpdateDesc_def)
  then have "pr_inv ((rr_patternRouter r)\<lparr>pr_routes := mt\<rparr>)"
    "pr_view ((rr_patternRouter r)\<lparr>pr_routes := mt\<rparr>) name = pr_view (rr_patternRouter r) name"
    using prw_update_ok(1)[OF i, of rt ?w desc] prw_update_ok(2)[OF i, of name ?w rt desc] other_pattern(2) by simp_all
  then show ?thesis using assms(2) by (simp add: other_pattern(1) router_ok_def same_for_def)
next
  case (other_service desc)
  then show ?thesis using assms(2)
    by (simp add: router_ok_def same_for_def sr_updateRoutes_inv sr_view_update_other)
qed (use assms(2) other_Add_ok other_Remove_ok in blast)+

lemma between_polls_frame:
  "between_polls w w' \<Longrightarrow> (rw_pc w = Polling \<longrightarrow> rw_pc w' = Polling) \<and> rw_closesReturned w \<le> rw_closesReturned w'"
  by (elim between_pollsE) (auto simp: watch_ops Let_def split: if_splits rw_call.splits)

lemma rm_inv_UpdateDesc:
  assumes "rm_inv name s" and "rm_report s = Reporting L sv desc pc" and "rm_UpdateDesc rt L sv desc pc s = Some s'"
  shows "rm_inv name s'"
proof -
  have p: "rw_pc (rm_ws s) = Polling" using assms(1,2) by (simp add: rm_inv_def polls_ok_def)
  have rep: "rm_inv name (s\<lparr>rm_report := rep\<rparr>)"
    if "report_ok name (\<not> prw_closed (rm_pw s) \<or> rm_late s) (\<not> srw_closed (rm_sw s) \<or> rm_late s) rep" for rep
    by (rule rm_inv_report[OF assms(1) p that])
  show ?thesis
  proof (cases pc)
    case PatternCheck
    then show ?thesis using rep rm_inv_targets[OF assms(1)] assms(3) by (auto simp: Let_def)
  next
    case PatternApply
    let ?w = "\<lparr>prw_target = target_Name desc, prw_closed = False\<rparr>"
    obtain pr where pr: "s' = s\<lparr>rm_report := Reporting L sv desc ServiceCheck\<rparr>\<lparr>rm_rr := (rm_rr s)\<lparr>rr_patternRouter := pr\<rparr>\<rparr>"
      "prw_UpdateDesc rt ?w desc (rm_pr s) = Some pr"
      using assms(3) PatternApply by (auto simp: prw_UpdateDesc_def Let_def split: option.splits)
    have "pr_inv pr" using prw_UpdateDesc_ok[of "rm_pr s" rt ?w desc] assms(1) pr(2) by (auto simp: rm_inv_def tables_ok_def)
    moreover have "rm_pc s \<noteq> R_Start \<longrightarrow> rm_late s" using assms(1,2) PatternApply by (simp add: rm_inv_def flags_ok_def) blast
    ultimately have "tables_ok name (s\<lparr>rm_report := Reporting L sv desc ServiceCheck\<rparr>\<lparr>rm_rr := (rm_rr s)\<lparr>rr_patternRouter := pr\<rparr>\<rparr>)"
      using assms(1) by (cases "rm_pc s = R_Start") (simp_all add: rm_inv_def tables_ok_def)
    then show ?thesis unfolding pr(1) by (intro rm_inv_rr rep) simp_all
  next
    case ServiceCheck
    then show ?thesis using rep rm_inv_targets[OF assms(1)] assms(3) by (auto simp: Let_def)
  next
    case ServiceApply
    let ?r = "(rm_rr s)\<lparr>rr_serviceRouter := sr_updateRoutes desc (rm_sr s)\<rparr>"
    have "rm_pc s \<notin> {R_Start, R_PatternFlagged, R_PatternClosed} \<longrightarrow> rm_late s"
      using assms(1,2) ServiceApply by (simp add: rm_inv_def flags_ok_def) blast
    then have "tables_ok name (s\<lparr>rm_report := Reported L sv\<rparr>\<lparr>rm_rr := ?r\<rparr>)"
      using assms(1) by (cases "rm_late s") (auto simp: rm_inv_def tables_ok_def sr_updateRoutes_inv)
    moreover have "s' = s\<lparr>rm_report := Reported L sv\<rparr>\<lparr>rm_rr := ?r\<rparr>" using assms(3) ServiceApply by auto
    ultimately show ?thesis using rm_inv_rr[OF rep] by simp
  qed
qed

lemma rm_inv_poll:
  assumes "rm_inv name s" and "rm_poll rt s = Some s'"
  shows "rm_inv name s'"
proof (cases "rm_report s")
  case (Reporting L sv desc pc)
  then show ?thesis using assms rm_inv_UpdateDesc by (simp add: rm_poll_def)
next
  case (Reported L sv)
  then obtain w where w: "watch_poll L sv (rm_ws s) = Some w" "s' = s\<lparr>rm_ws := w, rm_report := NotReporting\<rparr>"
    using assms(2) by (auto simp: rm_poll_def)
  have "rw_closesReturned w = rw_closesReturned (rm_ws s)" using w(1) by (auto simp: watch_poll_def split: if_splits prod.splits)
  then show ?thesis using assms(1) w(2) by (simp add: rm_inv_def flags_ok_def polls_ok_def)
qed (use assms in \<open>simp add: rm_poll_def\<close>)

lemma rm_inv_resolve:
  assumes "rm_inv name s" and "rm_resolve L sv s = Some s'"
  shows "rm_inv name s'"
proof -
  have "rw_pc (rm_ws s) = Polling" using assms(2) by (simp add: rm_resolve_def split: report_pc.splits rw_pc.splits)
  from rm_inv_report[OF assms(1) this] show ?thesis
    using assms(2) by (auto simp: rm_resolve_def split: report_pc.splits rw_pc.splits watch_event.splits)
qed

lemma rm_inv_Remove:
  assumes "rm_inv name s" and "rm_Remove s = Some s'"
  shows "rm_inv name s'"
proof (cases "rm_pc s")
  case R_Start
  then have s': "s' = s\<lparr>rm_ts := (rm_ts s)\<lparr>ts_patternWatcher := (rm_pw s)\<lparr>prw_closed := True\<rparr>\<rparr>, rm_pc := R_PatternFlagged,
      rm_late := (rm_late s \<or> reporting_at PatternApply (rm_report s))\<rparr>"
    using assms(2) by (simp add: rm_Remove_def Let_def split: if_splits)
  have "report_ok name (rm_late s \<or> reporting_at PatternApply (rm_report s)) True (rm_report s)"
  proof -
    have "report_ok name True True (rm_report s)" using assms(1) R_Start by (simp add: rm_inv_def flags_ok_def)
    then show ?thesis by (rule report_ok_mono[OF report_ok_flag(1)]) simp_all
  qed
  then show ?thesis using assms(1) R_Start unfolding s' by (simp add: rm_inv_def tables_ok_def flags_ok_def polls_ok_def client_ok_def)
next
  case R_PatternFlagged
  let ?w = "\<lparr>prw_target = name, prw_closed = False\<rparr>"
  have i: "pr_inv (rm_pr s)" using assms(1) by (simp add: rm_inv_def tables_ok_def)
  obtain pr where pr: "s' = s\<lparr>rm_rr := (rm_rr s)\<lparr>rr_patternRouter := pr\<rparr>, rm_pc := R_PatternClosed\<rparr>"
    "prw_Close ?w (rm_pr s) = Some (?w\<lparr>prw_closed := True\<rparr>, pr)"
    using assms(2) R_PatternFlagged rm_inv_targets[OF assms(1)] by (auto simp: rm_Remove_def prw_Close_def Let_def split: option.splits)
  have "pr_inv pr \<and> pr_view pr name = (\<lambda>_. [])" using prw.close_removes[OF i pr(2)] by simp
  then show ?thesis using assms(1) R_PatternFlagged unfolding pr(1) by (simp add: rm_inv_def tables_ok_def flags_ok_def polls_ok_def client_ok_def)
next
  case R_PatternClosed
  then have s': "s' = s\<lparr>rm_ts := (rm_ts s)\<lparr>ts_serviceWatcher := (rm_sw s)\<lparr>srw_closed := True\<rparr>\<rparr>, rm_pc := R_ServiceFlagged,
      rm_late := (rm_late s \<or> reporting_at ServiceApply (rm_report s))\<rparr>"
    using assms(2) by (simp add: rm_Remove_def Let_def split: if_splits)
  have "report_ok name (rm_late s \<or> reporting_at ServiceApply (rm_report s)) (rm_late s \<or> reporting_at ServiceApply (rm_report s)) (rm_report s)"
  proof -
    have "report_ok name (rm_late s) True (rm_report s)" using assms(1) R_PatternClosed by (simp add: rm_inv_def flags_ok_def)
    then show ?thesis by (rule report_ok_mono[OF report_ok_flag(2)]) simp_all
  qed
  then show ?thesis using assms(1) R_PatternClosed unfolding s' by (simp add: rm_inv_def tables_ok_def flags_ok_def polls_ok_def client_ok_def) blast
next
  case R_ServiceFlagged
  let ?sr = "(sr_removeTarget name (rm_sr s))\<lparr>sr_watcherSet := snd (syncset_Remove name (sr_watcherSet (rm_sr s)))\<rparr>"
  have s': "s' = s\<lparr>rm_rr := (rm_rr s)\<lparr>rr_serviceRouter := ?sr\<rparr>, rm_pc := R_ServiceClosed\<rparr>"
    using assms(2) R_ServiceFlagged rm_inv_targets[OF assms(1)] by (simp add: rm_Remove_def Let_def)
  show ?thesis using assms(1) R_ServiceFlagged unfolding s'
    by (simp add: rm_inv_def tables_ok_def flags_ok_def polls_ok_def client_ok_def sr_removeTarget_inv sr_view_remove)
next
  case R_ResolverClosed
  have "pool_inv {} (rr_connpool (rm_rr s))" "pool_Get (rr_connpool (rm_rr s)) name = Some (Some (ts_poolController (rm_ts s)))"
    using assms(1) R_ResolverClosed by (simp_all add: rm_inv_def client_ok_def)
  from ctl_Close_Get[OF this] obtain p where p: "ctl_Close (ts_poolController (rm_ts s)) (rr_connpool (rm_rr s)) = Some p"
    "pool_inv {} p" "pool_conns p name = None" "\<forall>t. t \<noteq> name \<longrightarrow> pool_Get p t = pool_Get (rr_connpool (rm_rr s)) t" by blast
  have s': "s' = s\<lparr>rm_rr := (rm_rr s)\<lparr>rr_connpool := p, rr_targets := (rr_targets (rm_rr s))(name := None)\<rparr>, rm_pc := R_Returned\<rparr>"
    using assms(2) R_ResolverClosed p(1) rm_inv_targets[OF assms(1)] by (simp add: rm_Remove_def Let_def)
  have "targets_ok ((rm_rr s)\<lparr>rr_connpool := p, rr_targets := (rr_targets (rm_rr s))(name := None)\<rparr>)"
    by (rule targets_ok_remove) (use assms(1) p(4) in \<open>simp_all add: rm_inv_def tables_ok_def\<close>)
  then show ?thesis using assms(1) R_ResolverClosed p(2,3) unfolding s' by (simp add: rm_inv_def tables_ok_def flags_ok_def polls_ok_def client_ok_def)
next
  case R_ServiceClosed
  then have "s' = s\<lparr>rm_ws := rs_Close_send (rm_ws s), rm_pc := R_Waiting\<rparr>" using assms(2) by (simp add: rm_Remove_def Let_def)
  then show ?thesis using assms(1) R_ServiceClosed by (simp add: rm_inv_def tables_ok_def flags_ok_def polls_ok_def client_ok_def rs_Close_send_def)
next
  case R_Waiting
  then have "s' = s\<lparr>rm_pc := R_ResolverClosed\<rparr>" "rw_closesReturned (rm_ws s) > 0"
    using assms(2) by (simp_all add: rm_Remove_def Let_def split: if_splits)
  then show ?thesis using assms(1) R_Waiting by (simp add: rm_inv_def tables_ok_def flags_ok_def polls_ok_def client_ok_def)
qed (use assms in \<open>simp add: rm_Remove_def Let_def\<close>)

lemma rm_inv_step:
  assumes "rm_inv name s" and "rm_step rt name s s'"
  shows "rm_inv name s'"
  using assms(2)
proof (rule rm_stepE)
  fix w assume s': "s' = s\<lparr>rm_ws := w\<rparr>" "between_polls (rm_ws s) w"
  have "polls_ok (s\<lparr>rm_ws := w\<rparr>)" using assms(1) between_polls_frame[OF s'(2)] by (auto simp: rm_inv_def polls_ok_def)
  then show ?thesis using assms(1) s'(1) by (simp add: rm_inv_def)
next
  fix r assume s': "s' = s\<lparr>rm_rr := r\<rparr>" "other_targets rt name (mutex_free (rm_pc s)) (rm_rr s) r"
  have "router_ok (rm_rr s)" using assms(1) by (simp add: rm_inv_def tables_ok_def client_ok_def router_ok_def)
  from other_targets_ok[OF s'(2) this] show ?thesis
    using assms(1) unfolding s'(1) by (auto simp: rm_inv_def tables_ok_def client_ok_def router_ok_def same_for_def)
qed (use assms(1) in \<open>blast intro: rm_inv_poll rm_inv_resolve rm_inv_Remove\<close>)+

lemma rm_reachable_inv: "rm_reachable rt opts name s \<Longrightarrow> rm_inv name s"
proof (induction rule: rm_reachable.induct)
  case (rmr_start r ts)
  note i = rr_reachable_inv[OF rmr_start(1)]
  have "targets_ok r" using rr_invD(9,10,11)[OF i] by (fastforce simp: targets_ok_def)
  then show ?case
    using rr_invD(1,3,4)[OF i] rr_invD(9,10,11)[OF i rmr_start(2)]
    by (simp add: rm_inv_def tables_ok_def flags_ok_def polls_ok_def client_ok_def rm_start_def)
next
  case (rmr_step s s')
  then show ?case using rm_inv_step by blast
qed

section \<open>After Remove\<close>

text \<open>Once the resolver's Close has returned, the goroutine is past its last poll.\<close>

definition rm_closed :: "('conn, 'p) removal \<Rightarrow> bool" where
  "rm_closed s \<longleftrightarrow> rm_pc s \<in> {R_ResolverClosed, R_Returned} \<and> rw_pc (rm_ws s) \<in> {Stopping, Stopped} \<and> rm_report s = NotReporting"

lemma rm_reachable_closed:
  assumes "rm_reachable rt opts name s" and "rm_pc s \<in> {R_ResolverClosed, R_Returned}"
  shows "rm_closed s"
proof -
  have i: "polls_ok s" using rm_reachable_inv[OF assms(1)] by (simp add: rm_inv_def)
  then have "rw_closesReturned (rm_ws s) > 0" using assms(2) by (auto simp: polls_ok_def)
  then have "rw_pc (rm_ws s) \<in> {Stopping, Stopped}"
    using watch_reachable_close_inv[OF rm_reachable_watch[OF assms(1)]] by (auto simp: close_inv_def split: if_splits)
  then show ?thesis using i assms(2) by (auto simp: rm_closed_def polls_ok_def)
qed

text \<open>What requests are routed by, for one target.\<close>

definition rm_views :: "string \<Rightarrow> ('conn, 'p) removal \<Rightarrow> (string \<Rightarrow> 'p patternRoute targetPatternRoutes list) \<times> (string \<times> serviceRoute) set" where
  "rm_views name s = (pr_view (rm_pr s) name, sr_view (rm_sr s) name)"

lemma rm_closed_step:
  assumes "rm_inv name s" and "rm_closed s" and "rm_step rt name s s'"
  shows "rm_closed s' \<and> rm_views name s' = rm_views name s"
  using assms(3)
proof (rule rm_stepE)
  fix L sv assume "rm_resolve L sv s = Some s'"
  then show ?thesis using assms(2) by (auto simp: rm_resolve_def rm_closed_def split: report_pc.splits rw_pc.splits)
next
  assume "rm_poll rt s = Some s'"
  then show ?thesis using assms(2) by (simp add: rm_poll_def rm_closed_def)
next
  fix w assume s': "s' = s\<lparr>rm_ws := w\<rparr>" "between_polls (rm_ws s) w"
  have "rw_pc w \<in> {Stopping, Stopped}" using stopped_step[OF between_polls_watch[OF s'(2)]] assms(2) by (simp add: rm_closed_def)
  then show ?thesis using assms(2) s'(1) by (simp add: rm_closed_def rm_views_def)
next
  assume r: "rm_Remove s = Some s'"
  then have "rm_pc s = R_ResolverClosed" using assms(2) by (auto simp: rm_closed_def rm_Remove_def Let_def)
  then show ?thesis using r assms(2) by (auto simp: rm_closed_def rm_views_def rm_Remove_def Let_def split: option.splits)
next
  fix r assume s': "s' = s\<lparr>rm_rr := r\<rparr>" "other_targets rt name (mutex_free (rm_pc s)) (rm_rr s) r"
  have "router_ok (rm_rr s)" using assms(1) by (simp add: rm_inv_def tables_ok_def client_ok_def router_ok_def)
  from other_targets_ok[OF s'(2) this] show ?thesis using assms(2) by (simp add: s'(1) rm_closed_def rm_views_def same_for_def)
qed

lemma rm_closed_steps:
  assumes "(rm_step rt name)\<^sup>*\<^sup>* s s'" and "rm_inv name s" and "rm_closed s"
  shows "rm_inv name s' \<and> rm_closed s' \<and> rm_views name s' = rm_views name s"
  using assms(1)
proof (induction rule: rtranclp_induct)
  case base
  then show ?case using assms(2,3) by simp
next
  case (step y z)
  then show ?case using rm_inv_step rm_closed_step by metis
qed

lemma sr_RouteGRPC_client: "sr_RouteGRPC pool sr rpc = Inr (conn, route) \<Longrightarrow> pool (target_Name (gr_Target route)) = Some conn"
  by (auto simp: sr_RouteGRPC_def Let_def split: option.splits prod.splits if_splits)

lemma rm_unroutable:
  assumes "client_ok name s" and "rm_pc s = R_Returned"
  shows "(rr_RouteHTTP rt (rm_rr s) req = Inr (conn, route) \<longrightarrow> target_Name (hr_Target route) \<noteq> name)
    \<and> (rr_RouteGRPC (rm_rr s) rpc = Inr (conn', groute) \<longrightarrow> target_Name (gr_Target groute) \<noteq> name)"
proof -
  have "pool_Get (rr_connpool (rm_rr s)) name = None" using assms by (simp add: client_ok_def pool_Get_def)
  then show ?thesis
    using pr_RouteHTTP_Inr(2)[of rt _ _ req conn route] sr_RouteGRPC_client[of _ _ rpc conn' groute]
    unfolding rr_RouteHTTP_def rr_RouteGRPC_def by fastforce
qed

lemma returned_step: "rm_step rt name s s' \<Longrightarrow> rm_pc s = R_Returned \<Longrightarrow> rm_pc s' = R_Returned"
proof (erule rm_stepE)
  assume "rm_poll rt s = Some s'" "rm_pc s = R_Returned"
  then show "rm_pc s' = R_Returned"
    by (auto simp: rm_poll_def Let_def elim!: rm_UpdateDesc.elims split: report_pc.splits option.splits)
qed (auto simp: rm_resolve_def rm_Remove_def Let_def split: report_pc.splits rw_pc.splits)

lemma returned_steps: "(rm_step rt name)\<^sup>*\<^sup>* s s' \<Longrightarrow> rm_pc s = R_Returned \<Longrightarrow> rm_pc s' = R_Returned"
  by (induction rule: rtranclp_induct) (auto dest: returned_step)

text \<open>
  C10. Remove against the running resolver of its target, whatever the goroutine was doing, while other targets are updated,
  added and removed: once Remove has returned, and until the name is added again, no request is routed to the target, by
  HTTP or gRPC, and the routes that the two routers have for it do not change. There are none, unless an update had passed the
  check of a watcher's closed flag when Remove set that flag.
\<close>
theorem Remove_concurrent:
  assumes "rm_reachable rt opts name s" and "rm_pc s = R_Returned" and "(rm_step rt name)\<^sup>*\<^sup>* s s'"
  shows "(rr_RouteHTTP rt (rm_rr s') req = Inr (conn, route) \<longrightarrow> target_Name (hr_Target route) \<noteq> name)
     \<and> (rr_RouteGRPC (rm_rr s') rpc = Inr (conn', groute) \<longrightarrow> target_Name (gr_Target groute) \<noteq> name)
     \<and> rm_views name s' = rm_views name s \<and> (rm_late s \<or> rm_views name s = ((\<lambda>_. []), {}))"
proof -
  have i: "rm_inv name s" by (rule rm_reachable_inv[OF assms(1)])
  have "rm_closed s" using rm_reachable_closed[OF assms(1)] assms(2) by simp
  note l = rm_closed_steps[OF assms(3) i this]
  have "rm_late s \<or> rm_views name s = ((\<lambda>_. []), {})"
    using i assms(2) by (auto simp: rm_inv_def tables_ok_def rm_views_def)
  moreover have "client_ok name s'" using l by (simp add: rm_inv_def)
  ultimately show ?thesis using l rm_unroutable[OF _ returned_steps[OF assms(3,2)]] by blast
qed

section \<open>Concrete removals\<close>

text \<open>The steps as functions, to run a removal with given answers of the server.\<close>

datatype rm_move = Resolve | Poll | Done | Remove

fun rm_do :: "'p gw_runtime \<Rightarrow> libs \<Rightarrow> server \<Rightarrow> rm_move \<Rightarrow> ('conn, 'p) removal \<Rightarrow> ('conn, 'p) removal option" where
  "rm_do rt L sv Resolve s = rm_resolve L sv s"
| "rm_do rt L sv Poll s = rm_poll rt s"
| "rm_do rt L sv Done s = map_option (\<lambda>w. s\<lparr>rm_ws := w\<rparr>) (watch_done (rm_ws s))"
| "rm_do rt L sv Remove s = rm_Remove s"

fun rm_run :: "'p gw_runtime \<Rightarrow> libs \<Rightarrow> server \<Rightarrow> rm_move list \<Rightarrow> ('conn, 'p) removal \<Rightarrow> ('conn, 'p) removal option" where
  "rm_run rt L sv [] s = Some s"
| "rm_run rt L sv (x # xs) s = Option.bind (rm_do rt L sv x s) (rm_run rt L sv xs)"

lemma rm_do_step: "rm_do rt L sv x s = Some s' \<Longrightarrow> rm_step rt name s s'"
  by (cases x) (auto intro: rm_step.intros between_polls.intros)

lemma rm_run_reachable:
  "rm_run rt L sv xs s = Some s' \<Longrightarrow> rm_reachable rt opts name s \<Longrightarrow> rm_reachable rt opts name s'"
proof (induction xs arbitrary: s)
  case (Cons x xs)
  then show ?case by (auto simp: bind_eq_Some_conv dest: rm_do_step intro: rmr_step)
qed simp

definition ex_rr :: "(unit, string list \<times> string) ReflectionRouter" where
  "ex_rr = snd (rr_Add (\<lambda>_. Inr ()) ''a'' ''x'' 0 NewReflectionRouter)"

definition ex_removal :: "(unit, string list \<times> string) removal" where
  "ex_removal = rm_start ex_rr (the (rr_targets ex_rr ''a'')) (rb_Build (ex_opts True) ''a'')"

lemma ex_removal_reachable: "rm_reachable lit_rt (ex_opts True) ''a'' ex_removal"
proof -
  have "case rr_targets ex_rr ''a'' of None \<Rightarrow> False | Some ts \<Rightarrow> True" by code_simp
  then obtain ts where "rr_targets ex_rr ''a'' = Some ts" by (auto split: option.splits)
  moreover have "rr_reachable lit_rt ex_rr" unfolding ex_rr_def by (rule rr_add[OF rr_new]) (rule prod.collapse[symmetric])
  ultimately show ?thesis using rmr_start by (simp add: ex_removal_def)
qed

lemma ex_removed:
  "case rm_run lit_rt ex_libs (ex_server [''S'']) ([Resolve, Poll, Poll, Poll, Poll, Poll] @ replicate 5 Remove @ [Done, Remove, Remove]) ex_removal of
     None \<Rightarrow> False | Some s \<Rightarrow> rm_pc s = R_Returned \<and> \<not> rm_late s"
  by code_simp

lemma ex_overtaken:
  "case rm_run lit_rt ex_libs (ex_server [''S'']) ([Resolve, Poll, Poll, Poll] @ replicate 5 Remove @ [Poll, Poll, Done, Remove, Remove]) ex_removal of
     None \<Rightarrow> False | Some s \<Rightarrow> rm_pc s = R_Returned \<and> rm_late s \<and> sr_owner (sr_routes (rm_sr s)) ''S'' = Some ''a''"
  by code_simp

lemma run_obtain:
  assumes "case rm_run rt L sv xs s of None \<Rightarrow> False | Some s \<Rightarrow> P s" and "rm_reachable rt opts name s"
  shows "\<exists>s'. rm_reachable rt opts name s' \<and> P s'"
  using assms rm_run_reachable[of rt L sv xs s _ opts name] by (auto split: option.splits)

theorem Remove_concurrent_witness:
  "\<exists>s :: (unit, string list \<times> string) removal. rm_reachable lit_rt (ex_opts True) ''a'' s \<and> rm_pc s = R_Returned \<and> rm_views ''a'' s = ((\<lambda>_. []), {})"
proof -
  obtain s :: "(unit, string list \<times> string) removal" where s: "rm_reachable lit_rt (ex_opts True) ''a'' s" "rm_pc s = R_Returned \<and> \<not> rm_late s"
    using run_obtain[OF ex_removed ex_removal_reachable] by blast
  have "rm_pc s = R_Returned" using s(2) by simp
  from Remove_concurrent[OF s(1) this rtranclp.rtrancl_refl] s show ?thesis by blast
qed

text \<open>
  Remove does not keep what it documents when the goroutine is inside UpdateDesc: in this run the update of the service
  router has passed its check when Remove closes the watcher, and adds the route after Remove has taken the routes away. The
  route stays for good: whatever the other targets offer, and until the name is added again, the service belongs to the target that is gone.
\<close>
theorem Remove_overtaken:
  "\<exists>s :: (unit, string list \<times> string) removal. rm_reachable lit_rt (ex_opts True) ''a'' s \<and> rm_pc s = R_Returned
     \<and> (\<forall>s'. (rm_step lit_rt ''a'')\<^sup>*\<^sup>* s s' \<longrightarrow> sr_owner (sr_routes (rm_sr s')) ''S'' = Some ''a'')"
proof -
  obtain s :: "(unit, string list \<times> string) removal" where s: "rm_reachable lit_rt (ex_opts True) ''a'' s"
    "rm_pc s = R_Returned \<and> rm_late s \<and> sr_owner (sr_routes (rm_sr s)) ''S'' = Some ''a''"
    using run_obtain[OF ex_overtaken ex_removal_reachable] by blast
  obtain r where r: "(''S'', r) \<in> sr_view (rm_sr s) ''a''" using s(2) by (auto simp: sr_view_def sr_owner_def)
  have "sr_owner (sr_routes (rm_sr s')) ''S'' = Some ''a''" if "(rm_step lit_rt ''a'')\<^sup>*\<^sup>* s s'" for s'
  proof -
    have "rm_closed s" using rm_reachable_closed[OF s(1)] s(2) by simp
    then have "rm_views ''a'' s' = rm_views ''a'' s" using rm_closed_steps[OF that rm_reachable_inv[OF s(1)]] by blast
    then show ?thesis using r by (auto simp: rm_views_def sr_view_def sr_owner_def)
  qed
  then show ?thesis using s by blast
qed

end
