(* ===== verification/Removal_Returns.thy ===== *)
theory Removal_Returns
  imports Removal
begin

text \<open>
  Remove of the ReflectionRouter is never stuck: the goroutine that it waits for gets to its select from wherever it
  is in a poll, without anything that Remove holds.
\<close>

section \<open>Each of the two moves on\<close>

lemma Remove_moves:
  assumes "rm_inv name s" and "rm_pc s \<notin> {R_Waiting, R_Returned}"
  obtains s' where "rm_Remove s = Some s'"
proof -
  let ?w = "\<lparr>prw_target = name, prw_closed = False\<rparr>"
  have i: "pr_inv (rm_pr s)" "pool_inv {} (rr_connpool (rm_rr s))" using assms(1) by (simp_all add: rm_inv_def tables_ok_def client_ok_def)
  obtain pr where pr: "prw_Close ?w (rm_pr s) = Some (?w\<lparr>prw_closed := True\<rparr>, pr)" using prw_Close_ok[OF i(1), of ?w] by auto
  have "rm_pc s = R_ResolverClosed \<Longrightarrow> \<exists>p. ctl_Close (ts_poolController (rm_ts s)) (rr_connpool (rm_rr s)) = Some p"
    using ctl_Close_Get[OF i(2), of name "ts_poolController (rm_ts s)"] assms(1) by (simp add: rm_inv_def client_ok_def) blast
  moreover have "rm_pc s = R_Start \<Longrightarrow> \<not> prw_closed (rm_pw s)" "rm_pc s = R_PatternClosed \<Longrightarrow> \<not> srw_closed (rm_sw s)"
    using assms(1) by (simp_all add: rm_inv_def flags_ok_def)
  ultimately have "rm_Remove s \<noteq> None"
    using assms(2) pr rm_inv_targets[OF assms(1)]
    by (cases "rm_pc s") (auto simp: rm_Remove_def prw_Close_def Let_def split: option.splits)
  then show ?thesis using that by auto
qed

abbreviation same_remove :: "('conn, 'p) removal \<Rightarrow> ('conn, 'p) removal \<Rightarrow> bool" where
  "same_remove s s' \<equiv> rm_pc s' = rm_pc s \<and> rw_closers (rm_ws s') = rw_closers (rm_ws s)
     \<and> rw_closesReturned (rm_ws s') = rw_closesReturned (rm_ws s)"

text \<open>A poll ends, whatever it is at.\<close>

lemma poll_moves:
  assumes "rm_inv name s" and "rm_report s = Reporting L sv desc pc"
  obtains s' where "rm_poll rt s = Some s'" "same_remove s s'"
    "rm_report s' = Reported L sv \<or> (\<exists>pc'. rm_report s' = Reporting L sv desc pc' \<and> (pc, pc') \<in> {(PatternCheck, PatternApply),
       (PatternCheck, ServiceCheck), (PatternApply, ServiceCheck), (ServiceCheck, ServiceApply)})"
proof -
  let ?w = "\<lparr>prw_target = target_Name desc, prw_closed = False\<rparr>"
  obtain pr where "prw_UpdateDesc rt ?w desc (rm_pr s) = Some pr"
    using prw_UpdateDesc_ok[of "rm_pr s" rt ?w desc] assms(1) by (auto simp: rm_inv_def tables_ok_def)
  then have "\<exists>mt. mt_addTarget desc (buildPatternRoutes rt desc) (pr_routes (rm_pr s)) = Some mt"
    by (auto simp: prw_UpdateDesc_def split: option.splits)
  then show ?thesis using that assms(2) by (cases pc) (auto simp: rm_poll_def Let_def split: if_splits)
qed

abbreviation can_reach :: "'p gw_runtime \<Rightarrow> string \<Rightarrow> ('conn, 'p) removal \<Rightarrow> (('conn, 'p) removal \<Rightarrow> bool) \<Rightarrow> bool" where
  "can_reach rt name s P \<equiv> \<exists>s'. (rm_step rt name)\<^sup>*\<^sup>* s s' \<and> P s'"

lemma can_reach_step: "rm_step rt name s s' \<Longrightarrow> can_reach rt name s' P \<Longrightarrow> can_reach rt name s P"
  by (meson converse_rtranclp_into_rtranclp)

lemma can_reach_trans: "can_reach rt name s P \<Longrightarrow> (\<And>s'. (rm_step rt name)\<^sup>*\<^sup>* s s' \<Longrightarrow> P s' \<Longrightarrow> can_reach rt name s' Q) \<Longrightarrow> can_reach rt name s Q"
  by (meson rtranclp_trans)

fun update_left :: "report_pc \<Rightarrow> nat" where
  "update_left (Reporting L sv desc pc) =
     (case pc of PatternCheck \<Rightarrow> 4 | PatternApply \<Rightarrow> 3 | ServiceCheck \<Rightarrow> 2 | ServiceApply \<Rightarrow> 1)"
| "update_left _ = 0"

lemma update_ends:
  "rm_inv name s \<Longrightarrow> rm_report s = Reporting L sv desc pc \<Longrightarrow>
     can_reach rt name s (\<lambda>s'. same_remove s s' \<and> (\<exists>L sv. rm_report s' = Reported L sv))"
proof (induction "update_left (rm_report s)" arbitrary: s pc rule: less_induct)
  case less
  obtain s' where s': "rm_poll rt s = Some s'" "same_remove s s'"
    "rm_report s' = Reported L sv \<or> (\<exists>pc'. rm_report s' = Reporting L sv desc pc' \<and> (pc, pc') \<in> {(PatternCheck, PatternApply),
       (PatternCheck, ServiceCheck), (PatternApply, ServiceCheck), (ServiceCheck, ServiceApply)})"
    by (rule poll_moves[OF less.prems(1,2)])
  have i: "rm_inv name s'" by (rule rm_inv_poll[OF less.prems(1) s'(1)])
  have "can_reach rt name s' (\<lambda>s''. same_remove s' s'' \<and> (\<exists>L sv. rm_report s'' = Reported L sv))"
  proof (cases "\<exists>pc'. rm_report s' = Reporting L sv desc pc'")
    case True
    then obtain pc' where "rm_report s' = Reporting L sv desc pc'" by blast
    then show ?thesis using s'(3) less.prems(2) by (intro less.hyps[OF _ i]) auto
  qed (use s'(3) in auto)
  then show ?case using can_reach_step[OF rms_poll[OF s'(1)]] s'(2) by auto
qed

lemma report_ends:
  assumes "rm_inv name s" and "rm_report s \<noteq> NotReporting"
  shows "can_reach rt name s (\<lambda>s'. same_remove s s' \<and> rm_report s' = NotReporting \<and> rw_pc (rm_ws s') = Selecting)"
proof -
  have fin: "can_reach rt name s' (\<lambda>s''. same_remove s' s'' \<and> rm_report s'' = NotReporting \<and> rw_pc (rm_ws s'') = Selecting)"
    if "rm_inv name s'" "rm_report s' = Reported L sv" for s' L sv
  proof -
    have "rw_pc (rm_ws s') = Polling" using that by (simp add: rm_inv_def polls_ok_def)
    then obtain w where "watch_poll L sv (rm_ws s') = Some w" "rw_pc w = Selecting" "rw_closers w = rw_closers (rm_ws s')"
      "rw_closesReturned w = rw_closesReturned (rm_ws s')" by (cases "watch_iteration L sv (rw_res (rm_ws s'))") (simp add: watch_poll_def)
    then show ?thesis using rms_poll[of rt s' "s'\<lparr>rm_ws := w, rm_report := NotReporting\<rparr>" name] that(2)
      by (intro exI[of _ "s'\<lparr>rm_ws := w, rm_report := NotReporting\<rparr>"]) (auto simp: rm_poll_def)
  qed
  show ?thesis
  proof (cases "rm_report s")
    case (Reporting L sv desc pc)
    show ?thesis
    proof (rule can_reach_trans[OF update_ends[OF assms(1) Reporting]])
      fix s' assume s': "(rm_step rt name)\<^sup>*\<^sup>* s s'" "same_remove s s' \<and> (\<exists>L sv. rm_report s' = Reported L sv)"
      have "rm_inv name s'" using s'(1) assms(1) by (induction rule: rtranclp_induct) (auto intro: rm_inv_step)
      then show "can_reach rt name s' (\<lambda>s'. same_remove s s' \<and> rm_report s' = NotReporting \<and> rw_pc (rm_ws s') = Selecting)"
        using fin[of s'] s'(2) by auto
    qed
  qed (use assms fin in auto)
qed

lemma inv_steps: "(rm_step rt name)\<^sup>*\<^sup>* s s' \<Longrightarrow> rm_inv name s \<Longrightarrow> rm_inv name s'"
  by (induction rule: rtranclp_induct) (auto intro: rm_inv_step)

text \<open>The goroutine gets to its select, unless it has left its loop.\<close>

lemma poll_ends:
  assumes "rm_inv name s" and "rw_pc (rm_ws s) = Polling"
  shows "can_reach rt name s (\<lambda>s'. same_remove s s' \<and> rm_report s' = NotReporting \<and> rw_pc (rm_ws s') = Selecting)"
proof (cases "rm_report s")
  case NotReporting
  fix L sv
  obtain s' where s': "rm_resolve L sv s = Some s'" "same_remove s s'" "rm_report s' \<noteq> NotReporting"
    using NotReporting assms(2) by (auto simp: rm_resolve_def split: watch_event.split)
  from report_ends[OF rm_inv_resolve[OF assms(1) s'(1)] s'(3), of rt] can_reach_step[OF rms_resolve[OF s'(1)]] s'(2)
  show ?thesis by auto
qed (use report_ends[OF assms(1)] in auto)

lemma between_step: "between_polls (rm_ws s) w \<Longrightarrow> can_reach rt name (s\<lparr>rm_ws := w\<rparr>) P \<Longrightarrow> can_reach rt name s P"
  by (rule can_reach_step[OF rms_between])

lemma reaches_select:
  assumes "rm_inv name s" and "rw_pc (rm_ws s) \<notin> {Stopping, Stopped}"
  shows "can_reach rt name s (\<lambda>s'. same_remove s s' \<and> rm_report s' = NotReporting \<and> rw_pc (rm_ws s') = Selecting)"
proof -
  have storing: "can_reach rt name s (\<lambda>s'. same_remove s s' \<and> rm_report s' = NotReporting \<and> rw_pc (rm_ws s') = Selecting)"
    if i: "rm_inv name s" and p: "rw_pc (rm_ws s) = Storing" for s :: "('a, 'b) removal"
  proof -
    obtain w where w: "newResolveNow_store (rm_ws s) = Some w" "rw_pc w = Polling" "rw_closers w = rw_closers (rm_ws s)"
      "rw_closesReturned w = rw_closesReturned (rm_ws s)" using p by (auto simp: newResolveNow_store_def begin_poll_def)
    note b = between_polls.intros(4)[OF w(1)]
    from poll_ends[OF rm_inv_step[OF i rms_between[OF b]], of rt] w show ?thesis by (intro between_step[OF b]) auto
  qed
  show ?thesis
  proof (cases "rw_pc (rm_ws s)")
    case Making
    obtain w where w: "newResolveNow_make (rm_ws s) = Some w" "rw_pc w = Storing" "rw_closers w = rw_closers (rm_ws s)"
      "rw_closesReturned w = rw_closesReturned (rm_ws s)" using Making by (auto simp: newResolveNow_make_def)
    note b = between_polls.intros(3)[OF w(1)]
    from storing[OF rm_inv_step[OF assms(1) rms_between[OF b]]] w show ?thesis by (intro between_step[OF b]) auto
  next
    case Selecting
    then have "rm_report s = NotReporting" using assms(1) by (auto simp: rm_inv_def polls_ok_def)
    then show ?thesis using Selecting by auto
  qed (use assms storing poll_ends in auto)
qed

lemma reachable_steps: "(rm_step rt name)\<^sup>*\<^sup>* s s' \<Longrightarrow> rm_reachable rt opts name s \<Longrightarrow> rm_reachable rt opts name s'"
  by (induction rule: rtranclp_induct) (auto intro: rmr_step)

definition close_sent :: "('conn, 'p) removal \<Rightarrow> bool" where
  "close_sent s \<longleftrightarrow> (rm_pc s = R_Waiting \<longrightarrow> rw_closers (rm_ws s) + rw_closesReturned (rm_ws s) > 0)"

lemma between_polls_closers:
  "between_polls w w' \<Longrightarrow> rw_closers w' + rw_closesReturned w' = rw_closers w + rw_closesReturned w"
  by (elim between_pollsE) (auto simp: watch_ops Let_def split: if_splits rw_call.splits)

lemma poll_closers:
  assumes "rm_poll rt s = Some s'"
  shows "same_remove s s'"
proof (cases "rm_report s")
  case (Reporting L sv desc pc)
  then show ?thesis using assms by (cases pc) (auto simp: rm_poll_def Let_def split: option.splits)
qed (use assms in \<open>auto simp: rm_poll_def watch_poll_def split: if_splits prod.splits\<close>)

lemma close_sent_step: "rm_step rt name s s' \<Longrightarrow> close_sent s \<Longrightarrow> close_sent s'"
proof (erule rm_stepE)
  show "rm_poll rt s = Some s' \<Longrightarrow> close_sent s \<Longrightarrow> close_sent s'" using poll_closers[of rt s s'] by (simp add: close_sent_def)
next
  fix w show "s' = s\<lparr>rm_ws := w\<rparr> \<Longrightarrow> between_polls (rm_ws s) w \<Longrightarrow> close_sent s \<Longrightarrow> close_sent s'"
    using between_polls_closers[of "rm_ws s" w] by (simp add: close_sent_def)
next
  show "rm_Remove s = Some s' \<Longrightarrow> close_sent s \<Longrightarrow> close_sent s'"
    by (auto simp: close_sent_def rm_Remove_def rs_Close_send_def Let_def split: remove_pc.splits option.splits if_splits)
qed (auto simp: close_sent_def rm_resolve_def split: report_pc.splits rw_pc.splits)

lemma rm_reachable_close_sent: "rm_reachable rt opts name s \<Longrightarrow> close_sent s"
proof (induction rule: rm_reachable.induct)
  case (rmr_start r ts)
  then show ?case by (simp add: close_sent_def rm_start_def)
next
  case (rmr_step s s')
  then show ?case using close_sent_step by blast
qed

lemma waiting_ends:
  assumes "rm_reachable rt opts name s" and "rm_pc s = R_Waiting"
  shows "can_reach rt name s (\<lambda>s'. rm_pc s' = R_ResolverClosed)"
proof -
  have closed: "can_reach rt name s (\<lambda>s'. rm_pc s' = R_ResolverClosed)"
    if "rm_pc s = R_Waiting" "rw_closesReturned (rm_ws s) > 0" for s :: "('b, 'a) removal"
    using that rms_remove[of s "s\<lparr>rm_pc := R_ResolverClosed\<rparr>" rt name]
    by (intro exI[of _ "s\<lparr>rm_pc := R_ResolverClosed\<rparr>"]) (auto simp: rm_Remove_def Let_def)
  show ?thesis
  proof (cases "rw_closesReturned (rm_ws s) > 0")
    case False
    then have c: "rw_closers (rm_ws s) > 0" using rm_reachable_close_sent[OF assms(1)] assms(2) by (simp add: close_sent_def)
    have "rw_pc (rm_ws s) \<notin> {Stopping, Stopped}"
      using watch_reachable_close_inv[OF rm_reachable_watch[OF assms(1)]] False by (auto simp: close_inv_def)
    note sel = reaches_select[OF rm_reachable_inv[OF assms(1)] this, of rt]
    show ?thesis
    proof (rule can_reach_trans[OF sel])
      fix s' assume "same_remove s s' \<and> rm_report s' = NotReporting \<and> rw_pc (rm_ws s') = Selecting"
      then obtain w where "watch_done (rm_ws s') = Some w" "rw_closesReturned w > 0" "rm_pc s' = R_Waiting"
        using c assms(2) by (auto simp: watch_done_def)
      then show "can_reach rt name s' (\<lambda>s'. rm_pc s' = R_ResolverClosed)"
        using closed[of "s'\<lparr>rm_ws := w\<rparr>"] between_polls.intros(5) by (intro between_step) auto
    qed
  qed (use closed assms(2) in blast)
qed

fun remove_left :: "remove_pc \<Rightarrow> nat" where
  "remove_left R_Start = 7" | "remove_left R_PatternFlagged = 6" | "remove_left R_PatternClosed = 5"
| "remove_left R_ServiceFlagged = 4" | "remove_left R_ServiceClosed = 3" | "remove_left R_Waiting = 2"
| "remove_left R_ResolverClosed = 1" | "remove_left R_Returned = 0"

lemma rm_Remove_left: "rm_Remove s = Some s' \<Longrightarrow> remove_left (rm_pc s') < remove_left (rm_pc s)"
  by (auto simp: rm_Remove_def Let_def split: remove_pc.splits option.splits if_splits)

lemma Remove_can_return: "rm_reachable rt opts name s \<Longrightarrow> can_reach rt name s (\<lambda>s'. rm_pc s' = R_Returned)"
proof (induction "remove_left (rm_pc s)" arbitrary: s rule: less_induct)
  case less
  consider "rm_pc s = R_Returned" | "rm_pc s = R_Waiting" | "rm_pc s \<notin> {R_Waiting, R_Returned}" by blast
  then show ?case
  proof cases
    case 2
    show ?thesis
    proof (rule can_reach_trans[OF waiting_ends[OF less.prems 2]])
      fix s' assume "(rm_step rt name)\<^sup>*\<^sup>* s s'" "rm_pc s' = R_ResolverClosed"
      then show "can_reach rt name s' (\<lambda>s'. rm_pc s' = R_Returned)"
        using less.hyps[OF _ reachable_steps[OF _ less.prems]] 2 by simp
    qed
  next
    case 3
    obtain s' where s': "rm_Remove s = Some s'" by (rule Remove_moves[OF rm_reachable_inv[OF less.prems] 3])
    note st = rms_remove[OF s', of rt name]
    show ?thesis by (rule can_reach_step[OF st less.hyps[OF rm_Remove_left[OF s'] rmr_step[OF less.prems st]]])
  qed auto
qed

lemma rm_poll_moves:
  assumes "rm_inv name s" and "rm_report s \<noteq> NotReporting"
  shows "rm_poll rt s \<noteq> None"
proof (cases "rm_report s")
  case (Reporting L sv desc pc)
  obtain s' where "rm_poll rt s = Some s'" by (rule poll_moves[OF assms(1) Reporting])
  then show ?thesis by simp
next
  case (Reported L sv)
  then have "rw_pc (rm_ws s) = Polling" using assms(1) by (simp add: rm_inv_def polls_ok_def)
  then show ?thesis using Reported by (simp add: rm_poll_def watch_poll_def split: prod.split)
qed (use assms in simp)

text \<open>
  C31. Remove is never stuck, and neither it nor the goroutine panics: from every reachable state, with the resolver's goroutine
  at whatever point, there is a run in which Remove returns (it waits for the goroutine's poll, which needs nothing that
  Remove holds); Remove can take a step unless it waits for the goroutine, and a goroutine inside its poll always can.
\<close>
theorem Remove_returns:
  assumes "rm_reachable rt opts name s"
  shows "(\<exists>s'. (rm_step rt name)\<^sup>*\<^sup>* s s' \<and> rm_pc s' = R_Returned)
    \<and> (rm_Remove s \<noteq> None \<or> rm_pc s \<in> {R_Waiting, R_Returned}) \<and> (rm_poll rt s \<noteq> None \<or> rm_report s = NotReporting)"
proof (intro conjI)
  have i: "rm_inv name s" by (rule rm_reachable_inv[OF assms])
  show "\<exists>s'. (rm_step rt name)\<^sup>*\<^sup>* s s' \<and> rm_pc s' = R_Returned" using Remove_can_return[OF assms] by blast
  show "rm_Remove s \<noteq> None \<or> rm_pc s \<in> {R_Waiting, R_Returned}" using Remove_moves[OF i] by blast
  show "rm_poll rt s \<noteq> None \<or> rm_report s = NotReporting" using rm_poll_moves[OF i] by blast
qed

theorem Remove_returns_witness:
  "(\<exists>s'. (rm_step lit_rt ''a'')\<^sup>*\<^sup>* ex_removal s' \<and> rm_pc s' = R_Returned) \<and> rm_Remove ex_removal \<noteq> None"
  using Remove_returns[OF ex_removal_reachable] by (simp add: ex_removal_def rm_start_def)

end
