(* ===== verification/Forwarded_Grpc_Web.thy ===== *)
theory Forwarded_Grpc_Web
  imports Forwarded_Http Grpc_Web "HOL-Library.Sublist"
begin

text \<open>
  The forwarder on the stream of the gRPC-Web bridge (gRPCWebStream of webbridge/grpcweb.go), for methods of all four kinds:
  the calls that both of its goroutines make on their incoming stream are those of the bridge, the results of the calls on
  the server's stream are left to the environment. Reading and writing touch different parts of the stream, so that
  the goroutines' calls are steps that interleave. As in the theory Forwarded_Http the context may end at any
  point, and leave the goroutine of a Recv or Send running; a write may fail.
\<close>

section \<open>The composed system\<close>

record 'm web_call =
  gc_fw :: "('m, query) fw_state"
  gc_gs :: gRPCWebStream
  gc_sending :: "'m option"
  gc_receiving :: bool

record 'm web_codec =
  co_marshal :: "'m \<Rightarrow> go_error + string"
  co_unmarshal :: "string \<Rightarrow> go_error + 'm"
  co_empty :: 'm

text \<open>The stream that ServeHTTP hands to Forward.\<close>

definition gc_init :: "('m, query) fw_config \<Rightarrow> http_body \<Rightarrow> response \<Rightarrow> 'm web_call" where
  "gc_init cf body w =
     \<lparr>gc_fw = fw_init cf, gc_gs = \<lparr>gs_w = set_header ''Content-Type'' [''application/grpc-web+proto''] w, gs_body = body, gs_trailer = []\<rparr>,
      gc_sending = None, gc_receiving = False\<rparr>"

fun gs_md :: "('m, query) fw_event list \<Rightarrow> gRPCWebStream \<Rightarrow> gRPCWebStream" where
  "gs_md [] s = s"
| "gs_md (SetHeader md # es) s = gs_md es (gs_SetHeader md s)"
| "gs_md (SetTrailer md # es) s = gs_md es (gs_SetTrailer md s)"
| "gs_md (e # es) s = gs_md es s"

text \<open>The Recv of either form of Forward, and the steps that do not use the incoming stream.\<close>

definition incoming_received :: "go_error + 'm \<Rightarrow> ('m, query) fw_state \<Rightarrow> ('m, query) fw_state option" where
  "incoming_received r f = (case fw_main f of MU_Recv \<Rightarrow> mu_recv r f | _ \<Rightarrow> i2o_recv r f)"

inductive fw_quiet :: "('m, 'md) fw_config \<Rightarrow> ('m, 'md) fw_state \<Rightarrow> ('m, 'md) fw_state \<Rightarrow> bool" for cf where
  q_stream: "m_stream cf e f = Some f' \<Longrightarrow> fw_quiet cf f f'"
| q_ustream: "mu_stream e f = Some f' \<Longrightarrow> fw_quiet cf f f'"
| q_usend: "mu_send cf e f = Some f' \<Longrightarrow> fw_quiet cf f f'"
| q_send: "i2o_send e f = Some f' \<Longrightarrow> fw_quiet cf f f'"
| q_i2o: "m_i2o f = Some f' \<Longrightarrow> fw_quiet cf f f'"
| q_o2i: "m_o2i f = Some f' \<Longrightarrow> fw_quiet cf f f'"
| q_ctx_done: "m_ctx_done f = Some f' \<Longrightarrow> fw_quiet cf f f'"
| q_ctx_end: "fw_ctx f = None \<Longrightarrow> fw_quiet cf f (f\<lparr>fw_ctx := Some e\<rparr>)"

text \<open>
  \<open>wr\<close> is how a write goes. A Recv or Send interrupted by the context returns its error; the body that it leaves
  running may read a message that nobody gets, or write one, at any later point.
\<close>

inductive gc_step :: "'m web_codec \<Rightarrow> ('m, query) fw_config \<Rightarrow> 'm web_call \<Rightarrow> 'm web_call \<Rightarrow> bool" for Co cf where
  gc_read: "gs_recv (co_unmarshal Co) (co_empty Co) (gc_gs c) = (r, g) \<Longrightarrow> incoming_received r (gc_fw c) = Some f \<Longrightarrow>
     gc_step Co cf c (c\<lparr>gc_fw := f, gc_gs := g\<rparr>)"
| gc_write: "incoming_sent res (gc_fw c) = Some (m, f) \<Longrightarrow> gs_send (co_marshal Co) wr m (gc_gs c) = (res, g) \<Longrightarrow>
     gc_step Co cf c (c\<lparr>gc_fw := f, gc_gs := g\<rparr>)"
| gc_answer: "outgoing_answer cf r (gc_fw c) = Some f \<Longrightarrow>
     gc_step Co cf c (c\<lparr>gc_fw := f, gc_gs := gs_md (new_calls (gc_fw c) f) (gc_gs c)\<rparr>)"
| gc_quiet: "fw_quiet cf (gc_fw c) f \<Longrightarrow> gc_step Co cf c (c\<lparr>gc_fw := f\<rparr>)"
| gc_read_interrupted: "fw_ctx (gc_fw c) = Some e \<Longrightarrow> incoming_received (Inl (ContextError e)) (gc_fw c) = Some f \<Longrightarrow>
     gc_step Co cf c (c\<lparr>gc_fw := f, gc_receiving := True\<rparr>)"
| gc_write_interrupted: "fw_ctx (gc_fw c) = Some e \<Longrightarrow> incoming_sent (Some (ContextError e)) (gc_fw c) = Some (m, f) \<Longrightarrow>
     gc_step Co cf c (c\<lparr>gc_fw := f, gc_sending := Some m\<rparr>)"
| gc_late_read: "gc_receiving c \<Longrightarrow> gs_recv (co_unmarshal Co) (co_empty Co) (gc_gs c) = (r, g) \<Longrightarrow>
     gc_step Co cf c (c\<lparr>gc_gs := g, gc_receiving := False\<rparr>)"
| gc_late_write: "gc_sending c = Some m \<Longrightarrow> gs_send (co_marshal Co) wr m (gc_gs c) = (res, g) \<Longrightarrow>
     gc_step Co cf c (c\<lparr>gc_gs := g, gc_sending := None\<rparr>)"

inductive gc_reachable :: "'m web_codec \<Rightarrow> ('m, query) fw_config \<Rightarrow> http_body \<Rightarrow> response \<Rightarrow> 'm web_call \<Rightarrow> bool" for Co cf body w where
  gc_start: "gc_reachable Co cf body w (gc_init cf body w)"
| gc_next: "gc_reachable Co cf body w c \<Longrightarrow> gc_step Co cf c c' \<Longrightarrow> gc_reachable Co cf body w c'"

inductive_cases gc_stepE: "gc_step Co cf c c'"
inductive_cases fw_quietE: "fw_quiet cf f f'"

lemma incoming_received_step: "incoming_received r f = Some f' \<Longrightarrow> fw_step cf f f'"
  by (auto simp: incoming_received_def intro: fw_mu_recv fw_i2o_recv split: main_pc.splits)

lemma gc_step_fw: "gc_step Co cf c c' \<Longrightarrow> gc_fw c' = gc_fw c \<or> fw_step cf (gc_fw c) (gc_fw c')"
  by (erule gc_stepE)
    (auto intro: incoming_received_step incoming_sent_step outgoing_answer_step fw_step.intros elim!: fw_quietE)

lemma gc_reachable_fw: "gc_reachable Co cf body w c \<Longrightarrow> fw_reachable cf (gc_fw c)"
proof (induction rule: gc_reachable.induct)
  case gc_start
  then show ?case by (simp add: gc_init_def fw_start)
next
  case (gc_next c c')
  then show ?case using gc_step_fw[OF gc_next.hyps(2)] fw_next by auto
qed

section \<open>The messages of a run\<close>

fun requested_msgs :: "('m, 'md) fw_event list \<Rightarrow> 'm list" where
  "requested_msgs [] = []"
| "requested_msgs (RecvIn m # es) = m # requested_msgs es"
| "requested_msgs (e # es) = requested_msgs es"

fun posted_msgs :: "('m, 'md) fw_event list \<Rightarrow> 'm list" where
  "posted_msgs [] = []"
| "posted_msgs (SendOut m b # es) = (if b then m # posted_msgs es else posted_msgs es)"
| "posted_msgs (e # es) = posted_msgs es"

lemma requested_append [simp]: "requested_msgs (a @ b) = requested_msgs a @ requested_msgs b"
  by (induction a rule: requested_msgs.induct) auto

lemma posted_append [simp]: "posted_msgs (a @ b) = posted_msgs a @ posted_msgs b"
  by (induction a rule: posted_msgs.induct) auto

lemma msgs_of_cli: "requested_msgs (cli tr) = requested_msgs tr \<and> posted_msgs (cli tr) = posted_msgs tr"
proof (induction tr)
  case (Cons e tr)
  then show ?case by (cases e) auto
qed simp

lemma msgs_of_up [simp]: "requested_msgs (up ms) = ms" "posted_msgs (up ms) = ms"
  by (induction ms) (simp_all add: up_def)

text \<open>What is passed on has been received, in both directions.\<close>

lemma posted_requested:
  assumes "fw_inv cf f"
  shows "prefix (posted_msgs (fw_trace f)) (requested_msgs (fw_trace f))"
proof -
  have "prefix (posted_msgs (cli (fw_trace f))) (requested_msgs (cli (fw_trace f)))"
    using assms by (auto simp: fw_inv_def cli_ok_def split: if_splits i2o_pc.splits main_pc.splits)
  then show ?thesis by (simp add: msgs_of_cli)
qed

lemma outcome_sent: "o2i_outcome cf p evs \<Longrightarrow> prefix (sent_msgs evs) (received_msgs evs)"
  by (auto simp: o2i_outcome_def split: if_splits)

lemma sent_received:
  assumes "fw_inv cf f"
  shows "prefix (sent_msgs (fw_trace f)) (received_msgs (fw_trace f))"
proof -
  have "prefix (sent_msgs (srv (fw_trace f))) (received_msgs (srv (fw_trace f)))"
    using assms by (auto simp: fw_inv_def srv_ok_def outcome_sent split: o2i_pc.splits)
  then show ?thesis by (simp add: msgs_of_srv)
qed

section \<open>The invariant\<close>

text \<open>The trailer that the stream has been given.\<close>

definition trailer_of :: "('m, query) fw_config \<Rightarrow> ('m, query) fw_event list \<Rightarrow> query" where
  "trailer_of cf tr = (if list_ex (\<lambda>e. case e of SetTrailer md \<Rightarrow> True | _ \<Rightarrow> False) tr then fw_FilterTrailer cf (fw_trailer cf) else [])"

definition request_body :: "('m \<Rightarrow> string) \<Rightarrow> 'm list \<Rightarrow> http_body" where
  "request_body encq ms = \<lparr>bd_data = concat (map (\<lambda>m. frame CHR 0x00 (encq m)) ms), bd_end = ErrEOF\<rparr>"

definition response_body :: "('m \<Rightarrow> string) \<Rightarrow> 'm list \<Rightarrow> string" where
  "response_body enc ms = concat (map (frame CHR 0x00) (map enc ms))"

text \<open>Forward does not read its incoming stream any more.\<close>

definition reader_done :: "('m, query) fw_state \<Rightarrow> bool" where
  "reader_done f \<longleftrightarrow>
     (case fw_i2o f of
        I2O_NotStarted \<Rightarrow> (case fw_main f of M_Returned e \<Rightarrow> True | _ \<Rightarrow> False)
      | I2O_Sent p \<Rightarrow> True | I2O_Taken \<Rightarrow> True | _ \<Rightarrow> False)"

definition gc_inv :: "'m web_codec \<Rightarrow> ('m \<Rightarrow> string) \<Rightarrow> ('m \<Rightarrow> string) \<Rightarrow> ('m, query) fw_config \<Rightarrow> 'm list \<Rightarrow> 'm web_call \<Rightarrow> bool" where
  "gc_inv Co enc encq cf ms c \<longleftrightarrow>
     (clean (fw_trace (gc_fw c)) \<longrightarrow> gc_sending c = None
        \<and> rw_body (gs_w (gc_gs c)) = response_body enc (sent_msgs (fw_trace (gc_fw c)))
        \<and> list_all (\<lambda>m. co_marshal Co m = Inr (enc m)) (sent_msgs (fw_trace (gc_fw c))))
   \<and> gs_trailer (gc_gs c) = trailer_of cf (fw_trace (gc_fw c))
   \<and> (\<exists>lost rest. ms = requested_msgs (fw_trace (gc_fw c)) @ lost @ rest \<and> gs_body (gc_gs c) = request_body encq rest
        \<and> (gc_receiving c \<or> lost \<noteq> [] \<longrightarrow> reader_done (gc_fw c)))"

lemma reader_done_received: "reader_done f \<Longrightarrow> fw_inv cf f \<Longrightarrow> incoming_received r f = None"
  by (auto simp: reader_done_def incoming_received_def i2o_recv_def mu_recv_def fw_inv_def cli_ok_def main_ok_def
      split: i2o_pc.splits main_pc.splits if_splits)

lemma received_error_done: "incoming_received (Inl e) f = Some f' \<Longrightarrow> fw_inv cf f \<Longrightarrow> reader_done f'"
  by (auto simp: reader_done_def incoming_received_def i2o_recv_def mu_recv_def fw_inv_def cli_ok_def main_ok_def
      split: i2o_pc.splits main_pc.splits if_splits)

lemma reader_done_cong: "fw_i2o f' = fw_i2o f \<Longrightarrow> fw_main f' = fw_main f \<Longrightarrow> reader_done f' = reader_done f"
  by (simp add: reader_done_def split: i2o_pc.splits)

lemma reader_done_sent: "incoming_sent res f = Some (m, f') \<Longrightarrow> reader_done f' = reader_done f"
  by (rule reader_done_cong) (auto simp: incoming_sent_def o2i_send_def ou_send_def split: o2i_pc.splits option.splits)

lemma reader_done_answer: "outgoing_answer cf r f = Some f' \<Longrightarrow> reader_done f' = reader_done f"
  by (rule reader_done_cong)
    (auto simp: outgoing_answer_def o2i_recv_def ou_recv_def ou_finish_def Let_def split: o2i_pc.splits sum.splits if_splits)

lemma reader_done_quiet: "fw_quiet cf f f' \<Longrightarrow> fw_inv cf f \<Longrightarrow> reader_done f \<Longrightarrow> reader_done f'"
  by (elim fw_quietE)
    (auto simp: reader_done_def m_stream_def mu_stream_def mu_send_def i2o_send_def m_i2o_def m_o2i_def m_ctx_done_def fw_inv_def main_ok_def
      split: i2o_pc.splits main_pc.splits o2i_pc.splits option.splits if_splits)

lemma answer_calls:
  assumes "outgoing_answer cf r f = Some f'"
  shows "\<exists>es. fw_trace f' = fw_trace f @ es \<and> sent_msgs es = [] \<and> requested_msgs es = [] \<and> clean es
    \<and> list_all (\<lambda>e. case e of SetTrailer md \<Rightarrow> md = fw_FilterTrailer cf (fw_trailer cf) | _ \<Rightarrow> True) es"
  using assms
  by (auto simp: outgoing_answer_def o2i_recv_def ou_recv_def ou_finish_def Let_def split: o2i_pc.splits sum.splits if_splits)

lemma gs_md_effect:
  assumes "list_all (\<lambda>e. case e of SetTrailer md \<Rightarrow> md = fw_FilterTrailer cf (fw_trailer cf) | _ \<Rightarrow> True) es"
    and "gs_trailer s = trailer_of cf tr"
  shows "rw_body (gs_w (gs_md es s)) = rw_body (gs_w s) \<and> gs_body (gs_md es s) = gs_body s
    \<and> gs_trailer (gs_md es s) = trailer_of cf (tr @ es)"
  using assms
proof (induction es s arbitrary: tr rule: gs_md.induct)
  case (2 md es s)
  show ?case using "2.IH"[of "tr @ [SetHeader md]"] "2.prems" by (simp add: gs_SetHeader_def rw_simps trailer_of_def)
next
  case (3 md es s)
  show ?case using "3.IH"[of "tr @ [SetTrailer md]"] "3.prems" by (simp add: gs_SetTrailer_def trailer_of_def)
qed (auto simp: trailer_of_def)

lemma quiet_calls: "fw_quiet cf f f' \<Longrightarrow> \<exists>es. fw_trace f' = fw_trace f @ es \<and> sent_msgs es = [] \<and> requested_msgs es = [] \<and> clean es \<and> trailer_of cf' es = []"
  by (elim fw_quietE)
    (auto simp: m_stream_def mu_stream_def mu_send_def i2o_send_def m_i2o_def m_o2i_def m_ctx_done_def trailer_of_def
      split: main_pc.splits i2o_pc.splits o2i_pc.splits option.splits if_splits)

lemma trailer_of_append: "trailer_of cf es = [] \<Longrightarrow> trailer_of cf (tr @ es) = trailer_of cf tr"
  by (auto simp: trailer_of_def split: if_splits)

lemma received_calls:
  "incoming_received r f = Some f' \<Longrightarrow>
     fw_trace f' = fw_trace f @ (case r of Inl e \<Rightarrow> [] | Inr m \<Rightarrow> [RecvIn m])"
  by (auto simp: incoming_received_def mu_recv_def i2o_recv_def split: main_pc.splits i2o_pc.splits sum.splits)

lemma gs_recv_request:
  assumes "\<forall>m \<in> set ms. codec_ok encq unmarshal m0 m" and "gs_body s = request_body encq ms"
  shows "gs_recv unmarshal m0 s = (case ms of [] \<Rightarrow> (Inl ErrEOF, s) | m # rest \<Rightarrow> (Inr m, s\<lparr>gs_body := request_body encq rest\<rparr>))"
proof (cases ms)
  case Nil
  then show ?thesis using assms(2) by (simp add: gs_recv_def ReadFull_def request_body_def)
next
  case (Cons m rest)
  then show ?thesis
    using gs_recv_frame[of s "CHR 0x00" "encq m" "concat (map (\<lambda>m. frame CHR 0x00 (encq m)) rest)" unmarshal m0] assms
    by (simp add: codec_ok_def request_body_def)
qed

lemma gs_send_body:
  assumes "gs_send marshal wr m s = (res, s')"
  shows "gs_body s' = gs_body s \<and> gs_trailer s' = gs_trailer s
    \<and> (res = None \<longrightarrow> (\<exists>b. marshal m = Inr b \<and> rw_body (gs_w s') = rw_body (gs_w s) @ frame CHR 0x00 b))"
  using assms by (cases "marshal m") (auto simp: gs_send_def lpm_frames rw_simps split: option.splits sum.splits)

lemma gs_recv_frame_only: "gs_recv unmarshal m0 s = (r, s') \<Longrightarrow> gs_w s' = gs_w s \<and> gs_trailer s' = gs_trailer s"
  by (auto simp: gs_recv_def Let_def split: sum.splits prod.splits if_splits)

lemma gc_inv_step:
  assumes inv: "gc_inv Co enc encq cf ms c" and fw: "fw_inv cf (gc_fw c)" and st: "gc_step Co cf c c'"
    and req: "\<forall>m \<in> set ms. codec_ok encq (co_unmarshal Co) (co_empty Co) m"
    and resp: "\<forall>m b. co_marshal Co m = Inr b \<longrightarrow> enc m = b"
  shows "gc_inv Co enc encq cf ms c'"
proof -
  obtain lost rest where rest: "ms = requested_msgs (fw_trace (gc_fw c)) @ lost @ rest" "gs_body (gc_gs c) = request_body encq rest"
    "gc_receiving c \<or> lost \<noteq> [] \<longrightarrow> reader_done (gc_fw c)" using inv by (auto simp: gc_inv_def)
  have out: "clean (fw_trace (gc_fw c)) \<longrightarrow> gc_sending c = None \<and> rw_body (gs_w (gc_gs c)) = response_body enc (sent_msgs (fw_trace (gc_fw c)))
      \<and> list_all (\<lambda>m. co_marshal Co m = Inr (enc m)) (sent_msgs (fw_trace (gc_fw c)))"
    "gs_trailer (gc_gs c) = trailer_of cf (fw_trace (gc_fw c))" using inv by (simp_all add: gc_inv_def)
  have "\<forall>m \<in> set rest. codec_ok encq (co_unmarshal Co) (co_empty Co) m" using req rest(1) by simp
  note rd = gs_recv_request[OF this rest(2)]
  show ?thesis
    using st
  proof (rule gc_stepE)
    fix r g f assume s: "c' = c\<lparr>gc_fw := f, gc_gs := g\<rparr>" "gs_recv (co_unmarshal Co) (co_empty Co) (gc_gs c) = (r, g)"
      "incoming_received r (gc_fw c) = Some f"
    have l: "lost = []" "\<not> gc_receiving c" using rest(3) reader_done_received[OF _ fw, of r] s(3) by auto
    show ?thesis
      using out rest(1,2) l rd s(2) received_calls[OF s(3)] s(1) by (cases rest) (auto simp: gc_inv_def trailer_of_def)
  next
    fix res m f wr g assume s: "c' = c\<lparr>gc_fw := f, gc_gs := g\<rparr>" "incoming_sent res (gc_fw c) = Some (m, f)"
      "gs_send (co_marshal Co) wr m (gc_gs c) = (res, g)"
    note t = incoming_sent_calls[OF s(2)] and b = gs_send_body[OF s(3)]
    have "clean (fw_trace f) \<longrightarrow> gc_sending c = None \<and> rw_body (gs_w g) = response_body enc (sent_msgs (fw_trace f))
        \<and> list_all (\<lambda>m. co_marshal Co m = Inr (enc m)) (sent_msgs (fw_trace f))"
      using out(1) t b resp by (auto simp: response_body_def)
    then show ?thesis using out(2) rest t b reader_done_sent[OF s(2)] s(1) by (auto simp: gc_inv_def trailer_of_def)
  next
    fix r f assume s: "c' = c\<lparr>gc_fw := f, gc_gs := gs_md (new_calls (gc_fw c) f) (gc_gs c)\<rparr>" "outgoing_answer cf r (gc_fw c) = Some f"
    obtain es where es: "fw_trace f = fw_trace (gc_fw c) @ es" "sent_msgs es = []" "requested_msgs es = []" "clean es"
      "list_all (\<lambda>e. case e of SetTrailer md \<Rightarrow> md = fw_FilterTrailer cf (fw_trailer cf) | _ \<Rightarrow> True) es"
      using answer_calls[OF s(2)] by blast
    note md = gs_md_effect[OF es(5) out(2)]
    show ?thesis using inv md es(1-4) reader_done_answer[OF s(2)] s(1) by (simp add: gc_inv_def new_calls_def)
  next
    fix f assume s: "c' = c\<lparr>gc_fw := f\<rparr>" "fw_quiet cf (gc_fw c) f"
    obtain es where "fw_trace f = fw_trace (gc_fw c) @ es" "sent_msgs es = []" "requested_msgs es = []" "clean es" "trailer_of cf es = []"
      using quiet_calls[OF s(2), of cf] by blast
    then show ?thesis using out rest reader_done_quiet[OF s(2) fw] s(1) by (auto simp: gc_inv_def trailer_of_append)
  next
    fix e f assume s: "c' = c\<lparr>gc_fw := f, gc_receiving := True\<rparr>" "incoming_received (Inl (ContextError e)) (gc_fw c) = Some f"
    then show ?thesis using out rest received_error_done[OF s(2) fw] received_calls[OF s(2)] by (auto simp: gc_inv_def)
  next
    fix e m f assume s: "c' = c\<lparr>gc_fw := f, gc_sending := Some m\<rparr>" "incoming_sent (Some (ContextError e)) (gc_fw c) = Some (m, f)"
    then show ?thesis using out rest incoming_sent_calls[OF s(2)] reader_done_sent[OF s(2)] by (auto simp: gc_inv_def trailer_of_def)
  next
    fix r g assume s: "c' = c\<lparr>gc_gs := g, gc_receiving := False\<rparr>" "gc_receiving c"
      "gs_recv (co_unmarshal Co) (co_empty Co) (gc_gs c) = (r, g)"
    have "\<exists>lost' rest'. ms = requested_msgs (fw_trace (gc_fw c)) @ lost' @ rest' \<and> gs_body g = request_body encq rest'"
    proof (cases rest)
      case Nil
      then show ?thesis using rd s(3) rest(1,2) by auto
    next
      case (Cons m rest')
      then show ?thesis using rd s(3) rest(1) by (intro exI[of _ "lost @ [m]"] exI[of _ rest']) auto
    qed
    then show ?thesis using out rest(3) gs_recv_frame_only[OF s(3)] s(1,2) by (auto simp: gc_inv_def)
  next
    fix m wr res g assume s: "c' = c\<lparr>gc_gs := g, gc_sending := None\<rparr>" "gc_sending c = Some m"
      "gs_send (co_marshal Co) wr m (gc_gs c) = (res, g)"
    have "\<not> clean (fw_trace (gc_fw c))" using out(1) s(2) by auto
    then show ?thesis using out(2) rest gs_send_body[OF s(3)] s(1) by (auto simp: gc_inv_def)
  qed
qed

lemma fw_init_trace [simp]: "fw_trace (fw_init cf) = []"
  by (simp add: fw_init_def)

lemma gc_reachable_inv:
  assumes "gc_reachable Co cf (request_body encq ms) w c" and "rw_body w = []"
    and "\<forall>m \<in> set ms. codec_ok encq (co_unmarshal Co) (co_empty Co) m"
    and "\<forall>m b. co_marshal Co m = Inr b \<longrightarrow> enc m = b"
  shows "gc_inv Co enc encq cf ms c"
  using assms(1)
proof (induction rule: gc_reachable.induct)
  case gc_start
  have "\<exists>lost rest. ms = lost @ rest \<and> request_body encq ms = request_body encq rest \<and> (lost \<noteq> [] \<longrightarrow> reader_done (fw_init cf))"
    by (rule exI[of _ "[]"]) simp
  then show ?case
    using assms(2) by (simp add: gc_inv_def gc_init_def response_body_def trailer_of_def rw_simps)
next
  case (gc_next c c')
  then show ?case using gc_inv_step[OF gc_next.IH fw_reachable_inv[OF gc_reachable_fw[OF gc_next.hyps(1)]] gc_next.hyps(2) assms(3,4)] by blast
qed

section \<open>The call, end to end\<close>

lemma response_decodes:
  assumes "gc_inv Co enc encq cf ms c" and "\<forall>m b. co_marshal Co m = Inr b \<longrightarrow> enc m = b \<and> length b < 2 ^ 32"
    and clean: "clean (fw_trace (gc_fw c))"
    and "md = trailerWithStatus (trailer_of cf (fw_trace (gc_fw c))) (Convert L e)" and "length (header_lines md) < 2 ^ 32"
  shows "client_frames (rw_body (gweb_ServeHTTP L (Inr r) (\<lambda>_ _. (gc_gs c, e)) body w))
    = Some (map (\<lambda>m. (CHR 0x00, enc m)) (sent_msgs (fw_trace (gc_fw c))) @ [(CHR 0x80, header_lines md)])"
proof -
  let ?ms = "sent_msgs (fw_trace (gc_fw c))"
  have last: "client_frames (frame CHR 0x80 (header_lines md)) = Some [(CHR 0x80, header_lines md)]"
    using client_frames_frame[OF assms(5), of "CHR 0x80" "[]"] by (simp add: client_frames.simps[of "[]"])
  have "co_marshal Co m = Inr (enc m)" if "m \<in> set ?ms" for m using assms(1) clean that by (simp add: gc_inv_def list_all_iff)
  then have "length (enc m) < 2 ^ 32" if "m \<in> set ?ms" for m using assms(2) that by blast
  then have ds: "\<forall>d \<in> set (map enc ?ms). length d < 2 ^ 32" by auto
  have b: "rw_body (gweb_ServeHTTP L (Inr r) (\<lambda>_ _. (gc_gs c, e)) body w) = concat (map (frame CHR 0x00) (map enc ?ms)) @ frame CHR 0x80 (header_lines md)"
    using assms(1) clean by (simp add: gweb_ServeHTTP_def writeTrailerWithStatus_def rw_simps lpm_frames gc_inv_def response_body_def assms(4))
  show ?thesis unfolding b client_frames_concat[OF ds, of "CHR 0x00"] last by simp
qed

text \<open>When Forward has returned and no body of send is left, nothing writes to the response but its caller.\<close>

lemma returned_keeps_response:
  assumes "gc_step Co cf c c'" and "Forward_returned (gc_fw c) e" and "gc_sending c = None"
  shows "Forward_returned (gc_fw c') e \<and> gc_sending c' = None \<and> gs_w (gc_gs c') = gs_w (gc_gs c)"
proof -
  have m: "fw_main (gc_fw c) = M_Returned e" using assms(2) by (simp add: Forward_returned_def)
  have r: "incoming_received r (gc_fw c) = None" for r
    using assms(2) by (auto simp: Forward_returned_def goroutines_exited_def incoming_received_def i2o_recv_def split: i2o_pc.splits)
  have s: "incoming_sent res (gc_fw c) = None" and a: "outgoing_answer cf v (gc_fw c) = None" for res v
    using assms(2) by (auto simp: Forward_returned_def goroutines_exited_def incoming_sent_def outgoing_answer_def ou_recv_def split: o2i_pc.splits)
  have q: "Forward_returned f e" if "fw_quiet cf (gc_fw c) f" for f
    using that assms(2) m
    by (elim fw_quietE) (auto simp: m_stream_def mu_stream_def mu_send_def i2o_send_def m_i2o_def m_o2i_def m_ctx_done_def
        Forward_returned_def goroutines_exited_def split: i2o_pc.splits)
  show ?thesis
    using assms(1)
    by (rule gc_stepE) (use assms(2,3) q in \<open>auto simp: r s a dest: gs_recv_frame_only\<close>)
qed

lemma returned_final:
  assumes "(gc_step Co cf)\<^sup>*\<^sup>* c c'" and "Forward_returned (gc_fw c) e" and "gc_sending c = None"
  shows "gs_w (gc_gs c') = gs_w (gc_gs c)"
proof -
  have "Forward_returned (gc_fw c') e \<and> gc_sending c' = None \<and> gs_w (gc_gs c') = gs_w (gc_gs c)"
    using assms(1)
  proof (induction rule: rtranclp_induct)
    case base
    then show ?case using assms(2,3) by simp
  next
    case (step y z)
    then show ?case using returned_keeps_response[of Co cf y z e] by simp
  qed
  then show ?thesis by blast
qed

text \<open>
  C9. A gRPC-Web call of any kind, end to end, whatever the server does, however the two directions interleave, whenever the
  context ends and whichever writes fail. The messages of the client have at most 4 MB each, as gRPC allows, and can be
  decoded (codec_ok), and its body ends after them; the messages to the client and the trailer are shorter than 4 GB.
  When Forward has returned, with or without an error, the messages that were sent to
  the server are a prefix of those that the client framed in its body, and those passed on to the client are a prefix of those
  that the server's stream delivered, and all that the client is owed when Forward returned nil. Unless a Send of a message
  to the client has failed or was interrupted, and so in particular when Forward returned nil, the response decodes to
  exactly the frames of the messages passed on, followed by one trailer frame with the trailer of the server and the status
  of Forward's result, and nothing that is left running writes to it any more.
\<close>
theorem grpc_web_call:
  assumes "gc_reachable Co cf (request_body encq ms) w c" and "Forward_returned (gc_fw c) e" and "rw_body w = []"
    and "\<forall>m \<in> set ms. codec_ok encq (co_unmarshal Co) (co_empty Co) m"
    and "\<forall>m b. co_marshal Co m = Inr b \<longrightarrow> enc m = b \<and> length b < 2 ^ 32"
    and "md = trailerWithStatus (trailer_of cf (fw_trace (gc_fw c))) (Convert L e)" and "length (header_lines md) < 2 ^ 32"
  shows "prefix (posted_msgs (fw_trace (gc_fw c))) ms
    \<and> prefix (sent_msgs (fw_trace (gc_fw c))) (received_msgs (fw_trace (gc_fw c)))
    \<and> (e = None \<longrightarrow> clean (fw_trace (gc_fw c)) \<and> sent_msgs (fw_trace (gc_fw c)) = owed cf (fw_trace (gc_fw c)))
    \<and> (clean (fw_trace (gc_fw c)) \<longrightarrow>
         client_frames (rw_body (gweb_ServeHTTP L (Inr r) (\<lambda>_ _. (gc_gs c, e)) (request_body encq ms) w))
           = Some (map (\<lambda>m. (CHR 0x00, enc m)) (sent_msgs (fw_trace (gc_fw c))) @ [(CHR 0x80, header_lines md)])
         \<and> (\<forall>c'. (gc_step Co cf)\<^sup>*\<^sup>* c c' \<longrightarrow> gs_w (gc_gs c') = gs_w (gc_gs c)))
    \<and> map_of md ''grpc-status'' = Some [Itoa (code_num (fst (Convert L e)))]"
proof -
  note fw = gc_reachable_fw[OF assms(1)]
  have inv: "gc_inv Co enc encq cf ms c" using gc_reachable_inv[OF assms(1,3,4)] assms(5) by blast
  have "prefix (requested_msgs (fw_trace (gc_fw c))) ms" using inv by (auto simp: gc_inv_def)
  then have posted: "prefix (posted_msgs (fw_trace (gc_fw c))) ms"
    using prefix_order.trans[OF posted_requested[OF fw_reachable_inv[OF fw]]] by blast
  have nil: "e = None \<Longrightarrow> clean (fw_trace (gc_fw c)) \<and> sent_msgs (fw_trace (gc_fw c)) = owed cf (fw_trace (gc_fw c))"
    using nil_clean[OF fw] assms(2) by (simp add: Forward_returned_def)
  have final: "gs_w (gc_gs c') = gs_w (gc_gs c)" if "clean (fw_trace (gc_fw c))" "(gc_step Co cf)\<^sup>*\<^sup>* c c'" for c'
    using returned_final[OF that(2) assms(2)] inv that(1) by (simp add: gc_inv_def)
  have status: "map_of md ''grpc-status'' = Some [Itoa (code_num (fst (Convert L e)))]" by (simp add: assms(6) trailerWithStatus_values)
  show ?thesis
    using posted sent_received[OF fw_reachable_inv[OF fw]] nil response_decodes[OF inv assms(5) _ assms(6,7)] final status by blast
qed

section \<open>A concrete call\<close>

text \<open>The steps as functions, to run a call with given answers of the server.\<close>

datatype 'm web_move = Opened "go_error option" | Read | Posted "go_error option" | Answered "go_error + 'm" | Wrote | TakeIn | TakeOut

fun gc_do :: "'m web_codec \<Rightarrow> ('m, query) fw_config \<Rightarrow> 'm web_move \<Rightarrow> 'm web_call \<Rightarrow> 'm web_call option" where
  "gc_do Co cf (Opened e) c = map_option (\<lambda>f. c\<lparr>gc_fw := f\<rparr>) (m_stream cf e (gc_fw c))"
| "gc_do Co cf Read c =
     (case gs_recv (co_unmarshal Co) (co_empty Co) (gc_gs c) of
        (r, g) \<Rightarrow> map_option (\<lambda>f. c\<lparr>gc_fw := f, gc_gs := g\<rparr>) (incoming_received r (gc_fw c)))"
| "gc_do Co cf (Posted e) c = map_option (\<lambda>f. c\<lparr>gc_fw := f\<rparr>) (i2o_send e (gc_fw c))"
| "gc_do Co cf (Answered r) c =
     map_option (\<lambda>f. c\<lparr>gc_fw := f, gc_gs := gs_md (new_calls (gc_fw c) f) (gc_gs c)\<rparr>) (outgoing_answer cf r (gc_fw c))"
| "gc_do Co cf Wrote c =
     (case fw_o2i (gc_fw c) of
        O2I_Send m \<Rightarrow> (case gs_send (co_marshal Co) None m (gc_gs c) of
                         (res, g) \<Rightarrow> map_option (\<lambda>(m, f). c\<lparr>gc_fw := f, gc_gs := g\<rparr>) (incoming_sent res (gc_fw c)))
      | _ \<Rightarrow> None)"
| "gc_do Co cf TakeIn c = map_option (\<lambda>f. c\<lparr>gc_fw := f\<rparr>) (m_i2o (gc_fw c))"
| "gc_do Co cf TakeOut c = map_option (\<lambda>f. c\<lparr>gc_fw := f\<rparr>) (m_o2i (gc_fw c))"

fun gc_run :: "'m web_codec \<Rightarrow> ('m, query) fw_config \<Rightarrow> 'm web_move list \<Rightarrow> 'm web_call \<Rightarrow> 'm web_call option" where
  "gc_run Co cf [] c = Some c"
| "gc_run Co cf (x # xs) c = Option.bind (gc_do Co cf x c) (gc_run Co cf xs)"

lemma gc_do_step: "gc_do Co cf x c = Some c' \<Longrightarrow> gc_step Co cf c c'"
  by (cases x) (auto simp: incoming_sent_def intro: gc_read gc_write gc_answer gc_quiet fw_quiet.intros split: prod.splits o2i_pc.splits)

lemma gc_run_reachable: "gc_run Co cf xs c = Some c' \<Longrightarrow> gc_reachable Co cf body w c \<Longrightarrow> gc_reachable Co cf body w c'"
proof (induction xs arbitrary: c)
  case (Cons x xs)
  then show ?case by (auto simp: bind_eq_Some_conv dest: gc_do_step intro: gc_next)
qed simp

lemma gc_run_obtain:
  assumes "case gc_run Co cf xs (gc_init cf body w) of None \<Rightarrow> False | Some c \<Rightarrow> P c"
  shows "\<exists>c. gc_reachable Co cf body w c \<and> P c"
  using assms gc_run_reachable[OF _ gc_start, of Co cf xs body w] by (auto split: option.splits)

definition ex_codec :: "string web_codec" where
  "ex_codec = \<lparr>co_marshal = (\<lambda>m. if length m < 8 then Inr m else Inl (ErrMsg ''too large'')), co_unmarshal = Inr, co_empty = []\<rparr>"

definition ex_bidi :: "(string, query) fw_config" where
  "ex_bidi = \<lparr>fw_Method = DummyMethod ''S'' ''M'',
     fw_header = [(''k'', [''v''])], fw_trailer = [], fw_FilterResponse = (\<lambda>x. x), fw_FilterTrailer = (\<lambda>x. x)\<rparr>"

lemma ex_read:
  "length m < 8 \<Longrightarrow> gs_recv Inr [] \<lparr>gs_w = w, gs_body = request_body (\<lambda>m. m) (m # ms), gs_trailer = t\<rparr>
     = (Inr m, \<lparr>gs_w = w, gs_body = request_body (\<lambda>m. m) ms, gs_trailer = t\<rparr>)"
  "gs_recv Inr [] \<lparr>gs_w = w, gs_body = request_body (\<lambda>m. m) [], gs_trailer = t\<rparr>
     = (Inl ErrEOF, \<lparr>gs_w = w, gs_body = request_body (\<lambda>m. m) [], gs_trailer = t\<rparr>)"
  using gs_recv_frame[of "\<lparr>gs_w = w, gs_body = request_body (\<lambda>m. m) (m # ms), gs_trailer = t\<rparr>" "CHR 0x00" m
      "concat (map (\<lambda>m. frame CHR 0x00 m) ms)" Inr "[]"]
  by (simp_all add: request_body_def gs_recv_def ReadFull_def)

lemma ex_bidi_returns:
  "case gc_run ex_codec ex_bidi [Opened None, Read, Posted None, Answered (Inr ''x''), Wrote, Read, Posted None, Read, TakeIn,
      Answered (Inr ''y''), Wrote, Answered (Inl (ErrStatus NotFound ''z'')), TakeOut]
      (gc_init ex_bidi (request_body (\<lambda>m. m) [''a'', ''b'']) new_response) of
     None \<Rightarrow> False
   | Some c \<Rightarrow> Forward_returned (gc_fw c) (Some (ErrStatus NotFound ''z'')) \<and> clean (fw_trace (gc_fw c)) \<and> sent_msgs (fw_trace (gc_fw c)) = [''x'', ''y'']
       \<and> trailer_of ex_bidi (fw_trace (gc_fw c)) = []"
  by (simp add: gc_init_def fw_init_def ex_bidi_def DummyMethod_def ex_codec_def ex_read m_stream_def incoming_received_def i2o_recv_def
      i2o_send_def outgoing_answer_def o2i_recv_def o2i_start_def incoming_sent_def o2i_send_def gs_send_def lpm_frames m_i2o_def m_o2i_def
      err_is_EOF_def Forward_returned_def goroutines_exited_def new_calls_def gs_SetHeader_def gs_SetTrailer_def trailer_of_def Let_def)

theorem grpc_web_call_witness:
  "\<exists>c. gc_reachable ex_codec ex_bidi (request_body (\<lambda>m. m) [''a'', ''b'']) new_response c
     \<and> client_frames (rw_body (gweb_ServeHTTP ex_lib (Inr \<lparr>gr_Target = \<lparr>target_Name = ''t'', Services = []\<rparr>,
           gr_Service = \<lparr>service_Name = ''S'', Methods = []\<rparr>, gr_Method = DummyMethod ''S'' ''M''\<rparr>)
         (\<lambda>_ _. (gc_gs c, Some (ErrStatus NotFound ''z''))) (request_body (\<lambda>m. m) [''a'', ''b'']) new_response))
       = Some [(CHR 0x00, ''x''), (CHR 0x00, ''y''), (CHR 0x80, header_lines (trailerWithStatus [] (NotFound, ''z'')))]"
proof -
  let ?e = "Some (ErrStatus NotFound ''z'')" and ?body = "request_body (\<lambda>m. m) [''a'', ''b'']" and ?md = "trailerWithStatus [] (NotFound, ''z'')"
  obtain c where c: "gc_reachable ex_codec ex_bidi ?body new_response c" "Forward_returned (gc_fw c) ?e"
    "sent_msgs (fw_trace (gc_fw c)) = [''x'', ''y'']" "trailer_of ex_bidi (fw_trace (gc_fw c)) = []" "clean (fw_trace (gc_fw c))"
    using gc_run_obtain[OF ex_bidi_returns] by blast
  have cod: "\<forall>m \<in> set [''a'', ''b'']. codec_ok (\<lambda>m. m) (co_unmarshal ex_codec) (co_empty ex_codec) m"
    by (simp add: codec_ok_def ex_codec_def)
  have mar: "\<forall>m b. co_marshal ex_codec m = Inr b \<longrightarrow> m = b \<and> length b < 2 ^ 32" by (simp add: ex_codec_def)
  have body: "rw_body new_response = []" by (simp add: new_response_def)
  have md: "?md = trailerWithStatus (trailer_of ex_bidi (fw_trace (gc_fw c))) (Convert ex_lib ?e)"
    by (simp add: c(4) Convert_def ex_lib_def)
  have "length (header_lines ?md) = 33" by code_simp
  then have len: "length (header_lines ?md) < 2 ^ 32" by simp
  from grpc_web_call[OF c(1,2) body cod mar md len] c(1,3,5) show ?thesis by auto
qed

end
