(* ===== verification/Proxy_Stream.thy ===== *)
theory Proxy_Stream
  imports Forwarder_Props
begin

text \<open>
  The stream that the gRPC proxy gives to the forwarder (grpcServerStream of proxy.go): an adapter of grpc.ServerStream,
  which is a parameter. Its SetHeader drops the error of the stream's; the theorem shows that there is none to drop, as
  the forwarder sets the header before it sends a message.
\<close>

section \<open>The adapter\<close>

record ('m, 'md, 's) grpc_ServerStream =
  ss_RecvMsg :: "'s \<Rightarrow> (go_error + 'm) \<times> 's"
  ss_SendMsg :: "'m \<Rightarrow> 's \<Rightarrow> go_error option \<times> 's"
  ss_SetHeader :: "'md \<Rightarrow> 's \<Rightarrow> go_error option \<times> 's"
  ss_SetTrailer :: "'md \<Rightarrow> 's \<Rightarrow> 's"

definition ps_Recv :: "('m, 'md, 's) grpc_ServerStream \<Rightarrow> 's \<Rightarrow> (go_error + 'm) \<times> 's" where
  "ps_Recv G s = ss_RecvMsg G s"

definition ps_Send :: "('m, 'md, 's) grpc_ServerStream \<Rightarrow> 'm \<Rightarrow> 's \<Rightarrow> go_error option \<times> 's" where
  "ps_Send G msg s = ss_SendMsg G msg s"

definition ps_SetHeader :: "('m, 'md, 's) grpc_ServerStream \<Rightarrow> 'md \<Rightarrow> 's \<Rightarrow> 's" where
  "ps_SetHeader G md s = snd (ss_SetHeader G md s)"

definition ps_SetTrailer :: "('m, 'md, 's) grpc_ServerStream \<Rightarrow> 'md \<Rightarrow> 's \<Rightarrow> 's" where
  "ps_SetTrailer G md s = ss_SetTrailer G md s"

text \<open>The stream after the calls of a run, and the errors that SetHeader has dropped.\<close>

fun ps_after :: "('m, 'md, 's) grpc_ServerStream \<Rightarrow> ('m, 'md) fw_event list \<Rightarrow> 's \<Rightarrow> 's" where
  "ps_after G [] s = s"
| "ps_after G (RecvIn m # es) s = ps_after G es (snd (ps_Recv G s))"
| "ps_after G (SendIn m b # es) s = ps_after G es (snd (ps_Send G m s))"
| "ps_after G (SetHeader md # es) s = ps_after G es (ps_SetHeader G md s)"
| "ps_after G (SetTrailer md # es) s = ps_after G es (ps_SetTrailer G md s)"
| "ps_after G (e # es) s = ps_after G es s"

text \<open>
  What grpc documents of SetHeader: it fails only when the header has been sent, which SendMsg does (and SendHeader, which the
  proxy does not call).
\<close>

definition header_open :: "('m, 'md, 's) grpc_ServerStream \<Rightarrow> ('s \<Rightarrow> bool) \<Rightarrow> bool" where
  "header_open G unsent \<longleftrightarrow> (\<forall>s. unsent s \<longrightarrow> unsent (snd (ss_RecvMsg G s))
     \<and> (\<forall>md. fst (ss_SetHeader G md s) = None \<and> unsent (snd (ss_SetHeader G md s)) \<and> unsent (ss_SetTrailer G md s)))"

section \<open>The header comes first, and once\<close>

definition no_send :: "('m, 'md) fw_event list \<Rightarrow> bool" where
  "no_send = list_all (\<lambda>e. case e of SendIn m b \<Rightarrow> False | _ \<Rightarrow> True)"

definition no_header :: "('m, 'md) fw_event list \<Rightarrow> bool" where
  "no_header = list_all (\<lambda>e. case e of SetHeader md \<Rightarrow> False | _ \<Rightarrow> True)"

fun header_first :: "('m, 'md) fw_event list \<Rightarrow> bool" where
  "header_first [] = True"
| "header_first (SendIn m b # es) = no_header es"
| "header_first (SetHeader md # es) = no_header es"
| "header_first (e # es) = header_first es"

lemma no_append [simp]: "no_header (a @ b) \<longleftrightarrow> no_header a \<and> no_header b" "no_send (a @ b) \<longleftrightarrow> no_send a \<and> no_send b"
  by (simp_all add: no_header_def no_send_def)

lemma no_list [simp]:
  "no_header []" "no_header (e # es) \<longleftrightarrow> (case e of SetHeader md \<Rightarrow> False | _ \<Rightarrow> True) \<and> no_header es"
  "no_send []" "no_send (e # es) \<longleftrightarrow> (case e of SendIn m b \<Rightarrow> False | _ \<Rightarrow> True) \<and> no_send es"
  by (simp_all add: no_header_def no_send_def)

lemma header_first_append:
  "header_first (a @ b) \<longleftrightarrow> header_first a \<and> (if no_header a \<and> no_send a then header_first b else no_header b)"
  by (induction a rule: header_first.induct) auto

lemma no_header_pairs [simp]: "no_header (concat (map (\<lambda>m. [RecvOut m, SendIn m True]) ms))"
  by (induction ms) auto

lemma header_first_down [simp]: "header_first (down cf ms)" "no_header (down cf ms) \<longleftrightarrow> ms = []"
  by (cases ms; simp)+

lemma header_first_srv: "header_first (srv tr) \<longleftrightarrow> header_first tr" "no_header (srv tr) \<longleftrightarrow> no_header tr"
proof -
  have h: "no_header (srv tr) \<longleftrightarrow> no_header tr" for tr :: "('a, 'b) fw_event list"
  proof (induction tr)
    case (Cons e tr)
    then show ?case by (cases e) auto
  qed simp
  show "header_first (srv tr) \<longleftrightarrow> header_first tr"
  proof (induction tr)
    case (Cons e tr)
    then show ?case by (cases e) (auto simp: h)
  qed simp
  show "no_header (srv tr) \<longleftrightarrow> no_header tr" by (rule h)
qed

lemma header_first_outcome: "o2i_outcome cf p evs \<Longrightarrow> header_first evs"
  by (auto simp: o2i_outcome_def header_first_append hdr_def split: if_splits)

lemma header_first_run:
  assumes "fw_inv cf f"
  shows "header_first (fw_trace f)"
proof -
  have "header_first (srv (fw_trace f))"
    using assms by (auto simp: fw_inv_def srv_ok_def header_first_append header_first_outcome hdr_def split: o2i_pc.splits if_splits)
  then show ?thesis by (simp add: header_first_srv)
qed

lemma unsent_kept: "header_open G unsent \<Longrightarrow> unsent s \<Longrightarrow> no_send es \<Longrightarrow> unsent (ps_after G es s)"
  by (induction es s rule: ps_after.induct) (auto simp: header_open_def ps_Recv_def ps_SetHeader_def ps_SetTrailer_def)

lemma header_first_split: "header_first (a @ SetHeader md # b) \<Longrightarrow> no_send a \<and> no_header a \<and> no_header b"
  by (simp add: header_first_append split: if_splits)

text \<open>
  The proxy drops no error of SetHeader: whenever the forwarder calls it, the stream accepts the header; and it is called at
  most once, so that no entry is sent twice.
\<close>
theorem proxy_header_accepted:
  assumes "fw_reachable cf f" and "header_open G unsent" and "unsent s" and "fw_trace f = a @ SetHeader md # b"
  shows "fst (ss_SetHeader G md (ps_after G a s)) = None \<and> no_header a \<and> no_header b"
proof -
  have "header_first (a @ SetHeader md # b)" using header_first_run[OF fw_reachable_inv[OF assms(1)]] assms(4) by simp
  note h = header_first_split[OF this]
  then show ?thesis using unsent_kept[OF assms(2,3), of a] assms(2) by (auto simp: header_open_def)
qed

end
