(* ===== verification/Spec2Isabelle.thy ===== *)
theory Spec2Isabelle
  imports Bridgelog Config Gwbased_Compile Httprule_Trie Json_Props Service_Router Pattern_Router_Props Forwarder_Props Reflection_Router Watcher_Race
    Reflection_Client Resolver_Props Resolver_Watch Startup Transcoded_Call Removal_Returns Forwarded_Grpc_Web Proxy_Stream
begin

text \<open>
  Verification of grpcbridge, a bridge from web requests (HTTP with JSON, WebSockets, server-sent events, gRPC-Web)
  and from gRPC itself to gRPC services whose descriptions it retrieves by reflection.

  How the program works. For every target a resolver polls the target's reflection service and hands its description
  to two routers: the ServiceRouter finds the target of a gRPC service name, the PatternRouter that of an HTTP method
  and path, by the templates of google.api.http. A request comes in through the gRPC proxy or through one of the four
  bridges of package webbridge. The bridge routes it, binds a transcoder to it, and gives the forwarder two streams:
  its own, which reads messages from the request and writes them to the response, and the client stream of a pooled
  connection to the target.

  Model. Go strings are lists of bytes (char), structs are records, interfaces with finitely many implementations in
  the repository are datatypes, errors are values of go_error and functions that return an error return a sum; a panic
  is the value None of an option. Integers are int, or words where their width shows (Timeout, Proto, Gwquery,
  Json_Marshaler). A goroutine is a group of steps of an inductive relation with one step for each access to a
  channel, an atomic or a stream; code under a mutex is one step. Logging is left out, except for the package
  bridgelog itself.

  Theories, with the files under src/ that they translate.

  Prelude: package strings, maps, status codes and errors of Go, lemmas that the components share.

  Templates. Gwbased_Parser (internal/httprule/gwbased, types.go and parse.go), Gwbased_Compile (compile.go):
  tokenizer, parser, printer, compiler. Gwbased_Safety shows that the tokenizer loses nothing and that the parser is
  total, Gwbased_Roundtrip that printing and parsing are inverse on templates that can be written. Httprule and
  Httprule_Trie (internal/httprule): the second parser and its trie, with the soundness of Find. Both parsers are
  mutually recursive and run on fuel, 3 * n + 3 units for n tokens, a unit for each call; each is proved never to run
  out of it (in Gwbased_Safety and Httprule), so the fuel is not a restriction.

  Descriptions and routing. Bridgedesc (bridgedesc): targets, services, methods, bindings. Syncset (internal/syncset).
  Routing (routing/routing.go): what the routers share, and the locale watched_router, the contract between a router
  and its watchers (a target has one watcher, an update changes only the view of its own target, Close empties it and
  lets the target be watched again). Service_Router (routing/service_router.go) and Pattern_Table, Pattern_Refine,
  Pattern_Router, Pattern_Router_Props (routing/pattern_router.go) model the routers and interpret the locale (srw and
  prw). Pattern_Refine is a data refinement: the linked lists of the routing table, with the pointers that targets
  hold into them, implement an association of HTTP methods with lists of routes. Watcher_Race has the watcher of the
  ServiceRouter at the granularity of its atomics, against updates under way and the watchers of other targets: what
  Close guarantees, and the update that it does not stop. Reflection_Router (reflection.go) composes the routers,
  their watchers and the client pool, with the laws of the locale. Router_Options (reflection.go,
  grpcadapter/pool.go): the options.

  Reflection. Reflection_Client (reflection/client.go): requests and responses in parallel over one stream, as a step
  relation. Reflection_Resolver (reflection/resolver.go, parse.go, util.go): one poll; Resolver_Props: the dependency
  closure and the detection of changes. The loop that retrieves dependencies recurses on the limit that the code
  counts down itself. Resolver_Watch: the poller goroutine with ResolveNow and Close.

  Forwarding. Timeout, Md_Filter, Client_Pool, Forwarder, Forwarder_Props (grpcadapter, internal/ascii,
  internal/rpcutil): the timeout header, the metadata filter, connections, streams and the pool, and the forwarding of
  a call as a step relation of its two goroutines and the select loop, with the exact shape of both streams at every
  program point as its invariant.

  Transcoding. Proto: messages and descriptors as protoreflect documents them. Gwquery, Gwquery_Props
  (internal/gwquery/query.go): path and query parameters. Transcoding, Transcoding_Props (transcoding/http.go,
  transcoding.go): negotiation, bodies, parameters, streams. Json_Marshaler, Json_Props (transcoding/json.go);
  Json_Text states what the round trip of JSON bodies relies on of encoding/json, with a small codec that has it. Two
  locales state what the transcoder relies on: query_populator (the query parser respects its filter), interpreted as
  gq on the query parser of the repository, and typed_marshaler (Unmarshal keeps the type of the message), interpreted
  as jm on the JSON marshaler.

  Removal, Removal_Returns (reflection.go, Remove against reflection/resolver.go): the Remove of a target in steps,
  composed with the goroutine of its resolver, which may be anywhere in a poll or in UpdateDesc, and with the updates,
  additions and removals of other targets. Remove can return from every state, and afterwards nothing is routed to the
  target as long as it is not added again; its routes are gone unless an update was overtaken, and a run shows that
  such an update leaves them for good.

  Bridges. Webbridge (webbridge/webbridge.go, internal/httperr): errors and metadata. Http_Bridge (webbridge/http.go),
  Grpc_Web (webbridge/grpcweb.go), Ws_Bridge (webbridge/websocket.go): the streams, the message handlers and
  ServeHTTP; Http_Bridge has the interleavings of the forwarder's calls and the goroutines that outlive them.
  Forwarded_Http is the composition of two step relations: the calls that the forwarder makes on its incoming stream
  are those of httpStream, the answers of the server are left open, the context may end at any point, and a body of
  recv or send that its end leaves running goes on beside the call. Transcoded_Call fills in the standard transcoder
  and follows unary and server-streaming calls from the routed request to the bytes of the response, and requests that
  are refused to their status. Forwarded_Grpc_Web composes the forwarder with gRPCWebStream for methods of all kinds,
  both of its goroutines included, with contexts that end and writes that fail, and follows the frames of the request
  body to the server and those of the response back. Web_Bridge (bridge.go, proxy.go, forwarder.go): options,
  constructors, the choice of a bridge. Proxy_Stream (proxy.go): the adapter of grpc.ServerStream, and why the error
  that it drops never occurs. Config (internal/config), Bridgelog (bridgelog/logging.go), Startup
  (cmd/grpcbridge/main.go): the command.

  What the theorems show. Theorems with a claim id are the properties of the manifest: invariants of every reachable
  state (both routers, the forwarder, the reflection client), safety of the composition (a removed target is not
  routable, path parameters are not overwritten, a reply follows its request, nothing leaks through the metadata
  filter), whole calls (what is sent to the server and what the client gets, whatever the server does), round trips
  (templates, frames, JSON fields), totality of the parser, type safety of everything that fills messages, and what
  each error becomes. Theorems without an id record single behaviours, many of them departures of the code from its
  own documentation; the manifest lists those as findings.

  Parameters. Code outside the repository is an argument of the definitions that use it: the runtime of grpc-gateway
  (pattern matching, the table of HTTP status codes), the packages status, metadata, mime, json, url and textproto,
  protojson and the protobuf registry, SHA-256, floating point syntax, the WebSocket library, HCL, grpc.NewClient. A
  theorem that relies on such code says so in a hypothesis, and its witness instantiates it.

  Not modelled: generated code (protobuf messages, the names of enumerations), the example services, the test support
  and the benchmarks, which are no part of the bridge; the logger that discards everything; serving and shutting down
  in the command, which only call the libraries. The passing of time is not modelled: a timer may fire at any moment.
\<close>

end
